(* ===== verification/Prelude.thy ===== *)
theory Prelude
  imports Main "HOL-Library.Multiset" "HOL-Library.List_Lexorder" "HOL-Library.Char_ord"
begin

text \<open>
  Shared material of the development.  The code under verification is JavaScript: a thrown
  error is a value of the left summand of a result, an early return is a branch, a mutable
  collection is passed along.  This theory holds the result type and its sequencing, the
  stable sort of \<open>Array.prototype.sort\<close>, insertion-ordered maps (\<open>Map\<close>), and the generic
  lemmas on lists and integer division that the components share.
\<close>

named_theorems res_simps \<open>rewriting of the error results\<close>
named_theorems ordmap_simps \<open>rewriting of insertion-ordered maps\<close>

section \<open>Results\<close>

text \<open>\<open>Throw m\<close> is \<open>throw new Error(m)\<close>; \<open>TypeErr\<close>, \<open>RangeErr\<close> and \<open>SyntaxErr\<close> are the errors the
  language itself raises (a property of \<open>undefined\<close>, \<open>BigInt("x")\<close>, and so on); \<open>LibErr\<close> is one
  that a third-party library raises.\<close>

datatype js_error = Throw string | TypeErr | RangeErr | SyntaxErr | LibErr

type_synonym 'a res = "js_error + 'a"

abbreviation throw :: "string \<Rightarrow> 'a res" where
  "throw m \<equiv> Inl (Throw m)"

definition bindR :: "'a res \<Rightarrow> ('a \<Rightarrow> 'b res) \<Rightarrow> 'b res" where
  "bindR r f = (case r of Inl e \<Rightarrow> Inl e | Inr x \<Rightarrow> f x)"

text \<open>Evaluation unfolds the sequencing, so that the continuation runs only on a result.\<close>

declare bindR_def [code_unfold]

lemma bindR_simps [simp, res_simps]:
  "bindR (Inl e) f = Inl e"
  "bindR (Inr x) f = f x"
  by (simp_all add: bindR_def)

lemma bindR_Inr_iff [res_simps]: "bindR r f = Inr y \<longleftrightarrow> (\<exists>x. r = Inr x \<and> f x = Inr y)"
  by (cases r) simp_all

lemma bindR_Inl_iff: "bindR r f = Inl e \<longleftrightarrow> r = Inl e \<or> (\<exists>x. r = Inr x \<and> f x = Inl e)"
  by (cases r) auto

text \<open>\<open>xs.map(f)\<close> where \<open>f\<close> may throw: the first error stops the traversal.\<close>

fun mapR :: "('a \<Rightarrow> 'b res) \<Rightarrow> 'a list \<Rightarrow> 'b list res" where
  "mapR f [] = Inr []"
| "mapR f (x # xs) = bindR (f x) (\<lambda>y. bindR (mapR f xs) (\<lambda>ys. Inr (y # ys)))"

lemma mapR_Inr_list_all2: "mapR f xs = Inr ys \<longleftrightarrow> list_all2 (\<lambda>x y. f x = Inr y) xs ys"
proof (induction xs arbitrary: ys)
  case Nil
  then show ?case by auto
next
  case (Cons x xs)
  then show ?case by (cases ys) (auto simp: bindR_Inr_iff)
qed

lemma mapR_length: "mapR f xs = Inr ys \<Longrightarrow> length ys = length xs"
  by (simp add: mapR_Inr_list_all2 list_all2_lengthD)

lemma mapR_nth: "mapR f xs = Inr ys \<Longrightarrow> i < length xs \<Longrightarrow> f (xs ! i) = Inr (ys ! i)"
  by (simp add: mapR_Inr_list_all2 list_all2_conv_all_nth)

lemma mapR_set: "mapR f xs = Inr ys \<Longrightarrow> x \<in> set xs \<Longrightarrow> \<exists>y \<in> set ys. f x = Inr y"
  by (metis in_set_conv_nth mapR_length mapR_nth)

lemma mapR_preimage: "mapR f xs = Inr ys \<Longrightarrow> y \<in> set ys \<Longrightarrow> \<exists>x \<in> set xs. f x = Inr y"
  by (induction xs arbitrary: ys) (auto simp: bindR_Inr_iff)

lemma mapR_const: "(\<And>x. x \<in> set xs \<Longrightarrow> f x = Inr (g x)) \<Longrightarrow> mapR f xs = Inr (map g xs)"
  by (induction xs) simp_all

text \<open>A loop with an accumulator whose body may throw.\<close>

fun foldR :: "('s \<Rightarrow> 'a \<Rightarrow> 's res) \<Rightarrow> 's \<Rightarrow> 'a list \<Rightarrow> 's res" where
  "foldR f s [] = Inr s"
| "foldR f s (x # xs) = bindR (f s x) (\<lambda>s'. foldR f s' xs)"

lemma foldR_append: "foldR f s (xs @ ys) = bindR (foldR f s xs) (\<lambda>s'. foldR f s' ys)"
proof (induction xs arbitrary: s)
  case Nil
  then show ?case by simp
next
  case (Cons x xs)
  then show ?case by (cases "f s x") simp_all
qed

text \<open>The first element that satisfies a fallible test.\<close>

fun findR :: "('a \<Rightarrow> bool res) \<Rightarrow> 'a list \<Rightarrow> 'a option res" where
  "findR f [] = Inr None"
| "findR f (x # xs) = bindR (f x) (\<lambda>b. if b then Inr (Some x) else findR f xs)"

text \<open>A loop that adds up values of fallible expressions.\<close>

definition sumR :: "('a \<Rightarrow> int res) \<Rightarrow> int \<Rightarrow> 'a list \<Rightarrow> int res" where
  "sumR f a xs = foldR (\<lambda>sum x. bindR (f x) (\<lambda>v. Inr (sum + v))) a xs"

definition value_or_0 :: "int res \<Rightarrow> int" where
  "value_or_0 r = (case r of Inr v \<Rightarrow> v | Inl _ \<Rightarrow> 0)"

lemma value_or_0_Inr [simp]: "value_or_0 (Inr v) = v"
  by (simp add: value_or_0_def)

lemma sumR_simps [simp]: "sumR f a [] = Inr a" "sumR f a (x # xs) = bindR (f x) (\<lambda>v. sumR f (a + v) xs)"
  by (simp_all add: sumR_def, cases "f x") simp_all

lemma sumR_Inr_iff:
  "sumR f a xs = Inr s \<longleftrightarrow> list_all (\<lambda>x. \<not> isl (f x)) xs \<and> s = a + sum_list (map (\<lambda>x. value_or_0 (f x)) xs)"
proof (induction xs arbitrary: a)
  case (Cons x xs)
  show ?case
  proof (cases "f x")
    case (Inr v)
    then show ?thesis by (simp add: Cons.IH [of "a + v"] add.assoc)
  qed simp
qed auto

lemma foldR_invariant:
  assumes "foldR f s xs = Inr t" and "P s"
    and "\<And>s x s'. x \<in> set xs \<Longrightarrow> P s \<Longrightarrow> f s x = Inr s' \<Longrightarrow> P s'"
  shows "P t"
  using assms
proof (induction xs arbitrary: s)
  case Nil
  then show ?case by simp
next
  case (Cons x xs)
  from Cons.prems(1) obtain s' where "f s x = Inr s'" and "foldR f s' xs = Inr t"
    by (auto simp: bindR_Inr_iff)
  with Cons show ?case by (metis list.set_intros(1) list.set_intros(2))
qed

section \<open>Array.prototype.sort\<close>

text \<open>
  The sort of the language is stable.  A comparator is given by the relation
  \<open>le a b\<close>: the comparator does not return a positive number for \<open>(a, b)\<close>.
\<close>

fun insert_by :: "('a \<Rightarrow> 'a \<Rightarrow> bool) \<Rightarrow> 'a \<Rightarrow> 'a list \<Rightarrow> 'a list" where
  "insert_by le x [] = [x]"
| "insert_by le x (y # ys) = (if le x y then x # y # ys else y # insert_by le x ys)"

definition sort_by :: "('a \<Rightarrow> 'a \<Rightarrow> bool) \<Rightarrow> 'a list \<Rightarrow> 'a list" where
  "sort_by le xs = foldr (insert_by le) xs []"

lemma sort_by_simps [simp]:
  "sort_by le [] = []"
  "sort_by le (x # xs) = insert_by le x (sort_by le xs)"
  by (simp_all add: sort_by_def)

lemma mset_insert_by [simp]: "mset (insert_by le x xs) = add_mset x (mset xs)"
  by (induction xs) auto

lemma mset_sort_by [simp]: "mset (sort_by le xs) = mset xs"
  by (induction xs) auto

lemma set_sort_by [simp]: "set (sort_by le xs) = set xs"
  by (metis mset_sort_by set_mset_mset)

lemma length_sort_by [simp]: "length (sort_by le xs) = length xs"
  by (metis mset_sort_by size_mset)

lemma distinct_sort_by [simp]: "distinct (sort_by le xs) = distinct xs"
  by (metis mset_eq_imp_distinct_iff mset_sort_by)

lemma distinct_map_sort_by [simp]: "distinct (map f (sort_by le xs)) = distinct (map f xs)"
  by (metis mset_eq_imp_distinct_iff mset_map mset_sort_by)

lemma sum_list_sort_by [simp]:
  fixes f :: "'a \<Rightarrow> 'b::comm_monoid_add"
  shows "sum_list (map f (sort_by le xs)) = sum_list (map f xs)"
  by (metis mset_map mset_sort_by sum_mset_sum_list)

lemma sorted_insert_by:
  assumes "sorted_wrt le xs" and "\<And>a b. le a b \<or> le b a"
    and "\<And>a b c. le a b \<Longrightarrow> le b c \<Longrightarrow> le a c"
  shows "sorted_wrt le (insert_by le x xs)"
  using assms(1)
proof (induction xs)
  case Nil
  then show ?case by simp
next
  case (Cons y ys)
  have "set (insert_by le x ys) = insert x (set ys)"
    by (metis mset_insert_by set_mset_add_mset_insert set_mset_mset)
  with Cons show ?case using assms(2,3) by auto
qed

lemma sorted_sort_by:
  assumes "\<And>a b. le a b \<or> le b a" and "\<And>a b c. le a b \<Longrightarrow> le b c \<Longrightarrow> le a c"
  shows "sorted_wrt le (sort_by le xs)"
proof (induction xs)
  case Nil
  then show ?case by simp
next
  case (Cons x xs)
  then show ?case by (simp add: sorted_insert_by [OF _ assms])
qed

lemma insert_by_sorted: "\<forall>y \<in> set ys. le x y \<Longrightarrow> insert_by le x ys = x # ys"
  by (cases ys) auto

text \<open>A sorted list is left as it is.\<close>

lemma sort_by_sorted: "sorted_wrt le xs \<Longrightarrow> sort_by le xs = xs"
  by (induction xs) (auto simp: insert_by_sorted)

section \<open>Insertion-ordered maps\<close>

text \<open>
  A JavaScript \<open>Map\<close> keeps its keys in insertion order, and \<open>set\<close> of a key it already has
  leaves the position.  An association list with distinct keys represents it.
\<close>

type_synonym ('k, 'v) omap = "('k \<times> 'v) list"

fun oset :: "'k \<Rightarrow> 'v \<Rightarrow> ('k, 'v) omap \<Rightarrow> ('k, 'v) omap" where
  "oset k v [] = [(k, v)]"
| "oset k v ((k', v') # m) = (if k = k' then (k, v) # m else (k', v') # oset k v m)"

lemma map_of_oset [simp, ordmap_simps]: "map_of (oset k v m) = (map_of m)(k \<mapsto> v)"
  by (induction m) auto

lemma keys_oset [ordmap_simps]:
  "map fst (oset k v m) = (if k \<in> set (map fst m) then map fst m else map fst m @ [k])"
  by (induction k v m rule: oset.induct) simp_all

lemma distinct_oset [simp]: "distinct (map fst m) \<Longrightarrow> distinct (map fst (oset k v m))"
  by (simp add: keys_oset)

lemma oset_fresh: "k \<notin> fst ` set m \<Longrightarrow> oset k v m = m @ [(k, v)]"
  by (induction m) auto

lemma set_keys_oset [simp]: "fst ` set (oset k v m) = insert k (fst ` set m)"
proof -
  have "set (map fst (oset k v m)) = insert k (set (map fst m))"
    by (auto simp: keys_oset)
  then show ?thesis by simp
qed

definition oget0 :: "('k, int) omap \<Rightarrow> 'k \<Rightarrow> int" where
  "oget0 m k = (case map_of m k of None \<Rightarrow> 0 | Some v \<Rightarrow> v)"

text \<open>\<open>m.set(k, (m.get(k) || 0n) + v)\<close>, the accumulation every tally of the program uses.\<close>

definition oadd :: "'k \<Rightarrow> int \<Rightarrow> ('k, int) omap \<Rightarrow> ('k, int) omap" where
  "oadd k v m = oset k (oget0 m k + v) m"

lemma oget0_oadd [ordmap_simps]: "oget0 (oadd k v m) k' = oget0 m k' + (if k = k' then v else 0)"
  by (simp add: oget0_def oadd_def)

lemma distinct_oadd [simp]: "distinct (map fst m) \<Longrightarrow> distinct (map fst (oadd k v m))"
  by (simp add: oadd_def)

lemma keys_oadd [simp]: "fst ` set (oadd k v m) = insert k (fst ` set m)"
  by (simp add: oadd_def)

lemma sum_oset:
  "distinct (map fst m) \<Longrightarrow>
   sum_list (map snd (oset k v m)) = sum_list (map snd m) - oget0 m k + (v::int)"
proof (induction m)
  case Nil
  then show ?case by (simp add: oget0_def)
next
  case (Cons p m)
  then show ?case by (cases p) (auto simp: oget0_def)
qed

text \<open>The accumulation adds exactly its amount to the sum of the tally.\<close>

lemma sum_oadd [simp]:
  "distinct (map fst m) \<Longrightarrow> sum_list (map snd (oadd k v m)) = sum_list (map snd m) + v"
  by (simp add: oadd_def sum_oset)

lemma set_oset: "set (oset k v m) \<subseteq> insert (k, v) (set m)"
  by (induction k v m rule: oset.induct) auto

lemma oadd_pos:
  assumes "\<forall>p \<in> set m. 0 < snd p" and "0 < v"
  shows "\<forall>p \<in> set (oadd k v m). 0 < snd p"
proof -
  have "0 \<le> oget0 m k" using assms(1) by (auto simp: oget0_def split: option.splits dest!: map_of_SomeD)
  with set_oset [of k "oget0 m k + v" m] assms show ?thesis by (fastforce simp: oadd_def)
qed

lemma map_of_distinct_perm:
  "mset xs = mset ys \<Longrightarrow> distinct (map fst xs) \<Longrightarrow> map_of xs k = map_of ys k"
  by (metis distinct_map_sort_by map_of_eq_Some_iff mset_eq_imp_distinct_iff mset_eq_setD mset_map not_None_eq)

lemma map_of_sort_by: "distinct (map fst xs) \<Longrightarrow> map_of (sort_by le xs) k = map_of xs k"
  by (rule map_of_distinct_perm) simp_all

lemma map_of_map_snd: "map_of (map (\<lambda>p. (fst p, f (snd p))) xs) k = map_option f (map_of xs k)"
  by (induction xs) auto

lemma map_of_filter_snd:
  assumes "distinct (map fst m)"
  shows "map_of (filter (\<lambda>p. P (snd p)) m) k =
    (case map_of m k of None \<Rightarrow> None | Some v \<Rightarrow> if P v then Some v else None)"
  using assms
proof (induction m)
  case Nil
  then show ?case by simp
next
  case (Cons p m)
  then have "fst p = k \<Longrightarrow> map_of m k = None" by (auto simp: map_of_eq_None_iff)
  with Cons show ?case by (cases p) auto
qed

lemma map_of_filter_pos:
  "distinct (map fst m) \<Longrightarrow>
   map_of (filter (\<lambda>p. (0::int) < snd p) m) w = (if 0 < oget0 m w then Some (oget0 m w) else None)"
  using map_of_filter_snd [of m "\<lambda>v. 0 < v" w] by (simp add: oget0_def split: option.splits)

section \<open>Lists and integer division\<close>

text \<open>\<open>new Set(xs)\<close> spread into an array: first occurrences, in order.\<close>

fun dedupe_list :: "'a list \<Rightarrow> 'a list" where
  "dedupe_list [] = []"
| "dedupe_list (x # xs) = x # filter (\<lambda>y. y \<noteq> x) (dedupe_list xs)"

lemma set_dedupe_list [simp]: "set (dedupe_list xs) = set xs"
  by (induction xs) auto

lemma distinct_dedupe_list [simp]: "distinct (dedupe_list xs)"
  by (induction xs) auto

lemma sum_list_telescope:
  fixes f :: "nat \<Rightarrow> int"
  shows "sum_list (map (\<lambda>i. f (Suc i) - f i) [0..<n]) = f n - f 0"
  by (induction n) simp_all

lemma sum_list_nonneg_int: "\<forall>x \<in> set xs. 0 \<le> x \<Longrightarrow> 0 \<le> sum_list (xs :: int list)"
  by (induction xs) auto

lemma sum_list_map_mono_int:
  "(\<And>x. x \<in> set xs \<Longrightarrow> f x \<le> (g x :: int)) \<Longrightarrow> sum_list (map f xs) \<le> sum_list (map g xs)"
  by (induction xs) (simp_all add: add_mono)

lemma sum_list_sub_int:
  "sum_list (map (\<lambda>x. f x - g x) xs) = sum_list (map f xs) - sum_list (map (g :: 'a \<Rightarrow> int) xs)"
  by (induction xs) simp_all

lemma filter_map_partition_sum:
  "sum_list (map f (filter P xs)) + sum_list (map f (filter (\<lambda>x. \<not> P x) xs))
   = sum_list (map (f :: 'a \<Rightarrow> int) xs)"
  by (induction xs) simp_all

lemma sum_list_div_le:
  assumes "0 < (d::int)"
  shows "sum_list (map (\<lambda>w. p * w div d) ws) * d \<le> p * sum_list ws"
proof (induction ws)
  case Nil
  then show ?case by simp
next
  case (Cons w ws)
  have "p * w div d * d \<le> p * w"
    using assms pos_mod_sign [OF assms, of "p * w"] by (simp add: minus_mod_eq_div_mult [symmetric])
  with Cons show ?case by (simp add: distrib_left distrib_right)
qed

lemma floor_div_exact_split:
  assumes "0 < (d::int)"
  shows "p * w div d * d = p * w - p * w mod d"
  using assms by (simp add: minus_mod_eq_div_mult)

lemma below_next_multiple: "0 < (t::int) \<Longrightarrow> z < t * (z div t + 1)"
  using mult_div_mod_eq [of t z] pos_mod_bound [of t z] unfolding distrib_left mult_1_right by linarith

lemma sum_div_dust:
  assumes "0 < (t::int)" and "xs \<noteq> []"
  shows "p * sum_list xs < t * (sum_list (map (\<lambda>x. p * x div t) xs) + int (length xs))"
  using assms(2)
proof (induction xs rule: list_nonempty_induct)
  case (single x)
  from below_next_multiple [OF assms(1), of "p * x"] show ?case by simp
next
  case (cons x xs)
  have "p * x < t * (p * x div t + 1)" by (rule below_next_multiple [OF assms(1)])
  with cons show ?case by (simp add: distrib_left)
qed

text \<open>Counting with indicators.\<close>

lemma sum_indicator_length: "sum_list (map (\<lambda>i. if P i then 1 else (0::int)) xs) = int (length (filter P xs))"
  by (induction xs) auto

lemma sum_indicator_indices:
  assumes "distinct b" and "set b \<subseteq> {0..<n}"
  shows "sum_list (map (\<lambda>i. if i \<in> set b then 1 else (0::int)) [0..<n]) = int (length b)"
proof -
  have "set (filter (\<lambda>i. i \<in> set b) [0..<n]) = set b" using assms(2) by auto
  then have "length (filter (\<lambda>i. i \<in> set b) [0..<n]) = length b"
    using distinct_card [OF assms(1)] distinct_card [of "filter (\<lambda>i. i \<in> set b) [0..<n]"] by simp
  then show ?thesis by (simp only: sum_indicator_length)
qed

section \<open>Distinct names\<close>

text \<open>
  A check that a long list of names has no duplicate, which first separates the names by tests, so
  that few are compared with each other.
\<close>

fun split_distinct :: "('a \<Rightarrow> bool) list \<Rightarrow> 'a list \<Rightarrow> bool" where
  "split_distinct fs [] = True"
| "split_distinct [] (x # xs) = distinct (x # xs)"
| "split_distinct (f # fs) (x # xs) =
     (split_distinct fs (filter f (x # xs)) \<and> split_distinct fs (filter (\<lambda>y. \<not> f y) (x # xs)))"

lemma distinct_parts: "distinct (filter f xs) \<Longrightarrow> distinct (filter (\<lambda>y. \<not> f y) xs) \<Longrightarrow> distinct xs"
  by (induction xs) (auto split: if_splits)

lemma split_distinct: "split_distinct fs xs \<Longrightarrow> distinct xs"
proof (induction fs xs rule: split_distinct.induct)
  case (3 f fs x xs)
  then show ?case using distinct_parts [of f "x # xs"] by simp
qed simp_all

text \<open>The tests: the low bits of the first and of the last character.\<close>

definition char_bits :: "char \<Rightarrow> bool list" where
  "char_bits c = (case c of Char a b c d e f g h \<Rightarrow> [a, b, c, d, e, f, g, h])"

definition name_tests :: "(string \<Rightarrow> bool) list" where
  "name_tests = map (\<lambda>i s. char_bits (hd s) ! i) [0, 1, 2, 3, 4] @ map (\<lambda>i s. char_bits (last s) ! i) [0, 1, 2, 3]"

end
