(* ===== verification/JsNum.thy ===== *)
theory JsNum
  imports Complex_Main Prelude
begin

text \<open>
  The \<open>Number\<close> type of the language: IEEE 754 binary64.  A finite number is its exact
  rational value, and every arithmetic operation is the exact operation followed by rounding
  to the nearest representable value, ties to even, with overflow to infinity and gradual
  underflow.  The sign of zero is not represented: nothing in the modelled code reads it.
\<close>

datatype jsnum = NaN | PosInf | NegInf | Fin rat

section \<open>Rounding to binary64\<close>

function blen :: "int \<Rightarrow> int" where
  "blen n = (if n \<le> 0 then 0 else 1 + blen (n div 2))"
  by pat_completeness auto
termination
  by (relation "measure nat") auto

declare blen.simps [simp del]

definition p2 :: "int \<Rightarrow> rat" where
  "p2 e = (if 0 \<le> e then of_int (2 ^ nat e) else 1 / of_int (2 ^ nat (- e)))"

text \<open>Round half to even, and the exponent of the unit in the last place of a positive value.\<close>

definition round_even :: "rat \<Rightarrow> int" where
  "round_even x =
     (let f = \<lfloor>x\<rfloor>; d = x - of_int f in
      if d < 1 / 2 then f else if d > 1 / 2 then f + 1 else if even f then f else f + 1)"

definition ulp_exp :: "rat \<Rightarrow> int" where
  "ulp_exp q =
     (let (a, b) = quotient_of q;
          e = blen a - blen b;
          e' = (if q < p2 e then e - 1 else e)
      in max (e' - 52) (- 1074))"

definition rnd_pos :: "rat \<Rightarrow> rat" where
  "rnd_pos q = (let u = p2 (ulp_exp q) in of_int (round_even (q / u)) * u)"

definition rnd :: "rat \<Rightarrow> jsnum" where
  "rnd q =
     (if q = 0 then Fin 0
      else let r = rnd_pos \<bar>q\<bar>; u = ulp_exp \<bar>q\<bar> in
        if u > 971 \<or> u = 971 \<and> r \<ge> p2 1024 then (if q < 0 then NegInf else PosInf)
        else Fin (if q < 0 then - r else r))"

section \<open>Arithmetic and comparison\<close>

fun nneg :: "jsnum \<Rightarrow> jsnum" where
  "nneg NaN = NaN" | "nneg PosInf = NegInf" | "nneg NegInf = PosInf" | "nneg (Fin x) = Fin (- x)"

fun nadd :: "jsnum \<Rightarrow> jsnum \<Rightarrow> jsnum" where
  "nadd (Fin x) (Fin y) = rnd (x + y)"
| "nadd NaN y = NaN"
| "nadd x NaN = NaN"
| "nadd PosInf NegInf = NaN"
| "nadd NegInf PosInf = NaN"
| "nadd PosInf y = PosInf"
| "nadd NegInf y = NegInf"
| "nadd x y = y"

definition nsub :: "jsnum \<Rightarrow> jsnum \<Rightarrow> jsnum" where
  "nsub x y = nadd x (nneg y)"

definition inf_sgn :: "bool \<Rightarrow> jsnum" where
  "inf_sgn pos = (if pos then PosInf else NegInf)"

fun nmul :: "jsnum \<Rightarrow> jsnum \<Rightarrow> jsnum" where
  "nmul (Fin x) (Fin y) = rnd (x * y)"
| "nmul NaN y = NaN"
| "nmul x NaN = NaN"
| "nmul (Fin x) PosInf = (if x = 0 then NaN else inf_sgn (x > 0))"
| "nmul (Fin x) NegInf = (if x = 0 then NaN else inf_sgn (x < 0))"
| "nmul PosInf (Fin y) = (if y = 0 then NaN else inf_sgn (y > 0))"
| "nmul NegInf (Fin y) = (if y = 0 then NaN else inf_sgn (y < 0))"
| "nmul x y = inf_sgn (x = y)"

text \<open>The divisor zero is positive zero: the modelled code divides by no negative zero.\<close>

fun ndiv :: "jsnum \<Rightarrow> jsnum \<Rightarrow> jsnum" where
  "ndiv (Fin x) (Fin y) =
     (if y = 0 then (if x = 0 then NaN else inf_sgn (x > 0)) else rnd (x / y))"
| "ndiv NaN y = NaN"
| "ndiv x NaN = NaN"
| "ndiv (Fin x) y = Fin 0"
| "ndiv PosInf (Fin y) = inf_sgn (y \<ge> 0)"
| "ndiv NegInf (Fin y) = inf_sgn (y < 0)"
| "ndiv x y = NaN"

fun nless :: "jsnum \<Rightarrow> jsnum \<Rightarrow> bool" where
  "nless (Fin x) (Fin y) = (x < y)"
| "nless NaN y = False"
| "nless x NaN = False"
| "nless NegInf y = (y \<noteq> NegInf)"
| "nless x PosInf = (x \<noteq> PosInf)"
| "nless x y = False"

text \<open>\<open>===\<close> on numbers: \<open>NaN\<close> differs from itself.\<close>

definition neq_js :: "jsnum \<Rightarrow> jsnum \<Rightarrow> bool" where
  "neq_js x y \<longleftrightarrow> x = NaN \<or> y = NaN \<or> x \<noteq> y"

definition nle :: "jsnum \<Rightarrow> jsnum \<Rightarrow> bool" where
  "nle x y \<longleftrightarrow> nless x y \<or> \<not> neq_js x y"

definition nfinite :: "jsnum \<Rightarrow> bool" where
  "nfinite x = (case x of Fin _ \<Rightarrow> True | _ \<Rightarrow> False)"

definition is_int_rat :: "rat \<Rightarrow> bool" where
  "is_int_rat q \<longleftrightarrow> of_int \<lfloor>q\<rfloor> = q"

definition max_safe :: int where
  "max_safe = 9007199254740991"

text \<open>\<open>Number.isInteger\<close>, \<open>Number.isSafeInteger\<close>.\<close>

definition is_integer :: "jsnum \<Rightarrow> bool" where
  "is_integer x = (case x of Fin q \<Rightarrow> is_int_rat q | _ \<Rightarrow> False)"

definition is_safe_integer :: "jsnum \<Rightarrow> bool" where
  "is_safe_integer x =
     (case x of Fin q \<Rightarrow> is_int_rat q \<and> \<bar>q\<bar> \<le> of_int max_safe | _ \<Rightarrow> False)"

text \<open>\<open>Math.floor\<close>, \<open>Math.ceil\<close>, \<open>Math.round\<close> (halves go up), \<open>Math.abs\<close>.\<close>

fun lift_int :: "(rat \<Rightarrow> int) \<Rightarrow> jsnum \<Rightarrow> jsnum" where
  "lift_int f (Fin q) = Fin (of_int (f q))"
| "lift_int f x = x"

definition math_floor :: "jsnum \<Rightarrow> jsnum" where "math_floor = lift_int floor"
definition math_ceil :: "jsnum \<Rightarrow> jsnum" where "math_ceil = lift_int ceiling"
definition math_round :: "jsnum \<Rightarrow> jsnum" where "math_round = lift_int (\<lambda>q. \<lfloor>q + 1 / 2\<rfloor>)"

fun math_abs :: "jsnum \<Rightarrow> jsnum" where
  "math_abs NaN = NaN" | "math_abs (Fin x) = Fin \<bar>x\<bar>" | "math_abs x = PosInf"

definition nmin :: "jsnum \<Rightarrow> jsnum \<Rightarrow> jsnum" where
  "nmin x y = (if x = NaN \<or> y = NaN then NaN else if nless y x then y else x)"

definition nmax :: "jsnum \<Rightarrow> jsnum \<Rightarrow> jsnum" where
  "nmax x y = (if x = NaN \<or> y = NaN then NaN else if nless x y then y else x)"

text \<open>\<open>Number(x.toFixed(d))\<close> for \<open>\<bar>x\<bar> < 10\<^sup>2\<^sup>1\<close>: the decimal with \<open>d\<close> places nearest to the
  exact value (a tie goes away from zero), read back as a number.\<close>

definition to_fixed :: "nat \<Rightarrow> jsnum \<Rightarrow> jsnum" where
  "to_fixed d x =
     (case x of
        Fin q \<Rightarrow> if \<bar>q\<bar> < 10 ^ 21
          then let n = \<lfloor>\<bar>q\<bar> * 10 ^ d + 1 / 2\<rfloor>; r = of_int n / 10 ^ d in rnd (if q < 0 then - r else r)
          else x
      | _ \<Rightarrow> x)"

definition nsum :: "jsnum list \<Rightarrow> jsnum" where
  "nsum xs = foldl nadd (Fin 0) xs"

text \<open>A number literal or a counter of the source.\<close>

abbreviation nint :: "int \<Rightarrow> jsnum" where
  "nint i \<equiv> Fin (of_int i)"

section \<open>Safe integers are exact\<close>

lemma blen_nonneg: "0 \<le> blen n"
  by (induction n rule: blen.induct) (subst blen.simps, simp)

lemma blen_pos: "0 < n \<Longrightarrow> 2 ^ nat (blen n - 1) \<le> n \<and> 0 < blen n"
proof (induction n rule: blen.induct)
  case (1 n)
  have b: "blen n = 1 + blen (n div 2)" using "1.prems" by (simp add: blen.simps [of n])
  show ?case
  proof (cases "n div 2 \<le> 0")
    case True
    with "1.prems" have "n = 1" by arith
    then show ?thesis by (simp add: blen.simps)
  next
    case False
    let ?h = "n div 2"
    from False "1.IH" "1.prems" have h: "2 ^ nat (blen ?h - 1) \<le> ?h" "0 < blen ?h" by auto
    then have "nat (blen ?h) = Suc (nat (blen ?h - 1))" by simp
    then have "(2::int) ^ nat (blen ?h) = 2 * 2 ^ nat (blen ?h - 1)" by simp
    with h(1) have "2 ^ nat (blen ?h) \<le> n" by linarith
    with h(2) show ?thesis by (simp add: b)
  qed
qed

lemma round_even_int [simp]: "round_even (of_int i) = i"
  by (simp add: round_even_def)

lemma p2_nonneg: "0 \<le> e \<Longrightarrow> p2 e = of_int (2 ^ nat e)"
  by (simp add: p2_def)

lemma ulp_exp_small:
  assumes "0 < i" and "i \<le> max_safe"
  shows "ulp_exp (of_int i) \<le> 0" and "- 1074 \<le> ulp_exp (of_int i)"
proof -
  from blen_pos [OF assms(1)] have b: "2 ^ nat (blen i - 1) \<le> i" "0 < blen i" by auto
  have "i < 2 ^ 53" using assms by (simp add: max_safe_def)
  with b(1) have "(2::int) ^ nat (blen i - 1) < 2 ^ 53" by linarith
  then have "nat (blen i - 1) < 53" by (simp only: power_strict_increasing_iff)
  with b(2) have e: "blen i - 1 \<le> 52" by simp
  have one: "blen 1 = 1" by (simp add: blen.simps)
  have "quotient_of (of_int i) = (i, 1)" by (simp add: quotient_of_int)
  then have u: "ulp_exp (of_int i) = max ((if of_int i < p2 (blen i - 1)
      then blen i - 1 - 1 else blen i - 1) - 52) (- 1074)"
    by (simp add: ulp_exp_def Let_def one)
  show "ulp_exp (of_int i) \<le> 0" unfolding u using e by simp
  show "- 1074 \<le> ulp_exp (of_int i)" unfolding u by simp
qed

lemma rnd_pos_int:
  assumes "0 < i" and "i \<le> max_safe"
  shows "rnd_pos (of_int i) = of_int i"
proof -
  let ?u = "ulp_exp (of_int i)"
  let ?k = "(2::int) ^ nat (- ?u)"
  have k: "?k \<noteq> 0" by simp
  have p: "p2 ?u = 1 / of_int ?k"
    using ulp_exp_small(1) [OF assms] by (cases "?u = 0") (simp_all add: p2_def)
  have "of_int i / p2 ?u = (of_int (i * ?k) :: rat)" by (simp add: p)
  then have "round_even (of_int i / p2 ?u) = i * ?k" by (simp only: round_even_int)
  then show ?thesis by (simp add: rnd_pos_def Let_def p)
qed

lemma rnd_int:
  assumes "\<bar>i\<bar> \<le> max_safe"
  shows "rnd (of_int i) = nint i"
proof (cases "i = 0")
  case True
  then show ?thesis by (simp add: rnd_def)
next
  case False
  let ?a = "\<bar>i\<bar>"
  have a: "0 < ?a" "?a \<le> max_safe" using False assms by auto
  have r: "rnd_pos \<bar>of_int i\<bar> = of_int ?a"
    using rnd_pos_int [OF a] by simp
  have "ulp_exp (of_int ?a) \<le> 0" by (rule ulp_exp_small(1) [OF a])
  then have "\<not> ulp_exp \<bar>of_int i\<bar> > 971" "ulp_exp \<bar>of_int i\<bar> \<noteq> 971" by auto
  with r False show ?thesis by (simp add: rnd_def Let_def)
qed

lemma rnd_0 [simp]: "rnd 0 = Fin 0"
  by (simp add: rnd_def)

lemma is_int_rat_of_int [simp]: "is_int_rat (of_int i)"
  by (simp add: is_int_rat_def)

lemma is_safe_integer_nint [simp]: "is_safe_integer (nint i) \<longleftrightarrow> \<bar>i\<bar> \<le> max_safe"
proof -
  have "\<bar>of_int i :: rat\<bar> \<le> of_int max_safe \<longleftrightarrow> \<bar>i\<bar> \<le> max_safe"
    by (metis of_int_abs of_int_le_iff)
  then show ?thesis by (simp add: is_safe_integer_def)
qed

text \<open>A safe integer is a \<open>nint\<close>; the code reads it with \<open>BigInt\<close> or uses it as an index.\<close>

definition to_int :: "jsnum \<Rightarrow> int" where
  "to_int x = (case x of Fin q \<Rightarrow> \<lfloor>q\<rfloor> | _ \<Rightarrow> 0)"

lemma to_int_nint [simp]: "to_int (nint i) = i"
  by (simp add: to_int_def)

lemma safe_integerE:
  assumes "is_safe_integer x"
  obtains i where "x = nint i" and "\<bar>i\<bar> \<le> max_safe" and "to_int x = i"
proof -
  from assms obtain q where q: "x = Fin q" "is_int_rat q"
    by (auto simp: is_safe_integer_def split: jsnum.splits)
  from q(2) have "of_int \<lfloor>q\<rfloor> = q" by (simp only: is_int_rat_def)
  with q(1) have x: "x = nint \<lfloor>q\<rfloor>" by (simp only:)
  moreover have "\<bar>\<lfloor>q\<rfloor>\<bar> \<le> max_safe" using assms unfolding x by (simp only: is_safe_integer_nint)
  ultimately show thesis using that by (metis to_int_nint)
qed

text \<open>Additions and multiplications whose exact result is a safe integer do not round.\<close>

lemma nadd_int: "\<bar>a + b\<bar> \<le> max_safe \<Longrightarrow> nadd (nint a) (nint b) = nint (a + b)"
  using rnd_int [of "a + b"] by simp

lemma nmul_int: "\<bar>a * b\<bar> \<le> max_safe \<Longrightarrow> nmul (nint a) (nint b) = nint (a * b)"
  using rnd_int [of "a * b"] by simp

lemma nless_int [simp]: "nless (nint a) (nint b) \<longleftrightarrow> a < b"
  by simp

lemma nless_irrefl [simp]: "\<not> nless x x"
  by (cases x) auto

lemma nless_trans: "nless x y \<Longrightarrow> nless y z \<Longrightarrow> nless x z"
  by (cases x; cases y; cases z) auto

lemma nless_NaN [simp]: "\<not> nless NaN x" "\<not> nless x NaN"
  by (cases x; simp)+

lemma nle_Fin [simp]: "nle (Fin x) (Fin y) \<longleftrightarrow> x \<le> y"
  by (auto simp: nle_def neq_js_def)

end
