(* ===== verification/JsVal.thy ===== *)
theory JsVal
  imports JsNum
begin

text \<open>
  Values of the language as they reach the modelled code: parsed JSON and the results of
  library calls.  A string is a list of code units below 256.  This theory holds the
  conversions the code calls (\<open>String\<close>, \<open>Number\<close>, \<open>BigInt\<close>, truthiness, property access
  with and without optional chaining) and the decimal strings that carry amounts.
\<close>

datatype jsval = Undef | Null | Bool bool | Num jsnum | Big int | Str string
  | Arr "jsval list" | Obj "(string \<times> jsval) list"

section \<open>Decimal strings\<close>

definition ccode :: "char \<Rightarrow> int" where "ccode c = of_char c"

definition is_digit :: "char \<Rightarrow> bool" where "is_digit c \<longleftrightarrow> 48 \<le> ccode c \<and> ccode c \<le> 57"

definition digit_val :: "char \<Rightarrow> int" where "digit_val c = ccode c - 48"

definition digit_chr :: "int \<Rightarrow> char" where "digit_chr d = char_of (48 + d)"

definition parse_dec :: "string \<Rightarrow> int" where
  "parse_dec s = foldl (\<lambda>a c. a * 10 + digit_val c) 0 s"

text \<open>The decimal digits of a non-negative integer, and of any integer.\<close>

function show_dec :: "int \<Rightarrow> string" where
  "show_dec n = (if n < 10 then [digit_chr n] else show_dec (n div 10) @ [digit_chr (n mod 10)])"
  by pat_completeness auto
termination
  by (relation "measure nat") auto

declare show_dec.simps [simp del]

definition show_int :: "int \<Rightarrow> string" where
  "show_int i = (if i < 0 then CHR ''-'' # show_dec (- i) else show_dec i)"

text \<open>The patterns \<open>/^\d+$/\<close>, \<open>/^[1-9]\d*$/\<close> and \<open>/^(0|[1-9]\d*)$/\<close>.\<close>

definition all_digits :: "string \<Rightarrow> bool" where
  "all_digits s \<longleftrightarrow> s \<noteq> [] \<and> list_all is_digit s"

definition pos_dec :: "string \<Rightarrow> bool" where
  "pos_dec s \<longleftrightarrow> all_digits s \<and> hd s \<noteq> CHR ''0''"

definition canon_dec :: "string \<Rightarrow> bool" where
  "canon_dec s \<longleftrightarrow> s = ''0'' \<or> pos_dec s"

lemma digit_chr_props:
  assumes "0 \<le> d" and "d < 10"
  shows "is_digit (digit_chr d)" and "digit_val (digit_chr d) = d"
proof -
  have c: "ccode (digit_chr d) = 48 + d"
    using assms by (simp add: ccode_def digit_chr_def)
  show "is_digit (digit_chr d)" "digit_val (digit_chr d) = d"
    using c assms by (simp_all add: is_digit_def digit_val_def)
qed

lemma digit_chr_val: "digit_chr (digit_val c) = c"
  by (simp add: digit_val_def digit_chr_def ccode_def)

lemma digit_val_range: "is_digit c \<Longrightarrow> 0 \<le> digit_val c \<and> digit_val c < 10"
  by (auto simp: is_digit_def digit_val_def)

lemma digit_val_0_iff: "digit_val c = 0 \<longleftrightarrow> c = CHR ''0''"
proof -
  have "digit_chr 0 = CHR ''0''" "digit_val (CHR ''0'') = 0" by code_simp+
  then show ?thesis by (metis digit_chr_val)
qed

lemma parse_dec_simps [simp]:
  "parse_dec [] = 0"
  "parse_dec (s @ [c]) = parse_dec s * 10 + digit_val c"
  by (simp_all add: parse_dec_def)

lemma parse_dec_single: "parse_dec [c] = digit_val c"
  by (simp add: parse_dec_def)

lemma parse_dec_nonneg: "list_all is_digit s \<Longrightarrow> 0 \<le> parse_dec s"
  by (induction s rule: rev_induct) (auto dest: digit_val_range)

lemma parse_all_digits_nonneg: "all_digits s \<Longrightarrow> 0 \<le> parse_dec s"
  by (simp add: all_digits_def parse_dec_nonneg)

lemma parse_show_dec [simp]: "0 \<le> n \<Longrightarrow> parse_dec (show_dec n) = n"
proof (induction n rule: show_dec.induct)
  case (1 n)
  show ?case
  proof (cases "n < 10")
    case True
    with "1.prems" show ?thesis
      by (simp add: show_dec.simps [of n] parse_dec_single digit_chr_props(2))
  next
    case False
    with "1.IH" "1.prems" show ?thesis
      by (simp add: show_dec.simps [of n] digit_chr_props(2))
  qed
qed

lemma show_dec_nonempty [simp]: "show_dec n \<noteq> []"
  by (subst show_dec.simps) simp

lemma show_dec_digits: "0 \<le> n \<Longrightarrow> list_all is_digit (show_dec n)"
proof (induction n rule: show_dec.induct)
  case (1 n)
  then show ?case
    by (cases "n < 10") (simp_all add: show_dec.simps [of n] digit_chr_props(1))
qed

lemma show_dec_hd: "0 < n \<Longrightarrow> hd (show_dec n) \<noteq> CHR ''0''"
proof (induction n rule: show_dec.induct)
  case (1 n)
  show ?case
  proof (cases "n < 10")
    case True
    with "1.prems" have "digit_val (digit_chr n) \<noteq> 0" by (simp add: digit_chr_props(2))
    with True show ?thesis by (simp add: show_dec.simps [of n] digit_val_0_iff)
  next
    case False
    then have "0 < n div 10" by arith
    with False "1.IH" show ?thesis by (simp add: show_dec.simps [of n])
  qed
qed

lemma show_dec_0 [simp]: "show_dec 0 = ''0''"
  by code_simp

lemma all_digits_show_dec [simp]: "0 \<le> n \<Longrightarrow> all_digits (show_dec n)"
  using show_dec_digits [of n] by (simp add: all_digits_def)

lemma canon_show_dec [simp]: "0 \<le> n \<Longrightarrow> canon_dec (show_dec n)"
  using show_dec_hd [of n] by (cases "n = 0") (auto simp: canon_dec_def pos_dec_def)

lemma show_int_nonneg_eq [simp]: "0 \<le> i \<Longrightarrow> show_int i = show_dec i"
  by (simp add: show_int_def)

lemma parse_dec_pos:
  "list_all is_digit s \<Longrightarrow> s \<noteq> [] \<Longrightarrow> hd s \<noteq> CHR ''0'' \<Longrightarrow> 1 \<le> parse_dec s"
proof (induction s rule: rev_induct)
  case Nil
  then show ?case by simp
next
  case (snoc c s)
  show ?case
  proof (cases "s = []")
    case True
    with snoc.prems digit_val_0_iff [of c] digit_val_range [of c] show ?thesis
      by (simp add: parse_dec_single)
  next
    case False
    with snoc digit_val_range [of c] show ?thesis by simp
  qed
qed

text \<open>Printing is the inverse of reading on canonical strings: no amount changes its spelling.\<close>

lemma show_parse_pos: "pos_dec s \<Longrightarrow> show_dec (parse_dec s) = s"
proof (induction s rule: rev_induct)
  case Nil
  then show ?case by (simp add: pos_dec_def all_digits_def)
next
  case (snoc c s)
  then have c: "is_digit c" by (simp add: pos_dec_def all_digits_def)
  show ?case
  proof (cases "s = []")
    case True
    with digit_val_range [OF c] show ?thesis
      by (simp add: parse_dec_single show_dec.simps digit_chr_val)
  next
    case False
    with snoc.prems have p: "pos_dec s" by (simp add: pos_dec_def all_digits_def)
    then have "1 \<le> parse_dec s"
      using parse_dec_pos [of s] unfolding pos_dec_def all_digits_def by blast
    with digit_val_range [OF c] snoc.IH [OF p] show ?thesis
      by (simp add: show_dec.simps [of "parse_dec s * 10 + digit_val c"] digit_chr_val)
  qed
qed

lemma show_parse_canon: "canon_dec s \<Longrightarrow> show_dec (parse_dec s) = s"
proof -
  have "show_dec (parse_dec ''0'') = ''0''" by code_simp
  then show "canon_dec s \<Longrightarrow> show_dec (parse_dec s) = s"
    using show_parse_pos by (auto simp: canon_dec_def)
qed

lemma show_dec_inj: "0 \<le> m \<Longrightarrow> 0 \<le> n \<Longrightarrow> show_dec m = show_dec n \<longleftrightarrow> m = n"
  by (metis parse_show_dec)

lemma pos_dec_pos: "pos_dec s \<Longrightarrow> 1 \<le> parse_dec s"
  using parse_dec_pos [of s] unfolding pos_dec_def all_digits_def by blast

lemma canon_dec_pos_nonempty: "canon_dec s \<Longrightarrow> s \<noteq> []"
  by (auto simp: canon_dec_def pos_dec_def all_digits_def)

lemma canon_dec_nonneg: "canon_dec s \<Longrightarrow> 0 \<le> parse_dec s"
proof -
  have "parse_dec ''0'' = 0" by code_simp
  then show "canon_dec s \<Longrightarrow> 0 \<le> parse_dec s"
    using pos_dec_pos by (force simp: canon_dec_def)
qed

lemma parse_dec_append: "parse_dec (a @ b) = parse_dec a * 10 ^ length b + parse_dec b"
proof (induction b rule: rev_induct)
  case Nil
  then show ?case by simp
next
  case (snoc c b)
  have "parse_dec (a @ b @ [c]) = parse_dec (a @ b) * 10 + digit_val c"
    using parse_dec_simps(2) [of "a @ b" c] by simp
  with snoc show ?case by (simp add: algebra_simps)
qed

lemma parse_dec_zeros [simp]: "parse_dec (replicate n (CHR ''0'')) = 0"
proof (induction n)
  case 0
  then show ?case by simp
next
  case (Suc n)
  have "digit_val (CHR ''0'') = 0" by (simp only: digit_val_0_iff)
  with Suc show ?case using parse_dec_append [of "[CHR ''0'']" "replicate n (CHR ''0'')"]
    by (simp add: parse_dec_single)
qed

lemma length_show_dec: "0 \<le> n \<Longrightarrow> n < 10 ^ k \<Longrightarrow> 0 < k \<Longrightarrow> length (show_dec n) \<le> k"
proof (induction n arbitrary: k rule: show_dec.induct)
  case (1 n)
  show ?case
  proof (cases "n < 10")
    case True
    with "1.prems" show ?thesis by (simp add: show_dec.simps [of n])
  next
    case False
    from "1.prems" obtain j where k: "k = Suc j" by (cases k) auto
    have "j \<noteq> 0" using False "1.prems"(2) k by (cases j) auto
    moreover have "n div 10 < 10 ^ j" using "1.prems"(2) k by (simp add: div_less_iff_less_mult)
    ultimately have "length (show_dec (n div 10)) \<le> j"
      using "1.IH" [OF False, of j] "1.prems"(1) by simp
    with False k show ?thesis by (simp add: show_dec.simps [of n])
  qed
qed

section \<open>Objects and truthiness\<close>

text \<open>\<open>v?.k\<close>: \<open>undefined\<close> on \<open>undefined\<close>, \<open>null\<close> and a missing key.  \<open>v.k\<close> throws on the first two.\<close>

fun oget :: "jsval \<Rightarrow> string \<Rightarrow> jsval" where
  "oget (Obj kvs) k = (case map_of kvs k of None \<Rightarrow> Undef | Some v \<Rightarrow> v)"
| "oget (Arr vs) k = (if k = ''length'' then Num (nint (int (length vs))) else Undef)"
| "oget (Str s) k = (if k = ''length'' then Num (nint (int (length s))) else Undef)"
| "oget v k = Undef"

definition jget :: "jsval \<Rightarrow> string \<Rightarrow> jsval res" where
  "jget v k = (if v = Undef \<or> v = Null then Inl TypeErr else Inr (oget v k))"

fun truthy :: "jsval \<Rightarrow> bool" where
  "truthy Undef = False"
| "truthy Null = False"
| "truthy (Bool b) = b"
| "truthy (Num n) = (n \<noteq> NaN \<and> n \<noteq> Fin 0)"
| "truthy (Big i) = (i \<noteq> 0)"
| "truthy (Str s) = (s \<noteq> [])"
| "truthy _ = True"

text \<open>\<open>a || b\<close>, \<open>a ?? b\<close> and \<open>a === b\<close> (the code compares primitive values only).\<close>

definition jor :: "jsval \<Rightarrow> jsval \<Rightarrow> jsval" where
  "jor a b = (if truthy a then a else b)"

definition nullish :: "jsval \<Rightarrow> jsval \<Rightarrow> jsval" where
  "nullish a b = (if a = Undef \<or> a = Null then b else a)"

definition jeq :: "jsval \<Rightarrow> jsval \<Rightarrow> bool" where
  "jeq a b \<longleftrightarrow> a = b \<and> a \<noteq> Num NaN"

definition is_safe :: "jsval \<Rightarrow> bool" where
  "is_safe v = (case v of Num n \<Rightarrow> is_safe_integer n | _ \<Rightarrow> False)"

definition is_int_val :: "jsval \<Rightarrow> bool" where
  "is_int_val v = (case v of Num n \<Rightarrow> is_integer n | _ \<Rightarrow> False)"

text \<open>The integer a value checked by \<open>Number.isSafeInteger\<close> holds.\<close>

definition safe_int :: "jsval \<Rightarrow> int" where
  "safe_int v = (case v of Num n \<Rightarrow> to_int n | _ \<Rightarrow> 0)"

lemma is_safeE:
  assumes "is_safe v"
  obtains i where "v = Num (nint i)" and "\<bar>i\<bar> \<le> max_safe" and "safe_int v = i"
  using assms
  by (cases v) (auto simp: is_safe_def safe_int_def elim!: safe_integerE)

lemma safe_int_nint [simp]: "safe_int (Num (nint i)) = i"
  by (simp add: safe_int_def)

lemma is_safe_nint [simp]: "is_safe (Num (nint i)) \<longleftrightarrow> \<bar>i\<bar> \<le> max_safe"
  by (simp only: is_safe_def jsval.case is_safe_integer_nint)

end
