(* ===== verification/JsConv.thy ===== *)
theory JsConv
  imports JsVal
begin

text \<open>
  The conversions \<open>String(v)\<close>, \<open>Number(v)\<close> and \<open>BigInt(v)\<close>, \<open>String.prototype.trim\<close>, case
  mapping, \<open>split\<close> and \<open>join\<close>, and the character classes of the patterns the code tests.
\<close>

section \<open>Strings\<close>

definition is_space :: "char \<Rightarrow> bool" where
  "is_space c \<longleftrightarrow> ccode c \<in> {9, 10, 11, 12, 13, 32, 160}"

definition trim :: "string \<Rightarrow> string" where
  "trim s = rev (dropWhile is_space (rev (dropWhile is_space s)))"

definition is_upper :: "char \<Rightarrow> bool" where "is_upper c \<longleftrightarrow> 65 \<le> ccode c \<and> ccode c \<le> 90"
definition is_lower :: "char \<Rightarrow> bool" where "is_lower c \<longleftrightarrow> 97 \<le> ccode c \<and> ccode c \<le> 122"

text \<open>Case mapping of the ASCII letters; the code maps identifiers, tickers and hex digits.\<close>

definition to_upper :: "char \<Rightarrow> char" where
  "to_upper c = (if is_lower c then char_of (ccode c - 32) else c)"

definition to_lower :: "char \<Rightarrow> char" where
  "to_lower c = (if is_upper c then char_of (ccode c + 32) else c)"

fun join :: "string \<Rightarrow> string list \<Rightarrow> string" where
  "join sep [] = []"
| "join sep [s] = s"
| "join sep (s # t # r) = s @ sep @ join sep (t # r)"

text \<open>A middle dot between spaces.\<close>

definition mid_dot :: string where "mid_dot = [CHR 0x20, CHR 0xB7, CHR 0x20]"

text \<open>\<open>s.split(c)\<close> for a one-character separator.\<close>

fun split_on :: "char \<Rightarrow> string \<Rightarrow> string list" where
  "split_on c [] = [[]]"
| "split_on c (x # xs) =
     (if x = c then [] # split_on c xs
      else (case split_on c xs of [] \<Rightarrow> [[x]] | w # ws \<Rightarrow> (x # w) # ws))"

text \<open>\<open>s < t\<close> on strings: the lexicographic order of their characters.\<close>

fun str_less :: "string \<Rightarrow> string \<Rightarrow> bool" where
  "str_less s [] = False"
| "str_less [] (d # t) = True"
| "str_less (c # s) (d # t) = (if c = d then str_less s t else ccode c < ccode d)"

text \<open>\<open>s.includes(sub)\<close>.\<close>

fun contains_text :: "string \<Rightarrow> string \<Rightarrow> bool" where
  "contains_text [] sub = (sub = [])"
| "contains_text (c # s) sub = (take (length sub) (c # s) = sub \<or> contains_text s sub)"

text \<open>\<open>s.padStart(n, "0")\<close> and \<open>s.padEnd(n, "0")\<close>.\<close>

definition pad_start :: "nat \<Rightarrow> string \<Rightarrow> string" where
  "pad_start n s = replicate (n - length s) (CHR ''0'') @ s"

definition pad_end :: "nat \<Rightarrow> string \<Rightarrow> string" where
  "pad_end n s = s @ replicate (n - length s) (CHR ''0'')"

text \<open>\<open>[0-9a-f]\<close>, \<open>[0-9a-fA-F]\<close>, the base58 alphabet \<open>[1-9A-HJ-NP-Za-km-z]\<close>, \<open>[A-Za-z0-9_]\<close>.\<close>

definition is_hex_lower :: "char \<Rightarrow> bool" where
  "is_hex_lower c \<longleftrightarrow> is_digit c \<or> 97 \<le> ccode c \<and> ccode c \<le> 102"

definition is_hex :: "char \<Rightarrow> bool" where
  "is_hex c \<longleftrightarrow> is_hex_lower c \<or> 65 \<le> ccode c \<and> ccode c \<le> 70"

definition is_base58 :: "char \<Rightarrow> bool" where
  "is_base58 c \<longleftrightarrow> (is_digit c \<and> c \<noteq> CHR ''0'') \<or> (is_upper c \<and> c \<noteq> CHR ''I'' \<and> c \<noteq> CHR ''O'')
     \<or> (is_lower c \<and> c \<noteq> CHR ''l'')"

definition is_word_char :: "char \<Rightarrow> bool" where
  "is_word_char c \<longleftrightarrow> is_digit c \<or> is_upper c \<or> is_lower c \<or> c = CHR ''_''"

text \<open>\<open>ADDRESS\<close> and \<open>SIGNATURE\<close>: \<open>/^[1-9A-HJ-NP-Za-km-z]{32,44}$/\<close> and \<open>{64,88}\<close>.\<close>

definition is_address :: "string \<Rightarrow> bool" where
  "is_address s \<longleftrightarrow> 32 \<le> length s \<and> length s \<le> 44 \<and> list_all is_base58 s"

definition is_signature :: "string \<Rightarrow> bool" where
  "is_signature s \<longleftrightarrow> 64 \<le> length s \<and> length s \<le> 88 \<and> list_all is_base58 s"

section \<open>Number to string\<close>

definition t10 :: "int \<Rightarrow> rat" where
  "t10 e = (if 0 \<le> e then 10 ^ nat e else 1 / 10 ^ nat (- e))"

text \<open>The decimal exponent \<open>n\<close> of a positive value, \<open>10\<^sup>n\<^sup>-\<^sup>1 \<le> x < 10\<^sup>n\<close>.  Doubles have
  \<open>- 323 \<le> n \<le> 309\<close>, so 400 steps suffice.\<close>

fun dec_exp :: "nat \<Rightarrow> rat \<Rightarrow> int \<Rightarrow> int" where
  "dec_exp 0 x n = n"
| "dec_exp (Suc f) x n =
     (if x \<ge> t10 n then dec_exp f x (n + 1)
      else if x < t10 (n - 1) then dec_exp f x (n - 1) else n)"

text \<open>The shortest digit string that reads back as \<open>x\<close>; 17 digits always do.\<close>

fun shortest :: "nat \<Rightarrow> nat \<Rightarrow> rat \<Rightarrow> int \<Rightarrow> int \<times> nat" where
  "shortest 0 k x n = (round_even (x / t10 (n - int k)), k)"
| "shortest (Suc f) k x n =
     (let s = round_even (x / t10 (n - int k)) in
      if rnd (of_int s * t10 (n - int k)) = Fin x then (s, k) else shortest f (Suc k) x n)"

definition pos_to_str :: "rat \<Rightarrow> string" where
  "pos_to_str x =
     (let n0 = dec_exp 400 x 1; (s0, k0) = shortest 16 1 x n0;
          (s, k, n) = (if s0 = 10 ^ k0 then (1, 1, n0 + 1) else (s0, k0, n0));
          ds = show_dec s in
      if int k \<le> n \<and> n \<le> 21 then ds @ replicate (nat n - k) (CHR ''0'')
      else if 0 < n \<and> n \<le> 21 then take (nat n) ds @ ''.'' @ drop (nat n) ds
      else if - 6 < n \<and> n \<le> 0 then ''0.'' @ replicate (nat (- n)) (CHR ''0'') @ ds
      else let e = (if n - 1 < 0 then ''-'' else ''+'') @ show_dec \<bar>n - 1\<bar> in
        if k = 1 then ds @ ''e'' @ e else take 1 ds @ ''.'' @ drop 1 ds @ ''e'' @ e)"

text \<open>A safe integer prints as its decimal digits.\<close>

definition num_to_str :: "jsnum \<Rightarrow> string" where
  "num_to_str x =
     (case x of NaN \<Rightarrow> ''NaN'' | PosInf \<Rightarrow> ''Infinity'' | NegInf \<Rightarrow> ''-Infinity''
      | Fin q \<Rightarrow> if is_int_rat q \<and> \<bar>q\<bar> \<le> of_int max_safe then show_int \<lfloor>q\<rfloor>
                 else if q < 0 then CHR ''-'' # pos_to_str (- q) else pos_to_str q)"

fun to_str :: "jsval \<Rightarrow> string" where
  "to_str Undef = ''undefined''"
| "to_str Null = ''null''"
| "to_str (Bool b) = (if b then ''true'' else ''false'')"
| "to_str (Num n) = num_to_str n"
| "to_str (Big i) = show_int i"
| "to_str (Str s) = s"
| "to_str (Arr vs) = join '','' (map (\<lambda>v. if v = Undef \<or> v = Null then [] else to_str v) vs)"
| "to_str (Obj kvs) = ''[object Object]''"

section \<open>String to number\<close>

definition hex_val :: "char \<Rightarrow> int" where
  "hex_val c = (if is_digit c then digit_val c else if is_lower c then ccode c - 87 else ccode c - 55)"

definition parse_base :: "int \<Rightarrow> string \<Rightarrow> int" where
  "parse_base b s = foldl (\<lambda>a c. a * b + hex_val c) 0 s"

definition base_digit :: "int \<Rightarrow> char \<Rightarrow> bool" where
  "base_digit b c \<longleftrightarrow> is_hex c \<and> hex_val c < b"

text \<open>The literals \<open>0x\<close>, \<open>0o\<close>, \<open>0b\<close>.\<close>

definition radix_literal :: "string \<Rightarrow> int option" where
  "radix_literal s =
     (let p = map to_lower (take 2 s); r = drop 2 s;
          b = (if p = ''0x'' then 16 else if p = ''0o'' then 8 else if p = ''0b'' then 2 else 0) in
      if b \<noteq> 0 \<and> r \<noteq> [] \<and> list_all (base_digit b) r then Some (parse_base b r) else None)"

definition parse_exp :: "string \<Rightarrow> int option" where
  "parse_exp s =
     (case s of
        [] \<Rightarrow> None
      | c # r \<Rightarrow>
          (if c = CHR ''-'' then (if all_digits r then Some (- parse_dec r) else None)
           else if c = CHR ''+'' then (if all_digits r then Some (parse_dec r) else None)
           else if all_digits s then Some (parse_dec s) else None))"

definition unsigned_decimal :: "string \<Rightarrow> rat option" where
  "unsigned_decimal s =
     (let ip = takeWhile is_digit s; r1 = dropWhile is_digit s;
          dot = (r1 \<noteq> [] \<and> hd r1 = CHR ''.'');
          fp = (if dot then takeWhile is_digit (tl r1) else []);
          r2 = (if dot then dropWhile is_digit (tl r1) else r1);
          m = of_int (parse_dec (ip @ fp)) in
      if ip = [] \<and> fp = [] then None
      else if r2 = [] then Some (m * t10 (- int (length fp)))
      else if hd r2 = CHR ''e'' \<or> hd r2 = CHR ''E''
        then (case parse_exp (tl r2) of None \<Rightarrow> None | Some e \<Rightarrow> Some (m * t10 (e - int (length fp))))
      else None)"

definition str_to_num :: "string \<Rightarrow> jsnum" where
  "str_to_num s0 =
     (let s = trim s0 in
      if s = [] then Fin 0
      else case radix_literal s of Some n \<Rightarrow> rnd (of_int n)
      | None \<Rightarrow>
        (let neg = (hd s = CHR ''-''); u = (if hd s = CHR ''-'' \<or> hd s = CHR ''+'' then tl s else s) in
         if u = ''Infinity'' then (if neg then NegInf else PosInf)
         else case unsigned_decimal u of None \<Rightarrow> NaN | Some q \<Rightarrow> rnd (if neg then - q else q)))"

text \<open>\<open>Number(v)\<close>; an array or object goes through its string.\<close>

fun to_number :: "jsval \<Rightarrow> jsnum" where
  "to_number Undef = NaN"
| "to_number Null = Fin 0"
| "to_number (Bool b) = Fin (if b then 1 else 0)"
| "to_number (Num n) = n"
| "to_number (Big i) = rnd (of_int i)"
| "to_number v = str_to_num (to_str v)"

text \<open>\<open>Number(v) || 0\<close>.\<close>

definition num_or_0 :: "jsval \<Rightarrow> jsnum" where
  "num_or_0 v = (let n = to_number v in if n = NaN then Fin 0 else n)"

definition str_to_bigint :: "string \<Rightarrow> int res" where
  "str_to_bigint s0 =
     (let s = trim s0 in
      if s = [] then Inr 0
      else if all_digits s then Inr (parse_dec s)
      else case radix_literal s of Some n \<Rightarrow> Inr n
      | None \<Rightarrow>
        if hd s = CHR ''-'' \<and> all_digits (tl s) then Inr (- parse_dec (tl s))
        else if hd s = CHR ''+'' \<and> all_digits (tl s) then Inr (parse_dec (tl s))
        else Inl SyntaxErr)"

text \<open>\<open>BigInt(v)\<close>.\<close>

fun to_bigint :: "jsval \<Rightarrow> int res" where
  "to_bigint Undef = Inl TypeErr"
| "to_bigint Null = Inl TypeErr"
| "to_bigint (Bool b) = Inr (if b then 1 else 0)"
| "to_bigint (Num n) = (if is_integer n then Inr (to_int n) else Inl RangeErr)"
| "to_bigint (Big i) = Inr i"
| "to_bigint v = str_to_bigint (to_str v)"

text \<open>\<open>BigInt(x)\<close> of a number.\<close>

definition num_to_bigint :: "jsnum \<Rightarrow> int res" where
  "num_to_bigint x = (if is_integer x then Inr (to_int x) else Inl RangeErr)"

section \<open>Lemmas\<close>

lemma num_to_bigint_nint [simp]: "num_to_bigint (nint i) = Inr i"
  by (simp add: num_to_bigint_def is_integer_def)

lemma t10_eq: "t10 e = power_int 10 e"
  by (simp add: t10_def power_int_def inverse_eq_divide power_one_over)

lemma t10_add: "t10 (a + b) = t10 a * t10 b"
  by (simp add: t10_eq power_int_add)

lemma t10_nat: "0 \<le> e \<Longrightarrow> t10 e = of_int (10 ^ nat e)"
  by (simp add: t10_def)

lemma t10_neg: "e < 0 \<Longrightarrow> t10 e = 1 / of_int (10 ^ nat (- e))"
  by (simp add: t10_def)

lemma is_digit_not_space: "is_digit c \<Longrightarrow> \<not> is_space c"
  by (auto simp: is_digit_def is_space_def)

lemma dropWhile_space_digits: "list_all is_digit s \<Longrightarrow> dropWhile is_space s = s"
  by (cases s) (auto simp: is_digit_not_space)

lemma trim_digits: "list_all is_digit s \<Longrightarrow> trim s = s"
  by (simp add: trim_def dropWhile_space_digits list_all_iff)

lemma canon_dec_digits: "canon_dec s \<Longrightarrow> all_digits s"
  by (auto simp: canon_dec_def pos_dec_def all_digits_def is_digit_def ccode_def)

lemma pos_dec_canon: "pos_dec s \<Longrightarrow> canon_dec s"
  by (simp add: canon_dec_def)

lemma str_to_bigint_digits: "all_digits s \<Longrightarrow> str_to_bigint s = Inr (parse_dec s)"
  by (simp add: str_to_bigint_def Let_def all_digits_def trim_digits)

lemma num_to_str_int [simp]: "\<bar>i\<bar> \<le> max_safe \<Longrightarrow> num_to_str (nint i) = show_int i"
proof -
  assume "\<bar>i\<bar> \<le> max_safe"
  then have "is_int_rat (of_int i) \<and> \<bar>of_int i :: rat\<bar> \<le> of_int max_safe"
    by (metis is_int_rat_of_int of_int_abs of_int_le_iff)
  then show ?thesis by (simp add: num_to_str_def)
qed

text \<open>A value whose string is a canonical decimal denotes that integer when \<open>BigInt\<close> reads it.
  The exception is a number beyond \<open>2\<^sup>5\<^sup>3\<close>, whose string rounds; amounts are never such numbers.\<close>

lemma to_bigint_digits:
  assumes "all_digits (to_str v)" and "\<forall>n. v \<noteq> Num n" and "\<forall>i. v \<noteq> Big i" and "\<forall>b. v \<noteq> Bool b"
    and "v \<noteq> Undef" and "v \<noteq> Null"
  shows "to_bigint v = Inr (parse_dec (to_str v))"
  using assms str_to_bigint_digits by (cases v) auto

lemma to_bigint_str: "all_digits s \<Longrightarrow> to_bigint (Str s) = Inr (parse_dec s)"
  by (simp add: str_to_bigint_digits)

lemma show_int_digits_nonneg: "all_digits (show_int i) \<Longrightarrow> 0 \<le> i"
  by (rule ccontr) (auto simp: show_int_def all_digits_def is_digit_def ccode_def)

lemma show_int_nonneg [simp]: "0 \<le> i \<Longrightarrow> all_digits (show_int i)"
  by (simp add: show_int_def)

lemma is_hex_lower_hex: "is_hex_lower c \<Longrightarrow> is_hex c"
  by (simp add: is_hex_def)

lemma address_nonempty: "is_address s \<Longrightarrow> s \<noteq> []"
  by (auto simp: is_address_def)

lemma trim_idem_nonspace: "list_all (\<lambda>c. \<not> is_space c) s \<Longrightarrow> trim s = s"
proof -
  have d: "list_all (\<lambda>c. \<not> is_space c) t \<Longrightarrow> dropWhile is_space t = t" for t
    by (cases t) auto
  assume "list_all (\<lambda>c. \<not> is_space c) s"
  then show ?thesis by (simp add: trim_def d list_all_iff)
qed

text \<open>A value whose string is a canonical decimal is not negative.\<close>

lemma digits_not_minus: "\<not> all_digits (CHR ''-'' # s)"
  by (simp add: all_digits_def is_digit_def ccode_def)

lemma num_digits_nonneg: "all_digits (num_to_str n) \<Longrightarrow> 0 \<le> to_int n"
proof (cases n)
  case (Fin q)
  assume d: "all_digits (num_to_str n)"
  show ?thesis
  proof (cases "is_int_rat q \<and> \<bar>q\<bar> \<le> of_int max_safe")
    case True
    with d show ?thesis by (auto simp: Fin num_to_str_def to_int_def dest: show_int_digits_nonneg)
  next
    case False
    with d have "\<not> q < 0" by (auto simp: Fin num_to_str_def digits_not_minus split: if_splits)
    then show ?thesis by (simp add: Fin to_int_def)
  qed
qed (simp_all add: to_int_def)

lemma canon_to_bigint_nonneg: "canon_dec (to_str v) \<Longrightarrow> to_bigint v = Inr n \<Longrightarrow> 0 \<le> n"
proof (cases v)
  case (Num x)
  assume "canon_dec (to_str v)" "to_bigint v = Inr n"
  with Num num_digits_nonneg [of x] show ?thesis
    by (auto dest: canon_dec_digits split: if_splits)
next
  case (Big i)
  assume "canon_dec (to_str v)" "to_bigint v = Inr n"
  with Big show ?thesis by (auto dest: canon_dec_digits show_int_digits_nonneg)
qed (auto simp: canon_dec_nonneg canon_dec_digits str_to_bigint_digits simp del: to_str.simps split: if_splits)

end
