(* ===== verification/Money.thy ===== *)
theory Money
  imports JsConv
begin

text \<open>
  Exact amounts: \<open>exact-lamports.js\<close>, \<open>exact-sol-units.js\<close> and \<open>referral-amount.js\<close>.  An amount
  enters as a number, a big integer or a string and leaves as an integer number of lamports;
  the lemmas show that no lamport is invented or lost on the way in or out.
\<close>

definition u64_max :: int where
  "u64_max = 18446744073709551615"

section \<open>exact-lamports.js\<close>

definition lamports_in_range :: "int \<Rightarrow> int res" where
  "lamports_in_range units =
     (if units < 0 \<or> units > u64_max then throw ''Invalid SOL amount.'' else Inr units)"

definition exactLamports :: "jsval \<Rightarrow> int res" where
  "exactLamports v =
     (case v of
        Big i \<Rightarrow> lamports_in_range i
      | Num n \<Rightarrow> if \<not> is_safe_integer n then throw ''Invalid SOL amount.'' else lamports_in_range (to_int n)
      | Str s \<Rightarrow> if length s > 20 \<or> \<not> canon_dec s then throw ''Invalid SOL amount.''
                 else lamports_in_range (parse_dec s)
      | _ \<Rightarrow> throw ''Invalid SOL amount.'')"

section \<open>exact-sol-units.js\<close>

text \<open>\<open>/^(0|[1-9]\d*)(?:\.(\d+))?(?:e([+-]?\d+))?$/\<close>: the three groups.\<close>

definition sol_match :: "string \<Rightarrow> (string \<times> string \<times> int option) option" where
  "sol_match t =
     (let ip = takeWhile is_digit t; r1 = dropWhile is_digit t;
          dot = (r1 \<noteq> [] \<and> hd r1 = CHR ''.'');
          fp = (if dot then takeWhile is_digit (tl r1) else []);
          r2 = (if dot then dropWhile is_digit (tl r1) else r1) in
      if \<not> canon_dec ip \<or> dot \<and> fp = [] then None
      else if r2 = [] then Some (ip, fp, None)
      else if hd r2 = CHR ''e''
        then (case parse_exp (tl r2) of None \<Rightarrow> None | Some e \<Rightarrow> Some (ip, fp, Some e))
      else None)"

definition sol_units_error :: "'a res" where
  "sol_units_error = throw ''Exact SOL amount unavailable.''"

definition exactSolLamports :: "jsval \<Rightarrow> string res" where
  "exactSolLamports v =
     (let numeric = (case v of Num _ \<Rightarrow> True | _ \<Rightarrow> False);
          isstr = (case v of Str _ \<Rightarrow> True | _ \<Rightarrow> False) in
      if \<not> numeric \<and> \<not> isstr \<or> (case v of Num n \<Rightarrow> \<not> nfinite n \<or> nless n (Fin 0) | _ \<Rightarrow> False)
        then sol_units_error
      else let t = to_str v in
        (case (if length t \<le> 64 then sol_match t else None) of
           None \<Rightarrow> sol_units_error
         | Some (ip, fp, ex) \<Rightarrow>
             if \<not> numeric \<and> ex \<noteq> None then sol_units_error
             else let exponent = (case ex of None \<Rightarrow> 0 | Some e \<Rightarrow> e);
                      scale = 9 + exponent - int (length fp);
                      units = parse_dec (ip @ fp) in
               if \<bar>scale\<bar> > 400 then sol_units_error
               else if scale \<ge> 0
                 then (let u = units * 10 ^ nat scale in
                       if u > max_safe then sol_units_error else Inr (show_int u))
               else (let divisor = 10 ^ nat (- scale) in
                     if units mod divisor \<noteq> 0 then sol_units_error
                     else let u = units div divisor in
                       if u > max_safe then sol_units_error else Inr (show_int u))))"

section \<open>referral-amount.js\<close>

definition strip_zeros :: "string \<Rightarrow> string" where
  "strip_zeros s = rev (dropWhile (\<lambda>c. c = CHR ''0'') (rev s))"

definition formatReferralLamports :: "jsval \<Rightarrow> string res" where
  "formatReferralLamports v =
     (let raw = to_str v in
      if \<not> canon_dec raw then throw ''Invalid referral payout amount.''
      else let lamports = parse_dec raw;
               whole = lamports div 1000000000;
               fraction = pad_end 4 (strip_zeros (pad_start 9 (show_int (lamports mod 1000000000)))) in
        Inr (show_int whole @ ''.'' @ fraction))"

text \<open>\<open>null\<close> is \<open>None\<close>.  A row of another asset or status is skipped.\<close>

fun paid_loop :: "jsval list \<Rightarrow> int \<Rightarrow> int option res" where
  "paid_loop [] acc = Inr (Some acc)"
| "paid_loop (row # rows) acc =
     (if \<not> jeq (oget row ''asset'') (Str ''SOL'') \<or> \<not> jeq (oget row ''status'') (Str ''paid'')
        then paid_loop rows acc
      else if \<not> canon_dec (to_str (oget row ''amountLamports'')) then Inr None
      else bindR (to_bigint (oget row ''amountLamports'')) (\<lambda>a. paid_loop rows (acc + a)))"

definition paidReferralLamports :: "jsval \<Rightarrow> int option res" where
  "paidReferralLamports claims =
     (case claims of Arr rows \<Rightarrow> paid_loop rows 0 | _ \<Rightarrow> Inr None)"

definition short_canon_dec :: "string \<Rightarrow> bool" where
  "short_canon_dec s \<longleftrightarrow> canon_dec s \<and> length s \<le> 20"

text \<open>The checks of one row of \<open>readReferralHistory\<close>; \<open>False\<close> is its \<open>return null\<close>.\<close>

definition history_row_ok :: "jsval \<Rightarrow> bool res" where
  "history_row_ok row =
     (if \<not> truthy row \<or> (case row of Arr _ \<Rightarrow> True | _ \<Rightarrow> False)
          \<or> \<not> jeq (oget row ''asset'') (Str ''SOL'')
          \<or> \<not> is_int_val (oget row ''level'')
          \<or> (case oget row ''level'' of Num n \<Rightarrow> nless n (nint 1) \<or> nless (nint 3) n | _ \<Rightarrow> True)
          \<or> (case oget row ''status'' of Str s \<Rightarrow> s = [] | _ \<Rightarrow> True)
        then Inr False
      else let amount = oget row ''amountLamports'' in
        if (case amount of Str _ \<Rightarrow> False | Num n \<Rightarrow> \<not> is_safe_integer n | Big _ \<Rightarrow> False | _ \<Rightarrow> True)
             \<or> \<not> short_canon_dec (to_str amount)
          then Inr False
        else bindR (to_bigint amount) (\<lambda>lamports.
          Inr (\<not> (lamports > u64_max
            \<or> jeq (oget row ''status'') (Str ''paid'')
              \<and> (lamports = 0
                \<or> (case oget row ''payoutSignature'' of Str s \<Rightarrow> s = [] | _ \<Rightarrow> True))))))"

record referral_history =
  history_claims :: "jsval list"
  history_paidLamports :: "int option"

fun history_ok :: "jsval list \<Rightarrow> bool res" where
  "history_ok [] = Inr True"
| "history_ok (row # rows) = bindR (history_row_ok row) (\<lambda>ok. if ok then history_ok rows else Inr False)"

definition readReferralHistory :: "jsval \<Rightarrow> referral_history option res" where
  "readReferralHistory claims =
     (case claims of
        Arr rows \<Rightarrow>
          bindR (history_ok rows) (\<lambda>ok.
            if \<not> ok then Inr None
            else bindR (paidReferralLamports claims) (\<lambda>paid.
              Inr (Some \<lparr>history_claims = rows, history_paidLamports = paid\<rparr>)))
      | _ \<Rightarrow> Inr None)"

section \<open>Properties\<close>

text \<open>
  C1.  \<open>exactLamports\<close> accepts exactly the three spellings of an unsigned 64-bit integer (a big
  integer, a safe number, its canonical decimal string) and returns that integer: it is
  exact, total on u64, and every other value is refused.
\<close>

theorem exactLamports_iff:
  "exactLamports v = Inr n \<longleftrightarrow>
     0 \<le> n \<and> n \<le> u64_max \<and>
     (v = Big n \<or> (v = Num (nint n) \<and> \<bar>n\<bar> \<le> max_safe) \<or> v = Str (show_dec n))"
  (is "?L \<longleftrightarrow> ?R")
proof
  assume ?L
  then show ?R
    by (cases v)
      (auto simp: exactLamports_def lamports_in_range_def show_parse_canon
        split: if_splits elim!: safe_integerE)
next
  assume R: ?R
  then have n: "0 \<le> n" "n \<le> u64_max" by auto
  then have "length (show_dec n) \<le> 20"
    by (intro length_show_dec) (auto simp: u64_max_def)
  moreover from R n have "v = Num (nint n) \<Longrightarrow> is_safe_integer (nint n)" by auto
  ultimately show ?L using R n
    by (auto simp: exactLamports_def lamports_in_range_def)
qed

lemma sol_match_decimal:
  assumes "sol_match t = Some (ip, fp, ex)"
  shows "unsigned_decimal t =
      Some (of_int (parse_dec (ip @ fp)) * t10 ((case ex of None \<Rightarrow> 0 | Some e \<Rightarrow> e) - int (length fp)))"
    and "canon_dec ip" and "list_all is_digit (ip @ fp)"
proof -
  show c: "canon_dec ip"
    using assms by (auto simp: sol_match_def Let_def split: if_splits option.splits)
  then have ne: "ip \<noteq> []" using canon_dec_pos_nonempty by blast
  show "list_all is_digit (ip @ fp)"
    using assms by (auto simp: sol_match_def Let_def list_all_iff split: if_splits option.splits
      dest: set_takeWhileD)
  show "unsigned_decimal t =
      Some (of_int (parse_dec (ip @ fp)) * t10 ((case ex of None \<Rightarrow> 0 | Some e \<Rightarrow> e) - int (length fp)))"
    using assms ne
    by (auto simp: sol_match_def unsigned_decimal_def Let_def
      split: if_splits option.splits dest: sym [of "Some _"])
qed

text \<open>
  C2.  \<open>exactSolLamports\<close> never rounds: what it returns is the decimal value of its input times
  \<open>10\<^sup>9\<close>, exactly, in canonical decimal, within the safe integers.
\<close>

theorem exactSolLamports_exact:
  assumes "exactSolLamports v = Inr u"
  shows "\<exists>q. unsigned_decimal (to_str v) = Some q \<and> q * 10 ^ 9 = of_int (parse_dec u)
    \<and> canon_dec u \<and> 0 \<le> parse_dec u \<and> parse_dec u \<le> max_safe"
proof -
  from assms obtain ip fp ex where m: "sol_match (to_str v) = Some (ip, fp, ex)"
    by (auto simp: exactSolLamports_def sol_units_error_def Let_def split: if_splits option.splits)
  define e where "e = (case ex of None \<Rightarrow> 0 | Some e \<Rightarrow> e)"
  define sc where "sc = 9 + e - int (length fp)"
  define n where "n = parse_dec (ip @ fp)"
  note d = sol_match_decimal [OF m]
  have n0: "0 \<le> n" unfolding n_def by (rule parse_dec_nonneg [OF d(3)])
  have ten: "t10 (e - int (length fp)) * 10 ^ 9 = t10 sc"
    using t10_add [of "e - int (length fp)" 9] by (simp add: sc_def t10_def algebra_simps)
  have q: "unsigned_decimal (to_str v) = Some (of_int n * t10 (e - int (length fp)))"
    using d(1) by (simp add: e_def n_def)
  have cases: "(sc \<ge> 0 \<and> n * 10 ^ nat sc \<le> max_safe \<and> u = show_int (n * 10 ^ nat sc))
      \<or> (sc < 0 \<and> n mod 10 ^ nat (- sc) = 0 \<and> n div 10 ^ nat (- sc) \<le> max_safe
         \<and> u = show_int (n div 10 ^ nat (- sc)))"
    using assms m
    by (auto simp: exactSolLamports_def sol_units_error_def Let_def e_def sc_def n_def
      split: if_splits option.splits)
  then show ?thesis
  proof
    assume a: "sc \<ge> 0 \<and> n * 10 ^ nat sc \<le> max_safe \<and> u = show_int (n * 10 ^ nat sc)"
    have "of_int n * t10 (e - int (length fp)) * 10 ^ 9 = (of_int (n * 10 ^ nat sc) :: rat)"
      using a ten t10_nat [of sc] by (simp add: mult.assoc)
    with a n0 q show ?thesis by simp
  next
    assume b: "sc < 0 \<and> n mod 10 ^ nat (- sc) = 0 \<and> n div 10 ^ nat (- sc) \<le> max_safe
      \<and> u = show_int (n div 10 ^ nat (- sc))"
    define D where "D = (10::int) ^ nat (- sc)"
    have D: "0 < D" "n = n div D * D" using b by (simp_all add: D_def mod_0_imp_dvd)
    have "of_int n * t10 (e - int (length fp)) * 10 ^ 9 = (of_int n / of_int D :: rat)"
      using b ten t10_neg [of sc] by (simp add: mult.assoc D_def)
    also have "\<dots> = of_int (n div D)"
      using D by (metis nonzero_mult_div_cancel_right of_int_0_eq_iff of_int_mult order_less_irrefl)
    finally show ?thesis using b n0 q D(1) by (simp add: D_def pos_imp_zdiv_nonneg_iff)
  qed
qed

theorem exactSolLamports_exact_witness:
  "\<exists>q. unsigned_decimal (to_str (Str ''1.25'')) = Some q \<and> q * 10 ^ 9 = of_int (parse_dec ''1250000000'')
    \<and> canon_dec ''1250000000'' \<and> 0 \<le> parse_dec ''1250000000'' \<and> parse_dec ''1250000000'' \<le> max_safe"
proof -
  have "exactSolLamports (Str ''1.25'') = Inr ''1250000000''" by code_simp
  then show ?thesis by (rule exactSolLamports_exact)
qed

lemma strip_zeros_split: "\<exists>k. s = strip_zeros s @ replicate k (CHR ''0'')"
proof -
  have "takeWhile (\<lambda>c. c = CHR ''0'') r = replicate (length (takeWhile (\<lambda>c. c = CHR ''0'') r)) (CHR ''0'')"
    for r :: string
    by (induction r) auto
  then have "rev s = replicate (length (takeWhile (\<lambda>c. c = CHR ''0'') (rev s))) (CHR ''0'')
      @ dropWhile (\<lambda>c. c = CHR ''0'') (rev s)"
    by (metis takeWhile_dropWhile_id)
  then have "s = strip_zeros s @ replicate (length (takeWhile (\<lambda>c. c = CHR ''0'') (rev s))) (CHR ''0'')"
    unfolding strip_zeros_def by (metis rev_append rev_replicate rev_rev_ident)
  then show ?thesis by blast
qed

text \<open>The fraction that is printed for \<open>0 \<le> f < 10\<^sup>9\<close>: four to nine digits that denote \<open>f / 10\<^sup>9\<close>.\<close>

definition fraction_of :: "int \<Rightarrow> string" where
  "fraction_of f = pad_end 4 (strip_zeros (pad_start 9 (show_int f)))"

lemma fraction_of_props:
  assumes "0 \<le> f" and "f < 10 ^ 9"
  shows "4 \<le> length (fraction_of f)" and "length (fraction_of f) \<le> 9"
    and "parse_dec (fraction_of f) * 10 ^ (9 - length (fraction_of f)) = f"
    and "list_all is_digit (fraction_of f)"
proof -
  let ?p = "pad_start 9 (show_int f)"
  let ?s = "strip_zeros ?p"
  have zero: "is_digit (CHR ''0'')" by code_simp
  have lp: "length ?p = 9"
    using length_show_dec [of f 9] assms by (simp add: pad_start_def)
  have vp: "parse_dec ?p = f"
    using assms by (simp add: pad_start_def parse_dec_append)
  have dp: "list_all is_digit ?p"
    using assms zero show_dec_digits [of f] by (auto simp: pad_start_def list_all_iff)
  obtain k where k: "?p = ?s @ replicate k (CHR ''0'')" using strip_zeros_split by blast
  then have ls: "length ?s + k = 9" using lp by (metis length_append length_replicate)
  have vs: "parse_dec ?s * 10 ^ k = f"
    using vp k parse_dec_append [of ?s "replicate k (CHR ''0'')"] by simp
  have ds: "list_all is_digit ?s" using dp k by (metis list_all_append)
  let ?z = "4 - length ?s"
  have fr: "fraction_of f = ?s @ replicate ?z (CHR ''0'')"
    by (simp add: fraction_of_def pad_end_def)
  show "4 \<le> length (fraction_of f)" "length (fraction_of f) \<le> 9"
    using ls by (simp_all add: fr)
  show "list_all is_digit (fraction_of f)" using ds zero by (auto simp: fr list_all_iff)
  have "k = ?z + (9 - length (fraction_of f))" using ls by (simp add: fr)
  then have "(10::int) ^ k = 10 ^ ?z * 10 ^ (9 - length (fraction_of f))"
    by (metis power_add)
  with vs show "parse_dec (fraction_of f) * 10 ^ (9 - length (fraction_of f)) = f"
    by (simp add: fr parse_dec_append)
qed

lemma sol_match_intro:
  assumes "canon_dec ip" and "fp \<noteq> []" and "list_all is_digit fp"
  shows "sol_match (ip @ ''.'' @ fp) = Some (ip, fp, None)"
proof -
  have d: "list_all is_digit ip" using canon_dec_digits [OF assms(1)] by (simp add: all_digits_def)
  have dot: "\<not> is_digit (CHR ''.'')" by code_simp
  have t: "takeWhile is_digit (a @ b) = a @ takeWhile is_digit b \<and>
      dropWhile is_digit (a @ b) = dropWhile is_digit b" if "list_all is_digit a" for a b
    using that by (induction a) auto
  have "takeWhile is_digit (ip @ CHR ''.'' # fp) = ip" "dropWhile is_digit (ip @ CHR ''.'' # fp) = CHR ''.'' # fp"
    using t [OF d, of "CHR ''.'' # fp"] dot by simp_all
  moreover have "takeWhile is_digit fp = fp" "dropWhile is_digit fp = []"
    using t [OF assms(3), of "[]"] by (simp_all only: append_Nil2 takeWhile.simps dropWhile.simps)
  ultimately show ?thesis using assms(1,2) by (simp add: sol_match_def Let_def del: takeWhile_eq_all_conv)
qed

text \<open>
  C3.  The dashboard's SOL string loses nothing: for every amount within the safe integers,
  reading the formatted string back with \<open>exactSolLamports\<close> gives the amount itself.
\<close>

theorem format_read_roundtrip:
  assumes "0 \<le> n" and "n \<le> max_safe"
  shows "\<exists>t. formatReferralLamports (Big n) = Inr t \<and> exactSolLamports (Str t) = Inr (show_dec n)"
proof -
  let ?w = "n div 1000000000" and ?f = "n mod 1000000000"
  let ?t = "show_int ?w @ ''.'' @ fraction_of ?f"
  have f: "0 \<le> ?f" "?f < 10 ^ 9" by simp_all
  note fr = fraction_of_props [OF f]
  have w: "0 \<le> ?w" using assms(1) by simp
  have "?w < 10 ^ 7" using assms(2) by (simp add: max_safe_def)
  then have lw: "length (show_dec ?w) \<le> 7" using length_show_dec [OF w] by simp
  have form: "formatReferralLamports (Big n) = Inr ?t"
    using assms(1) by (simp add: formatReferralLamports_def fraction_of_def Let_def)
  have "fraction_of ?f \<noteq> []" using fr(1) by auto
  then have m: "sol_match ?t = Some (show_dec ?w, fraction_of ?f, None)"
    using sol_match_intro [of "show_dec ?w" "fraction_of ?f"] w fr(1,4) by auto
  have len: "length ?t \<le> 64" using lw w fr(2) by simp
  have sc: "(9::int) - int (length (fraction_of ?f)) \<ge> 0" "nat (9 - int (length (fraction_of ?f))) = 9 - length (fraction_of ?f)"
    using fr(2) by auto
  have ten: "(10::int) ^ 9 = 10 ^ length (fraction_of ?f) * 10 ^ (9 - length (fraction_of ?f))"
    using fr(2) by (metis le_add_diff_inverse power_add)
  have "parse_dec (show_dec ?w @ fraction_of ?f) * 10 ^ (9 - length (fraction_of ?f))
      = ?w * 10 ^ 9 + ?f"
    using w fr(3) ten by (simp add: parse_dec_append algebra_simps)
  also have "\<dots> = n" by simp
  finally have "exactSolLamports (Str ?t) = Inr (show_dec n)"
    using m len sc assms by (simp add: exactSolLamports_def Let_def sol_units_error_def)
  with form show ?thesis by blast
qed

theorem format_read_roundtrip_witness:
  "\<exists>t. formatReferralLamports (Big 1500000001) = Inr t \<and> exactSolLamports (Str t) = Inr (show_dec 1500000001)"
  by (rule format_read_roundtrip) (simp_all add: max_safe_def)

text \<open>The amount and the payment status of a validated row.\<close>

definition row_paid :: "jsval \<Rightarrow> bool" where
  "row_paid row \<longleftrightarrow> jeq (oget row ''status'') (Str ''paid'')"

definition row_amount :: "jsval \<Rightarrow> int" where
  "row_amount row = parse_dec (to_str (oget row ''amountLamports''))"

lemma typed_amount:
  assumes "(case a of Str _ \<Rightarrow> True | Num n \<Rightarrow> is_safe_integer n | Big _ \<Rightarrow> True | _ \<Rightarrow> False)"
    and "canon_dec (to_str a)"
  shows "to_bigint a = Inr (parse_dec (to_str a))"
proof (cases a)
  case (Num n)
  with assms(1) obtain i where i: "n = nint i" "\<bar>i\<bar> \<le> max_safe" by (auto elim: safe_integerE)
  with Num assms(2) canon_dec_digits have "0 \<le> i" by (auto intro: show_int_digits_nonneg)
  with Num i show ?thesis by (simp add: is_integer_def)
next
  case (Big i)
  with assms(2) canon_dec_digits have "0 \<le> i" by (auto intro: show_int_digits_nonneg)
  with Big show ?thesis by simp
next
  case (Str s)
  with assms(2) canon_dec_digits show ?thesis by (simp add: str_to_bigint_digits)
qed (use assms(1) in auto)

lemma history_row:
  assumes "history_row_ok row = Inr True"
  shows "jeq (oget row ''asset'') (Str ''SOL'')" and "canon_dec (to_str (oget row ''amountLamports''))"
    and "to_bigint (oget row ''amountLamports'') = Inr (row_amount row)"
    and "row_amount row \<le> u64_max" and "row_paid row \<Longrightarrow> 0 < row_amount row"
proof -
  let ?a = "oget row ''amountLamports''"
  from assms show a: "jeq (oget row ''asset'') (Str ''SOL'')" and c: "canon_dec (to_str ?a)"
    by (auto simp: history_row_ok_def short_canon_dec_def Let_def split: if_splits)
  have t: "(case ?a of Str _ \<Rightarrow> True | Num n \<Rightarrow> is_safe_integer n | Big _ \<Rightarrow> True | _ \<Rightarrow> False)"
    using assms by (auto simp: history_row_ok_def Let_def split: if_splits jsval.splits)
  then show b: "to_bigint ?a = Inr (row_amount row)"
    using typed_amount [OF _ c] by (simp add: row_amount_def)
  have "\<not> row_amount row > u64_max" and z: "row_paid row \<Longrightarrow> row_amount row \<noteq> 0"
    using assms b by (auto simp: history_row_ok_def row_paid_def Let_def split: if_splits)
  then show "row_amount row \<le> u64_max" by simp
  show "row_paid row \<Longrightarrow> 0 < row_amount row"
    using z canon_dec_nonneg [OF c] by (force simp: row_amount_def)
qed

lemma history_ok_all: "history_ok rows = Inr True \<Longrightarrow> row \<in> set rows \<Longrightarrow> history_row_ok row = Inr True"
  by (induction rows) (auto simp: bindR_Inr_iff split: if_splits)

lemma paid_loop_sum:
  assumes "\<And>row. row \<in> set rows \<Longrightarrow> history_row_ok row = Inr True"
  shows "paid_loop rows acc = Inr (Some (acc + sum_list (map row_amount (filter row_paid rows))))"
  using assms
proof (induction rows arbitrary: acc)
  case Nil
  then show ?case by simp
next
  case (Cons row rows)
  from Cons.prems have "history_row_ok row = Inr True" by simp
  note h = history_row [OF this]
  from Cons show ?case using h(1,2,3) by (simp add: row_paid_def add.assoc)
qed

text \<open>
  A referral history is shown only when every row is valid, and then the total is exactly the
  sum of the paid rows, each a positive amount of at most \<open>2\<^sup>6\<^sup>4 - 1\<close> lamports.
\<close>

lemma readReferralHistory_total:
  assumes "readReferralHistory (Arr rows) = Inr (Some h)"
  shows "history_paidLamports h = Some (sum_list (map row_amount (filter row_paid rows)))
    \<and> (\<forall>row \<in> set rows. row_paid row \<longrightarrow> 0 < row_amount row \<and> row_amount row \<le> u64_max)"
proof -
  from assms have ok: "history_ok rows = Inr True"
    by (auto simp: readReferralHistory_def bindR_Inr_iff split: if_splits)
  note all = history_ok_all [OF ok]
  from assms paid_loop_sum [OF all, of rows] ok
  have "history_paidLamports h = Some (sum_list (map row_amount (filter row_paid rows)))"
    by (auto simp: readReferralHistory_def paidReferralLamports_def)
  with history_row(4,5) [OF all] show ?thesis by blast
qed

end
