(* ===== verification/JsDate.thy ===== *)
theory JsDate
  imports JsConv
begin

text \<open>
  \<open>Date.parse\<close> and \<open>Date.prototype.toISOString\<close> in UTC on the proleptic Gregorian calendar.
  The ISO forms \<open>YYYY-MM-DD\<close>, \<open>YYYY-MM-DDTHH:mm:ssZ\<close> and \<open>YYYY-MM-DDTHH:mm:ss.sssZ\<close> are computed;
  what an engine does with any other text is left to it, as in the language definition: it
  is the parameter \<open>other\<close> of \<open>date_parse\<close>.
\<close>

definition days_from_civil :: "int \<Rightarrow> int \<Rightarrow> int \<Rightarrow> int" where
  "days_from_civil y m d =
     (let y' = (if m \<le> 2 then y - 1 else y); era = y' div 400; yoe = y' - era * 400;
          doy = (153 * (if m > 2 then m - 3 else m + 9) + 2) div 5 + d - 1;
          doe = yoe * 365 + yoe div 4 - yoe div 100 + doy in
      era * 146097 + doe - 719468)"

definition civil_from_days :: "int \<Rightarrow> int \<times> int \<times> int" where
  "civil_from_days z0 =
     (let z = z0 + 719468; era = z div 146097; doe = z - era * 146097;
          yoe = (doe - doe div 1460 + doe div 36524 - doe div 146096) div 365;
          doy = doe - (365 * yoe + yoe div 4 - yoe div 100);
          mp = (5 * doy + 2) div 153; d = doy - (153 * mp + 2) div 5 + 1;
          m = (if mp < 10 then mp + 3 else mp - 9);
          y = yoe + era * 400 + (if m \<le> 2 then 1 else 0) in
      (y, m, d))"

definition leap_year :: "int \<Rightarrow> bool" where
  "leap_year y \<longleftrightarrow> y mod 4 = 0 \<and> (y mod 100 \<noteq> 0 \<or> y mod 400 = 0)"

definition days_in_month :: "int \<Rightarrow> int \<Rightarrow> int" where
  "days_in_month y m =
     (if m = 2 then (if leap_year y then 29 else 28) else if m \<in> {4, 6, 9, 11} then 30 else 31)"

text \<open>The digits of \<open>n\<close> filled with zeros to width \<open>w\<close>.\<close>

definition pad0 :: "nat \<Rightarrow> int \<Rightarrow> string" where
  "pad0 w n = (let s = show_dec n in replicate (w - length s) (CHR ''0'') @ s)"

definition iso_date :: "int \<Rightarrow> string" where
  "iso_date day =
     (let (y, m, d) = civil_from_days day in
      (if 0 \<le> y \<and> y \<le> 9999 then pad0 4 y else (if y < 0 then ''-'' else ''+'') @ pad0 6 \<bar>y\<bar>)
      @ ''-'' @ pad0 2 m @ ''-'' @ pad0 2 d)"

text \<open>\<open>new Date(ms).toISOString()\<close> for an integral \<open>ms\<close> in the range of dates.\<close>

definition max_date :: int where "max_date = 8640000000000000"

definition to_iso :: "int \<Rightarrow> string" where
  "to_iso ms =
     (let day = ms div 86400000; t = ms mod 86400000 in
      iso_date day @ ''T'' @ pad0 2 (t div 3600000) @ '':'' @ pad0 2 (t div 60000 mod 60) @ '':''
      @ pad0 2 (t div 1000 mod 60) @ ''.'' @ pad0 3 (t mod 1000) @ ''Z'')"

definition iso_of_num :: "jsnum \<Rightarrow> string res" where
  "iso_of_num x =
     (case x of
        Fin q \<Rightarrow> (let i = (if q < 0 then \<lceil>q\<rceil> else \<lfloor>q\<rfloor>) in
          if \<bar>q\<bar> \<le> of_int max_date then Inr (to_iso i) else Inl RangeErr)
      | _ \<Rightarrow> Inl RangeErr)"

definition slice :: "nat \<Rightarrow> nat \<Rightarrow> 'a list \<Rightarrow> 'a list" where
  "slice i j s = take (j - i) (drop i s)"

definition parse_iso_date :: "string \<Rightarrow> int option" where
  "parse_iso_date s =
     (let ys = slice 0 4 s; ms = slice 5 7 s; ds = slice 8 10 s;
          y = parse_dec ys; m = parse_dec ms; d = parse_dec ds in
      if length s = 10 \<and> all_digits ys \<and> all_digits ms \<and> all_digits ds
         \<and> s ! 4 = CHR ''-'' \<and> s ! 7 = CHR ''-''
         \<and> 1 \<le> m \<and> m \<le> 12 \<and> 1 \<le> d \<and> d \<le> days_in_month y m
      then Some (days_from_civil y m d) else None)"

definition parse_iso_time :: "string \<Rightarrow> int option" where
  "parse_iso_time s =
     (let hs = slice 0 2 s; ms = slice 3 5 s; ss = slice 6 8 s; fs = slice 9 12 s;
          h = parse_dec hs; m = parse_dec ms; c = parse_dec ss in
      if (s \<noteq> [] \<and> last s = CHR ''Z'') \<and> all_digits hs \<and> all_digits ms \<and> all_digits ss
         \<and> h \<le> 23 \<and> m \<le> 59 \<and> c \<le> 59 \<and> s ! 2 = CHR '':'' \<and> s ! 5 = CHR '':''
      then (if length s = 9 then Some (h * 3600000 + m * 60000 + c * 1000)
            else if length s = 13 \<and> s ! 8 = CHR ''.'' \<and> all_digits fs
              then Some (h * 3600000 + m * 60000 + c * 1000 + parse_dec fs)
            else None)
      else None)"

definition parse_iso :: "string \<Rightarrow> int option" where
  "parse_iso s =
     (case parse_iso_date (take 10 s) of
        None \<Rightarrow> None
      | Some day \<Rightarrow>
          if length s = 10 then Some (day * 86400000)
          else if s ! 10 = CHR ''T''
            then (case parse_iso_time (drop 11 s) of None \<Rightarrow> None | Some t \<Rightarrow> Some (day * 86400000 + t))
          else None)"

definition date_parse :: "(string \<Rightarrow> jsnum) \<Rightarrow> jsval \<Rightarrow> jsnum" where
  "date_parse other v =
     (case parse_iso (to_str v) of Some ms \<Rightarrow> nint ms | None \<Rightarrow> other (to_str v))"

section \<open>Lemmas\<close>

lemma parse_dec_pad0 [simp]: "0 \<le> n \<Longrightarrow> parse_dec (pad0 w n) = n"
  by (simp add: pad0_def Let_def parse_dec_append)

lemma length_pad0: "0 \<le> n \<Longrightarrow> n < 10 ^ w \<Longrightarrow> 0 < w \<Longrightarrow> length (pad0 w n) = w"
  using length_show_dec [of n w] by (simp add: pad0_def Let_def)

lemma all_digits_pad0 [simp]: "0 \<le> n \<Longrightarrow> all_digits (pad0 w n)"
proof -
  have "is_digit (CHR ''0'')" by code_simp
  then show "0 \<le> n \<Longrightarrow> all_digits (pad0 w n)"
    using show_dec_digits [of n] by (auto simp: pad0_def Let_def all_digits_def list_all_iff)
qed

end
