(* ===== verification/Holders.thy ===== *)
theory Holders
  imports JsDate
begin

text \<open>
  Holder rewards, \<open>automatic-rewards.js\<close>: the schedule a page shows, the time-weighted balances
  of a reward period (\<open>holdingWeights\<close>) and the pro-rata split of a pool (\<open>allocateHolderPool\<close>).
  \<open>String.prototype.localeCompare\<close> depends on the engine's collation data; it is the parameter
  \<open>lc\<close>, negative, zero or positive as the method returns.
\<close>

section \<open>Schedules\<close>

record automatic_rewards_policy =
  ar_version :: int
  ar_holderAsset :: string
  ar_periodSeconds :: int
  ar_sampleIntervalSeconds :: int
  ar_cutoffUtc :: string
  ar_payoutUtc :: string
  ar_minimumLamports :: string
  ar_minimumHolderUsd :: int
  ar_minimumPoolUsd :: int
  ar_costReserveUsdPerHolder :: jsnum
  ar_maxEligibleHolders :: int
  ar_referralDelivery :: string
  ar_holderDelivery :: string
  ar_airdropAsset :: string
  ar_airdropEligibility :: string
  ar_feeBudget :: string

definition AUTOMATIC_REWARDS :: automatic_rewards_policy where
  "AUTOMATIC_REWARDS =
     \<lparr>ar_version = 3, ar_holderAsset = ''SOL'', ar_periodSeconds = 3600, ar_sampleIntervalSeconds = 300,
      ar_cutoffUtc = ''every UTC hour'', ar_payoutUtc = ''after each finalized hourly cutoff'',
      ar_minimumLamports = ''10000000'', ar_minimumHolderUsd = 20, ar_minimumPoolUsd = 20,
      ar_costReserveUsdPerHolder = rnd (1 / 100), ar_maxEligibleHolders = 1000,
      ar_referralDelivery = ''manual-claim'',
      ar_holderDelivery = ''automatic'', ar_airdropAsset = ''launched-token'',
      ar_airdropEligibility = ''$FUNDED'', ar_feeBudget = ''operations''\<rparr>"

record clock =
  clock_label :: string
  clock_remaining :: "jsnum option"

definition no_clock :: "string \<Rightarrow> clock" where
  "no_clock l = \<lparr>clock_label = l, clock_remaining = None\<rparr>"

text \<open>The labels of the states that carry no countdown.  \<open>CHR 0xB7\<close> is the middle dot.\<close>

definition state_label :: "string \<Rightarrow> string option" where
  "state_label s =
     map_of [(''paid'', ''Paid''), (''delayed'', ''Delayed''), (''distributing'', ''Distributing''),
       (''blocked'', ''Distribution blocked''), (''skipped'', ''Reward period skipped''),
       (''deferred'', ''Reward funding carries forward'')] s"

definition distributionClock :: "(string \<Rightarrow> jsnum) \<Rightarrow> jsval \<Rightarrow> jsnum \<Rightarrow> clock" where
  "distributionClock other schedule now =
     (let status = oget schedule ''status'';
          label = (case status of Str s \<Rightarrow> state_label s | _ \<Rightarrow> None);
          cutoff = date_parse other (oget schedule ''cutoffAt'');
          payout = date_parse other (oget schedule ''payoutAt'') in
      if \<not> truthy schedule \<or> jeq status (Str ''unavailable'') then no_clock ''Not scheduled''
      else if jeq status (Str ''waiting-migration'') then no_clock ''Waiting for migration''
      else case label of Some l \<Rightarrow> no_clock l
      | None \<Rightarrow>
        if \<not> nfinite cutoff \<or> \<not> nfinite payout \<or> nless payout cutoff then no_clock ''Schedule unavailable''
        else if nle payout now
          then no_clock (''Delayed '' @ [CHR 0xB7] @ '' awaiting payment confirmation'')
        else if nle cutoff now
          then \<lparr>clock_label =
                  (if jeq status (Str ''indexing'')
                     then ''Cutoff reached '' @ [CHR 0xB7] @ '' finalizing holder history''
                   else if jeq status (Str ''prepared'')
                     then ''Distribution prepared '' @ [CHR 0xB7] @ '' payout in''
                   else ''Calculating allocations '' @ [CHR 0xB7] @ '' next payout''),
                clock_remaining = Some (math_ceil (ndiv (nsub payout now) (nint 1000)))\<rparr>
        else \<lparr>clock_label = ''Reward period closes in'',
              clock_remaining = Some (math_ceil (ndiv (nsub cutoff now) (nint 1000)))\<rparr>)"

text \<open>\<open>None\<close> is the dash shown for no countdown.  The arguments of the remainder are non-negative.\<close>

definition nmod_pos :: "jsnum \<Rightarrow> int \<Rightarrow> jsnum" where
  "nmod_pos x m = (case x of Fin q \<Rightarrow> Fin (q - of_int (m * \<lfloor>q / of_int m\<rfloor>)) | _ \<Rightarrow> NaN)"

definition countdownText :: "jsval \<Rightarrow> string option res" where
  "countdownText seconds =
     (if seconds = Undef \<or> seconds = Null \<or> \<not> nfinite (to_number seconds) then Inr None
      else case seconds of Big _ \<Rightarrow> Inl TypeErr
      | _ \<Rightarrow> (let v = nmax (Fin 0) (math_floor (to_number seconds)) in
        Inr (Some (join '':'' (map (\<lambda>n. pad_start 2 (num_to_str n))
          [math_floor (ndiv v (nint 3600)), nmod_pos (math_floor (ndiv v (nint 60))) 60, nmod_pos v 60])))))"

text \<open>The row a page shows: the next cutoff, else the next payout, else the latest period.\<close>

definition period_after :: "jsval \<Rightarrow> jsval \<Rightarrow> bool" where
  "period_after a b \<longleftrightarrow>
     \<not> nless (Fin 0) (nsub (to_number (jor (oget b ''periodStart'') (Num (Fin 0))))
                         (to_number (jor (oget a ''periodStart'') (Num (Fin 0)))))"

definition selectDisplaySchedule :: "(string \<Rightarrow> jsnum) \<Rightarrow> jsval \<Rightarrow> jsval \<Rightarrow> jsnum \<Rightarrow> jsval" where
  "selectDisplaySchedule other schedules mint now =
     (let rows = filter (\<lambda>row. jeq (oget row ''kind'') (Str ''holder'')
                   \<and> (\<not> truthy mint \<or> jeq (oget row ''mint'') mint))
                 (case schedules of Arr rs \<Rightarrow> rs | _ \<Rightarrow> []);
          live = filter (\<lambda>row. oget row ''status'' \<notin> {Str ''paid'', Str ''skipped'', Str ''deferred''}) rows;
          timestamp = (\<lambda>row. date_parse other (oget row ''cutoffAt''));
          payoutTimestamp = (\<lambda>row. date_parse other (oget row ''payoutAt''));
          upcoming = (\<lambda>t. sort_by (\<lambda>a b. \<not> nless (Fin 0) (nsub (t a) (t b)))
                        (filter (\<lambda>row. nfinite (t row) \<and> nle now (t row)) live)) in
      case upcoming timestamp of r # _ \<Rightarrow> r
      | [] \<Rightarrow> (case upcoming payoutTimestamp of r # _ \<Rightarrow> r
      | [] \<Rightarrow> (case sort_by period_after live of r # _ \<Rightarrow> r
      | [] \<Rightarrow> (case sort_by period_after rows of r # _ \<Rightarrow> r | [] \<Rightarrow> Null))))"

section \<open>Time-weighted balances\<close>

definition units :: "jsval \<Rightarrow> int res" where
  "units v =
     (case v of Str s \<Rightarrow> if all_digits s then Inr (parse_dec s)
        else throw ''Amounts must be unsigned integer strings.''
      | _ \<Rightarrow> throw ''Amounts must be unsigned integer strings.'')"

record holder_account =
  ha_account :: string
  ha_wallet :: string
  ha_balance :: jsval

record holder_snapshot =
  sn_at :: jsnum
  sn_accounts :: "holder_account list"

record holder_weight =
  hw_wallet :: string
  hw_weight :: jsval

text \<open>The accounts of one snapshot: \<open>accounts\<close> holds the account addresses met so far.\<close>

fun weigh_accounts ::
  "string list \<Rightarrow> int \<Rightarrow> holder_account list \<Rightarrow> string list \<Rightarrow> (string, int) omap \<Rightarrow> (string, int) omap res" where
  "weigh_accounts excluded duration [] seen weights = Inr weights"
| "weigh_accounts excluded duration (row # rows) seen weights =
     (if ha_account row = [] \<or> ha_wallet row = [] \<or> ha_account row \<in> set seen
        then throw ''Duplicate or missing holder account.''
      else bindR (units (ha_balance row)) (\<lambda>balance.
        weigh_accounts excluded duration rows (ha_account row # seen)
          (if ha_wallet row \<in> set excluded then weights
           else oadd (ha_wallet row) (balance * duration) weights)))"

text \<open>The loop over the snapshots; \<open>prev\<close> is the time of the snapshot before.\<close>

fun weigh_snapshots ::
  "string list \<Rightarrow> jsnum option \<Rightarrow> holder_snapshot list \<Rightarrow> (string, int) omap \<Rightarrow> (string, int) omap res" where
  "weigh_snapshots excluded prev [] weights = Inr weights"
| "weigh_snapshots excluded prev (s # ss) weights =
     (if \<not> is_safe_integer (sn_at s)
         \<or> (case prev of None \<Rightarrow> False | Some t \<Rightarrow> nle (sn_at s) t)
        then throw ''Snapshots must be strictly ordered.''
      else bindR (case ss of [] \<Rightarrow> Inr 0 | s' # _ \<Rightarrow> num_to_bigint (nsub (sn_at s') (sn_at s)))
        (\<lambda>duration. bindR (weigh_accounts excluded duration (sn_accounts s) [] weights)
          (weigh_snapshots excluded (Some (sn_at s)) ss)))"

definition holdingWeights ::
  "(string \<Rightarrow> string \<Rightarrow> int) \<Rightarrow> jsnum \<Rightarrow> jsnum \<Rightarrow> holder_snapshot list \<Rightarrow> string list \<Rightarrow> string
    \<Rightarrow> holder_weight list res" where
  "holdingWeights lc start end' snapshots excluded coverage =
     (if \<not> is_safe_integer start \<or> \<not> is_safe_integer end' \<or> nle end' start
        then throw ''Invalid reward period.''
      else if coverage \<notin> {''complete-finalized'', ''finalized-sampled-v1''} \<or> length snapshots < 2
        then throw ''Finalized holder history is required.''
      else if neq_js (sn_at (hd snapshots)) start \<or> neq_js (sn_at (last snapshots)) end'
        then throw ''Holder history must cover both period boundaries.''
      else bindR (weigh_snapshots excluded None snapshots []) (\<lambda>weights.
        Inr (map (\<lambda>(w, x). \<lparr>hw_wallet = w, hw_weight = Str (show_int x)\<rparr>)
          (sort_by (\<lambda>a b. lc (fst a) (fst b) \<le> 0) (filter (\<lambda>(_, x). x > 0) weights)))))"

section \<open>The pro-rata split\<close>

record holder_allocation =
  al_wallet :: string
  al_amount :: string

record holder_pool =
  hp_allocations :: "holder_allocation list"
  hp_remainder :: string

fun parse_weights :: "holder_weight list \<Rightarrow> string list \<Rightarrow> (string \<times> int) list res" where
  "parse_weights [] seen = Inr []"
| "parse_weights (row # rows) seen =
     (if hw_wallet row = [] \<or> hw_wallet row \<in> set seen then throw ''Duplicate or missing recipient.''
      else bindR (units (hw_weight row)) (\<lambda>w.
        bindR (parse_weights rows (hw_wallet row # seen)) (\<lambda>r. Inr ((hw_wallet row, w) # r))))"

definition split_pool :: "int \<Rightarrow> (string \<times> int) list \<Rightarrow> (string \<times> int) list" where
  "split_pool pool parsed =
     (let tot = sum_list (map snd parsed) in
      filter (\<lambda>(_, a). a \<noteq> 0) (map (\<lambda>(w, x). (w, if tot \<noteq> 0 then pool * x div tot else 0)) parsed))"

definition allocateHolderPool :: "jsval \<Rightarrow> holder_weight list \<Rightarrow> holder_pool res" where
  "allocateHolderPool poolLamports weights =
     bindR (units poolLamports) (\<lambda>pool.
     bindR (parse_weights weights []) (\<lambda>parsed.
       let allocations = split_pool pool parsed in
       Inr \<lparr>hp_allocations = map (\<lambda>(w, a). \<lparr>al_wallet = w, al_amount = show_int a\<rparr>) allocations,
            hp_remainder = show_int (pool - sum_list (map snd allocations))\<rparr>))"

section \<open>Properties\<close>

lemma units_nonneg: "units v = Inr n \<Longrightarrow> 0 \<le> n"
  by (auto simp: units_def parse_all_digits_nonneg split: jsval.splits if_splits)

lemma units_show [simp]: "0 \<le> n \<Longrightarrow> units (Str (show_dec n)) = Inr n"
  by (simp add: units_def)

text \<open>The value of an amount that \<open>units\<close> accepts.\<close>

definition units_val :: "jsval \<Rightarrow> int" where
  "units_val v = (case units v of Inr n \<Rightarrow> n | Inl _ \<Rightarrow> 0)"

lemma parse_weights_props:
  assumes "parse_weights ws seen = Inr ps"
  shows "map fst ps = map hw_wallet ws \<and> map snd ps = map (\<lambda>r. units_val (hw_weight r)) ws
    \<and> distinct (map hw_wallet ws) \<and> set (map hw_wallet ws) \<inter> set seen = {} \<and> (\<forall>p \<in> set ps. 0 \<le> snd p)"
  using assms
proof (induction ws arbitrary: seen ps)
  case Nil
  then show ?case by simp
next
  case (Cons row rows)
  from Cons.prems obtain w r where u: "units (hw_weight row) = Inr w"
    and p: "parse_weights rows (hw_wallet row # seen) = Inr r"
    and ps: "ps = (hw_wallet row, w) # r" and new: "hw_wallet row \<notin> set seen"
    by (auto simp: bindR_Inr_iff split: if_splits)
  from Cons.IH [OF p] u new show ?case
    by (auto simp: ps units_val_def intro: units_nonneg)
qed

lemma split_pool_amounts:
  assumes "0 \<le> pool" and "\<forall>p \<in> set ps. 0 \<le> snd p"
  shows "\<forall>a \<in> set (split_pool pool ps). 0 < snd a"
proof
  fix a
  assume a: "a \<in> set (split_pool pool ps)"
  let ?t = "sum_list (map snd ps)"
  from a obtain w x where x: "(w, x) \<in> set ps" "snd a = (if ?t \<noteq> 0 then pool * x div ?t else 0)" "snd a \<noteq> 0"
    by (auto simp: split_pool_def Let_def)
  have "0 \<le> ?t" using assms(2) by (intro sum_list_nonneg_int) auto
  moreover have "0 \<le> pool * x" using assms x(1) by (auto intro: mult_nonneg_nonneg)
  ultimately have "0 \<le> snd a" using x(2) by (simp add: pos_imp_zdiv_nonneg_iff)
  with x(3) show "0 < snd a" by simp
qed

lemma sum_filter_nonzero: "sum_list (map snd (filter (\<lambda>p. snd p \<noteq> 0) xs)) = sum_list (map snd (xs :: ('a \<times> int) list))"
  by (induction xs) auto

lemma split_pool_sum:
  "sum_list (map snd (split_pool pool ps)) =
     (if sum_list (map snd ps) \<noteq> 0 then sum_list (map (\<lambda>x. pool * x div sum_list (map snd ps)) (map snd ps)) else 0)"
  by (simp add: split_pool_def Let_def sum_filter_nonzero comp_def case_prod_unfold del: filter_map)

text \<open>What the wallet \<open>w\<close> receives from a pool.\<close>

definition receives :: "holder_pool \<Rightarrow> string \<Rightarrow> int" where
  "receives r w = oget0 (map (\<lambda>a. (al_wallet a, parse_dec (al_amount a))) (hp_allocations r)) w"

lemma allocateHolderPool_unfold:
  assumes "allocateHolderPool p ws = Inr r"
  obtains pool ps where "units p = Inr pool" and "parse_weights ws [] = Inr ps"
    and "hp_allocations r = map (\<lambda>(w, a). \<lparr>al_wallet = w, al_amount = show_int a\<rparr>) (split_pool pool ps)"
    and "hp_remainder r = show_int (pool - sum_list (map snd (split_pool pool ps)))"
  using assms by (auto simp: allocateHolderPool_def bindR_Inr_iff Let_def)

lemma split_pool_le:
  assumes "0 \<le> pool" and "\<forall>p \<in> set ps. 0 \<le> snd p"
  shows "sum_list (map snd (split_pool pool ps)) \<le> pool"
proof (cases "sum_list (map snd ps) = 0")
  case True
  then show ?thesis using assms(1) by (simp add: split_pool_sum)
next
  case False
  let ?t = "sum_list (map snd ps)"
  have t: "0 < ?t" using False sum_list_nonneg_int [of "map snd ps"] assms(2) by auto
  have "sum_list (map (\<lambda>x. pool * x div ?t) (map snd ps)) * ?t \<le> pool * ?t"
    by (rule sum_list_div_le [OF t])
  then have "sum_list (map (\<lambda>x. pool * x div ?t) (map snd ps)) \<le> pool"
    using t mult_le_cancel_right_pos by blast
  with False show ?thesis by (simp add: split_pool_sum)
qed

lemma printed_amounts:
  assumes "\<forall>a \<in> set xs. 0 < snd a"
  shows "map (\<lambda>a. (al_wallet a, parse_dec (al_amount a)))
      (map (\<lambda>(w, a). \<lparr>al_wallet = w, al_amount = show_int a\<rparr>) xs) = xs"
  using assms by (induction xs) (auto simp: less_imp_le)

lemma split_pool_wallets:
  assumes "distinct (map fst ps)"
  shows "distinct (map fst (split_pool pool ps)) \<and> set (map fst (split_pool pool ps)) \<subseteq> set (map fst ps)"
proof -
  let ?t = "sum_list (map snd ps)"
  let ?g = "\<lambda>(w :: string, x). (w, if ?t \<noteq> 0 then pool * x div ?t else 0)"
  have "map fst (map ?g ps) = map fst ps" by (simp add: case_prod_unfold)
  with assms have "distinct (map fst (filter (\<lambda>(_, a). a \<noteq> 0) (map ?g ps)))"
    by (simp only: distinct_map_filter)
  moreover have "set (filter (\<lambda>(_, a). a \<noteq> 0) (map ?g ps)) \<subseteq> set (map ?g ps)" by (rule filter_is_subset)
  then have "fst ` set (filter (\<lambda>(_, a). a \<noteq> 0) (map ?g ps)) \<subseteq> fst ` set (map ?g ps)" by (rule image_mono)
  ultimately show ?thesis
    by (simp only: split_pool_def Let_def set_map [of fst] \<open>map fst (map ?g ps) = map fst ps\<close> [THEN arg_cong, of set, unfolded set_map [of fst]])
qed

text \<open>The parts of a split, as they are printed.\<close>

lemma pool_parts:
  assumes "allocateHolderPool p ws = Inr r"
  shows "sum_list (map (\<lambda>a. parse_dec (al_amount a)) (hp_allocations r)) + parse_dec (hp_remainder r) = units_val p"
    and "\<forall>a \<in> set (hp_allocations r). all_digits (al_amount a) \<and> 0 < parse_dec (al_amount a)"
    and "0 \<le> parse_dec (hp_remainder r)"
    and "distinct (map al_wallet (hp_allocations r))"
    and "set (map al_wallet (hp_allocations r)) \<subseteq> set (map hw_wallet ws)"
    and "\<exists>ps. map snd ps = map (\<lambda>r. units_val (hw_weight r)) ws \<and> length ps = length ws \<and>
      parse_dec (hp_remainder r) = units_val p - sum_list (map snd (split_pool (units_val p) ps))"
proof -
  from assms obtain pool ps where u: "units p = Inr pool" and w: "parse_weights ws [] = Inr ps"
    and a: "hp_allocations r = map (\<lambda>(w, a). \<lparr>al_wallet = w, al_amount = show_int a\<rparr>) (split_pool pool ps)"
    and m: "hp_remainder r = show_int (pool - sum_list (map snd (split_pool pool ps)))"
    by (rule allocateHolderPool_unfold)
  let ?s = "split_pool pool ps"
  have pool: "0 \<le> pool" "units_val p = pool" using u by (simp_all add: units_nonneg units_val_def)
  note pw = parse_weights_props [OF w]
  have pos: "\<forall>a \<in> set ?s. 0 < snd a" using split_pool_amounts [OF pool(1)] pw by blast
  have le: "sum_list (map snd ?s) \<le> pool" using split_pool_le [OF pool(1)] pw by blast
  have amounts: "map (\<lambda>a. parse_dec (al_amount a)) (hp_allocations r) = map snd ?s"
    using printed_amounts [OF pos] by (metis (no_types, lifting) a list.map_comp comp_def map_eq_conv snd_conv)
  have rem: "parse_dec (hp_remainder r) = pool - sum_list (map snd ?s)" using le m by simp
  show "sum_list (map (\<lambda>a. parse_dec (al_amount a)) (hp_allocations r)) + parse_dec (hp_remainder r) = units_val p"
    by (simp add: amounts rem pool)
  show "0 \<le> parse_dec (hp_remainder r)" using rem le by simp
  show "\<forall>a \<in> set (hp_allocations r). all_digits (al_amount a) \<and> 0 < parse_dec (al_amount a)"
    using pos by (fastforce simp: a)
  have wal: "map al_wallet (hp_allocations r) = map fst ?s" by (simp add: a case_prod_unfold comp_def)
  from pw split_pool_wallets [of ps pool]
  show "distinct (map al_wallet (hp_allocations r))" "set (map al_wallet (hp_allocations r)) \<subseteq> set (map hw_wallet ws)"
    by (simp_all add: wal)
  show "\<exists>ps. map snd ps = map (\<lambda>r. units_val (hw_weight r)) ws \<and> length ps = length ws \<and>
      parse_dec (hp_remainder r) = units_val p - sum_list (map snd (split_pool (units_val p) ps))"
    using pw rem pool(2) by (metis length_map)
qed

text \<open>Exactly who gets what: the rounded-down share of the pool, where it is not zero.\<close>

lemma pool_shares:
  assumes "allocateHolderPool p ws = Inr r"
  shows "map (\<lambda>a. (al_wallet a, parse_dec (al_amount a))) (hp_allocations r) =
    filter (\<lambda>(_, a). a \<noteq> 0) (map (\<lambda>w. (hw_wallet w,
      units_val p * units_val (hw_weight w) div sum_list (map (\<lambda>w. units_val (hw_weight w)) ws))) ws)"
proof -
  from assms obtain pool ps where u: "units p = Inr pool" and w: "parse_weights ws [] = Inr ps"
    and a: "hp_allocations r = map (\<lambda>(w, a). \<lparr>al_wallet = w, al_amount = show_int a\<rparr>) (split_pool pool ps)"
    by (rule allocateHolderPool_unfold)
  have pool: "0 \<le> pool" "units_val p = pool" using u by (simp_all add: units_nonneg units_val_def)
  note pw = parse_weights_props [OF w]
  have ps: "ps = map (\<lambda>w. (hw_wallet w, units_val (hw_weight w))) ws"
    using pw by (simp add: list_eq_iff_nth_eq prod_eq_iff)
  have "map (\<lambda>a. (al_wallet a, parse_dec (al_amount a))) (hp_allocations r) = split_pool pool ps"
    unfolding a using printed_amounts split_pool_amounts [OF pool(1)] pw by blast
  also have "\<dots> = filter (\<lambda>(_, a). a \<noteq> 0) (map (\<lambda>w. (hw_wallet w,
      pool * units_val (hw_weight w) div sum_list (map (\<lambda>w. units_val (hw_weight w)) ws))) ws)"
    unfolding split_pool_def Let_def ps by (rule arg_cong [of _ _ "filter _"]) (simp add: comp_def)
  finally show ?thesis by (simp only: pool(2))
qed

text \<open>
  C5.  The split of a pool conserves it: the printed allocations are positive, and with the printed
  remainder, which is not negative and smaller than the number of holders unless nobody has
  weight, they add up to the pool.
\<close>

theorem allocateHolderPool_conserves:
  assumes "allocateHolderPool p ws = Inr r"
  shows "sum_list (map (\<lambda>a. parse_dec (al_amount a)) (hp_allocations r)) + parse_dec (hp_remainder r) = units_val p
    \<and> (\<forall>a \<in> set (hp_allocations r). 0 < parse_dec (al_amount a))
    \<and> 0 \<le> parse_dec (hp_remainder r)
    \<and> (0 < sum_list (map (\<lambda>w. units_val (hw_weight w)) ws) \<longrightarrow> parse_dec (hp_remainder r) < int (length ws))"
proof -
  have "parse_dec (hp_remainder r) < int (length ws)" if t: "0 < sum_list (map (\<lambda>w. units_val (hw_weight w)) ws)"
  proof -
    from pool_parts(6) [OF assms] obtain ps where ps: "map snd ps = map (\<lambda>r. units_val (hw_weight r)) ws"
      "length ps = length ws"
      "parse_dec (hp_remainder r) = units_val p - sum_list (map snd (split_pool (units_val p) ps))" by blast
    let ?t = "sum_list (map snd ps)"
    have t': "0 < ?t" using t by (simp add: ps(1))
    then have "ps \<noteq> []" by auto
    from sum_div_dust [OF t', of "map snd ps" "units_val p"] this t'
    have "?t * units_val p < ?t * (sum_list (map snd (split_pool (units_val p) ps)) + int (length ps))"
      by (simp add: split_pool_sum mult.commute)
    with t' ps(2,3) show ?thesis by (simp add: mult_less_cancel_left_pos)
  qed
  with pool_parts(1-3) [OF assms] show ?thesis by blast
qed

definition sample_weights :: "holder_weight list" where
  "sample_weights = [\<lparr>hw_wallet = ''a'', hw_weight = Str ''1''\<rparr>, \<lparr>hw_wallet = ''b'', hw_weight = Str ''2''\<rparr>]"

definition sample_pool :: holder_pool where
  "sample_pool = \<lparr>hp_allocations = [\<lparr>al_wallet = ''a'', al_amount = ''3''\<rparr>, \<lparr>al_wallet = ''b'', al_amount = ''6''\<rparr>],
     hp_remainder = ''1''\<rparr>"

lemma sample_pool_eq: "allocateHolderPool (Str ''10'') sample_weights = Inr sample_pool"
  by code_simp

theorem allocateHolderPool_conserves_witness:
  "sum_list (map (\<lambda>a. parse_dec (al_amount a)) (hp_allocations sample_pool)) + parse_dec (hp_remainder sample_pool)
     = units_val (Str ''10'')
    \<and> 0 \<le> parse_dec (hp_remainder sample_pool) \<and> parse_dec (hp_remainder sample_pool) < int (length sample_weights)"
proof -
  have "0 < sum_list (map (\<lambda>w. units_val (hw_weight w)) sample_weights)" by code_simp
  with allocateHolderPool_conserves [OF sample_pool_eq] show ?thesis by blast
qed

text \<open>
  The specification of a holder's weight: in each interval between two snapshots, the balances of
  the wallet's accounts at its beginning, times its length.
\<close>

definition snapshot_balance :: "string \<Rightarrow> holder_snapshot \<Rightarrow> int" where
  "snapshot_balance w s =
     sum_list (map (\<lambda>row. units_val (ha_balance row)) (filter (\<lambda>row. ha_wallet row = w) (sn_accounts s)))"

fun time_weight :: "string \<Rightarrow> holder_snapshot list \<Rightarrow> int" where
  "time_weight w (s # s' # ss) =
     snapshot_balance w s * (to_int (sn_at s') - to_int (sn_at s)) + time_weight w (s' # ss)"
| "time_weight w ss = 0"

lemma weigh_accounts_oget0:
  assumes "weigh_accounts ex d rows seen m = Inr m'"
  shows "oget0 m' w = oget0 m w + (if w \<in> set ex then 0
      else sum_list (map (\<lambda>row. units_val (ha_balance row)) (filter (\<lambda>row. ha_wallet row = w) rows)) * d)
    \<and> (distinct (map fst m) \<longrightarrow> distinct (map fst m'))"
  using assms
proof (induction rows arbitrary: seen m)
  case Nil
  then show ?case by simp
next
  case (Cons row rows)
  from Cons.prems obtain b where u: "units (ha_balance row) = Inr b"
    and r: "weigh_accounts ex d rows (ha_account row # seen)
        (if ha_wallet row \<in> set ex then m else oadd (ha_wallet row) (b * d) m) = Inr m'"
    by (auto simp: bindR_Inr_iff split: if_splits)
  from Cons.IH [OF r] u show ?case
    by (auto simp: oget0_oadd units_val_def distrib_right)
qed

lemma nsub_nint: "\<bar>a - b\<bar> \<le> max_safe \<Longrightarrow> nsub (nint a) (nint b) = nint (a - b)"
  using nadd_int [of a "- b"] by (simp add: nsub_def)

lemma weigh_last:
  assumes "weigh_snapshots ex prev [s] m = Inr m'"
  shows "oget0 m' w = oget0 m w \<and> (distinct (map fst m) \<longrightarrow> distinct (map fst m'))"
proof -
  from assms have "weigh_accounts ex 0 (sn_accounts s) [] m = Inr m'"
    by (auto simp: bindR_Inr_iff split: if_splits)
  from weigh_accounts_oget0 [OF this, of w] show ?thesis by auto
qed

lemma weigh_snapshots_oget0:
  assumes "weigh_snapshots ex prev ss m = Inr m'"
    and "\<forall>s \<in> set (take 1 ss). 0 \<le> to_int (sn_at s)"
  shows "oget0 m' w = oget0 m w + (if w \<in> set ex then 0 else time_weight w ss)
    \<and> (distinct (map fst m) \<longrightarrow> distinct (map fst m'))"
  using assms
proof (induction w ss arbitrary: prev m rule: time_weight.induct)
  case (1 w s s' ss)
  from "1.prems"(1) obtain d m1 where s: "is_safe_integer (sn_at s)"
    and d: "num_to_bigint (nsub (sn_at s') (sn_at s)) = Inr d"
    and a: "weigh_accounts ex d (sn_accounts s) [] m = Inr m1"
    and r: "weigh_snapshots ex (Some (sn_at s)) (s' # ss) m1 = Inr m'"
    by (auto simp: bindR_Inr_iff split: if_splits)
  from r have s': "is_safe_integer (sn_at s')" and lt: "\<not> nle (sn_at s') (sn_at s)"
    by (auto split: if_splits)
  obtain i where i: "sn_at s = nint i" "\<bar>i\<bar> \<le> max_safe" by (rule safe_integerE [OF s])
  obtain j where j: "sn_at s' = nint j" "\<bar>j\<bar> \<le> max_safe" by (rule safe_integerE [OF s'])
  from lt i j have ij: "i < j" by simp
  with "1.prems"(2) i j have "0 \<le> i" "\<bar>j - i\<bar> \<le> max_safe" by auto
  then have dj: "d = j - i" using d i j by (simp add: nsub_nint del: of_int_diff)
  have "\<forall>s \<in> set (take 1 (s' # ss)). 0 \<le> to_int (sn_at s)" using ij \<open>0 \<le> i\<close> j by simp
  from "1.IH" [OF r this] weigh_accounts_oget0 [OF a, of w] dj i j
  show ?case by (auto simp: snapshot_balance_def)
qed (simp_all add: weigh_last del: weigh_snapshots.simps(2))

text \<open>
  C6.  A reward period weighs every wallet by its balance over time: a wallet is in the result if
  and only if it is not excluded and its time-weighted balance is positive, its weight is exactly
  that number, and no wallet occurs twice.  The period starts at a non-negative time.
\<close>

theorem holdingWeights_correct:
  assumes "holdingWeights lc (nint start) end' snapshots excluded coverage = Inr ws" and "0 \<le> start"
  shows "distinct (map hw_wallet ws)
    \<and> map_of (map (\<lambda>r. (hw_wallet r, hw_weight r)) ws) w =
        (if w \<notin> set excluded \<and> 0 < time_weight w snapshots
         then Some (Str (show_dec (time_weight w snapshots))) else None)"
proof -
  let ?le = "\<lambda>a b :: string \<times> int. lc (fst a) (fst b) \<le> 0"
  from assms(1) obtain m where m: "weigh_snapshots excluded None snapshots [] = Inr m"
    and ws: "ws = map (\<lambda>p. \<lparr>hw_wallet = fst p, hw_weight = Str (show_int (snd p))\<rparr>)
        (sort_by ?le (filter (\<lambda>p. 0 < snd p) m))"
    and ne: "2 \<le> length snapshots" and eq: "\<not> neq_js (sn_at (hd snapshots)) (nint start)"
    by (auto simp: holdingWeights_def bindR_Inr_iff case_prod_unfold split: if_splits)
  from eq have "sn_at (hd snapshots) = nint start" by (auto simp: neq_js_def)
  then have first: "\<forall>s \<in> set (take 1 snapshots). 0 \<le> to_int (sn_at s)"
    using assms(2) ne by (cases snapshots) auto
  have g: "oget0 m v = (if v \<in> set excluded then 0 else time_weight v snapshots)" "distinct (map fst m)" for v
    using weigh_snapshots_oget0 [OF m first, of v] by (auto simp: oget0_def)
  have f: "distinct (map fst (filter (\<lambda>p. 0 < snd p) m))"
    using g(2) by (simp add: distinct_map_filter)
  have wal: "map hw_wallet ws = map fst (sort_by ?le (filter (\<lambda>p. 0 < snd p) m))"
    by (simp add: ws comp_def)
  have "map_of (map (\<lambda>r. (hw_wallet r, hw_weight r)) ws) w
      = map_option (\<lambda>x. Str (show_int x)) (map_of (sort_by ?le (filter (\<lambda>p. 0 < snd p) m)) w)"
    by (simp add: ws comp_def map_of_map_snd [where f = "\<lambda>x. Str (show_int x)"])
  also have "\<dots> = (if 0 < oget0 m w then Some (Str (show_int (oget0 m w))) else None)"
    by (simp only: map_of_sort_by [OF f] map_of_filter_pos [OF g(2)]) simp
  finally have "map_of (map (\<lambda>r. (hw_wallet r, hw_weight r)) ws) w =
      (if w \<notin> set excluded \<and> 0 < time_weight w snapshots
       then Some (Str (show_dec (time_weight w snapshots))) else None)"
    by (simp add: g(1))
  moreover have "distinct (map hw_wallet ws)" unfolding wal using f by simp
  ultimately show ?thesis by blast
qed

definition sample_account :: "string \<Rightarrow> string \<Rightarrow> holder_account" where
  "sample_account w b = \<lparr>ha_account = w, ha_wallet = w, ha_balance = Str b\<rparr>"

definition sample_snapshots :: "holder_snapshot list" where
  "sample_snapshots =
     [\<lparr>sn_at = nint 0, sn_accounts = [sample_account ''a'' ''2'', sample_account ''b'' ''1'']\<rparr>,
      \<lparr>sn_at = nint 5, sn_accounts = [sample_account ''b'' ''3'']\<rparr>,
      \<lparr>sn_at = nint 7, sn_accounts = []\<rparr>]"

theorem holdingWeights_correct_witness:
  "distinct (map hw_wallet [\<lparr>hw_wallet = ''a'', hw_weight = Str ''10''\<rparr>, \<lparr>hw_wallet = ''b'', hw_weight = Str ''11''\<rparr>])
    \<and> map_of (map (\<lambda>r. (hw_wallet r, hw_weight r))
        [\<lparr>hw_wallet = ''a'', hw_weight = Str ''10''\<rparr>, \<lparr>hw_wallet = ''b'', hw_weight = Str ''11''\<rparr>]) ''b'' =
        (if ''b'' \<notin> set [] \<and> 0 < time_weight ''b'' sample_snapshots
         then Some (Str (show_dec (time_weight ''b'' sample_snapshots))) else None)"
proof (rule holdingWeights_correct)
  show "holdingWeights (\<lambda>_ _. 0) (nint 0) (nint 7) sample_snapshots [] ''complete-finalized''
    = Inr [\<lparr>hw_wallet = ''a'', hw_weight = Str ''10''\<rparr>, \<lparr>hw_wallet = ''b'', hw_weight = Str ''11''\<rparr>]"
    by code_simp
qed simp

end
