(* ===== verification/Bytes.thy ===== *)
theory Bytes
  imports JsConv "HOL-Library.Word"
begin

text \<open>
  Byte buffers: hexadecimal and little-endian encodings (\<open>Buffer\<close>), with the round trips and the
  injectivity of fixed-width encodings that hashed preimages rely on.
\<close>

type_synonym byte = "8 word"

definition byte_of :: "int \<Rightarrow> byte" where "byte_of i = word_of_int i"

definition ascii :: "string \<Rightarrow> byte list" where "ascii s = map (\<lambda>c. byte_of (ccode c)) s"

text \<open>\<open>Buffer.from(s)\<close>: UTF-8 of code units below 256.\<close>

definition utf8 :: "string \<Rightarrow> byte list" where
  "utf8 s = concat (map (\<lambda>c. if ccode c < 128 then [byte_of (ccode c)]
     else [byte_of (192 + ccode c div 64), byte_of (128 + ccode c mod 64)]) s)"

definition hex_digit :: "int \<Rightarrow> char" where
  "hex_digit d = (if d < 10 then char_of (48 + d) else char_of (87 + d))"

text \<open>\<open>b.toString('hex')\<close> and \<open>Buffer.from(s, 'hex')\<close> for an even number of hex digits.\<close>

fun hex_of :: "byte list \<Rightarrow> string" where
  "hex_of [] = []"
| "hex_of (b # bs) = hex_digit (uint b div 16) # hex_digit (uint b mod 16) # hex_of bs"

fun unhex :: "string \<Rightarrow> byte list" where
  "unhex (a # b # r) = byte_of (hex_val a * 16 + hex_val b) # unhex r"
| "unhex _ = []"

text \<open>Eight bytes of \<open>writeBigUInt64LE\<close>, and the little-endian value of a buffer.\<close>

fun le_bytes :: "nat \<Rightarrow> int \<Rightarrow> byte list" where
  "le_bytes 0 n = []"
| "le_bytes (Suc k) n = byte_of n # le_bytes k (n div 256)"

fun le_value :: "byte list \<Rightarrow> int" where
  "le_value [] = 0"
| "le_value (b # bs) = uint b + 256 * le_value bs"

lemma uint_byte_range:
  fixes b :: byte
  shows "0 \<le> uint b" and "uint b < 256" and "0 \<le> uint b div 16" and "uint b div 16 < 16"
proof -
  show r: "0 \<le> uint b" "uint b < 256" using unsigned_less [of b, where ?'a = int] by simp_all
  then show "0 \<le> uint b div 16" "uint b div 16 < 16" by (simp_all add: pos_imp_zdiv_nonneg_iff)
qed

lemma length_le_bytes [simp]: "length (le_bytes k n) = k"
  by (induction k arbitrary: n) auto

lemma uint_byte_of: "uint (byte_of n) = n mod 256"
  by (simp add: byte_of_def uint_word_of_int)

lemma le_value_bytes: "le_value (le_bytes k n) = n mod 256 ^ k"
proof (induction k arbitrary: n)
  case 0
  then show ?case by simp
next
  case (Suc k)
  have "n mod (256 * 256 ^ k) = 256 * (n div 256 mod 256 ^ k) + n mod 256"
    by (rule zmod_zmult2_eq) simp
  with Suc show ?case by (simp add: uint_byte_of)
qed

lemma le_round_trip: "0 \<le> n \<Longrightarrow> n < 256 ^ k \<Longrightarrow> le_value (le_bytes k n) = n"
  by (simp add: le_value_bytes)

lemma le_bytes_inj:
  assumes "le_bytes k m = le_bytes k n" and "0 \<le> m" "m < 256 ^ k" "0 \<le> n" "n < 256 ^ k"
  shows "m = n"
  using assms le_round_trip by metis

lemma le_value_range: "0 \<le> le_value bs \<and> le_value bs < 256 ^ length bs"
proof (induction bs)
  case Nil
  then show ?case by simp
next
  case (Cons b bs)
  have "0 \<le> uint b" "uint b < 256" by (rule uint_byte_range)+
  with Cons show ?case by simp
qed

lemma le_bytes_value: "le_bytes (length bs) (le_value bs) = bs"
proof (induction bs)
  case Nil
  then show ?case by simp
next
  case (Cons b bs)
  have u: "0 \<le> uint b" "uint b < 256" by (rule uint_byte_range)+
  then have "(uint b + 256 * le_value bs) div 256 = le_value bs" by simp
  moreover have "byte_of (uint b + 256 * le_value bs) = b"
    by (rule word_uint_eqI) (use u in \<open>simp add: uint_byte_of\<close>)
  ultimately show ?case using Cons by simp
qed

lemma take_le_bytes: "k \<le> n \<Longrightarrow> take k (le_bytes n v) = le_bytes k v"
proof (induction n arbitrary: k v)
  case 0
  then show ?case by simp
next
  case (Suc n)
  then show ?case by (cases k) auto
qed

lemma hex_val_digit:
  assumes "0 \<le> d" and "d < 16"
  shows "hex_val (hex_digit d) = d" and "is_hex_lower (hex_digit d)"
proof -
  have c: "ccode (hex_digit d) = (if d < 10 then 48 + d else 87 + d)"
    using assms by (simp add: ccode_def hex_digit_def)
  show "hex_val (hex_digit d) = d" "is_hex_lower (hex_digit d)"
    using c assms
    by (auto simp: hex_val_def is_digit_def digit_val_def is_lower_def is_hex_lower_def split: if_splits)
qed

lemma unhex_hex_of [simp]: "unhex (hex_of bs) = bs"
proof (induction bs)
  case Nil
  then show ?case by simp
next
  case (Cons b bs)
  have h: "hex_val (hex_digit (uint b div 16)) = uint b div 16"
      "hex_val (hex_digit (uint b mod 16)) = uint b mod 16"
    using uint_byte_range [of b] by (auto intro!: hex_val_digit(1))
  have "uint b div 16 * 16 + uint b mod 16 = uint b" by (rule div_mult_mod_eq)
  with h Cons show ?case by (simp add: byte_of_def)
qed

lemma length_hex_of [simp]: "length (hex_of bs) = 2 * length bs"
  by (induction bs) auto

lemma length_unhex: "length (unhex s) = length s div 2"
  by (induction s rule: unhex.induct) auto

lemma hex_of_lower: "list_all is_hex_lower (hex_of bs)"
proof (induction bs)
  case Nil
  then show ?case by simp
next
  case (Cons b bs)
  with uint_byte_range [of b] show ?case by (auto intro!: hex_val_digit(2))
qed

lemma hex_of_inj [simp]: "hex_of a = hex_of b \<longleftrightarrow> a = b"
  by (metis unhex_hex_of)

end
