(* ===== verification/Merkle.thy ===== *)
theory Merkle
  imports Bytes
begin

text \<open>
  Merkle trees of reward claims, \<open>reward-merkle.js\<close>.  SHA-256 and the decoding of Solana addresses
  are library functions: the record \<open>lib\<close> holds them and \<open>lib_ok\<close> states what their
  documentation promises.  The tree shape, the proofs and their verification are generic in the
  pair hash and are reused by \<open>community-merkle.js\<close>.
\<close>

record lib =
  sha256 :: "byte list \<Rightarrow> byte list"
  pk_decode :: "jsval \<Rightarrow> byte list option"
  pk_encode :: "byte list \<Rightarrow> string"

text \<open>Digests and addresses have 32 bytes, and decoding inverts encoding.\<close>

definition lib_ok :: "lib \<Rightarrow> bool" where
  "lib_ok L \<longleftrightarrow> (\<forall>x. length (sha256 L x) = 32)
     \<and> (\<forall>v b. pk_decode L v = Some b \<longrightarrow> length b = 32)
     \<and> (\<forall>b. length b = 32 \<longrightarrow> pk_decode L (Str (pk_encode L b)) = Some b)"

section \<open>Trees\<close>

text \<open>One pass of the loop over a level: neighbours are paired, an odd last node moves up.\<close>

fun pair_up :: "('a \<Rightarrow> 'a \<Rightarrow> 'a) \<Rightarrow> 'a list \<Rightarrow> 'a list" where
  "pair_up f (a # b # r) = f a b # pair_up f r"
| "pair_up f r = r"

lemma length_pair_up: "length (pair_up f l) = (length l + 1) div 2"
  by (induction f l rule: pair_up.induct) auto

function levels :: "('a \<Rightarrow> 'a \<Rightarrow> 'a) \<Rightarrow> 'a list \<Rightarrow> 'a list list" where
  "levels f l = (if length l \<le> 1 then [l] else l # levels f (pair_up f l))"
  by pat_completeness auto
termination
  by (relation "measure (\<lambda>(f, l). length l)") (auto simp: length_pair_up)

declare levels.simps [simp del]

definition sibling_of :: "nat \<Rightarrow> nat" where
  "sibling_of pos = (if pos mod 2 = 0 then pos + 1 else pos - 1)"

fun proof_path :: "'a list list \<Rightarrow> nat \<Rightarrow> 'a list" where
  "proof_path (lv # lv' # rest) pos =
     (if sibling_of pos < length lv then [lv ! sibling_of pos] else []) @ proof_path (lv' # rest) (pos div 2)"
| "proof_path _ pos = []"

definition tree_root :: "('a \<Rightarrow> 'a \<Rightarrow> 'a) \<Rightarrow> 'a list \<Rightarrow> 'a" where
  "tree_root f l = hd (last (levels f l))"

definition tree_nodes :: "('a \<Rightarrow> 'a \<Rightarrow> 'a) \<Rightarrow> 'a list \<Rightarrow> 'a set" where
  "tree_nodes f l = \<Union> (set ` set (levels f l))"

text \<open>The pairs that are hashed to build a tree, and to follow a path.\<close>

fun pair_args :: "'a list \<Rightarrow> ('a \<times> 'a) list" where
  "pair_args (a # b # r) = (a, b) # pair_args r"
| "pair_args _ = []"

definition tree_args :: "('a \<Rightarrow> 'a \<Rightarrow> 'a) \<Rightarrow> 'a list \<Rightarrow> ('a \<times> 'a) list" where
  "tree_args f l = concat (map pair_args (levels f l))"

fun path_args :: "('a \<Rightarrow> 'a \<Rightarrow> 'a) \<Rightarrow> 'a \<Rightarrow> 'a list \<Rightarrow> ('a \<times> 'a) list" where
  "path_args f x [] = []"
| "path_args f x (s # p) = (x, s) # path_args f (f x s) p"

lemma path_args_snoc: "path_args f x (p @ [s]) = path_args f x p @ [(foldl f x p, s)]"
  by (induction p arbitrary: x) simp_all

lemma levels_nonempty [simp]: "levels f l \<noteq> []"
  by (subst levels.simps) simp

lemma levels_Cons:
  "1 < length l \<Longrightarrow> \<exists>lv rest. levels f (pair_up f l) = lv # rest \<and> levels f l = l # lv # rest"
  by (metis levels.simps levels_nonempty list.exhaust not_le)

lemma tree_root_step: "1 < length l \<Longrightarrow> tree_root f l = tree_root f (pair_up f l)"
  by (simp add: tree_root_def levels.simps [of f l])

lemma pair_up_nth:
  "i < length l \<Longrightarrow> pair_up f l ! (i div 2) =
     (if sibling_of i < length l
      then (if i mod 2 = 0 then f (l ! i) (l ! sibling_of i) else f (l ! sibling_of i) (l ! i))
      else l ! i)"
proof (induction f l arbitrary: i rule: pair_up.induct)
  case (1 f a b r)
  show ?case
  proof (cases "i < 2")
    case True
    then have "i = 0 \<or> i = 1" by arith
    then show ?thesis by (auto simp: sibling_of_def)
  next
    case False
    then obtain j where i: "i = Suc (Suc j)" by (metis Suc_pred' less_2_cases_iff less_Suc_eq_0_disj not_gr_zero not_less_eq numeral_2_eq_2)
    have s: "sibling_of i = Suc (Suc (sibling_of j))" unfolding i sibling_of_def by (cases "even j") (auto elim: oddE)
    have m: "i mod 2 = j mod 2" "i div 2 = Suc (j div 2)" by (simp_all add: i)
    from "1.IH" [of j] "1.prems" show ?thesis unfolding s m by (simp add: i)
  qed
qed (auto simp: sibling_of_def)

lemma levels_hd: "hd (levels f l) = l"
  by (subst levels.simps) simp

lemma tree_nodes_leaves: "set l \<subseteq> tree_nodes f l"
  using levels_hd [of f l] unfolding tree_nodes_def
  by (metis UN_upper levels_nonempty list.set_sel(1))

lemma tree_nodes_step:
  "tree_nodes f l = (if length l \<le> 1 then set l else set l \<union> tree_nodes f (pair_up f l))"
  unfolding tree_nodes_def by (subst levels.simps) simp

lemma tree_args_step:
  "1 < length l \<Longrightarrow> tree_args f l = pair_args l @ tree_args f (pair_up f l)"
  unfolding tree_args_def by (subst levels.simps) simp

lemma pair_args_set: "(a, b) \<in> set (pair_args l) \<Longrightarrow> a \<in> set l \<and> b \<in> set l"
  by (induction l rule: pair_args.induct) auto

lemma set_pair_up: "e \<in> set (pair_up f l) \<Longrightarrow> e \<in> set l \<or> (\<exists>(a, b) \<in> set (pair_args l). e = f a b)"
  by (induction f l rule: pair_up.induct) auto

text \<open>A node of the tree is a leaf or the hash of one of the hashed pairs, and these are nodes.\<close>

lemma tree_nodes_cases:
  "e \<in> tree_nodes f l \<Longrightarrow> e \<in> set l \<or> (\<exists>(a, b) \<in> set (tree_args f l). e = f a b)"
proof (induction f l rule: levels.induct)
  case (1 f l)
  show ?case
  proof (cases "length l \<le> 1")
    case True
    with "1.prems" show ?thesis by (simp add: tree_nodes_step [of f l])
  next
    case False
    then have "set l \<union> tree_nodes f (pair_up f l) = tree_nodes f l" by (simp add: tree_nodes_step [of f l])
    with "1.prems" consider "e \<in> set l" | "e \<in> tree_nodes f (pair_up f l)" by blast
    then show ?thesis
    proof cases
      case 2
      from "1.IH" [OF False 2] set_pair_up [of e f l] False show ?thesis
        by (auto simp: tree_args_step)
    qed simp
  qed
qed

lemma tree_args_nodes:
  "(a, b) \<in> set (tree_args f l) \<Longrightarrow> a \<in> tree_nodes f l \<and> b \<in> tree_nodes f l"
  unfolding tree_args_def tree_nodes_def by (auto dest: pair_args_set)

lemma pair_up_nonempty: "l \<noteq> [] \<Longrightarrow> pair_up f l \<noteq> []"
  by (induction f l rule: pair_up.induct) auto

lemma tree_root_in: "l \<noteq> [] \<Longrightarrow> tree_root f l \<in> tree_nodes f l"
proof (induction f l rule: levels.induct)
  case (1 f l)
  show ?case
  proof (cases "length l \<le> 1")
    case True
    with "1.prems" show ?thesis by (simp add: tree_root_def tree_nodes_def levels.simps [of f l])
  next
    case False
    with "1.IH" [OF False pair_up_nonempty [OF "1.prems"]] show ?thesis
      by (simp add: tree_root_step tree_nodes_step [of f l])
  qed
qed

text \<open>The interface of the pair hash: it does not depend on the order of its arguments.\<close>

locale hash_tree =
  fixes pair :: "'a \<Rightarrow> 'a \<Rightarrow> 'a"
  assumes pair_comm: "pair a b = pair b a"
begin

text \<open>Every leaf verifies with its path: folding the path from the leaf gives the root.\<close>

lemma path_verifies: "i < length l \<Longrightarrow> foldl pair (l ! i) (proof_path (levels pair l) i) = tree_root pair l"
proof (induction "length l" arbitrary: l i rule: less_induct)
  case less
  show ?case
  proof (cases "length l \<le> 1")
    case True
    with less.prems obtain x where "l = [x]" "i = 0" by (cases l) auto
    then show ?thesis by (simp add: tree_root_def levels.simps [of pair "[x]"])
  next
    case False
    then obtain lv rest where lv: "levels pair (pair_up pair l) = lv # rest" "levels pair l = l # lv # rest"
      using levels_Cons [of l pair] by auto
    let ?up = "pair_up pair l" and ?s = "sibling_of i"
    have up: "i div 2 < length ?up" "length ?up < length l" using less.prems False by (auto simp: length_pair_up)
    have step: "?up ! (i div 2) = (if ?s < length l then pair (l ! i) (l ! ?s) else l ! i)"
      using pair_up_nth [OF less.prems, of pair] pair_comm by auto
    have "foldl pair (l ! i) (proof_path (levels pair l) i)
        = foldl pair (?up ! (i div 2)) (proof_path (levels pair ?up) (i div 2))"
      by (simp add: lv step)
    also have "\<dots> = tree_root pair ?up" by (rule less.hyps [OF up(2,1)])
    finally show ?thesis using False by (simp add: tree_root_step)
  qed
qed

lemma path_length: "length l \<le> 2 ^ k \<Longrightarrow> length (proof_path (levels pair l) i) \<le> k"
proof (induction k arbitrary: l i)
  case 0
  then show ?case by (simp add: levels.simps [of pair l])
next
  case (Suc k)
  show ?case
  proof (cases "length l \<le> 1")
    case True
    then show ?thesis by (simp add: levels.simps [of pair l])
  next
    case False
    then obtain lv rest where lv: "levels pair (pair_up pair l) = lv # rest" "levels pair l = l # lv # rest"
      using levels_Cons [of l pair] by auto
    have "length (pair_up pair l) \<le> 2 ^ k" using Suc.prems by (simp add: length_pair_up)
    from Suc.IH [OF this, of "i div 2"] show ?thesis by (simp add: lv)
  qed
qed

end

text \<open>
  The interface that makes a root binding: a pair is hashed as a message that determines it up to
  order.  No hash is injective, so the lemmas speak of the messages that are hashed to build the
  tree and to follow one path: if no two of these collide, the root accepts its leaves only.
\<close>

locale binding_tree =
  fixes h :: "'m \<Rightarrow> 'a" and msg :: "'a \<Rightarrow> 'a \<Rightarrow> 'm" and pair :: "'a \<Rightarrow> 'a \<Rightarrow> 'a"
    and node :: "'a \<Rightarrow> bool"
  assumes pair_hash: "pair a b = h (msg a b)"
    and msg_comm: "msg a b = msg b a"
    and msg_inj: "node a \<Longrightarrow> node b \<Longrightarrow> node c \<Longrightarrow> node d \<Longrightarrow> msg a b = msg c d
      \<Longrightarrow> (a = c \<and> b = d) \<or> (a = d \<and> b = c)"

sublocale binding_tree \<subseteq> hash_tree pair
  by unfold_locales (simp add: pair_hash msg_comm)

context binding_tree begin

lemma nodes_closed:
  assumes "\<And>m. node (h m)" and "e \<in> tree_nodes pair (map h lm)"
  shows "node e"
  using tree_nodes_cases [OF assms(2)] assms(1) by (auto simp: pair_hash)

lemma accepted_in_tree:
  assumes inj: "inj_on h M" and closed: "\<And>m. node (h m)"
    and M: "set lm \<subseteq> M" "(\<lambda>(a, b). msg a b) ` set (tree_args pair (map h lm)) \<subseteq> M"
      "(\<lambda>(a, b). msg a b) ` set (path_args pair x p) \<subseteq> M"
    and apart: "\<And>a b. node a \<Longrightarrow> node b \<Longrightarrow> msg a b \<notin> set lm"
    and x: "node x" and p: "\<forall>s \<in> set p. node s"
    and acc: "foldl pair x p \<in> tree_nodes pair (map h lm)"
  shows "x \<in> tree_nodes pair (map h lm)"
  using M(3) p acc
proof (induction p rule: rev_induct)
  case Nil
  then show ?case by simp
next
  case (snoc s p)
  let ?n = "foldl pair x p" and ?T = "tree_nodes pair (map h lm)"
  have n: "node ?n" using x closed by (cases p rule: rev_cases) (auto simp: pair_hash)
  have s: "node s" and mM: "msg ?n s \<in> M" using snoc.prems by (auto simp: path_args_snoc)
  have e: "h (msg ?n s) \<in> ?T" using snoc.prems(3) by (simp add: pair_hash [of ?n s, symmetric])
  have "?n \<in> ?T"
  proof (cases "h (msg ?n s) \<in> h ` set lm")
    case True
    then obtain m where "m \<in> set lm" "h (msg ?n s) = h m" by auto
    with inj mM M(1) have "msg ?n s \<in> set lm" by (metis inj_onD subsetD)
    with apart [OF n s] show ?thesis by simp
  next
    case False
    with tree_nodes_cases [OF e] obtain a b
      where ab: "(a, b) \<in> set (tree_args pair (map h lm))" "h (msg ?n s) = h (msg a b)"
      by (auto simp: pair_hash)
    then have "msg a b \<in> M" using M(2) by auto
    with ab inj mM have m: "msg ?n s = msg a b" by (metis inj_onD)
    have T: "a \<in> ?T" "b \<in> ?T" using tree_args_nodes [OF ab(1)] by simp_all
    from msg_inj [OF n s nodes_closed [OF closed T(1)] nodes_closed [OF closed T(2)] m] T
    show ?thesis by auto
  qed
  with snoc show ?case by (simp add: path_args_snoc)
qed

text \<open>A message whose hash folds to the root along a path is the message of a leaf.\<close>

lemma claim_is_leaf:
  assumes acc: "foldl pair (h cm) p = tree_root pair (map h lm)" and "lm \<noteq> []"
    and inj: "inj_on h (insert cm (set lm) \<union> (\<lambda>(a, b). msg a b) `
        (set (tree_args pair (map h lm)) \<union> set (path_args pair (h cm) p)))"
    and closed: "\<And>m. node (h m)" and p: "\<forall>s \<in> set p. node s"
    and apart: "\<And>a b. node a \<Longrightarrow> node b \<Longrightarrow> msg a b \<notin> insert cm (set lm)"
  shows "cm \<in> set lm"
proof -
  let ?T = "tree_nodes pair (map h lm)"
  have "h cm \<in> ?T"
    by (rule accepted_in_tree [OF inj closed _ _ _ _ closed p])
      (use apart tree_root_in [of "map h lm" pair] assms(2) in \<open>auto simp: acc\<close>)
  then consider "h cm \<in> h ` set lm" | a b where "(a, b) \<in> set (tree_args pair (map h lm))" "h cm = h (msg a b)"
    using tree_nodes_cases [of "h cm" pair "map h lm"] by (auto simp: pair_hash)
  then show ?thesis
  proof cases
    case 1
    then show ?thesis using inj by (auto dest!: inj_onD)
  next
    case 2
    have "cm = msg a b" by (rule inj_onD [OF inj 2(2)]) (use 2(1) in force)+
    with tree_args_nodes [OF 2(1)] nodes_closed [OF closed] apart show ?thesis by blast
  qed
qed

end

section \<open>reward-merkle.js\<close>

definition REWARD_LEAF_DOMAIN :: "byte list" where
  "REWARD_LEAF_DOMAIN = ascii ''funded-reward-leaf-v1''"

definition SOL_ASSET_MINT :: string where
  "SOL_ASSET_MINT = ''11111111111111111111111111111111''"

text \<open>\<open>hash(...parts)\<close> digests the concatenation of its parts.\<close>

definition hash_parts :: "lib \<Rightarrow> byte list list \<Rightarrow> byte list" where
  "hash_parts L parts = sha256 L (concat parts)"

definition uint_bytes :: "jsval \<Rightarrow> nat \<Rightarrow> byte list res" where
  "uint_bytes v n =
     bindR (to_bigint v) (\<lambda>parsed.
       if parsed < 0 \<or> parsed \<ge> 2 ^ (n * 8)
         then throw (''Value does not fit in '' @ show_int (int n) @ '' bytes.'')
       else Inr (take n (le_bytes 8 parsed)))"

text \<open>The first argument is a buffer or a value; a string must be 64 hex digits.\<close>

datatype hash_val = HBytes "byte list" | HVal jsval

definition is_hex64 :: "string \<Rightarrow> bool" where
  "is_hex64 s \<longleftrightarrow> length s = 64 \<and> list_all is_hex s"

definition bytes32 :: "hash_val \<Rightarrow> string \<Rightarrow> byte list res" where
  "bytes32 v label =
     (case v of
        HBytes b \<Rightarrow> if length b = 32 then Inr b
          else throw (label @ '' must be 32 bytes or a 64-character hex string.'')
      | HVal (Str s) \<Rightarrow> if is_hex64 s then Inr (unhex s)
          else throw (label @ '' must be 32 bytes or a 64-character hex string.'')
      | HVal _ \<Rightarrow> throw (label @ '' must be 32 bytes or a 64-character hex string.''))"

definition publicKeyBytes :: "lib \<Rightarrow> jsval \<Rightarrow> string \<Rightarrow> byte list res" where
  "publicKeyBytes L v label =
     (case pk_decode L v of Some b \<Rightarrow> Inr b | None \<Rightarrow> throw (label @ '' must be a valid Solana address.''))"

definition rewardLeaf :: "lib \<Rightarrow> hash_val \<Rightarrow> jsval \<Rightarrow> string \<Rightarrow> jsval \<Rightarrow> jsval \<Rightarrow> byte list res" where
  "rewardLeaf L cycleId recipient asset amount index =
     (let assetMint = (if asset = ''SOL'' then SOL_ASSET_MINT else asset) in
      bindR (bytes32 cycleId ''cycleId'') (\<lambda>c.
      bindR (publicKeyBytes L recipient ''recipient'') (\<lambda>r.
      bindR (publicKeyBytes L (Str assetMint) ''asset'') (\<lambda>a.
      bindR (uint_bytes amount 8) (\<lambda>m.
      bindR (uint_bytes index 4) (\<lambda>i.
        Inr (hash_parts L [REWARD_LEAF_DOMAIN, c, r, a, m, i])))))))"

text \<open>\<open>Buffer.compare\<close> is the lexicographic order of the bytes.\<close>

definition pairHash :: "lib \<Rightarrow> byte list \<Rightarrow> byte list \<Rightarrow> byte list" where
  "pairHash L left right =
     (if left \<le> right then hash_parts L [left, right] else hash_parts L [right, left])"

definition createRewardCycleId :: "lib \<Rightarrow> jsval \<Rightarrow> jsval \<Rightarrow> jsval \<Rightarrow> jsval \<Rightarrow> jsval \<Rightarrow> string res" where
  "createRewardCycleId L mint kind asset periodStart periodEnd =
     (if \<not> is_safe periodStart \<or> \<not> is_safe periodEnd \<or> safe_int periodEnd \<le> safe_int periodStart
        then throw ''Invalid reward cycle period.''
      else bindR (publicKeyBytes L mint ''mint'') (\<lambda>m.
           bindR (uint_bytes periodStart 8) (\<lambda>s.
           bindR (uint_bytes periodEnd 8) (\<lambda>e.
             Inr (hex_of (hash_parts L [ascii ''funded-reward-cycle-v1'', m, utf8 (to_str kind),
               utf8 (to_str asset), s, e]))))))"

record reward_leaf =
  lf_index :: int
  lf_recipient :: string
  lf_amount :: string
  lf_hash :: string
  lf_proof :: "string list"

record reward_manifest =
  rm_version :: int
  rm_cycleId :: string
  rm_asset :: string
  rm_root :: string
  rm_totalAmount :: string
  rm_leaves :: "reward_leaf list"

text \<open>The body of \<open>allocations.map\<close>: the recipient, the amount and the hash of one leaf.\<close>

fun reward_leaves ::
  "lib \<Rightarrow> hash_val \<Rightarrow> string \<Rightarrow> jsval list \<Rightarrow> nat \<Rightarrow> string list \<Rightarrow> (string \<times> string \<times> byte list) list res" where
  "reward_leaves L cycleId asset [] index seen = Inr []"
| "reward_leaves L cycleId asset (row # rows) index seen =
     bindR (bindR (jget row ''recipient'') (\<lambda>a. Inr (jor a (oget row ''wallet'')))) (\<lambda>who.
     case pk_decode L who of
       None \<Rightarrow> Inl LibErr
     | Some key \<Rightarrow>
       (let recipient = pk_encode L key;
            amount = to_str (nullish (nullish (oget row ''amount'') (oget row ''amountLamports'')) (Str [])) in
        if recipient \<in> set seen
          then throw ''A reward manifest may contain only one leaf per recipient.''
        else if \<not> all_digits amount \<or> parse_dec amount \<le> 0
          then throw ''Reward amounts must be positive integer strings.''
        else bindR (rewardLeaf L cycleId (Str recipient) asset (Str amount) (Num (nint (int index)))) (\<lambda>h.
             bindR (reward_leaves L cycleId asset rows (Suc index) (recipient # seen)) (\<lambda>rest.
               Inr ((recipient, amount, h) # rest)))))"

definition manifest_leaves :: "(byte list \<Rightarrow> byte list \<Rightarrow> byte list) \<Rightarrow> (string \<times> string \<times> byte list) list \<Rightarrow> reward_leaf list" where
  "manifest_leaves f rows =
     (let lvls = levels f (map (\<lambda>(_, _, h). h) rows) in
      map (\<lambda>(i, r, a, h). \<lparr>lf_index = int i, lf_recipient = r, lf_amount = a, lf_hash = hex_of h,
             lf_proof = map hex_of (proof_path lvls i)\<rparr>)
          (zip [0..<length rows] rows))"

definition buildRewardManifest :: "lib \<Rightarrow> hash_val \<Rightarrow> string \<Rightarrow> jsval \<Rightarrow> reward_manifest res" where
  "buildRewardManifest L cycleId asset allocations =
     (case allocations of
        Arr (a # as) \<Rightarrow>
          bindR (reward_leaves L cycleId asset (a # as) 0 []) (\<lambda>rows.
          bindR (bytes32 cycleId ''cycleId'') (\<lambda>c.
            Inr \<lparr>rm_version = 1, rm_cycleId = hex_of c, rm_asset = asset,
                 rm_root = hex_of (tree_root (pairHash L) (map (\<lambda>(_, _, h). h) rows)),
                 rm_totalAmount = show_int (sum_list (map (\<lambda>(_, a, _). parse_dec a) rows)),
                 rm_leaves = manifest_leaves (pairHash L) rows\<rparr>))
      | _ \<Rightarrow> throw ''At least one reward allocation is required.'')"

definition verifyRewardProof ::
  "lib \<Rightarrow> hash_val \<Rightarrow> string \<Rightarrow> jsval \<Rightarrow> jsval \<Rightarrow> jsval \<Rightarrow> hash_val list \<Rightarrow> hash_val \<Rightarrow> bool res" where
  "verifyRewardProof L cycleId asset recipient amount index path rt =
     bindR (rewardLeaf L cycleId recipient asset amount index) (\<lambda>leaf.
     bindR (foldR (\<lambda>node s. bindR (bytes32 s ''proof node'') (\<lambda>b. Inr (pairHash L node b))) leaf path) (\<lambda>node.
     bindR (bytes32 rt ''root'') (\<lambda>r. Inr (node = r))))"

section \<open>Lemmas\<close>

text \<open>The message a leaf hashes, and the message a pair hashes.\<close>

definition leaf_message :: "lib \<Rightarrow> hash_val \<Rightarrow> jsval \<Rightarrow> string \<Rightarrow> jsval \<Rightarrow> jsval \<Rightarrow> byte list res" where
  "leaf_message L cycleId recipient asset amount index =
     bindR (bytes32 cycleId ''cycleId'') (\<lambda>c.
     bindR (publicKeyBytes L recipient ''recipient'') (\<lambda>r.
     bindR (publicKeyBytes L (Str (if asset = ''SOL'' then SOL_ASSET_MINT else asset)) ''asset'') (\<lambda>a.
     bindR (uint_bytes amount 8) (\<lambda>m.
     bindR (uint_bytes index 4) (\<lambda>i. Inr (REWARD_LEAF_DOMAIN @ c @ r @ a @ m @ i))))))"

definition pair_message :: "byte list \<Rightarrow> byte list \<Rightarrow> byte list" where
  "pair_message a b = (if a \<le> b then a @ b else b @ a)"

lemma rewardLeaf_eq:
  "rewardLeaf L c r a m i = bindR (leaf_message L c r a m i) (\<lambda>x. Inr (sha256 L x))"
  by (simp add: rewardLeaf_def leaf_message_def hash_parts_def Let_def bindR_def split: sum.splits)

interpretation reward: binding_tree "sha256 L" pair_message "pairHash L" "\<lambda>b. length b = 32" for L
proof unfold_locales
  fix a b c d :: "byte list"
  show "pairHash L a b = sha256 L (pair_message a b)"
    by (simp add: pairHash_def pair_message_def hash_parts_def)
  show "pair_message a b = pair_message b a"
    using linorder_linear [of a b] by (auto simp: pair_message_def)
  show "length a = 32 \<Longrightarrow> length b = 32 \<Longrightarrow> length c = 32 \<Longrightarrow> length d = 32 \<Longrightarrow>
      pair_message a b = pair_message c d \<Longrightarrow> a = c \<and> b = d \<or> a = d \<and> b = c"
    by (auto simp: pair_message_def split: if_splits)
qed

text \<open>
  \<open>bytes32\<close> gives 32 bytes, \<open>uint\<close> as many as it is asked for, and the bytes determine the value.
\<close>

lemma length_bytes32: "bytes32 v l = Inr b \<Longrightarrow> length b = 32"
  by (auto simp: bytes32_def is_hex64_def length_unhex split: hash_val.splits jsval.splits if_splits)

lemma bytes32_hex:
  assumes "length b = 32"
  shows "bytes32 (HVal (Str (hex_of b))) l = Inr b"
proof -
  have "list_all is_hex (hex_of b)"
    using hex_of_lower [of b] by (rule list.pred_mono_strong) (auto simp: is_hex_def is_hex_lower_def)
  then show ?thesis by (simp add: bytes32_def is_hex64_def assms)
qed

lemma uint_bytes_Inr:
  assumes "uint_bytes v n = Inr b" and "n \<le> 8"
  shows "\<exists>k. to_bigint v = Inr k \<and> 0 \<le> k \<and> k < 256 ^ n \<and> b = le_bytes n k"
proof -
  have p: "(2::int) ^ (n * 8) = 256 ^ n" by (simp add: power_mult [of 2 8 n, symmetric] mult.commute [of n 8] power_mult)
  from assms show ?thesis
    by (auto simp: uint_bytes_def bindR_Inr_iff take_le_bytes p split: if_splits)
qed

lemma uint_bytes_same:
  "uint_bytes v n = Inr b \<Longrightarrow> uint_bytes w n = Inr b \<Longrightarrow> n \<le> 8 \<Longrightarrow> to_bigint v = to_bigint w"
  by (metis le_bytes_inj uint_bytes_Inr)

lemma length_uint_bytes: "uint_bytes v n = Inr b \<Longrightarrow> n \<le> 8 \<Longrightarrow> length b = n"
  by (metis length_le_bytes uint_bytes_Inr)

lemma length_key: "lib_ok L \<Longrightarrow> publicKeyBytes L v l = Inr b \<Longrightarrow> length b = 32"
  by (auto simp: lib_ok_def publicKeyBytes_def split: option.splits)

lemma key_Inr: "publicKeyBytes L v l = Inr b \<longleftrightarrow> pk_decode L v = Some b"
  by (simp add: publicKeyBytes_def split: option.splits)

lemma leaf_messageE:
  assumes "leaf_message L cyc r a m i = Inr x"
  obtains c rb ab mb ib where "bytes32 cyc ''cycleId'' = Inr c" "publicKeyBytes L r ''recipient'' = Inr rb"
    "publicKeyBytes L (Str (if a = ''SOL'' then SOL_ASSET_MINT else a)) ''asset'' = Inr ab"
    "uint_bytes m 8 = Inr mb" "uint_bytes i 4 = Inr ib" "x = REWARD_LEAF_DOMAIN @ c @ rb @ ab @ mb @ ib"
  using assms by (auto simp: leaf_message_def bindR_Inr_iff)

lemma length_domain: "length REWARD_LEAF_DOMAIN = 21"
  by code_simp

lemma length_leaf_message: "lib_ok L \<Longrightarrow> leaf_message L cyc r a m i = Inr x \<Longrightarrow> length x = 129"
  by (elim leaf_messageE) (simp add: length_bytes32 length_key length_uint_bytes length_domain)

text \<open>A leaf's message determines its recipient, its amount and its index.\<close>

lemma leaf_message_inj:
  assumes ok: "lib_ok L" and x: "leaf_message L cyc r a m i = Inr x" and y: "leaf_message L cyc r' a m' i' = Inr x"
  shows "pk_decode L r = pk_decode L r' \<and> to_bigint m = to_bigint m' \<and> to_bigint i = to_bigint i'"
proof -
  obtain c rb ab mb ib where X: "bytes32 cyc ''cycleId'' = Inr c" "publicKeyBytes L r ''recipient'' = Inr rb"
    "publicKeyBytes L (Str (if a = ''SOL'' then SOL_ASSET_MINT else a)) ''asset'' = Inr ab"
    "uint_bytes m 8 = Inr mb" "uint_bytes i 4 = Inr ib" "x = REWARD_LEAF_DOMAIN @ c @ rb @ ab @ mb @ ib"
    by (rule leaf_messageE [OF x])
  obtain c' rb' ab' mb' ib' where Y: "bytes32 cyc ''cycleId'' = Inr c'" "publicKeyBytes L r' ''recipient'' = Inr rb'"
    "publicKeyBytes L (Str (if a = ''SOL'' then SOL_ASSET_MINT else a)) ''asset'' = Inr ab'"
    "uint_bytes m' 8 = Inr mb'" "uint_bytes i' 4 = Inr ib'" "x = REWARD_LEAF_DOMAIN @ c' @ rb' @ ab' @ mb' @ ib'"
    by (rule leaf_messageE [OF y])
  have "length rb = 32" "length rb' = 32" using length_key [OF ok] X(2) Y(2) by simp_all
  moreover have "length mb = 8" "length mb' = 8" using X(4) Y(4) by (simp_all add: length_uint_bytes)
  ultimately have eq: "rb = rb'" "mb = mb'" "ib = ib'"
    using X(1,3,6) Y(1,3,6) by simp_all
  with X Y uint_bytes_same [of m 8 mb m'] uint_bytes_same [of i 4 ib i']
  show ?thesis by (simp add: key_Inr)
qed

text \<open>What the loop over the allocations guarantees of the rows.\<close>

definition row_ok :: "lib \<Rightarrow> hash_val \<Rightarrow> string \<Rightarrow> nat \<Rightarrow> string \<times> string \<times> byte list \<Rightarrow> bool" where
  "row_ok L cyc asset i = (\<lambda>(r, a, h). all_digits a \<and> 0 < parse_dec a \<and>
     rewardLeaf L cyc (Str r) asset (Str a) (Num (nint (int i))) = Inr h)"

lemma reward_leaves_rows:
  "reward_leaves L cyc asset al n seen = Inr rows \<Longrightarrow>
     length rows = length al \<and> distinct (map fst rows) \<and> set (map fst rows) \<inter> set seen = {} \<and>
     (\<forall>i < length rows. row_ok L cyc asset (n + i) (rows ! i))"
proof (induction L cyc asset al n seen arbitrary: rows rule: reward_leaves.induct)
  case (1 L cyc asset n seen)
  then show ?case by auto
next
  case (2 L cyc asset row al n seen)
  from "2.prems" obtain v key where v: "bindR (jget row ''recipient'') (\<lambda>a. Inr (jor a (oget row ''wallet''))) = Inr v"
      and key: "pk_decode L v = Some key"
    by (cases "bindR (jget row ''recipient'') (\<lambda>a. Inr (jor a (oget row ''wallet'')))")
      (auto split: option.splits)
  let ?r = "pk_encode L key"
    and ?a = "to_str (nullish (nullish (oget row ''amount'') (oget row ''amountLamports'')) (Str []))"
  from "2.prems" v key obtain h rest where
    row: "?r \<notin> set seen" "all_digits ?a" "0 < parse_dec ?a"
      "rewardLeaf L cyc (Str ?r) asset (Str ?a) (Num (nint (int n))) = Inr h"
    and rest: "reward_leaves L cyc asset al (Suc n) (?r # seen) = Inr rest" "rows = (?r, ?a, h) # rest"
    by (auto simp: Let_def bindR_Inr_iff split: if_splits)
  have IH: "length rest = length al \<and> distinct (map fst rest) \<and> set (map fst rest) \<inter> set (?r # seen) = {} \<and>
     (\<forall>i < length rest. row_ok L cyc asset (Suc n + i) (rest ! i))"
    by (rule "2.IH" [OF key refl refl _ _ rest(1)]) (use row in auto)
  have "row_ok L cyc asset (n + i) (rows ! i)" if "i < length rows" for i
    using that IH row rest(2) by (cases i) (auto simp: row_ok_def)
  with IH row(1) rest(2) show ?case by auto
qed

definition row_hashes :: "(string \<times> string \<times> byte list) list \<Rightarrow> byte list list" where
  "row_hashes rows = map (\<lambda>(_, _, h). h) rows"

lemma manifest_leaves_nth:
  assumes "i < length rows" and "rows ! i = (r, a, h)"
  shows "manifest_leaves f rows ! i = \<lparr>lf_index = int i, lf_recipient = r, lf_amount = a, lf_hash = hex_of h,
    lf_proof = map hex_of (proof_path (levels f (row_hashes rows)) i)\<rparr>"
  using assms by (simp add: manifest_leaves_def row_hashes_def Let_def)

lemma length_manifest_leaves [simp]: "length (manifest_leaves f rows) = length rows"
  by (simp add: manifest_leaves_def)

lemma map_manifest_leaves:
  "map lf_recipient (manifest_leaves f rows) = map fst rows"
  "map lf_amount (manifest_leaves f rows) = map (\<lambda>(_, a, _). a) rows"
  "map (\<lambda>l. unhex (lf_hash l)) (manifest_leaves f rows) = row_hashes rows"
  "map lf_index (manifest_leaves f rows) = map int [0..<length rows]"
  by (rule nth_equalityI; simp add: manifest_leaves_def row_hashes_def Let_def split: prod.splits)+

lemma buildRewardManifestE:
  assumes "buildRewardManifest L cyc asset al = Inr m"
  obtains rows c where "rows \<noteq> []" "\<forall>i < length rows. row_ok L cyc asset i (rows ! i)"
    "distinct (map fst rows)" "bytes32 cyc ''cycleId'' = Inr c"
    "rm_cycleId m = hex_of c" "rm_asset m = asset"
    "rm_root m = hex_of (tree_root (pairHash L) (row_hashes rows))"
    "rm_totalAmount m = show_int (sum_list (map (\<lambda>(_, a, _). parse_dec a) rows))"
    "rm_leaves m = manifest_leaves (pairHash L) rows"
    "\<exists>vs. al = Arr vs \<and> length vs = length rows"
proof -
  from assms obtain a as where al: "al = Arr (a # as)"
    by (auto simp: buildRewardManifest_def split: jsval.splits list.splits)
  with assms obtain rows c where "reward_leaves L cyc asset (a # as) 0 [] = Inr rows"
    "bytes32 cyc ''cycleId'' = Inr c"
    "m = \<lparr>rm_version = 1, rm_cycleId = hex_of c, rm_asset = asset,
       rm_root = hex_of (tree_root (pairHash L) (row_hashes rows)),
       rm_totalAmount = show_int (sum_list (map (\<lambda>(_, a, _). parse_dec a) rows)),
       rm_leaves = manifest_leaves (pairHash L) rows\<rparr>"
    by (auto simp: buildRewardManifest_def bindR_Inr_iff row_hashes_def simp del: reward_leaves.simps)
  with reward_leaves_rows [of L cyc asset "a # as" 0 "[]" rows] al that [of rows c] show thesis
    by (simp del: reward_leaves.simps) fastforce
qed

lemma row_hash_32: "lib_ok L \<Longrightarrow> row_ok L cyc asset i (r, a, h) \<Longrightarrow> length h = 32"
  by (auto simp: row_ok_def rewardLeaf_eq bindR_Inr_iff lib_ok_def)

lemma hashes_32:
  assumes "lib_ok L" and "\<forall>i < length rows. row_ok L cyc asset i (rows ! i)" and "e \<in> set (row_hashes rows)"
  shows "length e = 32"
  using assms by (auto simp: row_hashes_def in_set_conv_nth elim: row_hash_32)
    (metis (no_types, lifting) case_prod_conv prod.collapse row_hash_32)

text \<open>Decoding a path of proof nodes and folding it.\<close>

fun oks :: "'a res list \<Rightarrow> 'a list" where
  "oks [] = []"
| "oks (Inr x # r) = x # oks r"
| "oks (Inl e # r) = oks r"

lemma oks_Inr [simp]: "oks (map (\<lambda>x. Inr (f x)) xs) = map f xs"
  by (induction xs) auto

lemma set_oks: "set (oks rs) = {x. Inr x \<in> set rs}"
  by (induction rs rule: oks.induct) auto

lemma fold_path_Inr:
  assumes "foldR (\<lambda>n s. bindR (d s) (\<lambda>b. Inr (f n b))) x path = Inr n"
  shows "n = foldl f x (oks (map d path))"
  using assms by (induction path arbitrary: x) (auto simp: bindR_Inr_iff)

lemma fold_path:
  assumes "\<forall>s \<in> set ps. d (g s) = Inr s"
  shows "foldR (\<lambda>n s. bindR (d s) (\<lambda>b. Inr (f n b))) x (map g ps) = Inr (foldl f x ps)"
  using assms by (induction ps arbitrary: x) auto

lemma set_proof_path: "set (proof_path lvls i) \<subseteq> \<Union> (set ` set lvls)"
  by (induction lvls i rule: proof_path.induct) auto

lemma proof_path_32:
  assumes "lib_ok L" and "\<forall>e \<in> set l. length e = 32" and "s \<in> set (proof_path (levels (pairHash L) l) i)"
  shows "length s = 32"
proof -
  have "s \<in> tree_nodes (pairHash L) l"
    using set_proof_path assms(3) by (force simp: tree_nodes_def)
  from tree_nodes_cases [OF this] assms(1,2) show ?thesis
    by (auto simp: reward.pair_hash lib_ok_def)
qed

lemma tree_root_32:
  "lib_ok L \<Longrightarrow> \<forall>e \<in> set l. length e = 32 \<Longrightarrow> l \<noteq> [] \<Longrightarrow> length (tree_root (pairHash L) l) = 32"
  using tree_nodes_cases [OF tree_root_in, of l "pairHash L"] by (auto simp: reward.pair_hash lib_ok_def)

section \<open>Properties\<close>

text \<open>C7. A built manifest is complete: it has one leaf per allocation, the recipients are
  distinct, the amounts are positive and add up to the total it states, and every leaf, with the
  proof stored in it, verifies against the root of the manifest.\<close>

theorem buildRewardManifest_complete:
  assumes "lib_ok L" and "buildRewardManifest L cyc asset (Arr al) = Inr m"
  shows "length (rm_leaves m) = length al \<and> distinct (map lf_recipient (rm_leaves m))
    \<and> map lf_index (rm_leaves m) = map int [0..<length al]
    \<and> rm_totalAmount m = show_int (sum_list (map (\<lambda>l. parse_dec (lf_amount l)) (rm_leaves m)))
    \<and> (\<forall>l \<in> set (rm_leaves m). 0 < parse_dec (lf_amount l)
        \<and> verifyRewardProof L cyc asset (Str (lf_recipient l)) (Str (lf_amount l)) (Num (nint (lf_index l)))
            (map (\<lambda>s. HVal (Str s)) (lf_proof l)) (HVal (Str (rm_root m))) = Inr True)"
proof -
  let ?f = "pairHash L"
  from assms(2) obtain rows where R: "rows \<noteq> []" "\<forall>i < length rows. row_ok L cyc asset i (rows ! i)"
      "distinct (map fst rows)" "rm_root m = hex_of (tree_root ?f (row_hashes rows))"
      "rm_totalAmount m = show_int (sum_list (map (\<lambda>(_, a, _). parse_dec a) rows))"
      "rm_leaves m = manifest_leaves ?f rows" "length al = length rows"
    by (elim buildRewardManifestE) auto
  have h32: "\<forall>e \<in> set (row_hashes rows). length e = 32" using hashes_32 [OF assms(1) R(2)] by blast
  have "map (\<lambda>l. parse_dec (lf_amount l)) (rm_leaves m) = map (\<lambda>(_, a, _). parse_dec a) rows"
    using arg_cong [OF map_manifest_leaves(2), of "map parse_dec" ?f rows] by (simp add: R(6) comp_def split_def)
  moreover have "0 < parse_dec (lf_amount l) \<and> verifyRewardProof L cyc asset (Str (lf_recipient l))
      (Str (lf_amount l)) (Num (nint (lf_index l))) (map (\<lambda>s. HVal (Str s)) (lf_proof l)) (HVal (Str (rm_root m))) = Inr True"
    if l: "l \<in> set (rm_leaves m)" for l
  proof -
    obtain i r a h where i: "i < length rows" "rows ! i = (r, a, h)" "l = manifest_leaves ?f rows ! i"
      using l R(6) by (metis in_set_conv_nth length_manifest_leaves prod_cases3)
    have ok: "row_ok L cyc asset i (r, a, h)" using R(2) i by metis
    let ?p = "proof_path (levels ?f (row_hashes rows)) i"
    have p: "\<forall>s \<in> set ?p. length s = 32" using proof_path_32 [OF assms(1) h32] by blast
    have n: "i < length (row_hashes rows)" "row_hashes rows ! i = h" using i by (simp_all add: row_hashes_def)
    have root: "length (tree_root ?f (row_hashes rows)) = 32"
      using tree_root_32 [OF assms(1) h32] R(1) by (simp add: row_hashes_def)
    have "foldR (\<lambda>node s. bindR (bytes32 s ''proof node'') (\<lambda>b. Inr (?f node b))) h
        (map (\<lambda>s. HVal (Str (hex_of s))) ?p) = Inr (tree_root ?f (row_hashes rows))"
      using fold_path [of ?p "\<lambda>s. bytes32 s ''proof node''" "\<lambda>s. HVal (Str (hex_of s))" ?f h]
        reward.path_verifies [OF n(1), of L] p bytes32_hex unfolding n(2) by metis
    with ok root show ?thesis
      by (simp add: i(3) manifest_leaves_nth [OF i(1,2)] row_ok_def verifyRewardProof_def R(4) bytes32_hex comp_def)
  qed
  ultimately show ?thesis using R by (simp add: map_manifest_leaves)
qed

text \<open>The messages that building a manifest and verifying one claim hash.\<close>

definition leaf_messages :: "lib \<Rightarrow> hash_val \<Rightarrow> string \<Rightarrow> reward_leaf list \<Rightarrow> byte list list" where
  "leaf_messages L cyc asset ls = oks (map (\<lambda>l. leaf_message L cyc (Str (lf_recipient l)) asset
     (Str (lf_amount l)) (Num (nint (lf_index l)))) ls)"

definition claim_messages ::
  "lib \<Rightarrow> hash_val \<Rightarrow> string \<Rightarrow> reward_manifest \<Rightarrow> jsval \<Rightarrow> jsval \<Rightarrow> jsval \<Rightarrow> hash_val list \<Rightarrow> byte list list" where
  "claim_messages L cyc asset m recipient amount index path =
     (let claim = oks [leaf_message L cyc recipient asset amount index];
          lm = leaf_messages L cyc asset (rm_leaves m) in
      claim @ lm @ map (\<lambda>(a, b). pair_message a b)
        (tree_args (pairHash L) (map (sha256 L) lm)
         @ path_args (pairHash L) (sha256 L (hd claim)) (oks (map (\<lambda>s. bytes32 s ''proof node'') path))))"

lemma leaf_messages_rows:
  assumes "\<forall>i < length rows. row_ok L cyc asset i (rows ! i)"
  shows "map (sha256 L) (leaf_messages L cyc asset (manifest_leaves (pairHash L) rows)) = row_hashes rows"
proof -
  let ?msg = "\<lambda>l. leaf_message L cyc (Str (lf_recipient l)) asset (Str (lf_amount l)) (Num (nint (lf_index l)))"
  let ?ls = "manifest_leaves (pairHash L) rows"
  have "\<exists>x. ?msg (?ls ! i) = Inr x \<and> sha256 L x = row_hashes rows ! i" if "i < length rows" for i
  proof -
    obtain r a h where "rows ! i = (r, a, h)" by (cases "rows ! i")
    with that assms show ?thesis
      by (force simp: manifest_leaves_nth row_ok_def rewardLeaf_eq bindR_Inr_iff row_hashes_def)
  qed
  then obtain g where g: "\<And>i. i < length rows \<Longrightarrow> ?msg (?ls ! i) = Inr (g i) \<and> sha256 L (g i) = row_hashes rows ! i"
    by metis
  have "map ?msg ?ls = map (\<lambda>i. Inr (g i)) [0..<length rows]"
    using g by (intro nth_equalityI) simp_all
  then have "leaf_messages L cyc asset ?ls = map g [0..<length rows]"
    by (simp add: leaf_messages_def)
  then show ?thesis using g by (auto intro!: nth_equalityI simp: row_hashes_def)
qed

text \<open>C8. A root binds its manifest: a claim that \<open>verifyRewardProof\<close> accepts against the root is
  one of the manifest's leaves, with its recipient, its amount and its index, for every path the
  claimant may present, unless two of the finitely many messages hashed on the way collide.\<close>

theorem verifyRewardProof_binding:
  assumes "lib_ok L" and "buildRewardManifest L cyc asset al = Inr m"
    and "verifyRewardProof L cyc asset recipient amount index path (HVal (Str (rm_root m))) = Inr True"
    and "inj_on (sha256 L) (set (claim_messages L cyc asset m recipient amount index path))"
  shows "\<exists>l \<in> set (rm_leaves m). pk_decode L recipient = pk_decode L (Str (lf_recipient l))
    \<and> to_bigint amount = to_bigint (Str (lf_amount l)) \<and> to_bigint index = Inr (lf_index l)"
proof -
  let ?f = "pairHash L" and ?lm = "leaf_messages L cyc asset (rm_leaves m)"
  from assms(2) obtain rows where R: "rows \<noteq> []" "\<forall>i < length rows. row_ok L cyc asset i (rows ! i)"
      "rm_root m = hex_of (tree_root ?f (row_hashes rows))" "rm_leaves m = manifest_leaves ?f rows"
    by (elim buildRewardManifestE) auto
  have lm: "map (sha256 L) ?lm = row_hashes rows" using leaf_messages_rows [OF R(2)] R(4) by simp
  let ?p = "oks (map (\<lambda>s. bytes32 s ''proof node'') path)"
  from assms(3) obtain cm where cm: "leaf_message L cyc recipient asset amount index = Inr cm"
      and acc: "foldl ?f (sha256 L cm) ?p = unhex (rm_root m)"
    by (auto simp: verifyRewardProof_def rewardLeaf_eq bindR_Inr_iff bytes32_def split: if_splits dest!: fold_path_Inr)
  have len: "length x = 129" if "x \<in> insert cm (set ?lm)" for x
    using that length_leaf_message [OF assms(1)] cm by (auto simp: leaf_messages_def set_oks)
  have mem: "cm \<in> set ?lm"
  proof (rule reward.claim_is_leaf [of L cm ?p ?lm])
    show "foldl ?f (sha256 L cm) ?p = tree_root ?f (map (sha256 L) ?lm)" using acc by (simp add: lm R(3))
    show "?lm \<noteq> []" using lm R(1) by (auto simp: row_hashes_def)
    show "inj_on (sha256 L) (insert cm (set ?lm) \<union> (\<lambda>(a, b). pair_message a b) `
        (set (tree_args ?f (map (sha256 L) ?lm)) \<union> set (path_args ?f (sha256 L cm) ?p)))"
      using assms(4) by (simp add: claim_messages_def cm Let_def Un_commute Un_left_commute image_Un)
    show "length (sha256 L x) = 32" for x using assms(1) by (simp add: lib_ok_def)
    show "\<forall>s \<in> set ?p. length s = 32" by (auto simp: set_oks length_bytes32)
    show "pair_message a b \<notin> insert cm (set ?lm)" if "length a = 32" "length b = 32" for a b
    proof -
      have "length (pair_message a b) = 64" using that by (simp add: pair_message_def)
      then show ?thesis using len by fastforce
    qed
  qed
  then obtain l where l: "l \<in> set (rm_leaves m)" "leaf_message L cyc (Str (lf_recipient l)) asset (Str (lf_amount l))
      (Num (nint (lf_index l))) = Inr cm"
    by (auto simp: leaf_messages_def set_oks)
  have "to_bigint (Num (nint k)) = Inr k" for k by (simp add: is_integer_def)
  with l leaf_message_inj [OF assms(1) cm l(2)] show ?thesis by auto
qed

text \<open>
  A concrete library for the examples: addresses are 64 hex digits (and the mint of SOL), the
  digest is the end of the message, reversed.
\<close>

definition toy_lib :: lib where
  "toy_lib = \<lparr>sha256 = (\<lambda>x. take 32 (rev x @ replicate 32 0)),
     pk_decode = (\<lambda>v. case v of Str s \<Rightarrow> if is_hex64 s then Some (unhex s)
                        else if s = SOL_ASSET_MINT then Some (replicate 32 0) else None | _ \<Rightarrow> None),
     pk_encode = hex_of\<rparr>"

lemma toy_lib_ok: "lib_ok toy_lib"
proof -
  have "is_hex64 (hex_of b)" if "length b = 32" for b
    using bytes32_hex [OF that, of "[]"] by (auto simp: bytes32_def split: if_splits)
  then show ?thesis
    by (auto simp: lib_ok_def toy_lib_def is_hex64_def length_unhex split: jsval.splits if_splits)
qed

definition toy_key :: "char \<Rightarrow> string" where
  "toy_key c = replicate 64 c"

definition toy_allocations :: "jsval list" where
  "toy_allocations =
     [Obj [(''recipient'', Str (toy_key CHR ''a'')), (''amount'', Str ''5'')],
      Obj [(''wallet'', Str (toy_key CHR ''b'')), (''amountLamports'', Num (nint 70))]]"

definition toy_manifest :: reward_manifest where
  "toy_manifest = (case buildRewardManifest toy_lib (HVal (Str (toy_key CHR ''7''))) ''SOL'' (Arr toy_allocations) of
     Inr m \<Rightarrow> m | Inl _ \<Rightarrow> \<lparr>rm_version = 0, rm_cycleId = [], rm_asset = [], rm_root = [], rm_totalAmount = [], rm_leaves = []\<rparr>)"

lemma toy_manifest_built:
  "buildRewardManifest toy_lib (HVal (Str (toy_key CHR ''7''))) ''SOL'' (Arr toy_allocations) = Inr toy_manifest"
  by code_simp

theorem buildRewardManifest_complete_witness:
  "length (rm_leaves toy_manifest) = 2 \<and> distinct (map lf_recipient (rm_leaves toy_manifest))
    \<and> map lf_index (rm_leaves toy_manifest) = [0, 1]"
  using buildRewardManifest_complete [OF toy_lib_ok toy_manifest_built] by (simp add: toy_allocations_def)

definition is_graph :: "('a \<times> 'b) list \<Rightarrow> bool" where
  "is_graph ps = list_all (\<lambda>(y, x). list_all (\<lambda>(y', x'). y = y' \<longrightarrow> x = x') ps) ps"

lemma inj_on_set: "is_graph (map (\<lambda>x. (f x, x)) xs) \<Longrightarrow> inj_on f (set xs)"
  by (simp add: is_graph_def inj_on_def list_all_iff)

definition toy_path :: "hash_val list" where
  "toy_path = map (\<lambda>s. HVal (Str s)) (lf_proof (rm_leaves toy_manifest ! 1))"

theorem verifyRewardProof_binding_witness:
  "\<exists>l \<in> set (rm_leaves toy_manifest). pk_decode toy_lib (Str (toy_key CHR ''b'')) = pk_decode toy_lib (Str (lf_recipient l))
    \<and> to_bigint (Big 70) = to_bigint (Str (lf_amount l)) \<and> to_bigint (Big 1) = Inr (lf_index l)"
proof (rule verifyRewardProof_binding [OF toy_lib_ok toy_manifest_built, where path = toy_path])
  show "verifyRewardProof toy_lib (HVal (Str (toy_key CHR ''7''))) ''SOL'' (Str (toy_key CHR ''b'')) (Big 70) (Big 1)
      toy_path (HVal (Str (rm_root toy_manifest))) = Inr True"
    by code_simp
  show "inj_on (sha256 toy_lib) (set (claim_messages toy_lib (HVal (Str (toy_key CHR ''7''))) ''SOL'' toy_manifest
      (Str (toy_key CHR ''b'')) (Big 70) (Big 1) toy_path))"
    by (rule inj_on_set) code_simp
qed

end
