(* ===== verification/Community.thy ===== *)
theory Community
  imports Money Holders Merkle
begin

text \<open>
  Community launches, \<open>community-merkle.js\<close>: the holders of the eligibility coin at the migration
  slot share an allocation of the launched coin, and a Merkle root commits to their claims.  The
  trees are those of theory Merkle, the split of the allocation is \<open>allocateHolderPool\<close> of theory
  Holders.  \<open>bs58.decode\<close> is a parameter that gives the decoded bytes, or none when it throws.
\<close>

definition DOMAIN :: "byte list" where
  "DOMAIN = ascii ''funded-community-leaf-v1''"

definition SNAPSHOT_DOMAIN :: "byte list" where
  "SNAPSHOT_DOMAIN = ascii ''funded-community-snapshot-v1''"

definition key_bytes :: "lib \<Rightarrow> jsval \<Rightarrow> byte list res" where
  "key_bytes L v = (case pk_decode L v of Some b \<Rightarrow> Inr b | None \<Rightarrow> Inl LibErr)"

text \<open>\<open>new PublicKey(v).toBase58()\<close>.\<close>

definition key_text :: "lib \<Rightarrow> jsval \<Rightarrow> string res" where
  "key_text L v = bindR (key_bytes L v) (\<lambda>b. Inr (pk_encode L b))"

definition u64 :: "jsval \<Rightarrow> byte list res" where
  "u64 v = bindR (to_bigint v) (\<lambda>n. if n < 0 \<or> n \<ge> 2 ^ 64 then Inl RangeErr else Inr (le_bytes 8 n))"

text \<open>\<open>writeUInt32LE\<close> rejects a number out of range; it writes \<open>NaN\<close> as zero and drops a fraction.\<close>

definition u32 :: "jsval \<Rightarrow> byte list res" where
  "u32 v = (let n = to_number v in
     if nless n (Fin 0) \<or> nless (nint (2 ^ 32 - 1)) n then Inl RangeErr
     else Inr (le_bytes 4 (case n of Fin q \<Rightarrow> \<lfloor>q\<rfloor> | _ \<Rightarrow> 0)))"

definition hex32 :: "string \<Rightarrow> byte list res" where
  "hex32 s = (if is_hex64 s then Inr (unhex s) else throw ''Expected a 32-byte hash.'')"

definition community_pair :: "lib \<Rightarrow> byte list \<Rightarrow> byte list \<Rightarrow> byte list" where
  "community_pair L a b = (if a \<le> b then hash_parts L [a, b] else hash_parts L [b, a])"

definition communityLeaf :: "lib \<Rightarrow> jsval \<Rightarrow> jsval \<Rightarrow> jsval \<Rightarrow> jsval \<Rightarrow> byte list res" where
  "communityLeaf L drp recipient amount index =
     bindR (key_bytes L drp) (\<lambda>d.
     bindR (key_bytes L recipient) (\<lambda>r.
     bindR (u64 amount) (\<lambda>a.
     bindR (u32 index) (\<lambda>i. Inr (hash_parts L [DOMAIN, d, r, a, i])))))"

definition verifyCommunityProof ::
  "lib \<Rightarrow> jsval \<Rightarrow> jsval \<Rightarrow> jsval \<Rightarrow> jsval \<Rightarrow> string list \<Rightarrow> string \<Rightarrow> bool res" where
  "verifyCommunityProof L drp recipient amount index path rt =
     bindR (communityLeaf L drp recipient amount index) (\<lambda>leaf.
     bindR (foldR (\<lambda>node s. bindR (hex32 s) (\<lambda>b. Inr (community_pair L node b))) leaf path) (\<lambda>node.
     bindR (hex32 rt) (\<lambda>r. Inr (node = r))))"

record community_manifest =
  cm_version :: int
  cm_drop :: string
  cm_launchMint :: string
  cm_eligibilityMint :: string
  cm_migrationSignature :: jsval
  cm_migrationSlot :: jsval
  cm_migrationBlockTime :: jsval
  cm_snapshotHash :: string
  cm_root :: string
  cm_totalAmount :: string
  cm_allocatedAmount :: string
  cm_remainderAmount :: string
  cm_excludedWallets :: "string list"
  cm_leaves :: "reward_leaf list"

text \<open>\<open>(snapshot.accounts || []).map(...)\<close> with the set of the wallets seen.\<close>

fun community_rows :: "lib \<Rightarrow> string list \<Rightarrow> jsval list \<Rightarrow> (string \<times> int) list res" where
  "community_rows L seen [] = Inr []"
| "community_rows L seen (row # rows) =
     bindR (bindR (jget row ''wallet'') (key_text L)) (\<lambda>wallet.
     bindR (to_bigint (oget row ''balance'')) (\<lambda>balance.
       if wallet \<in> set seen \<or> balance < 0 \<or> balance > u64_max
         then throw ''Snapshot wallets must be unique with valid balances.''
       else bindR (community_rows L (wallet # seen) rows) (\<lambda>r. Inr ((wallet, balance) # r))))"

definition community_accounts :: "lib \<Rightarrow> jsval \<Rightarrow> (string \<times> int) list res" where
  "community_accounts L accounts =
     (case jor accounts (Arr []) of Arr rows \<Rightarrow> community_rows L [] rows | _ \<Rightarrow> Inl TypeErr)"

text \<open>The guard on the migration and on the snapshot of the eligibility coin.\<close>

definition snapshot_complete :: "jsval \<Rightarrow> jsval \<Rightarrow> jsval \<Rightarrow> jsval \<Rightarrow> bool" where
  "snapshot_complete snapshot eligibilityMint slot blockTime \<longleftrightarrow>
     is_safe slot \<and> 0 < safe_int slot \<and> is_safe blockTime \<and> 0 < safe_int blockTime
     \<and> truthy (oget snapshot ''finalized'') \<and> jeq (oget snapshot ''coverage'') (Str ''finalized-exact-slot-v1'')
     \<and> jeq (oget snapshot ''slot'') slot \<and> jeq (oget snapshot ''blockTime'') blockTime
     \<and> jeq (oget snapshot ''mint'') eligibilityMint"

definition snapshot_hash ::
  "lib \<Rightarrow> jsval \<Rightarrow> jsval \<Rightarrow> jsval \<Rightarrow> jsval \<Rightarrow> int \<Rightarrow> (string \<times> int) list \<Rightarrow> string list \<Rightarrow> string res" where
  "snapshot_hash L launchMint eligibilityMint slot blockTime supply accounts exclusions =
     bindR (key_bytes L launchMint) (\<lambda>lm.
     bindR (key_bytes L eligibilityMint) (\<lambda>em.
     bindR (u64 slot) (\<lambda>sl. bindR (u64 blockTime) (\<lambda>bt. bindR (u64 (Big supply)) (\<lambda>su.
     bindR (u32 (Num (nint (int (length accounts))))) (\<lambda>na.
     bindR (mapR (\<lambda>(w, b). bindR (key_bytes L (Str w)) (\<lambda>k. bindR (u64 (Big b)) (\<lambda>v. Inr (k @ v)))) accounts) (\<lambda>as.
     bindR (u32 (Num (nint (int (length exclusions))))) (\<lambda>ne.
     bindR (mapR (\<lambda>w. key_bytes L (Str w)) exclusions) (\<lambda>es.
       Inr (hex_of (hash_parts L ([SNAPSHOT_DOMAIN, lm, em, sl, bt, su, na] @ as @ [ne] @ es))))))))))))"

fun community_leaves :: "lib \<Rightarrow> jsval \<Rightarrow> nat \<Rightarrow> holder_allocation list \<Rightarrow> (string \<times> string \<times> byte list) list res" where
  "community_leaves L drp index [] = Inr []"
| "community_leaves L drp index (row # rows) =
     bindR (communityLeaf L drp (Str (al_wallet row)) (Str (al_amount row)) (Num (nint (int index)))) (\<lambda>h.
     bindR (community_leaves L drp (Suc index) rows) (\<lambda>r. Inr ((al_wallet row, al_amount row, h) # r)))"

definition eligible_weights :: "(string \<times> int) list \<Rightarrow> string list \<Rightarrow> holder_weight list" where
  "eligible_weights accounts exclusions =
     map (\<lambda>(w, b). \<lparr>hw_wallet = w, hw_weight = Str (show_int b)\<rparr>)
       (filter (\<lambda>(w, b). b > 0 \<and> w \<notin> set exclusions) accounts)"

definition buildCommunityManifest ::
  "lib \<Rightarrow> (string \<Rightarrow> byte list option) \<Rightarrow> (string \<Rightarrow> string \<Rightarrow> int) \<Rightarrow> jsval \<Rightarrow> jsval \<Rightarrow> jsval \<Rightarrow> jsval \<Rightarrow> jsval
    \<Rightarrow> jsval \<Rightarrow> jsval \<Rightarrow> jsval \<Rightarrow> jsval list \<Rightarrow> community_manifest res" where
  "buildCommunityManifest L bs58 lc drp launchMint eligibilityMint migrationSignature migrationSlot
     migrationBlockTime snapshot amountBaseUnits excludedWallets =
     bindR (case bs58 (to_str (jor migrationSignature (Str []))) of Some b \<Rightarrow> Inr b | None \<Rightarrow> Inl LibErr) (\<lambda>signature.
     if length signature \<noteq> 64 \<or> \<not> snapshot_complete snapshot eligibilityMint migrationSlot migrationBlockTime
       then throw ''A complete finalized eligibility snapshot at the exact migration slot is required.''
     else
     bindR (to_bigint amountBaseUnits) (\<lambda>amount.
     bindR (to_bigint (jor (oget snapshot ''supplyBaseUnits'') (Num (Fin 0)))) (\<lambda>supply.
     if amount \<le> 0 \<or> supply \<le> 0 \<or> amount > u64_max \<or> supply > u64_max
       then throw ''Invalid community allocation or eligibility supply.''
     else
     bindR (mapR (key_text L) excludedWallets) (\<lambda>ex. let exclusions = sort_by (\<le>) (dedupe_list ex) in
     bindR (community_accounts L (oget snapshot ''accounts'')) (\<lambda>rows.
     let accounts = sort_by (\<lambda>a b. lc (fst a) (fst b) \<le> 0) rows in
     if accounts = [] \<or> sum_list (map snd accounts) \<noteq> supply
       then throw ''Snapshot balances do not cover the full finalized eligibility supply.''
     else
     bindR (allocateHolderPool (Str (show_int amount)) (eligible_weights accounts exclusions)) (\<lambda>allocation.
     if hp_allocations allocation = []
       then throw ''No eligible $FUNDED holder has a payable allocation.''
     else
     bindR (snapshot_hash L launchMint eligibilityMint migrationSlot migrationBlockTime supply accounts exclusions) (\<lambda>sh.
     bindR (community_leaves L drp 0 (hp_allocations allocation)) (\<lambda>lrows.
     bindR (key_text L drp) (\<lambda>d. bindR (key_text L launchMint) (\<lambda>l. bindR (key_text L eligibilityMint) (\<lambda>e.
       Inr \<lparr>cm_version = 1, cm_drop = d, cm_launchMint = l, cm_eligibilityMint = e,
            cm_migrationSignature = migrationSignature, cm_migrationSlot = migrationSlot,
            cm_migrationBlockTime = migrationBlockTime, cm_snapshotHash = sh,
            cm_root = hex_of (tree_root (community_pair L) (row_hashes lrows)),
            cm_totalAmount = show_int amount,
            cm_allocatedAmount = show_int (sum_list (map (\<lambda>(_, a, _). parse_dec a) lrows)),
            cm_remainderAmount = hp_remainder allocation, cm_excludedWallets = exclusions,
            cm_leaves = manifest_leaves (community_pair L) lrows\<rparr>)))))))))))"

section \<open>Lemmas\<close>

lemma community_pair_eq [simp]: "community_pair L = pairHash L"
  by (intro ext) (simp add: community_pair_def pairHash_def)

definition community_message :: "lib \<Rightarrow> jsval \<Rightarrow> jsval \<Rightarrow> jsval \<Rightarrow> jsval \<Rightarrow> byte list res" where
  "community_message L drp recipient amount index =
     bindR (key_bytes L drp) (\<lambda>d. bindR (key_bytes L recipient) (\<lambda>r.
     bindR (u64 amount) (\<lambda>a. bindR (u32 index) (\<lambda>i. Inr (DOMAIN @ d @ r @ a @ i)))))"

lemma communityLeaf_eq:
  "communityLeaf L d r a i = bindR (community_message L d r a i) (\<lambda>x. Inr (sha256 L x))"
  by (simp add: communityLeaf_def community_message_def hash_parts_def bindR_def split: sum.splits)

lemma key_bytes_Inr: "key_bytes L v = Inr b \<longleftrightarrow> pk_decode L v = Some b"
  by (simp add: key_bytes_def split: option.splits)

lemma length_u64: "u64 v = Inr b \<Longrightarrow> length b = 8"
  by (auto simp: u64_def bindR_Inr_iff split: if_splits)

lemma length_u32: "u32 v = Inr b \<Longrightarrow> length b = 4"
  by (auto simp: u32_def Let_def split: if_splits)

lemma u64_same:
  assumes "u64 v = Inr b" and "u64 w = Inr b"
  shows "to_bigint v = to_bigint w"
proof -
  from assms obtain m n where "to_bigint v = Inr m" "0 \<le> m" "m < 256 ^ 8" "b = le_bytes 8 m"
    "to_bigint w = Inr n" "0 \<le> n" "n < 256 ^ 8" "b = le_bytes 8 n"
    by (auto simp: u64_def bindR_Inr_iff split: if_splits)
  with le_bytes_inj [of 8 m n] show ?thesis by simp
qed

lemma length_community_message:
  assumes "lib_ok L" and "community_message L d r a i = Inr x"
  shows "length x = 100"
proof -
  have "length DOMAIN = 24" by code_simp
  with assms show ?thesis
    by (auto simp: community_message_def bindR_Inr_iff key_bytes_Inr length_u64 length_u32 lib_ok_def)
qed

lemma community_message_inj:
  assumes "lib_ok L" and x: "community_message L d r a i = Inr x" and y: "community_message L d r' a' i' = Inr x"
  shows "pk_decode L r = pk_decode L r' \<and> to_bigint a = to_bigint a' \<and> u32 i = u32 i'"
proof -
  from x obtain db rb ab ib where X: "pk_decode L r = Some rb" "u64 a = Inr ab" "u32 i = Inr ib"
      "key_bytes L d = Inr db" "x = DOMAIN @ db @ rb @ ab @ ib"
    by (auto simp: community_message_def bindR_Inr_iff key_bytes_Inr)
  from y obtain db' rb' ab' ib' where Y: "pk_decode L r' = Some rb'" "u64 a' = Inr ab'" "u32 i' = Inr ib'"
      "key_bytes L d = Inr db'" "x = DOMAIN @ db' @ rb' @ ab' @ ib'"
    by (auto simp: community_message_def bindR_Inr_iff key_bytes_Inr)
  have "length rb = length rb'" "length ab = length ab'"
    using assms(1) X(1,2) Y(1,2) by (auto simp: lib_ok_def length_u64)
  with X Y have "rb = rb'" "ab = ab'" "ib = ib'" by simp_all
  with X Y u64_same [of a ab a'] show ?thesis by simp
qed

lemma hex32_hex: "length b = 32 \<Longrightarrow> hex32 (hex_of b) = Inr b"
  using bytes32_hex [of b "[]"] by (simp add: hex32_def bytes32_def split: if_splits)

lemma length_hex32: "hex32 s = Inr b \<Longrightarrow> length b = 32"
  by (auto simp: hex32_def is_hex64_def length_unhex split: if_splits)

text \<open>The rows of the leaves follow the allocations.\<close>

definition crow_ok :: "lib \<Rightarrow> jsval \<Rightarrow> nat \<Rightarrow> string \<times> string \<times> byte list \<Rightarrow> bool" where
  "crow_ok L drp i = (\<lambda>(r, a, h). communityLeaf L drp (Str r) (Str a) (Num (nint (int i))) = Inr h)"

lemma community_leaves_rows:
  "community_leaves L drp n al = Inr rows \<Longrightarrow> length rows = length al
     \<and> map fst rows = map al_wallet al \<and> map (\<lambda>(_, a, _). a) rows = map al_amount al
     \<and> (\<forall>i < length rows. crow_ok L drp (n + i) (rows ! i))"
proof (induction L drp n al arbitrary: rows rule: community_leaves.induct)
  case (1 L drp n)
  then show ?case by auto
next
  case (2 L drp n row al)
  from "2.prems" obtain h rest where
    h: "communityLeaf L drp (Str (al_wallet row)) (Str (al_amount row)) (Num (nint (int n))) = Inr h"
    and r: "community_leaves L drp (Suc n) al = Inr rest" "rows = (al_wallet row, al_amount row, h) # rest"
    by (auto simp: bindR_Inr_iff)
  from "2.IH" [OF r(1)] h r(2) have "crow_ok L drp (n + i) (rows ! i)" if "i < length rows" for i
    using that by (cases i) (auto simp: crow_ok_def)
  with "2.IH" [OF r(1)] r(2) show ?case by simp
qed

lemma crow_32: "lib_ok L \<Longrightarrow> \<forall>i < length rows. crow_ok L drp i (rows ! i) \<Longrightarrow> \<forall>e \<in> set (row_hashes rows). length e = 32"
  by (auto simp: row_hashes_def in_set_conv_nth crow_ok_def communityLeaf_eq bindR_Inr_iff lib_ok_def split: prod.splits)
    (metis (no_types, lifting))

lemma eligible_wallets: "set (map hw_wallet (eligible_weights accs ex)) = fst ` {p \<in> set accs. 0 < snd p \<and> fst p \<notin> set ex}"
  by (force simp: eligible_weights_def)

text \<open>The rows of the snapshot, each a wallet with its balance.\<close>

definition row_reads :: "lib \<Rightarrow> jsval \<Rightarrow> string \<times> int \<Rightarrow> bool" where
  "row_reads L row p \<longleftrightarrow> key_text L (oget row ''wallet'') = Inr (fst p) \<and> to_bigint (oget row ''balance'') = Inr (snd p)"

lemma community_rows_reads:
  "community_rows L seen rows = Inr ps \<Longrightarrow> list_all2 (row_reads L) rows ps \<and> distinct (map fst ps)
     \<and> set (map fst ps) \<inter> set seen = {} \<and> (\<forall>p \<in> set ps. 0 \<le> snd p)"
proof (induction rows arbitrary: seen ps)
  case (Cons row rows)
  from Cons.prems obtain w b r where row: "key_text L (oget row ''wallet'') = Inr w" "to_bigint (oget row ''balance'') = Inr b"
    "w \<notin> set seen" "0 \<le> b" "community_rows L (w # seen) rows = Inr r" "ps = (w, b) # r"
    by (auto simp: bindR_Inr_iff jget_def split: if_split_asm)
  from Cons.IH [OF row(5)] row show ?case by (auto simp: row_reads_def)
qed simp

text \<open>What each account is due: its share of the allocation by its balance among the accounts that are not
  excluded, rounded down, where that is not zero.\<close>

definition community_shares :: "int \<Rightarrow> string list \<Rightarrow> (string \<times> int) list \<Rightarrow> (string \<times> int) list" where
  "community_shares amount excluded accounts =
     (let held = filter (\<lambda>(w, _). w \<notin> set excluded) accounts; weight = sum_list (map snd held) in
      filter (\<lambda>(_, a). 0 < a) (map (\<lambda>(w, b). (w, amount * b div weight)) held))"

lemma set_community_shares_cong:
  assumes "mset accounts = mset accounts'" and "set excluded = set excluded'"
  shows "set (community_shares amount excluded accounts) = set (community_shares amount excluded' accounts')"
proof -
  have h: "mset (filter (\<lambda>(w, _). w \<notin> set excluded) accounts) = mset (filter (\<lambda>(w, _). w \<notin> set excluded') accounts')"
    by (simp only: mset_filter assms)
  have "sum_list (map snd (filter (\<lambda>(w, _). w \<notin> set excluded) accounts))
      = sum_list (map snd (filter (\<lambda>(w, _). w \<notin> set excluded') accounts'))"
    using arg_cong [OF h, of "\<lambda>M. sum_mset (image_mset snd M)"] by (simp only: mset_map [symmetric] sum_mset_sum_list)
  then show ?thesis by (simp only: community_shares_def Let_def set_filter set_map mset_eq_setD [OF assms(1)] assms(2))
qed

lemma pool_community_shares:
  assumes "allocateHolderPool (Str (show_dec amount)) (eligible_weights accs ex) = Inr r"
    and "0 < amount" and "\<forall>p \<in> set accs. 0 \<le> snd p"
  shows "set (map (\<lambda>a. (al_wallet a, parse_dec (al_amount a))) (hp_allocations r)) = set (community_shares amount ex accs)"
proof -
  let ?held = "filter (\<lambda>(w, _). w \<notin> set ex) accs"
  let ?el = "filter (\<lambda>(w, b). b > 0 \<and> w \<notin> set ex) accs"
  let ?t = "sum_list (map snd ?held)"
  have t: "sum_list (map (\<lambda>w. units_val (hw_weight w)) (eligible_weights accs ex)) = ?t"
    using assms(3) by (induction accs) (auto simp: eligible_weights_def units_val_def)
  have el: "map (\<lambda>w. (hw_wallet w, amount * units_val (hw_weight w) div ?t)) (eligible_weights accs ex)
      = map (\<lambda>(w, b). (w, amount * b div ?t)) ?el"
    by (auto simp: eligible_weights_def units_val_def)
  have nn: "0 \<le> ?t" using assms(3) by (intro sum_list_nonneg_int) auto
  have "units_val (Str (show_dec amount)) = amount" using assms(2) by (simp add: units_val_def)
  then have "set (map (\<lambda>a. (al_wallet a, parse_dec (al_amount a))) (hp_allocations r))
      = set (filter (\<lambda>(_, a). a \<noteq> 0) (map (\<lambda>(w, b). (w, amount * b div ?t)) ?el))"
    unfolding pool_shares [OF assms(1)] t by (simp only: el)
  also have "\<dots> = set (filter (\<lambda>(_, a). 0 < a) (map (\<lambda>(w, b). (w, amount * b div ?t)) ?held))"
  proof -
    have "0 \<le> amount * snd p div ?t" if "p \<in> set accs" for p
      using nn assms(2,3) that by (simp add: pos_imp_zdiv_nonneg_iff div_int_pos_iff)
    moreover have "0 < snd p" if "p \<in> set accs" "amount * snd p div ?t \<noteq> 0" for p
      using that assms(3) by (cases "snd p = 0") (auto simp: order_less_le)
    ultimately show ?thesis using assms(3) by (fastforce simp: order_less_le)
  qed
  finally show ?thesis by (simp add: community_shares_def Let_def)
qed

lemma buildCommunityManifestE:
  assumes "buildCommunityManifest L bs58 lc drp lm em sig slot bt snap amt ex = Inr m"
  obtains rows alloc amount accs raw ws where "rows \<noteq> []" "\<forall>i < length rows. crow_ok L drp i (rows ! i)"
    "allocateHolderPool (Str (show_dec amount)) (eligible_weights accs (cm_excludedWallets m)) = Inr alloc"
    "0 < amount" "cm_totalAmount m = show_dec amount" "cm_remainderAmount m = hp_remainder alloc"
    "map fst rows = map al_wallet (hp_allocations alloc)"
    "map (\<lambda>(_, a, _). a) rows = map al_amount (hp_allocations alloc)"
    "cm_root m = hex_of (tree_root (pairHash L) (row_hashes rows))"
    "cm_allocatedAmount m = show_int (sum_list (map (\<lambda>(_, a, _). parse_dec a) rows))"
    "cm_leaves m = manifest_leaves (pairHash L) rows"
    "community_accounts L (oget snap ''accounts'') = Inr raw" "mset accs = mset raw" "raw \<noteq> []"
    "mapR (key_text L) ex = Inr ws" "set (cm_excludedWallets m) = set ws" "to_bigint amt = Inr amount"
    "to_bigint (jor (oget snap ''supplyBaseUnits'') (Num (Fin 0))) = Inr (sum_list (map snd raw))"
    "0 < sum_list (map snd raw)"
proof -
  from assms obtain amount accs alloc rows raw ws where
    b: "0 < amount" "hp_allocations alloc \<noteq> []"
      "allocateHolderPool (Str (show_int amount)) (eligible_weights accs (cm_excludedWallets m)) = Inr alloc"
      "community_leaves L drp 0 (hp_allocations alloc) = Inr rows"
      "cm_totalAmount m = show_int amount" "cm_remainderAmount m = hp_remainder alloc"
      "cm_root m = hex_of (tree_root (pairHash L) (row_hashes rows))"
      "cm_allocatedAmount m = show_int (sum_list (map (\<lambda>(_, a, _). parse_dec a) rows))"
      "cm_leaves m = manifest_leaves (pairHash L) rows"
      "community_accounts L (oget snap ''accounts'') = Inr raw" "accs = sort_by (\<lambda>a b. lc (fst a) (fst b) \<le> 0) raw"
      "accs \<noteq> []" "mapR (key_text L) ex = Inr ws" "cm_excludedWallets m = sort_by (\<le>) (dedupe_list ws)"
      "to_bigint amt = Inr amount"
      "to_bigint (jor (oget snap ''supplyBaseUnits'') (Num (Fin 0))) = Inr (sum_list (map snd accs))" "0 < sum_list (map snd accs)"
    by (clarsimp simp: buildCommunityManifest_def Let_def bindR_Inr_iff not_le split: if_splits)
  note rows = community_leaves_rows [OF b(4)]
  have "mset accs = mset raw" "raw \<noteq> []" "sum_list (map snd accs) = sum_list (map snd raw)" using b(11,12) by auto
  then show thesis by (intro that [of rows amount accs alloc raw ws]) (use b rows in auto)
qed

lemma map_pair_zip: "map (\<lambda>x. (f x, g x)) xs = zip (map f xs) (map g xs)"
  by (induction xs) auto

text \<open>The leaves are the shares of the accounts that were handed in.\<close>

lemma community_manifest_shares:
  assumes "buildCommunityManifest L bs58 lc drp lm em sig slot bt snap amt ex = Inr m"
  shows "to_bigint amt = Inr (parse_dec (cm_totalAmount m))
    \<and> (\<exists>accounts rows excluded. oget snap ''accounts'' = Arr accounts \<and> list_all2 (row_reads L) accounts rows
        \<and> distinct (map fst rows) \<and> to_bigint (oget snap ''supplyBaseUnits'') = Inr (sum_list (map snd rows))
        \<and> mapR (key_text L) ex = Inr excluded \<and> set (cm_excludedWallets m) = set excluded
        \<and> set (map (\<lambda>l. (lf_recipient l, parse_dec (lf_amount l))) (cm_leaves m))
            = set (community_shares (parse_dec (cm_totalAmount m)) excluded rows))"
proof -
  from assms obtain rows alloc amount accs raw ws where R:
      "allocateHolderPool (Str (show_dec amount)) (eligible_weights accs (cm_excludedWallets m)) = Inr alloc"
      "0 < amount" "cm_totalAmount m = show_dec amount"
      "map fst rows = map al_wallet (hp_allocations alloc)"
      "map (\<lambda>(_, a, _). a) rows = map al_amount (hp_allocations alloc)"
      "cm_leaves m = manifest_leaves (pairHash L) rows"
      "community_accounts L (oget snap ''accounts'') = Inr raw" "mset accs = mset raw" "raw \<noteq> []"
      "mapR (key_text L) ex = Inr ws" "set (cm_excludedWallets m) = set ws" "to_bigint amt = Inr amount"
      "to_bigint (jor (oget snap ''supplyBaseUnits'') (Num (Fin 0))) = Inr (sum_list (map snd raw))"
      "0 < sum_list (map snd raw)"
    by (elim buildCommunityManifestE)
  obtain as where as: "oget snap ''accounts'' = Arr as" "community_rows L [] as = Inr raw"
    using R(7,9) by (auto simp: community_accounts_def jor_def split: jsval.splits if_split_asm)
  note reads = community_rows_reads [OF as(2)]
  have "to_bigint (oget snap ''supplyBaseUnits'') = Inr (sum_list (map snd raw))"
    using R(13,14) by (auto simp: jor_def to_int_def split: if_split_asm)
  moreover have "map (\<lambda>l. (lf_recipient l, parse_dec (lf_amount l))) (cm_leaves m)
      = map (\<lambda>a. (al_wallet a, parse_dec (al_amount a))) (hp_allocations alloc)"
  proof -
    have "map (\<lambda>l. parse_dec (lf_amount l)) (cm_leaves m) = map (\<lambda>a. parse_dec (al_amount a)) (hp_allocations alloc)"
      using arg_cong [OF map_manifest_leaves(2), of "map parse_dec" "pairHash L" rows] arg_cong [OF R(5), of "map parse_dec"]
      by (simp add: R(6) comp_def split_def)
    then show ?thesis by (simp add: map_pair_zip R(4,6) map_manifest_leaves)
  qed
  moreover have "set (map (\<lambda>a. (al_wallet a, parse_dec (al_amount a))) (hp_allocations alloc))
      = set (community_shares amount ws raw)"
    using pool_community_shares [OF R(1,2)] set_community_shares_cong [OF R(8,11)] reads R(8) by (metis mset_eq_setD)
  moreover have "parse_dec (cm_totalAmount m) = amount" using R(2,3) by simp
  ultimately show ?thesis using as(1) reads R(10-12) by metis
qed

section \<open>Properties\<close>

text \<open>C9. A community manifest pays out a conserved allocation.  With the given allocation, the wallets to be
  excluded and the accounts of the snapshot, which are distinct and hold its whole supply: every account gets
  exactly its share by balance among the accounts not excluded, rounded down, and nobody else gets anything.
  The recipients are distinct, the amounts and the remainder add up to the allocation, and every leaf, with its
  stored proof, verifies against the root.\<close>

theorem buildCommunityManifest_complete:
  assumes "lib_ok L"
    and "buildCommunityManifest L bs58 lc drp lm em sig slot bt snap amt ex = Inr m"
  shows "distinct (map lf_recipient (cm_leaves m)) \<and> cm_leaves m \<noteq> []
    \<and> to_bigint amt = Inr (parse_dec (cm_totalAmount m))
    \<and> (\<exists>accounts rows excluded. oget snap ''accounts'' = Arr accounts \<and> list_all2 (row_reads L) accounts rows
        \<and> distinct (map fst rows) \<and> to_bigint (oget snap ''supplyBaseUnits'') = Inr (sum_list (map snd rows))
        \<and> mapR (key_text L) ex = Inr excluded \<and> set (cm_excludedWallets m) = set excluded
        \<and> set (map (\<lambda>l. (lf_recipient l, parse_dec (lf_amount l))) (cm_leaves m))
            = set (community_shares (parse_dec (cm_totalAmount m)) excluded rows))
    \<and> parse_dec (cm_allocatedAmount m) = sum_list (map (\<lambda>l. parse_dec (lf_amount l)) (cm_leaves m))
    \<and> parse_dec (cm_allocatedAmount m) + parse_dec (cm_remainderAmount m) = parse_dec (cm_totalAmount m)
    \<and> 0 \<le> parse_dec (cm_remainderAmount m)
    \<and> (\<forall>l \<in> set (cm_leaves m). 0 < parse_dec (lf_amount l)
        \<and> verifyCommunityProof L drp (Str (lf_recipient l)) (Str (lf_amount l)) (Num (nint (lf_index l)))
            (lf_proof l) (cm_root m) = Inr True)"
proof -
  let ?f = "pairHash L"
  from assms(2) obtain rows alloc amount accs where R: "rows \<noteq> []" "\<forall>i < length rows. crow_ok L drp i (rows ! i)"
      "allocateHolderPool (Str (show_dec amount)) (eligible_weights accs (cm_excludedWallets m)) = Inr alloc"
      "0 < amount" "cm_totalAmount m = show_dec amount" "cm_remainderAmount m = hp_remainder alloc"
      "map fst rows = map al_wallet (hp_allocations alloc)"
      "map (\<lambda>(_, a, _). a) rows = map al_amount (hp_allocations alloc)"
      "cm_root m = hex_of (tree_root ?f (row_hashes rows))"
      "cm_allocatedAmount m = show_int (sum_list (map (\<lambda>(_, a, _). parse_dec a) rows))"
      "cm_leaves m = manifest_leaves ?f rows"
    by (elim buildCommunityManifestE)
  note pool = pool_parts [OF R(3)]
  have h32: "\<forall>e \<in> set (row_hashes rows). length e = 32" using crow_32 [OF assms(1) R(2)] by blast
  have amts: "map (\<lambda>l. parse_dec (lf_amount l)) (cm_leaves m) = map (\<lambda>(_, a, _). parse_dec a) rows"
      "map (\<lambda>(_, a, _). parse_dec a) rows = map (\<lambda>a. parse_dec (al_amount a)) (hp_allocations alloc)"
    using arg_cong [OF map_manifest_leaves(2), of "map parse_dec" ?f rows] arg_cong [OF R(8), of "map parse_dec"]
    by (simp_all add: R(11) comp_def split_def)
  have pos: "\<forall>x \<in> set (map (\<lambda>l. parse_dec (lf_amount l)) (cm_leaves m)). 0 < x"
    using pool(2) by (auto simp only: amts) auto
  then have nn: "0 \<le> sum_list (map (\<lambda>l. parse_dec (lf_amount l)) (cm_leaves m))"
    by (intro sum_list_nonneg_int) auto
  have "verifyCommunityProof L drp (Str (lf_recipient l)) (Str (lf_amount l)) (Num (nint (lf_index l)))
            (lf_proof l) (cm_root m) = Inr True"
    if l: "l \<in> set (cm_leaves m)" for l
  proof -
    obtain i r a h where i: "i < length rows" "rows ! i = (r, a, h)" "l = manifest_leaves ?f rows ! i"
      using l R(11) by (metis in_set_conv_nth length_manifest_leaves prod_cases3)
    have ok: "crow_ok L drp i (r, a, h)" using R(2) i by metis
    let ?p = "proof_path (levels ?f (row_hashes rows)) i"
    have p: "\<forall>s \<in> set ?p. length s = 32" using proof_path_32 [OF assms(1) h32] by blast
    have n: "i < length (row_hashes rows)" "row_hashes rows ! i = h" using i by (simp_all add: row_hashes_def)
    have "foldR (\<lambda>node s. bindR (hex32 s) (\<lambda>b. Inr (?f node b))) h (map hex_of ?p) = Inr (tree_root ?f (row_hashes rows))"
      using fold_path [of ?p hex32 hex_of ?f h] reward.path_verifies [OF n(1), of L] p hex32_hex
      unfolding n(2) by metis
    with ok tree_root_32 [OF assms(1) h32] R(1) show ?thesis
      by (simp add: i(3) manifest_leaves_nth [OF i(1,2)] crow_ok_def verifyCommunityProof_def R(9) hex32_hex row_hashes_def)
  qed
  moreover have "map lf_recipient (cm_leaves m) = map al_wallet (hp_allocations alloc)"
    by (simp add: R(11) map_manifest_leaves R(7))
  moreover have "units_val (Str (show_dec amount)) = amount" using R(4) by (simp add: units_val_def)
  moreover have alloc: "parse_dec (cm_allocatedAmount m) = sum_list (map (\<lambda>l. parse_dec (lf_amount l)) (cm_leaves m))"
    using nn by (simp only: R(10) amts(1) show_int_nonneg_eq parse_show_dec)
  moreover have "parse_dec (cm_allocatedAmount m) + parse_dec (cm_remainderAmount m) = amount"
    using pool(1) calculation(3) by (simp only: alloc amts R(6))
  moreover have "0 \<le> parse_dec (cm_remainderAmount m)" using pool(3) by (simp add: R(6))
  moreover have "parse_dec (cm_totalAmount m) = amount" using R(4,5) by simp
  moreover have "cm_leaves m \<noteq> []" using R(1,11) by (metis length_0_conv length_manifest_leaves)
  ultimately show ?thesis using pool(4) pos community_manifest_shares [OF assms(2)] by simp
qed

text \<open>The messages that building a manifest and verifying one claim hash.\<close>

definition community_leaf_messages :: "lib \<Rightarrow> jsval \<Rightarrow> reward_leaf list \<Rightarrow> byte list list" where
  "community_leaf_messages L drp ls = oks (map (\<lambda>l. community_message L drp (Str (lf_recipient l))
     (Str (lf_amount l)) (Num (nint (lf_index l)))) ls)"

definition community_claim_messages ::
  "lib \<Rightarrow> jsval \<Rightarrow> community_manifest \<Rightarrow> jsval \<Rightarrow> jsval \<Rightarrow> jsval \<Rightarrow> string list \<Rightarrow> byte list list" where
  "community_claim_messages L drp m recipient amount index path =
     (let claim = oks [community_message L drp recipient amount index];
          lm = community_leaf_messages L drp (cm_leaves m) in
      claim @ lm @ map (\<lambda>(a, b). pair_message a b)
        (tree_args (pairHash L) (map (sha256 L) lm)
         @ path_args (pairHash L) (sha256 L (hd claim)) (oks (map hex32 path))))"

lemma community_leaf_messages_rows:
  assumes "\<forall>i < length rows. crow_ok L drp i (rows ! i)"
  shows "map (sha256 L) (community_leaf_messages L drp (manifest_leaves (pairHash L) rows)) = row_hashes rows"
proof -
  let ?msg = "\<lambda>l. community_message L drp (Str (lf_recipient l)) (Str (lf_amount l)) (Num (nint (lf_index l)))"
  let ?ls = "manifest_leaves (pairHash L) rows"
  have "\<exists>x. ?msg (?ls ! i) = Inr x \<and> sha256 L x = row_hashes rows ! i" if "i < length rows" for i
  proof -
    obtain r a h where "rows ! i = (r, a, h)" by (cases "rows ! i")
    with that assms show ?thesis
      by (force simp: manifest_leaves_nth crow_ok_def communityLeaf_eq bindR_Inr_iff row_hashes_def)
  qed
  then obtain g where g: "\<And>i. i < length rows \<Longrightarrow> ?msg (?ls ! i) = Inr (g i) \<and> sha256 L (g i) = row_hashes rows ! i"
    by metis
  have "map ?msg ?ls = map (\<lambda>i. Inr (g i)) [0..<length rows]"
    using g by (intro nth_equalityI) simp_all
  then have "community_leaf_messages L drp ?ls = map g [0..<length rows]"
    by (simp add: community_leaf_messages_def)
  then show ?thesis using g by (auto intro!: nth_equalityI simp: row_hashes_def)
qed

text \<open>The root of a community manifest binds its leaves: an accepted claim is one of them, with
  its recipient, its amount and its index, unless two of the messages hashed on the way collide.\<close>

lemma verifyCommunityProof_binding:
  assumes "lib_ok L"
    and "buildCommunityManifest L bs58 lc drp lm em sig slot bt snap amt ex = Inr m"
    and "verifyCommunityProof L drp recipient amount index path (cm_root m) = Inr True"
    and "inj_on (sha256 L) (set (community_claim_messages L drp m recipient amount index path))"
  shows "\<exists>l \<in> set (cm_leaves m). pk_decode L recipient = pk_decode L (Str (lf_recipient l))
    \<and> to_bigint amount = to_bigint (Str (lf_amount l)) \<and> u32 index = u32 (Num (nint (lf_index l)))"
proof -
  let ?f = "pairHash L" and ?lm = "community_leaf_messages L drp (cm_leaves m)"
  from assms(2) obtain rows where R: "rows \<noteq> []" "\<forall>i < length rows. crow_ok L drp i (rows ! i)"
      "cm_root m = hex_of (tree_root ?f (row_hashes rows))" "cm_leaves m = manifest_leaves ?f rows"
    by (elim buildCommunityManifestE)
  have lm: "map (sha256 L) ?lm = row_hashes rows" using community_leaf_messages_rows [OF R(2)] R(4) by simp
  let ?p = "oks (map hex32 path)"
  from assms(3) obtain cm where cm: "community_message L drp recipient amount index = Inr cm"
      and acc: "foldl ?f (sha256 L cm) ?p = unhex (cm_root m)"
    by (auto simp: verifyCommunityProof_def communityLeaf_eq bindR_Inr_iff hex32_def [of "cm_root m"]
        split: if_splits dest!: fold_path_Inr)
  have len: "length x = 100" if "x \<in> insert cm (set ?lm)" for x
    using that length_community_message [OF assms(1)] cm by (auto simp: community_leaf_messages_def set_oks)
  have "cm \<in> set ?lm"
  proof (rule reward.claim_is_leaf [of L cm ?p ?lm])
    show "foldl ?f (sha256 L cm) ?p = tree_root ?f (map (sha256 L) ?lm)" using acc by (simp add: lm R(3))
    show "?lm \<noteq> []" using lm R(1) by (auto simp: row_hashes_def)
    show "inj_on (sha256 L) (insert cm (set ?lm) \<union> (\<lambda>(a, b). pair_message a b) `
        (set (tree_args ?f (map (sha256 L) ?lm)) \<union> set (path_args ?f (sha256 L cm) ?p)))"
      using assms(4) by (simp add: community_claim_messages_def cm Let_def Un_commute Un_left_commute image_Un)
    show "length (sha256 L x) = 32" for x using assms(1) by (simp add: lib_ok_def)
    show "\<forall>s \<in> set ?p. length s = 32" by (auto simp: set_oks length_hex32)
    show "pair_message a b \<notin> insert cm (set ?lm)" if "length a = 32" "length b = 32" for a b
    proof -
      have "length (pair_message a b) = 64" using that by (simp add: pair_message_def)
      then show ?thesis using len by fastforce
    qed
  qed
  then obtain l where "l \<in> set (cm_leaves m)" "community_message L drp (Str (lf_recipient l))
      (Str (lf_amount l)) (Num (nint (lf_index l))) = Inr cm"
    by (auto simp: community_leaf_messages_def set_oks)
  with community_message_inj [OF assms(1) cm] show ?thesis by blast
qed

section \<open>Example\<close>

definition toy_snapshot :: jsval where
  "toy_snapshot = Obj [(''finalized'', Bool True), (''coverage'', Str ''finalized-exact-slot-v1''),
     (''slot'', Num (nint 9)), (''blockTime'', Num (nint 5)), (''mint'', Str (toy_key CHR ''e'')),
     (''supplyBaseUnits'', Str ''5''),
     (''accounts'', Arr [Obj [(''wallet'', Str (toy_key CHR ''a'')), (''balance'', Str ''3'')],
        Obj [(''wallet'', Str (toy_key CHR ''b'')), (''balance'', Str ''2'')]])]"

definition toy_build :: "community_manifest res" where
  "toy_build = buildCommunityManifest toy_lib (\<lambda>_. Some (replicate 64 0)) (\<lambda>_ _. 0) (Str (toy_key CHR ''d''))
     (Str (toy_key CHR ''f'')) (Str (toy_key CHR ''e'')) (Str ''sig'') (Num (nint 9)) (Num (nint 5)) toy_snapshot
     (Str ''101'') [Str (toy_key CHR ''c'')]"

definition toy_community :: community_manifest where
  "toy_community = \<lparr>cm_version = 1, cm_drop = toy_key CHR ''d'', cm_launchMint = toy_key CHR ''f'',
     cm_eligibilityMint = toy_key CHR ''e'', cm_migrationSignature = Str ''sig'', cm_migrationSlot = Num (nint 9),
     cm_migrationBlockTime = Num (nint 5), cm_snapshotHash = toy_key CHR ''c'',
     cm_root = ''bbbbbbbbbbbbbbbbbbbbbbbbbbbbbbbbbbbbbbbb280000000000000001000000'',
     cm_totalAmount = ''101'', cm_allocatedAmount = ''100'', cm_remainderAmount = ''1'',
     cm_excludedWallets = [toy_key CHR ''c''],
     cm_leaves =
       [\<lparr>lf_index = 0, lf_recipient = toy_key CHR ''a'', lf_amount = ''60'',
          lf_hash = ''00000000000000000000003caaaaaaaaaaaaaaaaaaaaaaaaaaaaaaaaaaaaaaaa'',
          lf_proof = [''000000010000000000000028bbbbbbbbbbbbbbbbbbbbbbbbbbbbbbbbbbbbbbbb'']\<rparr>,
        \<lparr>lf_index = 1, lf_recipient = toy_key CHR ''b'', lf_amount = ''40'',
          lf_hash = ''000000010000000000000028bbbbbbbbbbbbbbbbbbbbbbbbbbbbbbbbbbbbbbbb'',
          lf_proof = [''00000000000000000000003caaaaaaaaaaaaaaaaaaaaaaaaaaaaaaaaaaaaaaaa'']\<rparr>]\<rparr>"

lemma toy_community_built: "toy_build = Inr toy_community"
  by code_simp

theorem buildCommunityManifest_complete_witness:
  "distinct (map lf_recipient (cm_leaves toy_community)) \<and> cm_leaves toy_community \<noteq> []
    \<and> parse_dec (cm_allocatedAmount toy_community) + parse_dec (cm_remainderAmount toy_community) = parse_dec (cm_totalAmount toy_community)"
  using buildCommunityManifest_complete [OF toy_lib_ok toy_community_built [unfolded toy_build_def]]
  by (simp add: toy_community_def)

end
