(* ===== verification/JsonText.thy ===== *)
theory JsonText
  imports JsConv Bytes
begin

text \<open>
  \<open>JSON.stringify\<close> of a value, the entries of an object, and objects that are changed field by field.
  The text of a value is \<open>None\<close> for \<open>undefined\<close>, and a \<open>BigInt\<close> anywhere in the value is a \<open>TypeError\<close>.
\<close>

definition json_char :: "char \<Rightarrow> string" where
  "json_char c =
     (if c = CHR 0x22 then [CHR 0x5C, CHR 0x22]
      else if c = CHR 0x5C then [CHR 0x5C, CHR 0x5C]
      else if c = CHR 0x08 then [CHR 0x5C, CHR ''b'']
      else if c = CHR 0x0C then [CHR 0x5C, CHR ''f'']
      else if c = CHR 0x0A then [CHR 0x5C, CHR ''n'']
      else if c = CHR 0x0D then [CHR 0x5C, CHR ''r'']
      else if c = CHR 0x09 then [CHR 0x5C, CHR ''t'']
      else if ccode c < 32 then [CHR 0x5C, CHR ''u'', CHR ''0'', CHR ''0''] @ hex_of [byte_of (ccode c)]
      else [c])"

definition json_string :: "string \<Rightarrow> string" where
  "json_string s = [CHR 0x22] @ concat (map json_char s) @ [CHR 0x22]"

fun json :: "jsval \<Rightarrow> string option res"
  and json_items :: "jsval list \<Rightarrow> string list res"
  and json_fields :: "(string \<times> jsval) list \<Rightarrow> string list res" where
  "json Undef = Inr None"
| "json Null = Inr (Some ''null'')"
| "json (Bool b) = Inr (Some (if b then ''true'' else ''false''))"
| "json (Num n) = Inr (Some (if nfinite n then num_to_str n else ''null''))"
| "json (Big i) = Inl TypeErr"
| "json (Str s) = Inr (Some (json_string s))"
| "json (Arr vs) = bindR (json_items vs) (\<lambda>ts. Inr (Some (''['' @ join '','' ts @ '']'')))"
| "json (Obj kvs) = bindR (json_fields kvs) (\<lambda>ts. Inr (Some (''{'' @ join '','' ts @ ''}'')))"
| "json_items [] = Inr []"
| "json_items (v # vs) =
     bindR (json v) (\<lambda>t. bindR (json_items vs) (\<lambda>ts. Inr ((case t of None \<Rightarrow> ''null'' | Some s \<Rightarrow> s) # ts)))"
| "json_fields [] = Inr []"
| "json_fields ((k, v) # kvs) =
     bindR (json v) (\<lambda>t. bindR (json_fields kvs) (\<lambda>ts.
       Inr (case t of None \<Rightarrow> ts | Some s \<Rightarrow> (json_string k @ '':'' @ s) # ts)))"

text \<open>\<open>JSON.stringify(a) !== JSON.stringify(b)\<close>.\<close>

definition json_differs :: "jsval \<Rightarrow> jsval \<Rightarrow> bool res" where
  "json_differs a b = bindR (json a) (\<lambda>s. bindR (json b) (\<lambda>t. Inr (s \<noteq> t)))"

lemma json_same: "json_differs a b = Inr False \<Longrightarrow> json b = json a"
  by (auto simp: json_differs_def bindR_Inr_iff)

section \<open>Objects\<close>

text \<open>\<open>Object.entries\<close> of a value that is neither \<open>undefined\<close> nor \<open>null\<close>.\<close>

definition obj_entries :: "jsval \<Rightarrow> (string \<times> jsval) list" where
  "obj_entries v =
     (case v of
        Obj kvs \<Rightarrow> kvs
      | Arr vs \<Rightarrow> zip (map (\<lambda>i. show_dec (int i)) [0..<length vs]) vs
      | Str s \<Rightarrow> zip (map (\<lambda>i. show_dec (int i)) [0..<length s]) (map (\<lambda>c. Str [c]) s)
      | _ \<Rightarrow> [])"

text \<open>\<open>{...v, k1: v1, ...}\<close>.\<close>

definition spread :: "jsval \<Rightarrow> (string \<times> jsval) list \<Rightarrow> jsval" where
  "spread v fields = Obj (foldl (\<lambda>m (k, x). oset k x m) (obj_entries v) fields)"

text \<open>Checks in order, each of which throws its message.\<close>

fun guards :: "(bool \<times> string) list \<Rightarrow> unit res" where
  "guards [] = Inr ()"
| "guards ((b, m) # cs) = (if b then throw m else guards cs)"

lemma guards_Inr [simp]: "guards cs = Inr u \<longleftrightarrow> list_all (\<lambda>(b, _). \<not> b) cs"
  by (induction cs rule: guards.induct) auto

text \<open>The checks of an accepted run, one by one.\<close>

lemma guards_run:
  "bindR (guards ((b, m) # cs)) k = Inr y \<longleftrightarrow> \<not> b \<and> bindR (guards cs) k = Inr y"
  "bindR (guards []) k = Inr y \<longleftrightarrow> k () = Inr y"
  "guards ((b, m) # cs) = Inr u \<longleftrightarrow> \<not> b \<and> guards cs = Inr u"
  by simp_all

lemma flag_run:
  "bindR r (\<lambda>b. bindR (guards ((b, m) # cs)) k) = Inr y \<longleftrightarrow> r = Inr False \<and> bindR (guards cs) k = Inr y"
  "bindR r (\<lambda>b. guards ((b, m) # cs)) = Inr u \<longleftrightarrow> r = Inr False \<and> guards cs = Inr u"
  by (cases r; auto)+

end
