(* ===== verification/Splits.thy ===== *)
theory Splits
  imports Prelude
begin

text \<open>
  Cumulative splits.  Several parts of the program divide an amount that grows over time: they
  compute the whole entitlement at the new total and at the old one, and pay the difference, so
  that rounding never accumulates.  The locale states what such a rule promises; its lemmas say
  that every difference is conserved and that paying in steps pays the same as paying at once.
\<close>

definition deltas :: "(int \<Rightarrow> int list) \<Rightarrow> int \<Rightarrow> int \<Rightarrow> int list" where
  "deltas target a b = map2 (-) (target b) (target a)"

text \<open>The shares of \<open>amount\<close> between consecutive boundaries, each boundary rounded down.\<close>

fun boundary_loop :: "int \<Rightarrow> int \<Rightarrow> int \<Rightarrow> int \<Rightarrow> int list \<Rightarrow> int list" where
  "boundary_loop amount units boundary prior [] = []"
| "boundary_loop amount units boundary prior (rate # rates) =
     (let b = boundary + rate; n = amount * b div units in
      (n - prior) # boundary_loop amount units b n rates)"

lemma length_boundary_loop [simp]: "length (boundary_loop a u b p rs) = length rs"
  by (induction rs arbitrary: b p) (simp_all add: Let_def)

lemma sum_boundary_loop:
  "rs \<noteq> [] \<Longrightarrow> sum_list (boundary_loop a u b p rs) = a * (b + sum_list rs) div u - p"
proof (induction rs arbitrary: b p)
  case Nil
  then show ?case by simp
next
  case (Cons r rs)
  from Cons.IH [of "b + r" "a * (b + r) div u"] show ?case
    by (cases "rs = []") (simp_all add: Let_def add.assoc)
qed

lemma boundary_loop_nonneg:
  "0 \<le> a \<Longrightarrow> 0 < u \<Longrightarrow> p \<le> a * b div u \<Longrightarrow> \<forall>r \<in> set rs. 0 \<le> r \<Longrightarrow> x \<in> set (boundary_loop a u b p rs) \<Longrightarrow> 0 \<le> x"
proof (induction rs arbitrary: b p)
  case Nil
  then show ?case by simp
next
  case (Cons r rs)
  have "a * b div u \<le> a * (b + r) div u"
    by (rule zdiv_mono1) (use Cons.prems in \<open>auto intro: mult_left_mono\<close>)
  with Cons show ?case by (auto simp: Let_def)
qed

locale cumulative_split =
  fixes target :: "int \<Rightarrow> int list" and parts :: nat
  assumes target_length: "length (target a) = parts"
    and target_sum: "0 \<le> a \<Longrightarrow> sum_list (target a) = a"
begin

lemma length_deltas: "length (deltas target a b) = parts"
  by (simp add: deltas_def target_length)

lemma sum_map2_diff: "length xs = length ys \<Longrightarrow> sum_list (map2 (-) xs ys) = sum_list xs - (sum_list ys :: int)"
  by (induction xs ys rule: list_induct2) simp_all

text \<open>A step pays exactly what came in.\<close>

lemma deltas_conserve: "0 \<le> a \<Longrightarrow> 0 \<le> b \<Longrightarrow> sum_list (deltas target a b) = b - a"
  by (simp add: deltas_def sum_map2_diff target_length target_sum)

text \<open>Two steps pay what one step pays.\<close>

lemma deltas_chain: "map2 (+) (deltas target a b) (deltas target b c) = deltas target a c"
  by (rule nth_equalityI) (simp_all add: deltas_def target_length)

end

end
