(* ===== verification/Agency.thy ===== *)
theory Agency
  imports Money JsDate JsonText Splits
begin

text \<open>
  The marketing agency: its policy (\<open>config/marketing-agency.js\<close>), the rules an authority may set
  and their on-chain encoding (\<open>config/agency-rules.js\<close>, \<open>agency-rules-v3.js\<close>), the projection of a
  gross fee onto the budgets and the scheduler decision (\<open>server/marketing-agency-policy.mjs\<close>,
  \<open>server/marketing-agency-triggers.mjs\<close>), and the posting limits (\<open>config/x-posting.js\<close>).
  Text outside Latin-1 in a message is written in UTF-8.
\<close>

section \<open>config/marketing-agency.js\<close>

record agency_agent =
  ag_id :: string
  ag_name :: string
  ag_kind :: string
  ag_marketCapUsd :: "int option"
  ag_description :: string

record agency_policy =
  ap_version :: string
  ap_scope :: string
  ap_grossUnits :: int
  ap_creatorUnits :: int
  ap_operationsUnits :: int
  ap_referralUnits :: "int list"
  ap_agencyUnits :: int
  ap_communityUnits :: int
  ap_fundedBuybackUnits :: int
  ap_budgetSplit :: string
  ap_unselectedBudget :: string
  ap_maxObservationAgeMs :: int
  ap_promotionCadenceSeconds :: int
  ap_promotionBilling :: string
  ap_agents :: "agency_agent list"

definition en_dash :: string where "en_dash = [CHR 0xE2, CHR 0x80, CHR 0x93]"

definition MARKETING_AGENCY_POLICY :: agency_policy where
  "MARKETING_AGENCY_POLICY =
     \<lparr>ap_version = ''marketing-agency-v1'', ap_scope = ''every-new-launch'', ap_grossUnits = 10000000,
      ap_creatorUnits = 8000000, ap_operationsUnits = 800000, ap_referralUnits = [60000, 25000, 15000],
      ap_agencyUnits = 200000, ap_communityUnits = 400000, ap_fundedBuybackUnits = 500000,
      ap_budgetSplit = ''equal-selected-agents'', ap_unselectedBudget = ''retain-in-agency-reserve'',
      ap_maxObservationAgeMs = 60000, ap_promotionCadenceSeconds = 86400,
      ap_promotionBilling = ''after-verified-x-post'',
      ap_agents =
        [\<lparr>ag_id = ''x-promotion'', ag_name = ''Agent 1'' @ mid_dot @ ''X promotion'', ag_kind = ''x-post'',
           ag_marketCapUsd = None,
           ag_description = ''Promote the project at most once per 24 hours; its accumulated agency share is billed only after the X post is verified.''\<rparr>,
         \<lparr>ag_id = ''buyback-100k'', ag_name = ''Agent 2'' @ mid_dot @ ''$100k buyback'', ag_kind = ''buyback-burn'',
           ag_marketCapUsd = Some 100000,
           ag_description = ''Buy this launched coin and burn it once after its verified market cap reaches $100,000.''\<rparr>,
         \<lparr>ag_id = ''buyback-300k'', ag_name = ''Agent 3'' @ mid_dot @ ''$300k buyback'', ag_kind = ''buyback-burn'',
           ag_marketCapUsd = Some 300000,
           ag_description = ''Buy this launched coin and burn it once after its verified market cap reaches $300,000.''\<rparr>]\<rparr>"

definition NEW_LAUNCH_AGENT_IDS :: "string list" where
  "NEW_LAUNCH_AGENT_IDS = map ag_id (ap_agents MARKETING_AGENCY_POLICY)"

definition newLaunchAgencySelection :: "jsval \<Rightarrow> string list" where
  "newLaunchAgencySelection promotion =
     filter (\<lambda>i. i \<noteq> ''x-promotion'' \<or> promotion = Bool True) NEW_LAUNCH_AGENT_IDS"

definition canonicalAgencySelection :: "jsval \<Rightarrow> string list res" where
  "canonicalAgencySelection input =
     (let ids = map ag_id (ap_agents MARKETING_AGENCY_POLICY);
          err = throw ''Choose each supported marketing agent at most once.'' in
      case input of
        Arr vs \<Rightarrow>
          if length vs > length ids \<or> \<not> list_all (\<lambda>v. v \<in> set (map Str ids)) vs \<or> \<not> distinct vs then err
          else Inr (filter (\<lambda>i. Str i \<in> set vs) ids)
      | _ \<Rightarrow> err)"

definition marketingAgencySelectionStatement :: "jsval \<Rightarrow> string res" where
  "marketingAgencySelectionStatement input =
     bindR (canonicalAgencySelection input) (\<lambda>sel.
       Inr (''{'' @ json_string ''version'' @ '':'' @ json_string (ap_version MARKETING_AGENCY_POLICY) @ '',''
         @ json_string ''selectedAgents'' @ '':['' @ join '','' (map json_string sel) @ '']}''))"

section \<open>config/agency-rules.js, agency-rules-v3.js\<close>

record agency_rules =
  ru_cap1 :: int
  ru_cap2 :: int
  ru_communityWindowSeconds :: int
  ru_promotionIntervalSeconds :: int

definition rules_val :: "agency_rules \<Rightarrow> jsval" where
  "rules_val r = Obj [(''marketCapUsd'', Arr [Num (nint (ru_cap1 r)), Num (nint (ru_cap2 r))]),
     (''communityWindowSeconds'', Num (nint (ru_communityWindowSeconds r))),
     (''promotionIntervalSeconds'', Num (nint (ru_promotionIntervalSeconds r)))]"

definition DEFAULT_AGENCY_RULES :: jsval where
  "DEFAULT_AGENCY_RULES = rules_val \<lparr>ru_cap1 = 100000, ru_cap2 = 300000,
     ru_communityWindowSeconds = 90 * 86400, ru_promotionIntervalSeconds = 86400\<rparr>"

definition safe_between :: "int \<Rightarrow> int \<Rightarrow> jsval \<Rightarrow> bool" where
  "safe_between lo hi v \<longleftrightarrow> is_safe v \<and> lo \<le> safe_int v \<and> safe_int v \<le> hi"

definition rule_fields :: "string list" where
  "rule_fields = [''marketCapUsd'', ''communityWindowSeconds'', ''promotionIntervalSeconds'', ''source'']"

definition rules_error :: "'a res" where
  "rules_error = throw (''Use increasing market caps of $1'' @ en_dash @ ''$1bn, a 5-minute'' @ en_dash
     @ ''365-day claim window, and a 1'' @ en_dash @ ''30-day promotion billing interval.'')"

definition validateAgencyRules :: "jsval \<Rightarrow> agency_rules res" where
  "validateAgencyRules input =
     (case input of
        Obj fs \<Rightarrow>
          (case (list_all (\<lambda>f. fst f \<in> set rule_fields) fs, oget input ''marketCapUsd'') of
             (True, Arr [a, b]) \<Rightarrow>
               (let w = oget input ''communityWindowSeconds''; p = oget input ''promotionIntervalSeconds'' in
                if \<not> safe_between 1 1000000000 a \<or> \<not> safe_between 1 1000000000 b \<or> safe_int b \<le> safe_int a
                    \<or> \<not> safe_between 300 31536000 w \<or> \<not> safe_between 86400 2592000 p
                  then rules_error
                else Inr \<lparr>ru_cap1 = safe_int a, ru_cap2 = safe_int b, ru_communityWindowSeconds = safe_int w,
                          ru_promotionIntervalSeconds = safe_int p\<rparr>)
           | _ \<Rightarrow> rules_error)
      | _ \<Rightarrow> rules_error)"

definition MAGIC :: "byte list" where
  "MAGIC = ascii ''FUNDRUL1''"

definition AGENCY_RULES_BYTES :: nat where
  "AGENCY_RULES_BYTES = 40"

definition encodeAgencyRules :: "jsval \<Rightarrow> byte list res" where
  "encodeAgencyRules input =
     bindR (validateAgencyRules input) (\<lambda>r.
       Inr (MAGIC @ le_bytes 8 (ru_cap1 r * 1000000) @ le_bytes 8 (ru_cap2 r * 1000000)
         @ le_bytes 8 (ru_communityWindowSeconds r) @ le_bytes 8 (ru_promotionIntervalSeconds r)))"

definition read_u64 :: "byte list \<Rightarrow> nat \<Rightarrow> int" where
  "read_u64 d off = le_value (take 8 (drop off d))"

definition read_i64 :: "byte list \<Rightarrow> nat \<Rightarrow> int" where
  "read_i64 d off = (let v = read_u64 d off in if v < 2 ^ 63 then v else v - 2 ^ 64)"

datatype rules_source = LegacyDefaults | OnChainSnapshot

definition decodeAgencyRules :: "byte list \<Rightarrow> nat \<Rightarrow> (agency_rules \<times> rules_source) res" where
  "decodeAgencyRules d base =
     (if length d = base
        then bindR (validateAgencyRules DEFAULT_AGENCY_RULES) (\<lambda>r. Inr (r, LegacyDefaults))
      else if length d \<noteq> base + 40 \<or> take 8 (drop base d) \<noteq> MAGIC
        then throw ''Invalid on-chain agency settings extension.''
      else let c1 = read_u64 d (base + 8); c2 = read_u64 d (base + 16) in
        if c1 mod 1000000 \<noteq> 0 \<or> c2 mod 1000000 \<noteq> 0
          then throw ''Agency thresholds must use exact whole USD values.''
        else bindR (validateAgencyRules (Obj
              [(''marketCapUsd'', Arr [Num (rnd (of_int (c1 div 1000000))), Num (rnd (of_int (c2 div 1000000)))]),
               (''communityWindowSeconds'', Num (rnd (of_int (read_i64 d (base + 24))))),
               (''promotionIntervalSeconds'', Num (rnd (of_int (read_i64 d (base + 32)))))]))
            (\<lambda>r. Inr (r, OnChainSnapshot)))"

section \<open>config/x-posting.js\<close>

record x_posting =
  xp_minIntervalMs :: int
  xp_maxHourlyPosts :: int
  xp_maxDailyPosts :: int
  xp_pollIntervalMs :: int
  xp_authCooldownMs :: int
  xp_rateLimitCooldownMs :: int

definition X_POSTING_DEFAULTS :: x_posting where
  "X_POSTING_DEFAULTS = \<lparr>xp_minIntervalMs = 6 * 60 * 60 * 1000, xp_maxHourlyPosts = 1, xp_maxDailyPosts = 4,
     xp_pollIntervalMs = 5 * 60 * 1000, xp_authCooldownMs = 6 * 60 * 60 * 1000,
     xp_rateLimitCooldownMs = 15 * 60 * 1000\<rparr>"

definition xPostingRetryWait :: "jsval \<Rightarrow> jsnum \<Rightarrow> jsnum" where
  "xPostingRetryWait error baseMs =
     (let status = oget error ''status''; ra = oget error ''retryAfterMs'' in
      if status \<in> {Num (nint 401), Num (nint 402), Num (nint 403)}
        then nmax baseMs (nint (xp_authCooldownMs X_POSTING_DEFAULTS))
      else if status = Num (nint 429) then
        (let requested = (if is_safe ra \<and> 0 < safe_int ra then min (safe_int ra) 86400000 else 0) in
         nmax baseMs (nmax (nint (xp_rateLimitCooldownMs X_POSTING_DEFAULTS)) (nint requested)))
      else baseMs)"

section \<open>server/marketing-agency-policy.mjs\<close>

definition AGENCY_CONTRACT_BLOCKER :: string where
  "AGENCY_CONTRACT_BLOCKER = ''The current reviewed V3 agency vault, immutable launch selection, and protected spending must be independently verified.''"

definition AGENCY_EXECUTOR_BLOCKER :: string where
  "AGENCY_EXECUTOR_BLOCKER = ''Agency X publishing and own-coin milestone purchase/burn executors are not activated.''"

definition unsigned_lamports :: "jsval \<Rightarrow> int res" where
  "unsigned_lamports v =
     (case v of
        Str s \<Rightarrow> if length s > 20 \<or> \<not> canon_dec s then throw ''An exact unsigned decimal lamport string is required.''
          else if parse_dec s > u64_max then throw ''Lamports exceed u64.'' else Inr (parse_dec s)
      | _ \<Rightarrow> throw ''An exact unsigned decimal lamport string is required.'')"

definition agency_rates :: "int list" where
  "agency_rates = (let p = MARKETING_AGENCY_POLICY in
     [ap_creatorUnits p, ap_operationsUnits p] @ ap_referralUnits p
     @ [ap_communityUnits p, ap_fundedBuybackUnits p, ap_agencyUnits p])"

text \<open>The cumulative entitlement of every category, and of every selected agent.\<close>

definition agency_targets :: "int \<Rightarrow> int list" where
  "agency_targets amount = boundary_loop amount (ap_grossUnits MARKETING_AGENCY_POLICY) 0 0 agency_rates"

definition agent_targets :: "nat \<Rightarrow> int \<Rightarrow> int list" where
  "agent_targets n budget =
     map (\<lambda>i. budget * (int i + 1) div int n - budget * int i div int n) [0..<n]"

record agency_projection =
  pj_grossLamports :: string
  pj_creatorLamports :: string
  pj_operationsLamports :: string
  pj_referralLamports :: "string list"
  pj_agencyLamports :: string
  pj_communityLamports :: string
  pj_fundedBuybackLamports :: string
  pj_agents :: "(string \<times> string) list"
  pj_retainedAgencyLamports :: string

definition projectAgencyAllocation :: "jsval \<Rightarrow> jsval \<Rightarrow> jsval \<Rightarrow> agency_projection res" where
  "projectAgencyAllocation totalGrossLamports previousGrossLamports selectedAgents =
     bindR (unsigned_lamports totalGrossLamports) (\<lambda>tot.
     bindR (unsigned_lamports previousGrossLamports) (\<lambda>before.
     if before > tot then throw ''Cumulative gross fees cannot decrease.''
     else bindR (canonicalAgencySelection selectedAgents) (\<lambda>selected.
     if sum_list agency_rates \<noteq> ap_grossUnits MARKETING_AGENCY_POLICY
       then throw ''Agency policy does not conserve gross fees.''
     else
       let after = agency_targets tot; prior = agency_targets before;
           category = deltas agency_targets before tot;
           n = length selected in
       if list_ex (\<lambda>v. v < 0) category
         then throw ''Accumulate more fees before projecting this cumulative rounding boundary.''
       else Inr \<lparr>pj_grossLamports = show_int (tot - before),
         pj_creatorLamports = show_int (category ! 0), pj_operationsLamports = show_int (category ! 1),
         pj_referralLamports = map show_int (take 3 (drop 2 category)),
         pj_agencyLamports = show_int (category ! 7), pj_communityLamports = show_int (category ! 5),
         pj_fundedBuybackLamports = show_int (category ! 6),
         pj_agents = zip selected (map show_int
           (deltas (agent_targets n) (prior ! 7) (after ! 7))),
         pj_retainedAgencyLamports = (if selected = [] then show_int (category ! 7) else ''0'')\<rparr>)))"

section \<open>server/marketing-agency-triggers.mjs\<close>

text \<open>
  A canonical address is the text its decoded key prints; \<open>canon\<close> stands for
  \<open>new PublicKey(v).toBase58()\<close> and is none where the constructor throws.
\<close>

definition integer_text :: "jsval \<Rightarrow> bool" where
  "integer_text v \<longleftrightarrow> (case v of Str s \<Rightarrow> length s \<le> 30 \<and> canon_dec s | _ \<Rightarrow> False)"

definition int_of_text :: "jsval \<Rightarrow> int" where
  "int_of_text v = (case v of Str s \<Rightarrow> parse_dec s | _ \<Rightarrow> 0)"

definition canonical_key :: "(jsval \<Rightarrow> string option) \<Rightarrow> jsval \<Rightarrow> bool" where
  "canonical_key canon v \<longleftrightarrow> (case canon v of Some s \<Rightarrow> v = Str s | None \<Rightarrow> False)"

datatype agency_trigger =
    NotSelected
  | ReconciliationRequired
  | Completed
  | AwaitingVerifiedBilling
  | Cooldown string
  | AwaitingFunding
  | PromotionCandidate (intentId: string) (sequence_no: int) (maxDebit: jsval)
  | AwaitingVerifiedMarketCap
  | BelowThreshold int
  | BuybackCandidate (intentId: string) (thresholdUsd: int) (maxDebit: jsval) (observationSlot: jsval)

text \<open>
  The part that reads the execution: a status that ends the decision, or the sequence number of
  the next promotion.
\<close>

definition read_execution ::
  "(string \<Rightarrow> jsnum) \<Rightarrow> jsval \<Rightarrow> jsval \<Rightarrow> agency_agent \<Rightarrow> agency_rules \<Rightarrow> jsnum \<Rightarrow> jsval
    \<Rightarrow> (agency_trigger + int) res" where
  "read_execution other mint agentId agent rules now execution =
     (if execution \<in> {Undef, Null} then Inr (Inr 0)
      else if oget execution ''mint'' \<noteq> mint \<or> oget execution ''agentId'' \<noteq> agentId
        then throw ''Agency execution belongs to another mint or agent.''
      else if oget execution ''status'' \<noteq> Str ''finalized'' \<or> oget execution ''receiptVerified'' \<noteq> Bool True
        then Inr (Inl ReconciliationRequired)
      else if ag_kind agent \<noteq> ''x-post'' then Inr (Inl Completed)
      else if oget execution ''billingVerified'' \<noteq> Bool True then Inr (Inl AwaitingVerifiedBilling)
      else let completed = date_parse other (oget execution ''completedAt''); sq = oget execution ''sequence'' in
        if \<not> is_safe_integer now \<or> \<not> is_safe_integer completed \<or> nless now completed
            \<or> \<not> is_safe sq \<or> safe_int sq < 0 \<or> safe_int sq \<ge> 4294967295
          then Inr (Inl ReconciliationRequired)
        else let next' = nadd completed (nint (ru_promotionIntervalSeconds rules * 1000)) in
          if nless now next' then bindR (iso_of_num next') (\<lambda>t. Inr (Inl (Cooldown t)))
          else Inr (Inr (safe_int sq + 1)))"

definition agency_index :: "jsval \<Rightarrow> nat option" where
  "agency_index agentId =
     (case filter (\<lambda>i. Str (ag_id (ap_agents MARKETING_AGENCY_POLICY ! i)) = agentId)
        [0..<length (ap_agents MARKETING_AGENCY_POLICY)] of i # _ \<Rightarrow> Some i | [] \<Rightarrow> None)"

definition observation_ok :: "(string \<Rightarrow> jsnum) \<Rightarrow> jsval \<Rightarrow> jsval \<Rightarrow> jsnum \<Rightarrow> bool" where
  "observation_ok other ob mint now \<longleftrightarrow>
     (let age = nsub now (date_parse other (oget ob ''observedAt'')) in
      oget ob ''mint'' = mint \<and> oget ob ''cluster'' = Str ''devnet'' \<and> oget ob ''commitment'' = Str ''finalized''
      \<and> is_safe (oget ob ''slot'') \<and> 1 \<le> safe_int (oget ob ''slot'')
      \<and> is_safe_integer now \<and> nfinite age \<and> \<not> nless age (Fin 0)
      \<and> \<not> nless (nint (ap_maxObservationAgeMs MARKETING_AGENCY_POLICY)) age
      \<and> oget ob ''quoteCurrency'' = Str ''USD'' \<and> integer_text (oget ob ''marketCapUsdMicros''))"

definition agency_intent :: "string \<Rightarrow> string \<Rightarrow> agency_agent \<Rightarrow> int \<Rightarrow> string" where
  "agency_intent mint agentId agent sq =
     ''agency:'' @ ap_version MARKETING_AGENCY_POLICY @ '':'' @ mint @ '':'' @ agentId
     @ (if ag_kind agent = ''x-post'' then '':'' @ show_int sq else [])"

definition evaluateAgencyTrigger ::
  "(jsval \<Rightarrow> string option) \<Rightarrow> (string \<Rightarrow> jsnum) \<Rightarrow> jsval \<Rightarrow> jsval \<Rightarrow> jsval \<Rightarrow> jsval \<Rightarrow> jsval \<Rightarrow> jsval
    \<Rightarrow> jsnum \<Rightarrow> jsval \<Rightarrow> agency_trigger res" where
  "evaluateAgencyTrigger canon other mint agentId selectedAgents budgetLamports observation execution now ruleset =
     bindR (validateAgencyRules ruleset) (\<lambda>rules.
     if \<not> canonical_key canon mint then throw ''A canonical launched mint is required.''
     else bindR (canonicalAgencySelection selectedAgents) (\<lambda>selected.
     case agency_index agentId of
       None \<Rightarrow> Inr NotSelected
     | Some i \<Rightarrow>
       (let agent = ap_agents MARKETING_AGENCY_POLICY ! i in
        if ag_id agent \<notin> set selected then Inr NotSelected
        else bindR (read_execution other mint agentId agent rules now execution) (\<lambda>ex.
        case ex of Inl t \<Rightarrow> Inr t
        | Inr sq \<Rightarrow>
          if \<not> integer_text budgetLamports \<or> int_of_text budgetLamports > u64_max
            then throw ''An exact agency budget is required.''
          else if int_of_text budgetLamports = 0 then Inr AwaitingFunding
          else if ag_kind agent = ''x-post''
            then Inr (PromotionCandidate (agency_intent (to_str mint) (ag_id agent) agent sq) sq budgetLamports)
          else if \<not> observation_ok other observation mint now then Inr AwaitingVerifiedMarketCap
          else let threshold = (if i = 1 then ru_cap1 rules else ru_cap2 rules) in
            if int_of_text (oget observation ''marketCapUsdMicros'') < threshold * 1000000
              then Inr (BelowThreshold threshold)
            else Inr (BuybackCandidate (agency_intent (to_str mint) (ag_id agent) agent sq) threshold
              budgetLamports (oget observation ''slot''))))))"

section \<open>Lemmas\<close>

text \<open>Reading an integer that \<open>String\<close> printed.\<close>

definition int_of_str :: "string \<Rightarrow> int" where
  "int_of_str s = (case s of c # r \<Rightarrow> if c = CHR ''-'' then - parse_dec r else parse_dec s | [] \<Rightarrow> 0)"

lemma int_of_show_int [simp]: "int_of_str (show_int i) = i"
proof (cases "i < 0")
  case True
  then show ?thesis by (simp add: int_of_str_def show_int_def)
next
  case False
  moreover have "list_all is_digit (show_dec i)" using False by (simp add: show_dec_digits)
  ultimately show ?thesis
    by (auto simp: int_of_str_def is_digit_def ccode_def split: list.splits) (metis parse_show_dec not_less)
qed

lemma agency_rates_eq: "agency_rates = [8000000, 800000, 60000, 25000, 15000, 400000, 500000, 200000]"
  by (simp add: agency_rates_def MARKETING_AGENCY_POLICY_def Let_def)

lemma gross_units_eq: "ap_grossUnits MARKETING_AGENCY_POLICY = 10000000"
  by (simp add: MARKETING_AGENCY_POLICY_def)

interpretation category_split: cumulative_split agency_targets 8
  by unfold_locales
    (simp_all add: agency_targets_def agency_rates_eq gross_units_eq sum_boundary_loop del: boundary_loop.simps)

lemma sum_agent_targets: "0 < n \<Longrightarrow> sum_list (agent_targets n b) = b"
  using sum_list_telescope [of "\<lambda>i. b * int i div int n" n] by (simp add: agent_targets_def add.commute)

interpretation agent_split: cumulative_split "agent_targets (Suc n)" "Suc n" for n
  by unfold_locales (simp add: agent_targets_def, simp add: sum_agent_targets)

definition projected_categories :: "agency_projection \<Rightarrow> int list" where
  "projected_categories r = map int_of_str
     ([pj_creatorLamports r, pj_operationsLamports r] @ pj_referralLamports r
      @ [pj_communityLamports r, pj_fundedBuybackLamports r, pj_agencyLamports r])"

lemma list_8: "length xs = 8 \<Longrightarrow> [xs ! 0, xs ! 1] @ take 3 (drop 2 xs) @ [xs ! 5, xs ! 6, xs ! 7] = (xs :: int list)"
  by (auto simp: eval_nat_numeral length_Suc_conv)

lemma projectAgencyAllocationE:
  assumes "projectAgencyAllocation t b s = Inr r"
  obtains tot before sel where "unsigned_lamports t = Inr tot" "unsigned_lamports b = Inr before" "before \<le> tot"
    "canonicalAgencySelection s = Inr sel" "pj_grossLamports r = show_int (tot - before)"
    "projected_categories r = deltas agency_targets before tot" "\<forall>v \<in> set (projected_categories r). 0 \<le> v"
    "map int_of_str (map snd (pj_agents r)) =
       deltas (agent_targets (length sel)) (agency_targets before ! 7) (agency_targets tot ! 7)"
    "pj_agencyLamports r = show_int (deltas agency_targets before tot ! 7)"
    "pj_retainedAgencyLamports r = (if sel = [] then pj_agencyLamports r else ''0'')"
proof -
  note def = assms [unfolded projectAgencyAllocation_def]
  from def obtain tot where t: "unsigned_lamports t = Inr tot" by (cases "unsigned_lamports t") simp_all
  from def obtain before where b: "unsigned_lamports b = Inr before"
    by (cases "unsigned_lamports b") (simp_all add: t)
  from def have le: "before \<le> tot" by (simp add: t b split: if_splits)
  from def le obtain sel where sel: "canonicalAgencySelection s = Inr sel"
    by (cases "canonicalAgencySelection s") (simp_all add: t b)
  from def le have c: "\<not> list_ex (\<lambda>v. v < 0) (deltas agency_targets before tot)"
    and r: "r = \<lparr>pj_grossLamports = show_int (tot - before),
         pj_creatorLamports = show_int (deltas agency_targets before tot ! 0),
         pj_operationsLamports = show_int (deltas agency_targets before tot ! 1),
         pj_referralLamports = map show_int (take 3 (drop 2 (deltas agency_targets before tot))),
         pj_agencyLamports = show_int (deltas agency_targets before tot ! 7),
         pj_communityLamports = show_int (deltas agency_targets before tot ! 5),
         pj_fundedBuybackLamports = show_int (deltas agency_targets before tot ! 6),
         pj_agents = zip sel (map show_int (deltas (agent_targets (length sel)) (agency_targets before ! 7) (agency_targets tot ! 7))),
         pj_retainedAgencyLamports = (if sel = [] then show_int (deltas agency_targets before tot ! 7) else ''0'')\<rparr>"
    by (simp_all add: t b sel Let_def split: if_splits)
  let ?d = "deltas agency_targets before tot"
  have d: "length ?d = 8" by (rule category_split.length_deltas)
  have cat: "projected_categories r = ?d"
    using list_8 [OF d] by (simp add: projected_categories_def r comp_def)
  have "length (deltas (agent_targets (length sel)) (agency_targets before ! 7) (agency_targets tot ! 7)) = length sel"
    by (simp add: deltas_def agent_targets_def)
  then have ag: "map int_of_str (map snd (pj_agents r)) =
       deltas (agent_targets (length sel)) (agency_targets before ! 7) (agency_targets tot ! 7)"
    by (simp add: r comp_def)
  have nn: "\<forall>v \<in> set (projected_categories r). 0 \<le> v" unfolding cat using c by (auto simp: list_ex_iff)
  show thesis by (rule that [OF t b le sel _ cat nn ag]) (simp_all add: r)
qed

lemma unsigned_nonneg: "unsigned_lamports v = Inr n \<Longrightarrow> 0 \<le> n"
  by (auto simp: unsigned_lamports_def canon_dec_nonneg split: jsval.splits if_splits)

lemma agency_target_7_nonneg: "0 \<le> a \<Longrightarrow> 0 \<le> agency_targets a ! 7"
proof -
  assume a: "0 \<le> a"
  have "agency_targets a ! 7 \<in> set (agency_targets a)"
    by (rule nth_mem) (simp add: category_split.target_length)
  then show ?thesis
    unfolding agency_targets_def gross_units_eq by (rule boundary_loop_nonneg [OF a, rotated 3]) (simp_all add: agency_rates_eq)
qed

section \<open>Properties\<close>

text \<open>C11. The projection of a gross fee conserves it: the eight category budgets are not negative
  and add up to the gross fee, and the agency budget is what the selected agents get, or what is
  retained when no agent is selected.\<close>

theorem projectAgencyAllocation_conserves:
  assumes "projectAgencyAllocation t b s = Inr r"
  shows "sum_list (projected_categories r) = parse_dec (pj_grossLamports r)
    \<and> list_all (\<lambda>v. 0 \<le> v) (projected_categories r)
    \<and> sum_list (map int_of_str (map snd (pj_agents r))) + int_of_str (pj_retainedAgencyLamports r)
        = int_of_str (pj_agencyLamports r)"
proof -
  obtain tot before sel where p: "unsigned_lamports t = Inr tot" "unsigned_lamports b = Inr before" "before \<le> tot"
    "canonicalAgencySelection s = Inr sel" "pj_grossLamports r = show_int (tot - before)"
    "projected_categories r = deltas agency_targets before tot" "\<forall>v \<in> set (projected_categories r). 0 \<le> v"
    "map int_of_str (map snd (pj_agents r)) =
       deltas (agent_targets (length sel)) (agency_targets before ! 7) (agency_targets tot ! 7)"
    "pj_agencyLamports r = show_int (deltas agency_targets before tot ! 7)"
    "pj_retainedAgencyLamports r = (if sel = [] then pj_agencyLamports r else ''0'')"
    by (rule projectAgencyAllocationE [OF assms])
  have n: "0 \<le> before" "0 \<le> tot" using p unsigned_nonneg by blast+
  have "sum_list (map int_of_str (map snd (pj_agents r))) + int_of_str (pj_retainedAgencyLamports r)
        = int_of_str (pj_agencyLamports r)"
  proof (cases sel)
    case Nil
    then show ?thesis unfolding p(8) by (simp add: p(9,10) deltas_def agent_targets_def)
  next
    case (Cons a as)
    have "int_of_str ''0'' = 0" by code_simp
    moreover have "deltas agency_targets before tot ! 7 = agency_targets tot ! 7 - agency_targets before ! 7"
      by (simp add: deltas_def category_split.target_length)
    ultimately show ?thesis unfolding p(8)
      using agent_split.deltas_conserve [OF agency_target_7_nonneg [OF n(1)] agency_target_7_nonneg [OF n(2)], of "length as"]
      by (simp add: p(9,10) Cons)
  qed
  with category_split.deltas_conserve [OF n] p show ?thesis by (simp add: list_all_iff)
qed

definition sample_projection :: "jsval \<Rightarrow> jsval \<Rightarrow> agency_projection" where
  "sample_projection t b = (case projectAgencyAllocation t b (Arr [Str ''buyback-300k'', Str ''x-promotion'']) of
     Inr r \<Rightarrow> r | Inl _ \<Rightarrow> \<lparr>pj_grossLamports = [], pj_creatorLamports = [], pj_operationsLamports = [],
       pj_referralLamports = [], pj_agencyLamports = [], pj_communityLamports = [], pj_fundedBuybackLamports = [],
       pj_agents = [], pj_retainedAgencyLamports = []\<rparr>)"

lemma sample_projections:
  "projectAgencyAllocation (Str ''12345'') (Str ''0'') (Arr [Str ''buyback-300k'', Str ''x-promotion''])
     = Inr (sample_projection (Str ''12345'') (Str ''0''))"
  "projectAgencyAllocation (Str ''99999'') (Str ''12345'') (Arr [Str ''buyback-300k'', Str ''x-promotion''])
     = Inr (sample_projection (Str ''99999'') (Str ''12345''))"
  "projectAgencyAllocation (Str ''99999'') (Str ''0'') (Arr [Str ''buyback-300k'', Str ''x-promotion''])
     = Inr (sample_projection (Str ''99999'') (Str ''0''))"
  by code_simp+

theorem projectAgencyAllocation_conserves_witness:
  "sum_list (projected_categories (sample_projection (Str ''12345'') (Str ''0''))) = 12345
    \<and> list_all (\<lambda>v. 0 \<le> v) (projected_categories (sample_projection (Str ''12345'') (Str ''0'')))"
proof -
  have "parse_dec (pj_grossLamports (sample_projection (Str ''12345'') (Str ''0''))) = 12345" by code_simp
  with projectAgencyAllocation_conserves [OF sample_projections(1)] show ?thesis by simp
qed

text \<open>The projection does not depend on how a fee arrives: projecting from one cumulative
  gross to a second and from there to a third gives, in every category and to every agent,
  what one projection from the first to the third gives.\<close>

lemma projectAgencyAllocation_steps:
  assumes "projectAgencyAllocation b a s = Inr r1" and "projectAgencyAllocation c b s = Inr r2"
    and "projectAgencyAllocation c a s = Inr r3"
  shows "projected_categories r3 = map2 (+) (projected_categories r1) (projected_categories r2)
    \<and> map int_of_str (map snd (pj_agents r3))
        = map2 (+) (map int_of_str (map snd (pj_agents r1))) (map int_of_str (map snd (pj_agents r2)))"
proof -
  obtain x y sel where p: "unsigned_lamports b = Inr y" "unsigned_lamports a = Inr x" "x \<le> y"
    "canonicalAgencySelection s = Inr sel" "pj_grossLamports r1 = show_int (y - x)"
    "projected_categories r1 = deltas agency_targets x y" "\<forall>v \<in> set (projected_categories r1). 0 \<le> v"
    "map int_of_str (map snd (pj_agents r1)) =
       deltas (agent_targets (length sel)) (agency_targets x ! 7) (agency_targets y ! 7)"
    by (rule projectAgencyAllocationE [OF assms(1)])
  obtain z y' sel' where q: "unsigned_lamports c = Inr z" "unsigned_lamports b = Inr y'" "y' \<le> z"
    "canonicalAgencySelection s = Inr sel'" "pj_grossLamports r2 = show_int (z - y')"
    "projected_categories r2 = deltas agency_targets y' z" "\<forall>v \<in> set (projected_categories r2). 0 \<le> v"
    "map int_of_str (map snd (pj_agents r2)) =
       deltas (agent_targets (length sel')) (agency_targets y' ! 7) (agency_targets z ! 7)"
    by (rule projectAgencyAllocationE [OF assms(2)])
  obtain z' x' s' where w: "unsigned_lamports c = Inr z'" "unsigned_lamports a = Inr x'" "x' \<le> z'"
    "canonicalAgencySelection s = Inr s'" "pj_grossLamports r3 = show_int (z' - x')"
    "projected_categories r3 = deltas agency_targets x' z'" "\<forall>v \<in> set (projected_categories r3). 0 \<le> v"
    "map int_of_str (map snd (pj_agents r3)) =
       deltas (agent_targets (length s')) (agency_targets x' ! 7) (agency_targets z' ! 7)"
    by (rule projectAgencyAllocationE [OF assms(3)])
  have eq: "y' = y" "z' = z" "x' = x" "sel' = sel" "s' = sel" using p(1,2,4) q(1,2,4) w(1,2,4) by simp_all
  have ag: "map2 (+) (deltas (agent_targets n) i j) (deltas (agent_targets n) j k) = deltas (agent_targets n) i k" for n i j k
    by (cases n) (simp_all add: agent_split.deltas_chain, simp add: deltas_def agent_targets_def)
  show ?thesis unfolding p(6,8) q(6,8) w(6,8) eq by (simp add: ag category_split.deltas_chain)
qed

text \<open>Accepted rules are in range, and validating them again changes nothing.\<close>

lemma validateAgencyRules_range:
  assumes "validateAgencyRules v = Inr r"
  shows "1 \<le> ru_cap1 r \<and> ru_cap1 r < ru_cap2 r \<and> ru_cap2 r \<le> 1000000000
    \<and> 300 \<le> ru_communityWindowSeconds r \<and> ru_communityWindowSeconds r \<le> 31536000
    \<and> 86400 \<le> ru_promotionIntervalSeconds r \<and> ru_promotionIntervalSeconds r \<le> 2592000"
  using assms
  by (auto simp: validateAgencyRules_def Let_def safe_between_def rules_error_def
      split: jsval.splits bool.splits list.splits if_splits)

lemma validateAgencyRules_again:
  assumes "validateAgencyRules v = Inr r"
  shows "validateAgencyRules (rules_val r) = Inr r"
  using validateAgencyRules_range [OF assms]
  by (simp add: validateAgencyRules_def rules_val_def rule_fields_def safe_between_def Let_def max_safe_def)

lemma read_u64_at: "read_u64 (p @ le_bytes 8 n @ q) (length p) = n mod 256 ^ 8"
  by (simp add: read_u64_def le_value_bytes)

lemma read_u64_le: "0 \<le> n \<Longrightarrow> n < 2 ^ 64 \<Longrightarrow> off = length p \<Longrightarrow> read_u64 (p @ le_bytes 8 n @ q) off = n"
  using read_u64_at [of p n q] by simp

text \<open>C13. The on-chain encoding of agency rules loses nothing: behind any account data, decoding
  the encoded rules gives the rules that were validated.\<close>

theorem agency_rules_roundtrip:
  assumes "encodeAgencyRules v = Inr bytes"
  shows "\<exists>r. validateAgencyRules v = Inr r \<and> length bytes = AGENCY_RULES_BYTES
    \<and> decodeAgencyRules (pre @ bytes) (length pre) = Inr (r, OnChainSnapshot)"
proof -
  from assms obtain r where r: "validateAgencyRules v = Inr r"
    and b: "bytes = MAGIC @ le_bytes 8 (ru_cap1 r * 1000000) @ le_bytes 8 (ru_cap2 r * 1000000)
         @ le_bytes 8 (ru_communityWindowSeconds r) @ le_bytes 8 (ru_promotionIntervalSeconds r)"
    by (auto simp: encodeAgencyRules_def bindR_Inr_iff)
  note R = validateAgencyRules_range [OF r]
  have M: "length MAGIC = 8" by code_simp
  let ?b = "length pre"
  have c1: "read_u64 (pre @ bytes) (?b + 8) = ru_cap1 r * 1000000"
    using read_u64_le [of "ru_cap1 r * 1000000" "?b + 8" "pre @ MAGIC"] R by (simp add: b M)
  have c2: "read_u64 (pre @ bytes) (?b + 16) = ru_cap2 r * 1000000"
    using read_u64_le [of "ru_cap2 r * 1000000" "?b + 16" "pre @ MAGIC @ le_bytes 8 (ru_cap1 r * 1000000)"] R
    by (simp add: b M)
  have w: "read_u64 (pre @ bytes) (?b + 24) = ru_communityWindowSeconds r"
    using read_u64_le [of "ru_communityWindowSeconds r" "?b + 24"
        "pre @ MAGIC @ le_bytes 8 (ru_cap1 r * 1000000) @ le_bytes 8 (ru_cap2 r * 1000000)"] R
    by (simp add: b M)
  have i: "read_u64 (pre @ bytes) (?b + 32) = ru_promotionIntervalSeconds r"
    using read_u64_le [of "ru_promotionIntervalSeconds r" "?b + 32"
        "pre @ MAGIC @ le_bytes 8 (ru_cap1 r * 1000000) @ le_bytes 8 (ru_cap2 r * 1000000)
          @ le_bytes 8 (ru_communityWindowSeconds r)" "[]"] R
    by (simp add: b M)
  have len: "length bytes = 40" and mg: "take 8 bytes = MAGIC" by (simp_all add: b M)
  then have ne: "bytes \<noteq> []" by auto
  have n: "rnd (of_int k) = nint k" if "\<bar>k\<bar> \<le> 1000000000" for k
    using that by (intro rnd_int) (simp add: max_safe_def)
  have "decodeAgencyRules (pre @ bytes) ?b
      = bindR (validateAgencyRules (rules_val r)) (\<lambda>r. Inr (r, OnChainSnapshot))"
    using R len ne mg by (simp add: decodeAgencyRules_def c1 c2 Let_def read_i64_def w i n rules_val_def)
  with r show ?thesis by (simp add: validateAgencyRules_again [OF r] b M AGENCY_RULES_BYTES_def)
qed

theorem agency_rules_roundtrip_witness:
  "\<exists>r b. validateAgencyRules DEFAULT_AGENCY_RULES = Inr r \<and> decodeAgencyRules ([1, 2, 3] @ b) 3 = Inr (r, OnChainSnapshot)"
proof -
  obtain b where b: "encodeAgencyRules DEFAULT_AGENCY_RULES = Inr b"
  proof (cases "encodeAgencyRules DEFAULT_AGENCY_RULES")
    case (Inl e)
    have "\<not> isl (encodeAgencyRules DEFAULT_AGENCY_RULES)" by code_simp
    with Inl show thesis by simp
  qed
  moreover have "length [1, 2, 3 :: byte] = 3" by simp
  ultimately show ?thesis using agency_rules_roundtrip [OF b, of "[1, 2, 3]"] by metis
qed

text \<open>The three agents, by their position.\<close>

lemma agency_index_cases:
  assumes "agency_index agentId = Some i"
  shows "i = 0 \<and> agentId = Str ''x-promotion'' \<or> i = 1 \<and> agentId = Str ''buyback-100k'' \<or> i = 2 \<and> agentId = Str ''buyback-300k''"
  using assms by (auto simp: agency_index_def MARKETING_AGENCY_POLICY_def upt_rec split: if_split_asm)

text \<open>An observation of the market cap of the mint: in US dollars, on finalized devnet, at most a minute old.\<close>

definition fresh_observation :: "(string \<Rightarrow> jsnum) \<Rightarrow> jsval \<Rightarrow> jsnum \<Rightarrow> jsval \<Rightarrow> bool" where
  "fresh_observation other mint now ob \<longleftrightarrow>
     oget ob ''mint'' = mint \<and> oget ob ''cluster'' = Str ''devnet'' \<and> oget ob ''commitment'' = Str ''finalized''
     \<and> oget ob ''quoteCurrency'' = Str ''USD'' \<and> 1 \<le> safe_int (oget ob ''slot'')
     \<and> (\<exists>age. nsub now (date_parse other (oget ob ''observedAt'')) = Fin age \<and> 0 \<le> age \<and> age \<le> 60000)"

lemma observation_ok_fresh: "observation_ok other ob mint now \<Longrightarrow> fresh_observation other mint now ob"
proof -
  assume ok: "observation_ok other ob mint now"
  then obtain age where age: "nsub now (date_parse other (oget ob ''observedAt'')) = Fin age"
    by (auto simp: observation_ok_def Let_def nfinite_def split: jsnum.splits)
  with ok have "0 \<le> age" "age \<le> 60000"
    by (auto simp: observation_ok_def Let_def MARKETING_AGENCY_POLICY_def)
  with ok age show ?thesis by (auto simp: observation_ok_def fresh_observation_def Let_def)
qed

text \<open>The agents that buy back, with their thresholds.\<close>

definition buyback_threshold :: "agency_rules \<Rightarrow> jsval \<Rightarrow> int option" where
  "buyback_threshold r agentId =
     (if agentId = Str ''buyback-100k'' then Some (ru_cap1 r)
      else if agentId = Str ''buyback-300k'' then Some (ru_cap2 r) else None)"

text \<open>An execution lets an agent go on when there is none, or when the last promotion is behind it.\<close>

lemma read_execution_ready:
  assumes "read_execution other mint agentId agent r now execution = Inr (Inr sq)"
  shows "sq = 0 \<and> execution \<in> {Undef, Null} \<or> oget execution ''status'' = Str ''finalized''
    \<and> oget execution ''billingVerified'' = Bool True \<and> sq = safe_int (oget execution ''sequence'') + 1
    \<and> ag_kind agent = ''x-post'' \<and> \<not> nless now (nadd (date_parse other (oget execution ''completedAt''))
        (nint (ru_promotionIntervalSeconds r * 1000)))"
  using assms by (auto simp: read_execution_def Let_def bindR_Inr_iff split: if_splits)

text \<open>The decision for a selected agent that may go on.\<close>

lemma evaluate_ready:
  assumes "evaluateAgencyTrigger canon other mint agentId sel budget ob execution now ruleset = Inr t"
    and "validateAgencyRules ruleset = Inr r" "canonicalAgencySelection sel = Inr ids"
    and "agency_index agentId = Some i" and "agent = ap_agents MARKETING_AGENCY_POLICY ! i"
    and "ag_id agent \<in> set ids" and "read_execution other mint agentId agent r now execution = Inr (Inr sq)"
    and "th = (if i = 1 then ru_cap1 r else ru_cap2 r)"
  shows "t = AwaitingFunding \<or> t = AwaitingVerifiedMarketCap
    \<or> 0 < int_of_text budget \<and> int_of_text budget \<le> u64_max
      \<and> (ag_kind agent = ''x-post'' \<and> (\<exists>intent. t = PromotionCandidate intent sq budget)
        \<or> ag_kind agent \<noteq> ''x-post'' \<and> observation_ok other ob mint now
          \<and> (int_of_text (oget ob ''marketCapUsdMicros'') < th * 1000000 \<and> t = BelowThreshold th
            \<or> th * 1000000 \<le> int_of_text (oget ob ''marketCapUsdMicros'')
              \<and> (\<exists>intent. t = BuybackCandidate intent th budget (oget ob ''slot''))))"
proof -
  have nz: "0 < int_of_text budget" if "integer_text budget" "int_of_text budget \<noteq> 0"
    using that canon_dec_nonneg by (force simp: integer_text_def int_of_text_def split: jsval.splits)
  from assms(1) show ?thesis
    using assms(2-8) nz by (auto simp: evaluateAgencyTrigger_def bindR_Inr_iff Let_def split: if_splits)
qed

text \<open>C14. What makes the scheduler propose an agency action.  A buyback is proposed only for a selected buyback
  agent, with a positive u64 budget and no execution yet, on an observation of this mint's market cap in US
  dollars, finalized on devnet in the slot that is reported and from zero to sixty seconds old, where the cap
  reaches the first threshold of the rules for the first such agent and the second for the second; it
  waits below a threshold only when the cap is below it.  A promotion is proposed only for the selected
  promotion agent, as the first one, or after the last one is finalized and billed and the promotion interval
  has passed since.\<close>

theorem evaluateAgencyTrigger_safe:
  assumes "evaluateAgencyTrigger canon other mint agentId sel budget ob execution now ruleset = Inr t"
  shows "\<exists>r ids. validateAgencyRules ruleset = Inr r \<and> canonicalAgencySelection sel = Inr ids
    \<and> (case t of
      BuybackCandidate i th d slot \<Rightarrow> execution \<in> {Undef, Null} \<and> d = budget \<and> 0 < int_of_text budget
        \<and> int_of_text budget \<le> u64_max \<and> agentId \<in> set (map Str ids) \<and> buyback_threshold r agentId = Some th
        \<and> fresh_observation other mint now ob \<and> slot = oget ob ''slot''
        \<and> th * 1000000 \<le> int_of_text (oget ob ''marketCapUsdMicros'')
    | BelowThreshold th \<Rightarrow> agentId \<in> set (map Str ids) \<and> buyback_threshold r agentId = Some th
        \<and> fresh_observation other mint now ob \<and> int_of_text (oget ob ''marketCapUsdMicros'') < th * 1000000
    | PromotionCandidate i sq d \<Rightarrow> d = budget \<and> 0 < int_of_text budget \<and> int_of_text budget \<le> u64_max
        \<and> agentId = Str ''x-promotion'' \<and> agentId \<in> set (map Str ids)
        \<and> (sq = 0 \<and> execution \<in> {Undef, Null} \<or>
           oget execution ''status'' = Str ''finalized'' \<and> oget execution ''billingVerified'' = Bool True
            \<and> sq = safe_int (oget execution ''sequence'') + 1
            \<and> \<not> nless now (nadd (date_parse other (oget execution ''completedAt''))
                (nint (ru_promotionIntervalSeconds r * 1000))))
    | _ \<Rightarrow> True)"
proof -
  from assms obtain r ids where r: "validateAgencyRules ruleset = Inr r" "canonicalAgencySelection sel = Inr ids"
    by (auto simp: evaluateAgencyTrigger_def bindR_Inr_iff split: if_splits)
  show ?thesis
  proof (cases "agency_index agentId")
    case None
    with assms r show ?thesis by (auto simp: evaluateAgencyTrigger_def split: if_splits)
  next
    case (Some i)
    define agent where "agent = ap_agents MARKETING_AGENCY_POLICY ! i"
    have i: "Str (ag_id agent) = agentId" "ag_kind agent = ''x-post'' \<longleftrightarrow> i = 0" "ag_kind agent = ''x-post'' \<longleftrightarrow> agentId = Str ''x-promotion''"
      "i \<noteq> 0 \<Longrightarrow> buyback_threshold r agentId = Some (if i = 1 then ru_cap1 r else ru_cap2 r)"
      using agency_index_cases [OF Some]
      by (auto simp: agent_def MARKETING_AGENCY_POLICY_def buyback_threshold_def)
    show ?thesis
    proof (cases "ag_id agent \<in> set ids")
      case False
      with assms r Some show ?thesis by (auto simp: evaluateAgencyTrigger_def agent_def Let_def split: if_splits)
    next
      case True
      with assms r Some obtain e where e: "read_execution other mint agentId agent r now execution = Inr e"
        by (auto simp: evaluateAgencyTrigger_def agent_def [symmetric] bindR_Inr_iff Let_def split: if_splits)
      show ?thesis
      proof (cases e)
        case (Inl u)
        from e Inl have "u \<in> {ReconciliationRequired, Completed, AwaitingVerifiedBilling} \<union> range Cooldown"
          by (auto simp: read_execution_def Let_def bindR_Inr_iff split: if_splits)
        moreover from assms r Some True e Inl have "t = u"
          by (simp add: evaluateAgencyTrigger_def agent_def [symmetric] Let_def split: if_splits)
        ultimately show ?thesis using r by auto
      next
        case (Inr sq)
        have sel: "agentId \<in> set (map Str ids)" using True i(1) by auto
        note decision = evaluate_ready [OF assms r Some agent_def True e [unfolded Inr] refl]
        note ready = read_execution_ready [OF e [unfolded Inr]]
        show ?thesis
          by (rule exI [of _ r], rule exI [of _ ids], rule conjI [OF r(1)], rule conjI [OF r(2)],
            use decision sel ready i observation_ok_fresh [of other ob mint now] in \<open>(elim disjE conjE exE; simp)\<close>)
      qed
    qed
  qed
qed

definition sample_observation :: jsval where
  "sample_observation = Obj [(''mint'', Str ''M''), (''cluster'', Str ''devnet''), (''commitment'', Str ''finalized''),
     (''slot'', Num (nint 77)), (''observedAt'', Str ''2026-01-01T00:00:00Z''), (''quoteCurrency'', Str ''USD''),
     (''marketCapUsdMicros'', Str ''120000000000'')]"

theorem evaluateAgencyTrigger_safe_witness:
  "fresh_observation (\<lambda>_. NaN) (Str ''M'') (nint 1767225601000) sample_observation
    \<and> 100000 * 1000000 \<le> int_of_text (oget sample_observation ''marketCapUsdMicros'')"
proof -
  have "evaluateAgencyTrigger (\<lambda>v. case v of Str s \<Rightarrow> Some s | _ \<Rightarrow> None) (\<lambda>_. NaN) (Str ''M'') (Str ''buyback-100k'')
      (Arr [Str ''buyback-100k'']) (Str ''500'') sample_observation Null (nint 1767225601000) DEFAULT_AGENCY_RULES
    = Inr (BuybackCandidate ''agency:marketing-agency-v1:M:buyback-100k'' 100000 (Str ''500'') (Num (nint 77)))"
    by code_simp
  from evaluateAgencyTrigger_safe [OF this] show ?thesis by auto
qed

end
