(* ===== verification/BonusPolicy.thy ===== *)
theory BonusPolicy
  imports JsConv
begin

text \<open>The policy of the daily bonus, \<open>config/daily-bonus.js\<close>, as a record and as the value that saved
  launch policies embed.\<close>

section \<open>config/daily-bonus.js\<close>

record bonus_metrics =
  bm_creators :: string
  bm_referrals :: string
  bm_traders :: string

record daily_bonus_policy =
  db_version :: int
  db_periodSeconds :: int
  db_timezone :: string
  db_categories :: "string list"
  db_categoryWeights :: "int list"
  db_rankPercents :: "int list"
  db_metrics :: bonus_metrics
  db_tieBreak :: string
  db_traderEligibility :: "string option"
  db_unfilledRank :: string
  db_eligibilityBasis :: "string option"
  db_qa :: bool

definition DAILY_BONUS_POLICY :: daily_bonus_policy where
  "DAILY_BONUS_POLICY =
     \<lparr>db_version = 1, db_periodSeconds = 86400, db_timezone = ''UTC'',
      db_categories = [''creators'', ''referrals'', ''traders''], db_categoryWeights = [1, 1, 1],
      db_rankPercents = [50, 30, 20],
      db_metrics = \<lparr>bm_creators = ''collected-creator-fee-lamports'',
        bm_referrals = ''direct-referred-collected-fee-lamports'', bm_traders = ''finalized-trading-volume-lamports''\<rparr>,
      db_tieBreak = ''wallet-address-ascending'', db_traderEligibility = Some ''direct-signers-v1'',
      db_unfilledRank = ''retain-in-community-vault'', db_eligibilityBasis = None, db_qa = False\<rparr>"

definition nums :: "int list \<Rightarrow> jsval" where
  "nums xs = Arr (map (\<lambda>i. Num (nint i)) xs)"

definition bonus_policy_value :: "daily_bonus_policy \<Rightarrow> jsval" where
  "bonus_policy_value p = Obj
     ([(''version'', Num (nint (db_version p))), (''periodSeconds'', Num (nint (db_periodSeconds p))),
       (''timezone'', Str (db_timezone p)), (''categories'', Arr (map Str (db_categories p))),
       (''categoryWeights'', nums (db_categoryWeights p)), (''rankPercents'', nums (db_rankPercents p)),
       (''metrics'', Obj [(''creators'', Str (bm_creators (db_metrics p))), (''referrals'', Str (bm_referrals (db_metrics p))),
          (''traders'', Str (bm_traders (db_metrics p)))]),
       (''tieBreak'', Str (db_tieBreak p))]
      @ (case db_traderEligibility p of Some t \<Rightarrow> [(''traderEligibility'', Str t)] | None \<Rightarrow> [])
      @ [(''unfilledRank'', Str (db_unfilledRank p))])"

end
