(* ===== verification/Bonus.thy ===== *)
theory Bonus
  imports Merkle JsDate BonusPolicy
begin

text \<open>
  The daily bonus: the windows of a day
  (\<open>server/daily-bonus-schedule.mjs\<close>), the snapshot that ranks the wallets of a window and divides
  every source among the winners (\<open>server/daily-bonus.mjs\<close>) and the append of late sources to a
  frozen ranking (\<open>server/daily-bonus-reconciliation.mjs\<close>).  Rows of evidence are records of the
  fields the code reads.  The parameters are \<open>bonusHash\<close> at its three types, the text of a decoded
  address (none where the constructor throws), and whether an address lies on the curve.
\<close>

section \<open>server/daily-bonus-schedule.mjs\<close>

record bonus_schedule =
  bs_periodSeconds :: int
  bs_mode :: string
  bs_mints :: "string list option"
  bs_cohort :: "string option"

definition DEFAULT_BONUS_SCHEDULE :: bonus_schedule where
  "DEFAULT_BONUS_SCHEDULE = \<lparr>bs_periodSeconds = 86400, bs_mode = ''daily'', bs_mints = None, bs_cohort = None\<rparr>"

text \<open>The environment variables the function reads; \<open>digest\<close> is the hex SHA-256 of a text.\<close>

definition bonusSchedule ::
  "(string \<Rightarrow> string) \<Rightarrow> (jsval \<Rightarrow> string option) \<Rightarrow> jsval \<Rightarrow> (string \<Rightarrow> jsval) \<Rightarrow> bonus_schedule res" where
  "bonusSchedule digest key cluster env =
     (let period = to_str (jor (env ''FUNDED_DEVNET_QA_BONUS_PERIOD_SECONDS'') (Str ''86400'')) in
      if period = ''86400'' then Inr DEFAULT_BONUS_SCHEDULE
      else if \<not> jeq cluster (Str ''devnet'') \<or> \<not> jeq (env ''FUNDED_DEVNET_QA_MINIMUMS_ENABLED'') (Str ''true'')
          \<or> period \<noteq> ''300''
        then throw ''Five-minute bonus snapshots require explicit Devnet QA configuration.''
      else let mints = dedupe_list (filter (\<lambda>m. m \<noteq> []) (map trim (split_on (CHR '','')
                 (to_str (jor (env ''FUNDED_DEVNET_QA_BONUS_MINTS'') (Str [])))))) in
        if mints = [] \<or> length mints > 8 then throw ''Select one to eight disposable QA bonus mints.''
        else bindR (mapR (\<lambda>m. case key (Str m) of None \<Rightarrow> Inl LibErr
               | Some t \<Rightarrow> if t \<noteq> m then throw ''Invalid QA bonus mint.'' else Inr t) mints) (\<lambda>_.
          Inr \<lparr>bs_periodSeconds = 300, bs_mode = ''devnet-qa-5m'', bs_mints = Some mints,
               bs_cohort = Some (take 12 (digest (join '','' (sort_by (\<le>) mints))))\<rparr>))"

text \<open>\<open>replace('.000Z', 'Z')\<close> acts on the only place the text can hold it: its end.\<close>

definition drop_millis :: "string \<Rightarrow> string" where
  "drop_millis s = (let n = length s - 5 in if drop n s = ''.000Z'' then take n s @ ''Z'' else s)"

definition bonusWindowKey :: "int \<Rightarrow> int \<Rightarrow> string option \<Rightarrow> string res" where
  "bonusWindowKey start period cohort =
     bindR (iso_of_num (nint (start * 1000))) (\<lambda>iso.
       Inr (if period = 300
            then ''qa5m:'' @ drop_millis iso @ (case cohort of Some c \<Rightarrow> if c = [] then [] else CHR ''@'' # c | None \<Rightarrow> [])
            else take 10 iso))"

definition digits_at :: "string \<Rightarrow> nat list \<Rightarrow> bool" where
  "digits_at s is = list_all (\<lambda>i. is_digit (s ! i)) is"

text \<open>\<open>/^\d{4}-\d{2}-\d{2}$/\<close> and the pattern of a five-minute window.\<close>

definition day_pattern :: "string \<Rightarrow> bool" where
  "day_pattern s \<longleftrightarrow> length s = 10 \<and> digits_at s [0, 1, 2, 3, 5, 6, 8, 9] \<and> s ! 4 = CHR ''-'' \<and> s ! 7 = CHR ''-''"

definition qa_pattern :: "string \<Rightarrow> bool" where
  "qa_pattern s \<longleftrightarrow> take 5 s = ''qa5m:'' \<and>
     (let t = drop 5 s; c = drop 20 t in
      20 \<le> length t \<and> day_pattern (take 10 t) \<and> t ! 10 = CHR ''T'' \<and> digits_at t [11, 12, 14, 15]
      \<and> t ! 13 = CHR '':'' \<and> slice 16 20 t = '':00Z''
      \<and> (c = [] \<or> length c = 13 \<and> hd c = CHR ''@'' \<and> list_all is_hex_lower (tl c)))"

record bonus_window =
  bw_day :: string
  bw_start :: int
  bw_end :: int
  bw_qa :: bool
  bw_cohort :: "string option"

definition window_error :: "bool \<Rightarrow> 'a res" where
  "window_error qa = throw (if qa then ''A completed five-minute QA window is required.''
     else ''A completed UTC day is required.'')"

definition bonusWindow :: "string \<Rightarrow> int \<Rightarrow> bonus_window res" where
  "bonusWindow day now =
     (let qa = qa_pattern day in
      if \<not> qa \<and> \<not> day_pattern day
        then throw ''A UTC day or namespaced five-minute QA window is required.''
      else
        let parts = split_on (CHR ''@'') day;
            cohort = (if qa \<and> 1 < length parts then Some (parts ! 1) else None);
            period = (if qa then 300 else 86400) in
        case parse_iso (if qa then hd (split_on (CHR ''@'') (drop 5 day)) else day @ ''T00:00:00Z'') of
          None \<Rightarrow> window_error qa
        | Some ms \<Rightarrow>
            if ms mod 1000 \<noteq> 0 then window_error qa
            else let start = ms div 1000 in
              if start mod period \<noteq> 0 then window_error qa
              else bindR (bonusWindowKey start period cohort) (\<lambda>k.
                if k \<noteq> day \<or> start + period > now then window_error qa
                else Inr \<lparr>bw_day = day, bw_start = start, bw_end = start + period, bw_qa = qa, bw_cohort = cohort\<rparr>))"

definition currentBonusStart :: "int \<Rightarrow> bonus_schedule \<Rightarrow> int" where
  "currentBonusStart now schedule = now div bs_periodSeconds schedule * bs_periodSeconds schedule"

definition latestBonusDay :: "int \<Rightarrow> bonus_schedule \<Rightarrow> string res" where
  "latestBonusDay now schedule =
     bonusWindowKey (currentBonusStart now schedule - bs_periodSeconds schedule)
       (bs_periodSeconds schedule) (bs_cohort schedule)"

definition publicBonusSchedule :: "bonus_schedule \<Rightarrow> bonus_schedule" where
  "publicBonusSchedule s = (case bs_mints s of Some _ \<Rightarrow> s | None \<Rightarrow> s\<lparr>bs_cohort := None\<rparr>)"

section \<open>Splitting and ranking\<close>

definition bonus_amount :: "jsval \<Rightarrow> int res" where
  "bonus_amount v = (if \<not> canon_dec (to_str v) then throw ''Daily bonus amounts must be integer lamports.''
     else to_bigint v)"

text \<open>The loop that hands out the dust: the next row gets one unit while there is any.\<close>

fun dust_rows :: "int \<Rightarrow> nat list \<Rightarrow> nat list" where
  "dust_rows dust [] = []"
| "dust_rows dust (i # r) = (if dust > 0 then [i] else []) @ dust_rows (dust - 1) r"

definition split_values :: "int \<Rightarrow> int list \<Rightarrow> int list" where
  "split_values tot weights =
     (let denominator = sum_list weights;
          rows = map (\<lambda>i. (i, tot * weights ! i mod denominator)) [0..<length weights];
          base = map (\<lambda>w. tot * w div denominator) weights;
          order = sort_by (\<lambda>a b. if snd a = snd b then fst a \<le> fst b else snd a > snd b) rows;
          bump = dust_rows (tot - sum_list base) (map fst order) in
      map (\<lambda>i. base ! i + (if i \<in> set bump then 1 else 0)) [0..<length weights])"

text \<open>A division of big integers by zero is a range error.\<close>

definition splitBonusLamports :: "int \<Rightarrow> int list \<Rightarrow> int list res" where
  "splitBonusLamports tot weights =
     (if weights \<noteq> [] \<and> sum_list weights = 0 then Inl RangeErr else Inr (split_values tot weights))"

text \<open>\<open>dedupe\<close>: the last row of a key stays at the place of the first; rows of a key must agree.\<close>

definition dedupe_rows :: "('a \<Rightarrow> string) \<Rightarrow> ('a \<Rightarrow> string) \<Rightarrow> 'a list \<Rightarrow> 'a list res" where
  "dedupe_rows h key rows =
     bindR (foldR (\<lambda>seen row.
         (case map_of seen (key row) of
            Some old \<Rightarrow> if h old \<noteq> h row then throw ''Conflicting daily bonus evidence.'' else Inr (oset (key row) row seen)
          | None \<Rightarrow> Inr (oset (key row) row seen))) [] rows) (\<lambda>seen.
       Inr (sort_by (\<lambda>a b. key a \<le> key b) (map snd seen)))"

record winner =
  wn_rank :: nat
  wn_wallet :: string
  wn_score :: string
  wn_percent :: int
  wn_bonus :: string

record bonus_source =
  so_collection :: string
  so_settlement :: jsval
  so_mint :: jsval
  so_amount :: string
  so_payable :: string
  so_retained :: string
  so_allocations :: "(string \<times> string) list"

record fee_row =
  fr_signature :: string
  fr_settlementSignature :: jsval
  fr_mint :: jsval
  fr_creator :: jsval
  fr_referrer :: jsval
  fr_amount :: jsval
  fr_community :: jsval
  fr_finalized :: jsval
  fr_blockTime :: jsval
  fr_settlementBlockTime :: jsval
  fr_dailyBonusVersion :: jsval

text \<open>The winners of a category, with the reward of their rank added to their bonus.\<close>

fun pay_winners :: "int list \<Rightarrow> winner list \<Rightarrow> (string, int) omap \<Rightarrow> (winner list \<times> (string, int) omap) res" where
  "pay_winners ranks [] al = Inr ([], al)"
| "pay_winners ranks (w # ws) al =
     (if wn_rank w = 0 \<or> length ranks < wn_rank w then Inl TypeErr
      else let reward = ranks ! (wn_rank w - 1) in
        bindR (str_to_bigint (wn_bonus w)) (\<lambda>bonus.
        bindR (pay_winners ranks ws (if reward > 0 then oadd (wn_wallet w) reward al else al)) (\<lambda>(r, al').
          Inr (w\<lparr>wn_bonus := show_int (bonus + reward)\<rparr> # r, al'))))"

fun pay_categories ::
  "int list \<Rightarrow> (string \<times> winner list) list \<Rightarrow> (string, int) omap \<Rightarrow> ((string \<times> winner list) list \<times> (string, int) omap) res" where
  "pay_categories groups [] al = Inr ([], al)"
| "pay_categories [] rs al = Inl TypeErr"
| "pay_categories (g # gs) ((c, ws) # rs) al =
     bindR (splitBonusLamports g (db_rankPercents DAILY_BONUS_POLICY)) (\<lambda>ranks.
     bindR (pay_winners ranks ws al) (\<lambda>(ws', al').
     bindR (pay_categories gs rs al') (\<lambda>(r, al''). Inr ((c, ws') # r, al''))))"

definition allocateDailyBonusSource ::
  "fee_row \<Rightarrow> (string \<times> winner list) list \<Rightarrow> (bonus_source \<times> (string \<times> winner list) list) res" where
  "allocateDailyBonusSource row rankings =
     bindR (bonus_amount (fr_community row)) (\<lambda>budget.
     bindR (splitBonusLamports budget (db_categoryWeights DAILY_BONUS_POLICY)) (\<lambda>groups.
     bindR (pay_categories groups rankings []) (\<lambda>(rankings', al).
       let paid = sum_list (map snd al) in
       Inr (\<lparr>so_collection = fr_signature row, so_settlement = fr_settlementSignature row, so_mint = fr_mint row,
             so_amount = show_int budget, so_payable = show_int paid, so_retained = show_int (budget - paid),
             so_allocations = map (\<lambda>(w, v). (w, show_int v)) (sort_by (\<lambda>a b. fst a \<le> fst b) al)\<rparr>, rankings'))))"

section \<open>The snapshot of a window\<close>

record trade_row =
  tr_signature :: string
  tr_logIndex :: jsval
  tr_mint :: jsval
  tr_wallet :: jsval
  tr_amount :: jsval
  tr_finalized :: jsval
  tr_blockTime :: jsval

record coverage_row =
  co_mint :: string
  co_complete :: jsval

record bonus_evidence =
  be_collections :: "fee_row list"
  be_trades :: "trade_row list"
  be_coverage :: "coverage_row list"
  be_excluded :: "string list option"

record bonus_reconciliation =
  rc_kind :: string
  rc_priorHash :: string
  rc_added :: "string list"

record bonus_snapshot =
  bn_version :: int
  bn_window :: bonus_window
  bn_eligibilityBasis :: "string option"
  bn_policy :: daily_bonus_policy
  bn_rankings :: "(string \<times> winner list) list"
  bn_sources :: "bonus_source list"
  bn_evidence :: bonus_evidence
  bn_reconciliation :: "bonus_reconciliation option"
  bn_hash :: string

text \<open>The library functions and the hash of the three kinds of values.\<close>

record bonus_lib =
  bl_key :: "jsval \<Rightarrow> string option"
  bl_on_curve :: "jsval \<Rightarrow> bool"
  bl_fee_hash :: "fee_row \<Rightarrow> string"
  bl_trade_hash :: "trade_row \<Rightarrow> string"
  bl_snapshot_hash :: "bonus_snapshot \<Rightarrow> string"

definition wallet_text :: "bonus_lib \<Rightarrow> jsval \<Rightarrow> string res" where
  "wallet_text B v = (case bl_key B v of Some s \<Rightarrow> Inr s | None \<Rightarrow> Inl LibErr)"

text \<open>\<open>include\<close>: a positive amount is added to the total of a wallet.\<close>

definition include_amount :: "bonus_lib \<Rightarrow> (string, int) omap \<Rightarrow> jsval \<Rightarrow> jsval \<Rightarrow> (string, int) omap res" where
  "include_amount B m recipient amount =
     bindR (wallet_text B recipient) (\<lambda>k. bindR (bonus_amount amount) (\<lambda>a.
       Inr (if a > 0 then oadd k a m else m)))"

definition in_window :: "bonus_window \<Rightarrow> jsval \<Rightarrow> bool" where
  "in_window w t \<longleftrightarrow> is_safe t \<and> bw_start w \<le> safe_int t \<and> safe_int t < bw_end w"

definition count_fee ::
  "bonus_lib \<Rightarrow> bonus_window \<Rightarrow> bool \<Rightarrow> (string, int) omap \<times> (string, int) omap \<Rightarrow> fee_row
    \<Rightarrow> ((string, int) omap \<times> (string, int) omap) res" where
  "count_fee B w settlementTime = (\<lambda>(creators, referrals) row.
     if fr_finalized row \<noteq> Bool True
        \<or> \<not> in_window w (if settlementTime then fr_settlementBlockTime row else fr_blockTime row)
       then throw ''Collection does not belong to the finalized UTC day.''
     else bindR (include_amount B creators (fr_creator row) (fr_amount row)) (\<lambda>creators'.
       if truthy (fr_referrer row)
         then bindR (include_amount B referrals (fr_referrer row) (fr_amount row)) (\<lambda>referrals'. Inr (creators', referrals'))
       else Inr (creators', referrals)))"

definition count_trade ::
  "bonus_lib \<Rightarrow> bonus_window \<Rightarrow> string \<Rightarrow> (string, int) omap \<Rightarrow> trade_row \<Rightarrow> (string, int) omap res" where
  "count_trade B w traderEligibility m row =
     (if tr_finalized row \<noteq> Bool True \<or> \<not> in_window w (tr_blockTime row)
        then throw ''Trade does not belong to the finalized UTC day.''
      else if traderEligibility = ''direct-signers-v1''
        then (case bl_key B (tr_wallet row) of None \<Rightarrow> Inl LibErr
              | Some _ \<Rightarrow> if bl_on_curve B (tr_wallet row) then include_amount B m (tr_wallet row) (tr_amount row) else Inr m)
      else include_amount B m (tr_wallet row) (tr_amount row))"

text \<open>The three best wallets of a category, the ties in the order of the addresses.\<close>

definition better :: "string \<times> int \<Rightarrow> string \<times> int \<Rightarrow> bool" where
  "better a b \<longleftrightarrow> (if snd a = snd b then fst a \<le> fst b else snd a > snd b)"

definition rank_wallets :: "(string, int) omap \<Rightarrow> winner list" where
  "rank_wallets totals =
     map (\<lambda>(i, w, v). \<lparr>wn_rank = Suc i, wn_wallet = w, wn_score = show_int v,
            wn_percent = db_rankPercents DAILY_BONUS_POLICY ! i, wn_bonus = ''0''\<rparr>)
       (zip [0..<3] (take 3 (sort_by better totals)))"

fun allocate_sources ::
  "fee_row list \<Rightarrow> (string \<times> winner list) list \<Rightarrow> (bonus_source list \<times> (string \<times> winner list) list) res" where
  "allocate_sources [] rankings = Inr ([], rankings)"
| "allocate_sources (row # rows) rankings =
     bindR (allocateDailyBonusSource row rankings) (\<lambda>(s, rankings').
     bindR (allocate_sources rows rankings') (\<lambda>(r, rankings''). Inr (s # r, rankings'')))"

definition source_filter :: "string list \<Rightarrow> fee_row \<Rightarrow> bool res" where
  "source_filter excluded row =
     (if fr_signature row \<in> set excluded \<or> \<not> jeq (fr_dailyBonusVersion row) (Num (nint 1)) then Inr False
      else bindR (bonus_amount (fr_community row)) (\<lambda>a. Inr (a > 0)))"

fun filterR :: "('a \<Rightarrow> bool res) \<Rightarrow> 'a list \<Rightarrow> 'a list res" where
  "filterR f [] = Inr []"
| "filterR f (x # xs) = bindR (f x) (\<lambda>b. bindR (filterR f xs) (\<lambda>r. Inr (if b then x # r else r)))"

definition snapshot_policy :: "string \<Rightarrow> bool \<Rightarrow> bool \<Rightarrow> daily_bonus_policy" where
  "snapshot_policy traderEligibility settlementTime qa =
     (let base = (if traderEligibility = ''all-wallets-v1'' then DAILY_BONUS_POLICY\<lparr>db_traderEligibility := None\<rparr>
                  else DAILY_BONUS_POLICY);
          policy = (if settlementTime
            then base\<lparr>db_eligibilityBasis := Some ''settlement-time-v1'',
                   db_metrics := (db_metrics base)\<lparr>bm_creators := ''settled-creator-fee-lamports'',
                     bm_referrals := ''direct-referred-settled-fee-lamports''\<rparr>\<rparr>
            else base) in
      if qa then policy\<lparr>db_periodSeconds := 300, db_qa := True\<rparr> else policy)"

definition trade_key :: "trade_row \<Rightarrow> string" where
  "trade_key row = tr_signature row @ '':'' @ to_str (tr_logIndex row) @ '':'' @ to_str (tr_mint row)"

fun all_covered :: "bonus_lib \<Rightarrow> string list \<Rightarrow> jsval list \<Rightarrow> bool res" where
  "all_covered B covered [] = Inr True"
| "all_covered B covered (m # ms) = bindR (wallet_text B m) (\<lambda>k.
     if k \<notin> set covered then Inr False else all_covered B covered ms)"

text \<open>The second half of the function: rankings, sources, and the frozen snapshot with its hash.\<close>

definition finish_snapshot ::
  "bonus_lib \<Rightarrow> string \<Rightarrow> string \<Rightarrow> string list \<Rightarrow> bonus_window \<Rightarrow> fee_row list \<Rightarrow> trade_row list \<Rightarrow> coverage_row list
    \<Rightarrow> (string, int) omap \<Rightarrow> (string, int) omap \<Rightarrow> (string, int) omap \<Rightarrow> bonus_snapshot res" where
  "finish_snapshot B eligibilityBasis traderEligibility excludedSignatures window fees events coverage
     creators referrals traders =
     (let settlementTime = (eligibilityBasis = ''settlement-time-v1'');
          ranked = zip (db_categories DAILY_BONUS_POLICY) (map rank_wallets [creators, referrals, traders]);
          excluded = sort_by (\<le>) (dedupe_list excludedSignatures) in
      if \<not> set excluded \<subseteq> set (map fr_signature fees)
        then throw ''Excluded bonus source is outside the verified window.''
      else
      bindR (filterR (source_filter excluded) fees) (\<lambda>payable.
      bindR (allocate_sources payable ranked) (\<lambda>(sources, rankings).
      let snapshot = \<lparr>bn_version = 1, bn_window = window,
            bn_eligibilityBasis = (if settlementTime then Some eligibilityBasis else None),
            bn_policy = snapshot_policy traderEligibility settlementTime (bw_qa window),
            bn_rankings = rankings, bn_sources = sources,
            bn_evidence = \<lparr>be_collections = fees, be_trades = events,
              be_coverage = sort_by (\<lambda>a b. co_mint a \<le> co_mint b) coverage,
              be_excluded = (if excluded = [] then None else Some excluded)\<rparr>,
            bn_reconciliation = None, bn_hash = []\<rparr> in
      Inr (snapshot\<lparr>bn_hash := bl_snapshot_hash B snapshot\<rparr>))))"

definition buildDailyBonusSnapshot ::
  "bonus_lib \<Rightarrow> string \<Rightarrow> fee_row list \<Rightarrow> trade_row list \<Rightarrow> coverage_row list \<Rightarrow> int \<Rightarrow> string list
    \<Rightarrow> string \<Rightarrow> string \<Rightarrow> bonus_snapshot res" where
  "buildDailyBonusSnapshot B day collections trades coverage now excludedSignatures eligibilityBasis traderEligibility =
     (if eligibilityBasis \<notin> {''collection-time-v1'', ''settlement-time-v1''}
        then throw ''Unknown bonus eligibility basis.''
      else if traderEligibility \<notin> {''all-wallets-v1'', ''direct-signers-v1''}
        then throw ''Unknown trader bonus eligibility.''
      else let settlementTime = (eligibilityBasis = ''settlement-time-v1'') in
      bindR (bonusWindow day now) (\<lambda>window.
      if \<not> list_all (\<lambda>row. co_complete row = Bool True) coverage
        then throw ''Complete finalized trading coverage is required for every registered mint.''
      else
      bindR (dedupe_rows (bl_fee_hash B) fr_signature collections) (\<lambda>fees.
      bindR (dedupe_rows (bl_trade_hash B) trade_key trades) (\<lambda>events.
      bindR (mapR (\<lambda>row. wallet_text B (Str (co_mint row))) coverage) (\<lambda>covered.
      bindR (all_covered B covered (map fr_mint fees @ map tr_mint events)) (\<lambda>ok.
      if \<not> ok then throw ''Daily bonus evidence contains a mint outside complete coverage.''
      else
      bindR (foldR (count_fee B window settlementTime) ([], []) fees) (\<lambda>(creators, referrals).
      bindR (foldR (count_trade B window traderEligibility) [] events) (\<lambda>traders.
      finish_snapshot B eligibilityBasis traderEligibility excludedSignatures window fees events coverage
        creators referrals traders))))))))"

definition dailyBonusManifest :: "lib \<Rightarrow> bonus_snapshot \<Rightarrow> bonus_source \<Rightarrow> reward_manifest option res" where
  "dailyBonusManifest L snapshot source =
     (if so_allocations source = [] then Inr None
      else bindR (createRewardCycleId L (so_mint source) (Str (''daily-bonus-v1:'' @ so_collection source)) (Str ''SOL'')
             (Num (nint (bw_start (bn_window snapshot)))) (Num (nint (bw_end (bn_window snapshot))))) (\<lambda>cycleId.
           bindR (buildRewardManifest L (HVal (Str cycleId)) ''SOL''
             (Arr (map (\<lambda>(r, a). Obj [(''recipient'', Str r), (''amount'', Str a)]) (so_allocations source))))
             (\<lambda>m. Inr (Some m))))"

section \<open>server/daily-bonus-reconciliation.mjs\<close>

definition assertBonusSnapshot :: "bonus_lib \<Rightarrow> bonus_snapshot \<Rightarrow> unit res" where
  "assertBonusSnapshot B snapshot =
     (if bn_hash snapshot \<noteq> bl_snapshot_hash B (snapshot\<lparr>bn_hash := []\<rparr>)
        then throw ''Saved daily bonus snapshot evidence changed.'' else Inr ())"

text \<open>\<open>new Map(rows.map(row => [key(row), row])).get(k)\<close>: the last row of the key.\<close>

definition latest_row :: "('a \<Rightarrow> string) \<Rightarrow> 'a list \<Rightarrow> string \<Rightarrow> 'a option" where
  "latest_row key rows k = map_of (rev (map (\<lambda>r. (key r, r)) rows)) k"

definition evidence_kept :: "bonus_evidence \<Rightarrow> bonus_evidence \<Rightarrow> bool" where
  "evidence_kept prior next' \<longleftrightarrow>
     list_all (\<lambda>r. latest_row fr_signature (be_collections next') (fr_signature r) = Some r) (be_collections prior)
     \<and> list_all (\<lambda>r. latest_row trade_key (be_trades next') (trade_key r) = Some r) (be_trades prior)"

definition appendDailyBonusResidual :: "bonus_lib \<Rightarrow> bonus_snapshot \<Rightarrow> bonus_snapshot \<Rightarrow> bonus_snapshot res" where
  "appendDailyBonusResidual B prior next' =
     bindR (assertBonusSnapshot B prior) (\<lambda>_. bindR (assertBonusSnapshot B next') (\<lambda>_.
     if bw_day (bn_window prior) \<noteq> bw_day (bn_window next') \<or> bw_start (bn_window prior) \<noteq> bw_start (bn_window next')
        \<or> bw_end (bn_window prior) \<noteq> bw_end (bn_window next') \<or> bn_policy prior \<noteq> bn_policy next'
       then throw ''Bonus reconciliation cannot change a frozen window or policy.''
     else if \<not> evidence_kept (bn_evidence prior) (bn_evidence next')
       then throw ''Reserved bonus evidence cannot be removed or modified; only additive evidence can be reconciled.''
     else if bn_evidence prior = bn_evidence next'
       then throw ''No additive evidence exists; the prepared or paid daily bonus remains unchanged.''
     else
       let known = map so_collection (bn_sources prior);
           fresh = filter (\<lambda>s. so_collection s \<notin> set known) (bn_sources next') in
       bindR (mapR (\<lambda>s. case latest_row fr_signature (be_collections (bn_evidence next')) (so_collection s) of
                Some r \<Rightarrow> Inr r | None \<Rightarrow> Inl TypeErr) fresh) (\<lambda>rows.
       bindR (allocate_sources rows (bn_rankings prior)) (\<lambda>(added, rankings).
       let snapshot = prior\<lparr>bn_rankings := rankings, bn_sources := bn_sources prior @ added,
             bn_evidence := bn_evidence next',
             bn_reconciliation := Some \<lparr>rc_kind = ''append-only-frozen-rankings-v1'',
               rc_priorHash = bn_hash prior, rc_added = map so_collection added\<rparr>, bn_hash := []\<rparr> in
       Inr (snapshot\<lparr>bn_hash := bl_snapshot_hash B snapshot\<rparr>)))))"

definition bonusAssignmentMatches ::
  "bonus_lib \<Rightarrow> bonus_snapshot \<Rightarrow> bonus_snapshot list \<Rightarrow> bonus_source \<Rightarrow> string \<Rightarrow> bool res" where
  "bonusAssignmentMatches B current revisions source hash =
     foldR (\<lambda>found s. if found then Inr True else bindR (assertBonusSnapshot B s) (\<lambda>_.
       Inr (bn_hash s = hash
         \<and> (case filter (\<lambda>x. so_collection x = so_collection source) (bn_sources s) of x # _ \<Rightarrow> x = source | [] \<Rightarrow> False))))
       False (current # revisions)"

text \<open>The chain of revisions: \<open>fuel\<close> counts the 64 snapshots a chain may have.\<close>

fun verify_revision ::
  "bonus_lib \<Rightarrow> bonus_snapshot list \<Rightarrow> nat \<Rightarrow> string list \<Rightarrow> bonus_snapshot \<Rightarrow> unit res" where
  "verify_revision B revisions 0 seen snapshot =
     bindR (assertBonusSnapshot B snapshot) (\<lambda>_. throw ''Invalid bonus revision chain.'')"
| "verify_revision B revisions (Suc fuel) seen snapshot =
     bindR (assertBonusSnapshot B snapshot) (\<lambda>_.
     if bn_hash snapshot \<in> set seen then throw ''Invalid bonus revision chain.''
     else
     bindR (buildDailyBonusSnapshot B (bw_day (bn_window snapshot)) (be_collections (bn_evidence snapshot))
         (be_trades (bn_evidence snapshot)) (be_coverage (bn_evidence snapshot)) (bw_end (bn_window snapshot))
         (case be_excluded (bn_evidence snapshot) of Some e \<Rightarrow> e | None \<Rightarrow> [])
         (case bn_eligibilityBasis snapshot of Some e \<Rightarrow> e | None \<Rightarrow> ''collection-time-v1'')
         (case db_traderEligibility (bn_policy snapshot) of Some t \<Rightarrow> t | None \<Rightarrow> ''all-wallets-v1'')) (\<lambda>rebuilt.
     case bn_reconciliation snapshot of
       None \<Rightarrow> if snapshot \<noteq> rebuilt then throw ''Invalid daily snapshot.'' else Inr ()
     | Some rc \<Rightarrow>
         if rc_kind rc \<noteq> ''append-only-frozen-rankings-v1'' then throw ''Unknown bonus revision.''
         else (case filter (\<lambda>r. bn_hash r = rc_priorHash rc) revisions of
             [prior] \<Rightarrow>
               bindR (verify_revision B revisions fuel (bn_hash snapshot # seen) prior) (\<lambda>_.
               bindR (appendDailyBonusResidual B prior rebuilt) (\<lambda>expected.
               if snapshot \<noteq> expected
                 then throw ''Audited bonus append does not match its frozen source evidence.'' else Inr ()))
           | _ \<Rightarrow> throw ''Missing or ambiguous archived bonus revision.'')))"

definition verifyBonusSnapshotRevision :: "bonus_lib \<Rightarrow> bonus_snapshot \<Rightarrow> bonus_snapshot list \<Rightarrow> unit res" where
  "verifyBonusSnapshotRevision B current revisions = verify_revision B revisions 64 [] current"

section \<open>Lemmas\<close>

lemma dust_rows_take: "dust_rows d is = take (nat d) is"
proof (induction d "is" rule: dust_rows.induct)
  case (1 d)
  then show ?case by simp
next
  case (2 d i r)
  show ?case
  proof (cases "0 < d")
    case True
    then have "nat d = Suc (nat (d - 1))" by simp
    with 2 True show ?thesis by simp
  next
    case False
    with 2 show ?thesis by simp
  qed
qed

lemma split_values_props:
  assumes "0 \<le> tot" and "\<forall>w \<in> set ws. 0 \<le> w" and "0 < sum_list ws"
  shows "sum_list (split_values tot ws) = tot" and "length (split_values tot ws) = length ws"
    and "i < length ws \<Longrightarrow> tot * ws ! i div sum_list ws \<le> split_values tot ws ! i
      \<and> split_values tot ws ! i \<le> tot * ws ! i div sum_list ws + 1"
proof -
  let ?d = "sum_list ws" and ?n = "length ws"
  let ?base = "map (\<lambda>w. tot * w div ?d) ws"
  define order where "order = map fst (sort_by (\<lambda>a b. if snd a = snd b then fst a \<le> fst b else snd a > snd b)
      (map (\<lambda>i. (i, tot * ws ! i mod ?d)) [0..<?n]))"
  let ?dust = "tot - sum_list ?base"
  have v: "split_values tot ws = map (\<lambda>i. ?base ! i + (if i \<in> set (take (nat ?dust) order) then 1 else 0)) [0..<?n]"
    by (simp add: split_values_def Let_def dust_rows_take order_def)
  have "sum_list ?base * ?d \<le> tot * ?d" by (rule sum_list_div_le [OF assms(3)])
  then have lo: "sum_list ?base \<le> tot" using assms(3) mult_le_cancel_right_pos by blast
  have ne: "ws \<noteq> []" using assms(3) by auto
  have "?d * tot < ?d * (sum_list ?base + int ?n)"
    using sum_div_dust [OF assms(3) ne, of tot] by (simp add: mult.commute)
  then have hi: "?dust < int ?n" using assms(3) by (simp add: mult_less_cancel_left_pos)
  have "mset order = mset (map fst (map (\<lambda>i. (i, tot * ws ! i mod ?d)) [0..<?n]))"
    by (simp only: order_def mset_map mset_sort_by)
  also have "map fst (map (\<lambda>i. (i, tot * ws ! i mod ?d)) [0..<?n]) = [0..<?n]" by (simp add: map_idI)
  finally have perm: "mset order = mset [0..<?n]" .
  from perm have o: "distinct order" "set order = {0..<?n}" "length order = ?n"
    by (metis distinct_upt mset_eq_imp_distinct_iff, metis set_mset_mset set_upt, metis length_upt minus_nat.diff_0 size_mset)
  have b: "distinct (take (nat ?dust) order)" "set (take (nat ?dust) order) \<subseteq> {0..<?n}"
    "length (take (nat ?dust) order) = nat ?dust"
    using o hi set_take_subset [of "nat ?dust" order] by auto
  have base: "sum_list (map (\<lambda>i. ?base ! i) [0..<?n]) = sum_list ?base" by (metis length_map map_nth)
  have "sum_list (split_values tot ws) = sum_list ?base + int (length (take (nat ?dust) order))"
    unfolding v sum_list_addf base sum_indicator_indices [OF b(1,2)] ..
  then show "sum_list (split_values tot ws) = tot" using lo b(3) by simp
  show "length (split_values tot ws) = length ws" by (simp add: v)
  show "i < length ws \<Longrightarrow> tot * ws ! i div sum_list ws \<le> split_values tot ws ! i
      \<and> split_values tot ws ! i \<le> tot * ws ! i div sum_list ws + 1"
    by (simp add: v)
qed

section \<open>Properties\<close>

text \<open>The split of an amount by weights hands out all of it: the shares add up to the amount and
  each one is its exact share rounded down or up.\<close>

lemma splitBonusLamports_conserves:
  assumes "splitBonusLamports tot ws = Inr vs" and "0 \<le> tot" and "\<forall>w \<in> set ws. 0 \<le> w" and "ws \<noteq> []"
  shows "sum_list vs = tot \<and> length vs = length ws
    \<and> (\<forall>i < length ws. tot * ws ! i div sum_list ws \<le> vs ! i \<and> vs ! i \<le> tot * ws ! i div sum_list ws + 1)"
proof -
  have "0 \<le> sum_list ws" using assms(3) by (rule sum_list_nonneg_int)
  with assms(1,4) have "0 < sum_list ws" "vs = split_values tot ws"
    by (auto simp: splitBonusLamports_def split: if_splits)
  with split_values_props [OF assms(2,3)] show ?thesis by blast
qed

text \<open>The bonus of a winner as a number, and the well-formed rankings: ranks count from one.\<close>

definition bonus_of :: "winner \<Rightarrow> int" where
  "bonus_of w = parse_dec (wn_bonus w)"

definition ranked :: "winner list \<Rightarrow> bool" where
  "ranked ws \<longleftrightarrow> map wn_rank ws = [1..<Suc (length ws)] \<and> length ws \<le> 3 \<and> (\<forall>w \<in> set ws. all_digits (wn_bonus w))"

definition rank_names :: "winner list \<Rightarrow> (nat \<times> string \<times> string) list" where
  "rank_names ws = map (\<lambda>w. (wn_rank w, wn_wallet w, wn_score w)) ws"

lemma rank_names_ranks: "rank_names ws' = rank_names ws \<Longrightarrow> map wn_rank ws' = map wn_rank ws"
proof -
  have "map fst (rank_names xs) = map wn_rank xs" for xs by (simp add: rank_names_def)
  then show "rank_names ws' = rank_names ws \<Longrightarrow> map wn_rank ws' = map wn_rank ws" by metis
qed

lemma pay_winners_props:
  assumes "pay_winners ranks ws al = Inr (ws', al')" and "\<forall>r \<in> set ranks. 0 \<le> r"
    and "\<forall>w \<in> set ws. all_digits (wn_bonus w)" and "distinct (map fst al)"
  shows "sum_list (map bonus_of ws') = sum_list (map bonus_of ws) + sum_list (map (\<lambda>w. ranks ! (wn_rank w - 1)) ws)
    \<and> sum_list (map snd al') = sum_list (map snd al) + sum_list (map (\<lambda>w. ranks ! (wn_rank w - 1)) ws)
    \<and> rank_names ws' = rank_names ws \<and> (\<forall>w \<in> set ws'. all_digits (wn_bonus w)) \<and> distinct (map fst al')
    \<and> (\<forall>w \<in> set ws. 0 < wn_rank w \<and> wn_rank w \<le> length ranks)"
  using assms
proof (induction ranks ws al arbitrary: ws' al' rule: pay_winners.induct)
  case (1 ranks al)
  then show ?case by (auto simp: rank_names_def)
next
  case (2 ranks w ws al)
  let ?r = "ranks ! (wn_rank w - 1)"
  let ?al = "if 0 < ?r then oadd (wn_wallet w) ?r al else al"
  have d: "all_digits (wn_bonus w)" using "2.prems"(3) by simp
  have k: "wn_rank w \<noteq> 0" "wn_rank w \<le> length ranks" using "2.prems"(1) by (auto split: if_splits)
  then have r: "0 \<le> ?r" using "2.prems"(2) by (simp add: Suc_le_lessD)
  from "2.prems"(1) d k obtain ws1 where
    rest: "pay_winners ranks ws ?al = Inr (ws1, al')"
    and ws': "ws' = w\<lparr>wn_bonus := show_int (parse_dec (wn_bonus w) + ?r)\<rparr> # ws1"
    by (auto simp: Let_def bindR_Inr_iff str_to_bigint_digits split: if_splits)
  have b: "0 \<le> parse_dec (wn_bonus w)" using d by (rule parse_all_digits_nonneg)
  have dis: "distinct (map fst ?al)" using "2.prems"(4) by simp
  have dig: "\<forall>w \<in> set ws. all_digits (wn_bonus w)" using "2.prems"(3) by simp
  have guard: "\<not> (wn_rank w = 0 \<or> length ranks < wn_rank w)" using k by simp
  have IH: "sum_list (map bonus_of ws1) = sum_list (map bonus_of ws) + sum_list (map (\<lambda>w. ranks ! (wn_rank w - 1)) ws)
    \<and> sum_list (map snd al') = sum_list (map snd ?al) + sum_list (map (\<lambda>w. ranks ! (wn_rank w - 1)) ws)
    \<and> rank_names ws1 = rank_names ws \<and> (\<forall>w \<in> set ws1. all_digits (wn_bonus w)) \<and> distinct (map fst al')
    \<and> (\<forall>w \<in> set ws. 0 < wn_rank w \<and> wn_rank w \<le> length ranks)"
    by (rule "2.IH" [OF guard refl rest "2.prems"(2) dig dis])
  have s: "sum_list (map snd ?al) = sum_list (map snd al) + ?r" using "2.prems"(4) r by auto
  have n: "bonus_of (w\<lparr>wn_bonus := show_int (parse_dec (wn_bonus w) + ?r)\<rparr>) = bonus_of w + ?r"
    using r b by (simp add: bonus_of_def)
  show ?case using IH s r b k n by (simp add: ws' rank_names_def)
qed

lemma ranked_rewards:
  fixes ranks :: "int list"
  assumes "ranked ws" and "length ranks = 3" and "\<forall>r \<in> set ranks. 0 \<le> r"
  shows "sum_list (map (\<lambda>w. ranks ! (wn_rank w - 1)) ws) \<le> sum_list ranks"
    and "0 \<le> sum_list (map (\<lambda>w. ranks ! (wn_rank w - 1)) ws)"
proof -
  have "map (\<lambda>w. ranks ! (wn_rank w - 1)) ws = map (\<lambda>k. ranks ! (k - 1)) (map wn_rank ws)" by simp
  also have "map wn_rank ws = map Suc [0..<length ws]" using assms(1) by (simp add: ranked_def map_Suc_upt)
  finally have "map (\<lambda>w. ranks ! (wn_rank w - 1)) ws = map ((!) ranks) [0..<length ws]" by (simp add: comp_def)
  also have "\<dots> = take (length ws) ranks"
    using assms(1,2) by (intro nth_equalityI) (simp_all add: ranked_def)
  finally have e: "map (\<lambda>w. ranks ! (wn_rank w - 1)) ws = take (length ws) ranks" .
  have "sum_list (take (length ws) ranks) + sum_list (drop (length ws) ranks) = sum_list ranks"
    by (metis append_take_drop_id sum_list_append)
  moreover have "0 \<le> sum_list (drop (length ws) ranks)"
    by (rule sum_list_nonneg_int) (use assms(3) in \<open>auto dest: in_set_dropD\<close>)
  moreover have "0 \<le> sum_list (take (length ws) ranks)"
    by (rule sum_list_nonneg_int) (use assms(3) in \<open>auto dest: in_set_takeD\<close>)
  ultimately show "sum_list (map (\<lambda>w. ranks ! (wn_rank w - 1)) ws) \<le> sum_list ranks"
    "0 \<le> sum_list (map (\<lambda>w. ranks ! (wn_rank w - 1)) ws)" unfolding e by linarith+
qed

definition total_bonus :: "(string \<times> winner list) list \<Rightarrow> int" where
  "total_bonus rs = sum_list (map (\<lambda>r. sum_list (map bonus_of (snd r))) rs)"

definition all_ranked :: "(string \<times> winner list) list \<Rightarrow> bool" where
  "all_ranked rs \<longleftrightarrow> (\<forall>r \<in> set rs. ranked (snd r))"

definition all_names :: "(string \<times> winner list) list \<Rightarrow> (string \<times> (nat \<times> string \<times> string) list) list" where
  "all_names rs = map (\<lambda>(c, ws). (c, rank_names ws)) rs"

lemma rank_percents: "db_rankPercents DAILY_BONUS_POLICY = [50, 30, 20]" "db_categoryWeights DAILY_BONUS_POLICY = [1, 1, 1]"
  by (simp_all add: DAILY_BONUS_POLICY_def)

lemma pay_categories_props:
  assumes "pay_categories gs rs al = Inr (rs', al')" and "\<forall>g \<in> set gs. 0 \<le> g" and "all_ranked rs"
    and "distinct (map fst al)"
  shows "total_bonus rs' - total_bonus rs = sum_list (map snd al') - sum_list (map snd al)
    \<and> 0 \<le> total_bonus rs' - total_bonus rs \<and> total_bonus rs' - total_bonus rs \<le> sum_list gs
    \<and> all_ranked rs' \<and> all_names rs' = all_names rs \<and> distinct (map fst al')"
  using assms
proof (induction gs rs al arbitrary: rs' al' rule: pay_categories.induct)
  case (1 gs al)
  then show ?case by (auto simp: sum_list_nonneg_int)
next
  case (2 v rs al)
  then show ?case by simp
next
  case (3 g gs c ws rs al)
  from "3.prems"(1) obtain ranks ws' al1 r where
    rk: "splitBonusLamports g (db_rankPercents DAILY_BONUS_POLICY) = Inr ranks"
    and pw: "pay_winners ranks ws al = Inr (ws', al1)" and rest: "pay_categories gs rs al1 = Inr (r, al')"
    and rs': "rs' = (c, ws') # r"
    by (auto simp: bindR_Inr_iff)
  have g: "0 \<le> g" using "3.prems"(2) by simp
  have "ranks = split_values g [50, 30, 20]" using rk by (simp add: splitBonusLamports_def rank_percents)
  with split_values_props [OF g, of "[50, 30, 20]"] have R: "length ranks = 3" "sum_list ranks = g"
    and nth: "\<And>i. i < 3 \<Longrightarrow> g * [50, 30, 20] ! i div 100 \<le> ranks ! i" by simp_all
  have R0: "\<forall>r \<in> set ranks. 0 \<le> r"
  proof
    fix x assume "x \<in> set ranks"
    then obtain i where "i < 3" "x = ranks ! i" using R(1) by (metis in_set_conv_nth)
    moreover have "0 \<le> g * [50, 30, 20] ! i div 100" if "i < 3"
      using that g less_Suc_eq numeral_3_eq_3 by (auto simp: pos_imp_zdiv_nonneg_iff nth_Cons split: nat.splits)
    ultimately show "0 \<le> x" using nth [of i] by linarith
  qed
  have rkd: "ranked ws" using "3.prems"(3) by (simp add: all_ranked_def)
  then have dig: "\<forall>w \<in> set ws. all_digits (wn_bonus w)" by (simp add: ranked_def)
  note W = pay_winners_props [OF pw R0 dig "3.prems"(4)]
  note rew = ranked_rewards [OF rkd R(1) R0]
  have "length ws' = length ws" using W by (metis length_map rank_names_ranks)
  then have rkd': "ranked ws'" using rkd W rank_names_ranks [of ws' ws] by (auto simp: ranked_def)
  have IH: "total_bonus r - total_bonus rs = sum_list (map snd al') - sum_list (map snd al1)
    \<and> 0 \<le> total_bonus r - total_bonus rs \<and> total_bonus r - total_bonus rs \<le> sum_list gs
    \<and> all_ranked r \<and> all_names r = all_names rs \<and> distinct (map fst al')"
    by (rule "3.IH" [OF rest]) (use "3.prems" W in \<open>simp_all add: all_ranked_def\<close>)
  show ?case using IH W rew R(2) rkd' by (simp add: rs' total_bonus_def all_ranked_def all_names_def)
qed

lemma bonus_amount_nonneg: "bonus_amount v = Inr n \<Longrightarrow> 0 \<le> n"
  by (auto simp: bonus_amount_def intro: canon_to_bigint_nonneg split: if_splits)

text \<open>One source is divided exactly: the payable and the retained part add up to it.\<close>

definition source_exact :: "bonus_source \<Rightarrow> bool" where
  "source_exact s \<longleftrightarrow> parse_dec (so_payable s) + parse_dec (so_retained s) = parse_dec (so_amount s)
     \<and> 0 \<le> parse_dec (so_payable s) \<and> 0 \<le> parse_dec (so_retained s)
     \<and> sum_list (map (\<lambda>a. parse_dec (snd a)) (so_allocations s)) = parse_dec (so_payable s)
     \<and> distinct (map fst (so_allocations s))"

lemma pay_winners_pos:
  "pay_winners ranks ws al = Inr (ws', al') \<Longrightarrow> \<forall>p \<in> set al. 0 < snd p \<Longrightarrow> \<forall>p \<in> set al'. 0 < snd p"
proof (induction ranks ws al arbitrary: ws' al' rule: pay_winners.induct)
  case (2 ranks w ws al)
  then obtain r where "pay_winners ranks ws (if 0 < ranks ! (wn_rank w - 1) then oadd (wn_wallet w) (ranks ! (wn_rank w - 1)) al else al) = Inr (r, al')"
    by (auto simp: Let_def bindR_Inr_iff split: if_splits)
  moreover have "\<forall>p \<in> set (if 0 < ranks ! (wn_rank w - 1) then oadd (wn_wallet w) (ranks ! (wn_rank w - 1)) al else al). 0 < snd p"
    using "2.prems"(2) oadd_pos [of al "ranks ! (wn_rank w - 1)" "wn_wallet w"] by simp
  moreover have "\<not> (wn_rank w = 0 \<or> length ranks < wn_rank w)" using "2.prems"(1) by (auto split: if_splits)
  ultimately show ?case using "2.IH" by blast
qed simp

lemma pay_categories_pos:
  "pay_categories gs rs al = Inr (rs', al') \<Longrightarrow> \<forall>p \<in> set al. 0 < snd p \<Longrightarrow> \<forall>p \<in> set al'. 0 < snd p"
proof (induction gs rs al arbitrary: rs' al' rule: pay_categories.induct)
  case (3 g gs c ws rs al)
  then obtain ranks ws' al1 r where "pay_winners ranks ws al = Inr (ws', al1)" "pay_categories gs rs al1 = Inr (r, al')"
    by (auto simp: bindR_Inr_iff)
  with "3.IH" pay_winners_pos "3.prems"(2) show ?case by blast
qed simp_all

lemma allocateDailyBonusSource_props:
  assumes "allocateDailyBonusSource row rs = Inr (s, rs')" and "all_ranked rs"
  shows "source_exact s \<and> total_bonus rs' = total_bonus rs + parse_dec (so_payable s)
    \<and> all_ranked rs' \<and> all_names rs' = all_names rs \<and> so_collection s = fr_signature row"
proof -
  from assms(1) obtain budget groups al where b: "bonus_amount (fr_community row) = Inr budget"
    and g: "splitBonusLamports budget (db_categoryWeights DAILY_BONUS_POLICY) = Inr groups"
    and p: "pay_categories groups rs [] = Inr (rs', al)"
    and s: "s = \<lparr>so_collection = fr_signature row, so_settlement = fr_settlementSignature row, so_mint = fr_mint row,
             so_amount = show_int budget, so_payable = show_int (sum_list (map snd al)),
             so_retained = show_int (budget - sum_list (map snd al)),
             so_allocations = map (\<lambda>(w, v). (w, show_int v)) (sort_by (\<lambda>a b. fst a \<le> fst b) al)\<rparr>"
    by (auto simp: allocateDailyBonusSource_def bindR_Inr_iff Let_def)
  have b0: "0 \<le> budget" using b by (rule bonus_amount_nonneg)
  have G: "groups = split_values budget [1, 1, 1]" using g by (simp add: splitBonusLamports_def rank_percents)
  with split_values_props [OF b0, of "[1, 1, 1]"] have gs: "sum_list groups = budget" "length groups = 3"
    and gn: "\<And>i. i < 3 \<Longrightarrow> budget * [1, 1, 1] ! i div 3 \<le> groups ! i" by simp_all
  have g0: "\<forall>x \<in> set groups. 0 \<le> x"
  proof
    fix x assume "x \<in> set groups"
    then obtain i where i: "i < 3" "x = groups ! i" using gs(2) by (metis in_set_conv_nth)
    have "[1, 1, 1] ! i = (1 :: int)" using i(1) by (auto simp: nth_Cons split: nat.splits)
    moreover have "0 \<le> budget div 3" using b0 by simp
    ultimately show "0 \<le> x" using gn [OF i(1)] i(2) by simp
  qed
  have C: "total_bonus rs' - total_bonus rs = sum_list (map snd al)" "total_bonus rs' - total_bonus rs \<le> sum_list groups"
    "0 \<le> total_bonus rs' - total_bonus rs" "all_ranked rs'" "all_names rs' = all_names rs" "distinct (map fst al)"
    using pay_categories_props [OF p g0 assms(2)] by simp_all
  have pos: "\<forall>p \<in> set al. 0 < snd p" using pay_categories_pos [OF p] by simp
  have "so_allocations s = map (\<lambda>(w, v). (w, show_int v)) (sort_by (\<lambda>a b. fst a \<le> fst b) al)" by (simp add: s)
  moreover have "map (\<lambda>a. parse_dec (snd a)) (map (\<lambda>(w, v). (w, show_int v)) xs) = map snd xs"
    if "\<forall>p \<in> set xs. 0 < snd p" for xs :: "(string \<times> int) list"
    using that by (induction xs) auto
  ultimately have "map (\<lambda>a. parse_dec (snd a)) (so_allocations s) = map snd (sort_by (\<lambda>a b. fst a \<le> fst b) al)"
    using pos by simp
  then have al: "sum_list (map (\<lambda>a. parse_dec (snd a)) (so_allocations s)) = sum_list (map snd al)" by simp
  have "map fst (so_allocations s) = map fst (sort_by (\<lambda>a b. fst a \<le> fst b) al)" by (simp add: s case_prod_unfold)
  then have d: "distinct (map fst (so_allocations s))" using C(6) by simp
  have amts: "parse_dec (so_payable s) = sum_list (map snd al)" "parse_dec (so_retained s) = budget - sum_list (map snd al)"
    "parse_dec (so_amount s) = budget"
    using C(1-3) gs b0 by (simp_all add: s)
  show ?thesis using C gs(1) al d by (simp add: source_exact_def amts) (simp add: s)
qed

lemma allocate_sources_props:
  assumes "allocate_sources rows rs = Inr (ss, rs')" and "all_ranked rs"
  shows "list_all source_exact ss \<and> total_bonus rs' = total_bonus rs + sum_list (map (\<lambda>s. parse_dec (so_payable s)) ss)
    \<and> all_ranked rs' \<and> all_names rs' = all_names rs \<and> map so_collection ss = map fr_signature rows"
  using assms
proof (induction rows arbitrary: rs ss)
  case Nil
  then show ?case by simp
next
  case (Cons row rows)
  from Cons.prems(1) obtain s rs1 r where a: "allocateDailyBonusSource row rs = Inr (s, rs1)"
    and r: "allocate_sources rows rs1 = Inr (r, rs')" and ss: "ss = s # r"
    by (auto simp: bindR_Inr_iff)
  note A = allocateDailyBonusSource_props [OF a Cons.prems(2)]
  from Cons.IH [OF r] A ss show ?case by simp
qed

lemma rank_wallets_ranked: "ranked (rank_wallets totals)" and rank_wallets_bonus: "sum_list (map bonus_of (rank_wallets totals)) = 0"
proof -
  let ?n = "min 3 (length totals)"
  have z: "length (zip [0..<3] (take 3 (sort_by better totals))) = ?n" by simp
  have "map wn_rank (rank_wallets totals) = map (\<lambda>i. Suc i) (map fst (zip [0..<3] (take 3 (sort_by better totals))))"
    by (simp add: rank_wallets_def case_prod_unfold)
  also have "map fst (zip [0..<3] (take 3 (sort_by better totals))) = [0..<?n]"
    by (simp add: map_fst_zip_take take_upt min.commute)
  finally have "map wn_rank (rank_wallets totals) = [1..<Suc ?n]" by (simp add: map_Suc_upt)
  moreover have "length (rank_wallets totals) = ?n" by (simp add: rank_wallets_def)
  moreover have "all_digits ''0''" by code_simp
  ultimately show "ranked (rank_wallets totals)"
    by (auto simp: ranked_def) (auto simp: rank_wallets_def)
  have "parse_dec ''0'' = 0" by code_simp
  then have "map bonus_of (rank_wallets totals) = map (\<lambda>_. 0) (rank_wallets totals)"
    by (auto simp: rank_wallets_def bonus_of_def)
  then show "sum_list (map bonus_of (rank_wallets totals)) = 0" by (simp only: sum_list_0)
qed

lemma finish_snapshot_parts:
  assumes "finish_snapshot B basis te ex w fees events cov a b c = Inr s"
  obtains payable where
    "allocate_sources payable (zip (db_categories DAILY_BONUS_POLICY) (map rank_wallets [a, b, c])) = Inr (bn_sources s, bn_rankings s)"
    "bn_window s = w"
  using assms
  by (auto simp: finish_snapshot_def bindR_Inr_iff Let_def split: if_splits simp del: zip_Cons_Cons list.map)

lemma buildDailyBonusSnapshot_parts:
  assumes "buildDailyBonusSnapshot B day cs ts cov now ex basis te = Inr s"
  obtains w fees events a b c where "bonusWindow day now = Inr w"
    "finish_snapshot B basis te ex w fees events cov a b c = Inr s"
  using assms by (auto simp: buildDailyBonusSnapshot_def Let_def bindR_Inr_iff split: if_splits)

text \<open>C16. A snapshot conserves every source: what a source pays and what it retains add up to its
  amount, its payments add up to the payable part, nobody is paid twice from it, and over all
  sources the payments add up to the bonuses the rankings show.\<close>

theorem buildDailyBonusSnapshot_conserves:
  assumes "buildDailyBonusSnapshot B day cs ts cov now ex basis te = Inr s"
  shows "list_all source_exact (bn_sources s)
    \<and> total_bonus (bn_rankings s) = sum_list (map (\<lambda>x. parse_dec (so_payable x)) (bn_sources s))"
proof -
  obtain w fees events a b c where f: "bonusWindow day now = Inr w"
      "finish_snapshot B basis te ex w fees events cov a b c = Inr s"
    by (rule buildDailyBonusSnapshot_parts [OF assms])
  obtain payable where
    al: "allocate_sources payable (zip (db_categories DAILY_BONUS_POLICY) (map rank_wallets [a, b, c])) = Inr (bn_sources s, bn_rankings s)"
    by (rule finish_snapshot_parts [OF f(2)])
  have "all_ranked (zip (db_categories DAILY_BONUS_POLICY) (map rank_wallets [a, b, c]))"
    by (simp add: all_ranked_def DAILY_BONUS_POLICY_def rank_wallets_ranked)
  moreover have "total_bonus (zip (db_categories DAILY_BONUS_POLICY) (map rank_wallets [a, b, c])) = 0"
    by (simp add: total_bonus_def DAILY_BONUS_POLICY_def rank_wallets_bonus)
  ultimately show ?thesis using allocate_sources_props [OF al] by simp
qed

lemma better_linear: "better a b \<or> better b a" "better a b \<Longrightarrow> better b c \<Longrightarrow> better a c"
  by (auto simp: better_def split: if_splits)

text \<open>The order of the winners: by descending score, and by address where the scores are equal.\<close>

definition ahead :: "string \<times> int \<Rightarrow> string \<times> int \<Rightarrow> bool" where
  "ahead a b \<longleftrightarrow> snd b < snd a \<or> snd b = snd a \<and> fst a < fst b"

lemma sorted_ahead_list: "sorted_wrt better qs \<Longrightarrow> distinct (map fst qs) \<Longrightarrow> sorted_wrt ahead qs"
proof (induction qs)
  case (Cons q qs)
  have "ahead q p" if "p \<in> set qs" for p
  proof -
    have "better q p" "fst q \<noteq> fst p" using Cons.prems that by auto
    then show ?thesis by (auto simp: better_def ahead_def split: if_split_asm)
  qed
  then show ?case using Cons by simp
qed simp

lemma sorted_ahead: "distinct (map fst ps) \<Longrightarrow> sorted_wrt ahead (sort_by better ps)"
proof (rule sorted_ahead_list)
  show "sorted_wrt better (sort_by better ps)" by (rule sorted_sort_by) (use better_linear in blast)+
qed simp

text \<open>The places, as the code fills them in.\<close>

lemma rank_wallets_fields:
  fixes totals :: "(string, int) omap"
  defines "best \<equiv> take 3 (sort_by better totals)"
  shows "map wn_wallet (rank_wallets totals) = map fst best"
    and "map wn_score (rank_wallets totals) = map (\<lambda>p. show_int (snd p)) best"
    and "map wn_rank (rank_wallets totals) = take (length best) [1, 2, 3]"
    and "map wn_percent (rank_wallets totals) = take (length best) [50, 30, 20]"
    and "map wn_bonus (rank_wallets totals) = replicate (length best) ''0''"
proof -
  have "length best \<le> 3" by (simp add: best_def)
  then consider "best = []" | a where "best = [a]" | a b where "best = [a, b]" | a b c where "best = [a, b, c]"
    by (cases best; cases "tl best"; cases "tl (tl best)") auto
  then show "map wn_wallet (rank_wallets totals) = map fst best"
    and "map wn_score (rank_wallets totals) = map (\<lambda>p. show_int (snd p)) best"
    and "map wn_rank (rank_wallets totals) = take (length best) [1, 2, 3]"
    and "map wn_percent (rank_wallets totals) = take (length best) [50, 30, 20]"
    and "map wn_bonus (rank_wallets totals) = replicate (length best) ''0''"
    unfolding rank_wallets_def best_def [symmetric]
    by (cases; simp add: rank_percents upt_rec case_prod_unfold)+
qed

text \<open>C17. The ranking of a category is the top three: ordered by descending score with ties by address, the
  first three totals are the winners, with their places from one, their scores and the shares of 50, 30 and 20
  per cent, and no bonus yet; so whoever is left out is behind all of them.\<close>

theorem rank_wallets_top_three:
  assumes "distinct (map fst totals)"
  shows "distinct (map wn_wallet (rank_wallets totals))
    \<and> length (rank_wallets totals) = min 3 (length totals)
    \<and> (\<exists>top rest. mset totals = mset (top @ rest)
        \<and> sorted_wrt (\<lambda>a b. snd b < snd a \<or> snd b = snd a \<and> fst a < fst b) (top @ rest)
        \<and> map wn_wallet (rank_wallets totals) = map fst top
        \<and> map wn_score (rank_wallets totals) = map (\<lambda>p. show_int (snd p)) top
        \<and> map wn_rank (rank_wallets totals) = take (length top) [1, 2, 3]
        \<and> map wn_percent (rank_wallets totals) = take (length top) [50, 30, 20]
        \<and> map wn_bonus (rank_wallets totals) = replicate (length top) ''0'')"
proof -
  let ?s = "sort_by better totals"
  have sp: "sorted_wrt (\<lambda>a b. snd b < snd a \<or> snd b = snd a \<and> fst a < fst b) (take 3 ?s @ drop 3 ?s)"
    using sorted_ahead [OF assms] by (simp add: ahead_def [abs_def])
  have "distinct (map fst (take 3 ?s))" using assms by (simp add: take_map [symmetric])
  then have d: "distinct (map wn_wallet (rank_wallets totals))" by (simp only: rank_wallets_fields(1))
  have len: "length (rank_wallets totals) = min 3 (length totals)" by (simp add: rank_wallets_def)
  show ?thesis
    by (intro conjI d len, rule exI [of _ "take 3 ?s"], rule exI [of _ "drop 3 ?s"])
      (intro conjI sp rank_wallets_fields, simp)
qed

theorem rank_wallets_top_three_witness:
  "length (rank_wallets [(''a'', 5), (''b'', 9), (''c'', 5), (''d'', 1)]) = 3
    \<and> (\<exists>(top :: (string \<times> int) list) rest. map wn_wallet (rank_wallets [(''a'', 5), (''b'', 9), (''c'', 5), (''d'', 1)]) = map fst top
        \<and> sorted_wrt (\<lambda>a b. snd b < snd a \<or> snd b = snd a \<and> fst a < fst b) (top @ rest))
    \<and> map wn_wallet (rank_wallets [(''a'', 5), (''b'', 9), (''c'', 5), (''d'', 1)]) = [''b'', ''a'', ''c'']"
proof -
  let ?t = "[(''a'', 5), (''b'', 9), (''c'', 5), (''d'', 1)] :: (string \<times> int) list"
  have "distinct (map fst ?t)" by simp
  note top = rank_wallets_top_three [OF this]
  have "length (rank_wallets ?t) = min 3 (length ?t)" using top by (elim conjE)
  then have "length (rank_wallets ?t) = 3" by simp
  moreover have "map wn_wallet (rank_wallets ?t) = [''b'', ''a'', ''c'']" by code_simp
  moreover have "\<exists>(top :: (string \<times> int) list) rest. map wn_wallet (rank_wallets ?t) = map fst top
      \<and> sorted_wrt (\<lambda>a b. snd b < snd a \<or> snd b = snd a \<and> fst a < fst b) (top @ rest)"
    using top by (elim conjE exE) (rule exI, rule exI, rule conjI, assumption+)
  ultimately show ?thesis by (intro conjI)
qed

text \<open>C18. An append to a frozen snapshot reranks nobody and rewrites nothing: the window, the policy,
  the winners with their ranks and scores and the sources already there are kept, every added
  source is new and exact, and the bonuses grow by exactly what the added sources pay.\<close>

theorem appendDailyBonusResidual_frozen:
  assumes "appendDailyBonusResidual B prior nxt = Inr s" and "all_ranked (bn_rankings prior)"
  shows "bn_window s = bn_window prior \<and> bn_policy s = bn_policy prior \<and> all_names (bn_rankings s) = all_names (bn_rankings prior)
    \<and> (\<exists>added. bn_sources s = bn_sources prior @ added \<and> list_all source_exact added
        \<and> set (map so_collection added) \<inter> set (map so_collection (bn_sources prior)) = {}
        \<and> total_bonus (bn_rankings s) = total_bonus (bn_rankings prior) + sum_list (map (\<lambda>x. parse_dec (so_payable x)) added))"
proof -
  let ?fresh = "filter (\<lambda>x. so_collection x \<notin> set (map so_collection (bn_sources prior))) (bn_sources nxt)"
  let ?row = "\<lambda>x. case latest_row fr_signature (be_collections (bn_evidence nxt)) (so_collection x) of Some r \<Rightarrow> Inr r | None \<Rightarrow> Inl TypeErr"
  from assms(1) obtain rows added rankings where r: "mapR ?row ?fresh = Inr rows"
    and al: "allocate_sources rows (bn_rankings prior) = Inr (added, rankings)"
    and s: "bn_window s = bn_window prior" "bn_policy s = bn_policy prior" "bn_rankings s = rankings" "bn_sources s = bn_sources prior @ added"
    by (auto simp: appendDailyBonusResidual_def Let_def bindR_Inr_iff split: if_splits)
  have sig: "fr_signature r = k" if "latest_row fr_signature rs k = Some r" for rs k r
    using that by (auto simp: latest_row_def dest!: map_of_SomeD)
  have "map so_collection added = map fr_signature rows" using allocate_sources_props [OF al assms(2)] by blast
  moreover have "map fr_signature rows = map so_collection ?fresh"
  proof (rule nth_equalityI)
    show "length (map fr_signature rows) = length (map so_collection ?fresh)" using mapR_length [OF r] by simp
    fix i assume "i < length (map fr_signature rows)"
    then have i: "i < length ?fresh" using mapR_length [OF r] by simp
    have "fr_signature (rows ! i) = so_collection (?fresh ! i)"
      using mapR_nth [OF r i] sig by (auto split: option.splits)
    then show "map fr_signature rows ! i = map so_collection ?fresh ! i" using i mapR_length [OF r] by simp
  qed
  ultimately have "set (map so_collection added) = so_collection ` set ?fresh" by simp
  then have "set (map so_collection added) \<inter> set (map so_collection (bn_sources prior)) = {}" by auto
  with allocate_sources_props [OF al assms(2)] s show ?thesis by (intro conjI exI [of _ added]) simp_all
qed

section \<open>Example\<close>

definition toy_bonus_lib :: bonus_lib where
  "toy_bonus_lib = \<lparr>bl_key = (\<lambda>v. case v of Str s \<Rightarrow> Some s | _ \<Rightarrow> None), bl_on_curve = (\<lambda>_. True),
     bl_fee_hash = fr_signature, bl_trade_hash = tr_signature, bl_snapshot_hash = (\<lambda>s. concat (map so_collection (bn_sources s)))\<rparr>"

definition toy_fee :: "string \<Rightarrow> string \<Rightarrow> fee_row" where
  "toy_fee sig com = \<lparr>fr_signature = sig, fr_settlementSignature = Str ''s'', fr_mint = Str ''M'', fr_creator = Str ''c'',
     fr_referrer = Null, fr_amount = Str ''900'', fr_community = Str com, fr_finalized = Bool True,
     fr_blockTime = Num (nint 1767225700), fr_settlementBlockTime = Null, fr_dailyBonusVersion = Num (nint 1)\<rparr>"

definition toy_day :: "fee_row list \<Rightarrow> bonus_snapshot res" where
  "toy_day fees = buildDailyBonusSnapshot toy_bonus_lib ''2026-01-01'' fees []
     [\<lparr>co_mint = ''M'', co_complete = Bool True\<rparr>] 1767398400 [] ''collection-time-v1'' ''direct-signers-v1''"

definition toy_value :: "bonus_snapshot res \<Rightarrow> bonus_snapshot" where
  "toy_value r = (case r of Inr s \<Rightarrow> s | Inl _ \<Rightarrow> \<lparr>bn_version = 0, bn_window = \<lparr>bw_day = [], bw_start = 0, bw_end = 0, bw_qa = False, bw_cohort = None\<rparr>,
     bn_eligibilityBasis = None, bn_policy = DAILY_BONUS_POLICY, bn_rankings = [], bn_sources = [],
     bn_evidence = \<lparr>be_collections = [], be_trades = [], be_coverage = [], be_excluded = None\<rparr>,
     bn_reconciliation = None, bn_hash = []\<rparr>)"

lemma ok_value: "\<not> isl r \<Longrightarrow> r = Inr (toy_value r)"
  by (cases r) (simp_all add: toy_value_def)

definition toy_prior :: bonus_snapshot where "toy_prior = toy_value (toy_day [toy_fee ''x'' ''100''])"
definition toy_next :: bonus_snapshot where "toy_next = toy_value (toy_day [toy_fee ''x'' ''100'', toy_fee ''y'' ''50''])"

lemma toy_prior_built: "toy_day [toy_fee ''x'' ''100''] = Inr toy_prior"
  unfolding toy_prior_def by (rule ok_value) code_simp

theorem buildDailyBonusSnapshot_conserves_witness:
  "list_all source_exact (bn_sources toy_prior)
    \<and> total_bonus (bn_rankings toy_prior) = sum_list (map (\<lambda>x. parse_dec (so_payable x)) (bn_sources toy_prior))"
  by (rule buildDailyBonusSnapshot_conserves [OF toy_prior_built [unfolded toy_day_def]])

theorem appendDailyBonusResidual_frozen_witness:
  "bn_window (toy_value (appendDailyBonusResidual toy_bonus_lib toy_prior toy_next)) = bn_window toy_prior
    \<and> all_names (bn_rankings (toy_value (appendDailyBonusResidual toy_bonus_lib toy_prior toy_next)))
      = all_names (bn_rankings toy_prior)"
proof -
  have "appendDailyBonusResidual toy_bonus_lib toy_prior toy_next
      = Inr (toy_value (appendDailyBonusResidual toy_bonus_lib toy_prior toy_next))"
    by (rule ok_value) code_simp
  moreover have "all_ranked (bn_rankings toy_prior)" by code_simp
  ultimately show ?thesis using appendDailyBonusResidual_frozen by blast
qed

end
