(* ===== verification/Distribution.thy ===== *)
theory Distribution
  imports BonusPolicy Splits JsDate Bytes
begin

text \<open>
  The distribution of creator fees: the protocol split and the fee policy of a launch
  (\<open>config/protocol-fee-split.js\<close>, \<open>distribution-policy.js\<close>), the policy a coin page shows
  (\<open>coin-rewards-policy.js\<close>), the allocation plan of a finalized settlement
  (\<open>server/v3-allocation-plan.mjs\<close>) and the referral program (\<open>referral-program.js\<close>).  Percentages and
  display amounts are the doubles of theory JsNum; lamports are integers.
\<close>

section \<open>config/protocol-fee-split.js, distribution-policy.js\<close>

record protocol_split =
  ps_operations :: jsnum
  ps_referral :: "jsnum list"
  ps_community :: jsnum
  ps_buyback :: jsnum
  ps_agency :: "jsnum option"

definition PROTOCOL_FEE_SPLIT :: jsval where
  "PROTOCOL_FEE_SPLIT = Obj [(''operationsPercent'', Num (nint 40)), (''referralLevelPercents'', nums [10, 3, 2]),
     (''communityPercent'', Num (nint 20)), (''buybackPercent'', Num (nint 25))]"

definition micro :: jsnum where "micro = rnd (1 / 1000000)"

definition rate_ok :: "jsval \<Rightarrow> bool" where
  "rate_ok v = (case v of
     Num r \<Rightarrow> nfinite r \<and> \<not> nless r (Fin 0) \<and> \<not> nless (nint 100) r
       \<and> \<not> nless micro (math_abs (nsub (math_round (nmul r (nint 10000))) (nmul r (nint 10000))))
   | _ \<Rightarrow> False)"

definition num_of :: "jsval \<Rightarrow> jsnum" where
  "num_of v = (case v of Num n \<Rightarrow> n | _ \<Rightarrow> NaN)"

definition validateProtocolFeeSplit :: "jsval \<Rightarrow> protocol_split res" where
  "validateProtocolFeeSplit split =
     (let levels = oget split ''referralLevelPercents''; agency = oget split ''agencyPercent'';
          ls = (case levels of Arr xs \<Rightarrow> xs | _ \<Rightarrow> []);
          rates = [oget split ''operationsPercent''] @ ls @ [oget split ''communityPercent'', oget split ''buybackPercent'']
            @ (if agency = Undef then [] else [agency]) in
      if (case levels of Arr xs \<Rightarrow> length xs \<noteq> 3 | _ \<Rightarrow> True) \<or> \<not> list_all rate_ok rates
         \<or> nless micro (math_abs (nsub (nsum (map num_of rates)) (nint 100)))
        then throw ''Shared allocation weights must contain Operations & marketing, three referral levels, Daily bonus, buyback and any agency budget, totaling 100% of the allocation pool.''
      else Inr \<lparr>ps_operations = num_of (oget split ''operationsPercent''), ps_referral = map num_of ls,
                ps_community = num_of (oget split ''communityPercent''), ps_buyback = num_of (oget split ''buybackPercent''),
                ps_agency = (if agency = Undef then None else Some (num_of agency))\<rparr>)"

definition effectivePercent :: "jsnum \<Rightarrow> jsnum" where
  "effectivePercent rate = to_fixed 6 (nmul rate (rnd (1 / 5)))"

record fee_distribution =
  fd_pumpRoutedPercent :: int
  fd_pumpRoutedShareBps :: int
  fd_fundedPercent :: int
  fd_creatorPercent :: int
  fd_operationsRate :: jsnum
  fd_operationsEffective :: jsnum
  fd_appReferralRate :: jsnum
  fd_appReferralEffective :: jsnum
  fd_communityRate :: jsnum
  fd_communityEffective :: jsnum
  fd_buybackRate :: jsnum
  fd_buybackEffective :: jsnum
  fd_agency :: "(jsnum \<times> jsnum) option"

definition feeDistributionFor :: "protocol_split \<Rightarrow> fee_distribution" where
  "feeDistributionFor s =
     \<lparr>fd_pumpRoutedPercent = 100, fd_pumpRoutedShareBps = 10000, fd_fundedPercent = 20, fd_creatorPercent = 80,
      fd_operationsRate = ps_operations s, fd_operationsEffective = effectivePercent (ps_operations s),
      fd_appReferralRate = nsum (ps_referral s), fd_appReferralEffective = effectivePercent (nsum (ps_referral s)),
      fd_communityRate = ps_community s, fd_communityEffective = effectivePercent (ps_community s),
      fd_buybackRate = ps_buyback s, fd_buybackEffective = effectivePercent (ps_buyback s),
      fd_agency = map_option (\<lambda>a. (a, effectivePercent a)) (ps_agency s)\<rparr>"

definition REFERRAL_RELATIONSHIPS :: "string list" where
  "REFERRAL_RELATIONSHIPS = [''direct-inviter'', ''inviter-upline'', ''second-upline'']"

record referral_level =
  lv_level :: int
  lv_relationship :: string
  lv_percent :: jsnum
  lv_effective :: jsnum

definition referralLevelsFor :: "protocol_split \<Rightarrow> referral_level list" where
  "referralLevelsFor s = map (\<lambda>(i, rate). \<lparr>lv_level = int i + 1, lv_relationship = REFERRAL_RELATIONSHIPS ! i,
      lv_percent = rate, lv_effective = effectivePercent rate\<rparr>) (zip [0..<length (ps_referral s)] (ps_referral s))"

text \<open>The module's variables: the split that new launches snapshot, and what derives from it.\<close>

record protocol_state =
  st_split :: protocol_split
  st_distribution :: fee_distribution
  st_levels :: "referral_level list"

definition protocol_state_of :: "protocol_split \<Rightarrow> protocol_state" where
  "protocol_state_of s = \<lparr>st_split = s, st_distribution = feeDistributionFor s, st_levels = referralLevelsFor s\<rparr>"

definition setActiveProtocolFeeSplit :: "jsval \<Rightarrow> protocol_state \<Rightarrow> (protocol_split \<times> protocol_state) res" where
  "setActiveProtocolFeeSplit input st = bindR (validateProtocolFeeSplit input) (\<lambda>s. Inr (s, protocol_state_of s))"

text \<open>\<open>xs?.map(f)\<close> on a value: nothing for \<open>undefined\<close>, an error for anything that is no array.\<close>

definition opt_map :: "(jsval \<Rightarrow> jsval res) \<Rightarrow> jsval \<Rightarrow> jsval res" where
  "opt_map f v = (case v of Undef \<Rightarrow> Inr Undef | Null \<Rightarrow> Inr Undef
     | Arr xs \<Rightarrow> bindR (mapR f xs) (\<lambda>ys. Inr (Arr ys)) | _ \<Rightarrow> Inl TypeErr)"

definition splitFromSnapshot :: "protocol_state \<Rightarrow> jsval \<Rightarrow> protocol_split res" where
  "splitFromSnapshot st ff =
     (if \<not> truthy ff then Inr (st_split st)
      else if neq_js (to_number (oget ff ''percent'')) (nint (fd_fundedPercent (st_distribution st)))
        then throw ''Saved shared allocations must match the fixed launch policy; the pool includes both Operations & marketing and ecosystem budgets.''
      else bindR (opt_map (\<lambda>l. jget l ''percentOfFundedRevenue'') (oget (oget ff ''appReferral'') ''levels'')) (\<lambda>levels.
        validateProtocolFeeSplit (Obj
          ([(''operationsPercent'', oget (oget ff ''operations'') ''percentOfFundedRevenue''),
            (''referralLevelPercents'', levels),
            (''communityPercent'', oget (oget ff ''communityRewards'') ''percentOfFundedRevenue''),
            (''buybackPercent'', oget (oget ff ''fundedBuyback'') ''percentOfFundedRevenue'')]
           @ (if truthy (oget ff ''marketingAgency'')
              then [(''agencyPercent'', oget (oget ff ''marketingAgency'') ''percentOfFundedRevenue'')] else [])))))"

record fee_shares =
  sh_creatorWallet :: jsnum
  sh_holderAirdrop :: jsnum
  sh_solClaim :: jsnum

text \<open>An omitted argument is the empty object; \<open>null\<close> has no properties.\<close>

definition readFeeShares :: "jsval \<Rightarrow> fee_shares res" where
  "readFeeShares input =
     (if input = Null then Inl TypeErr
      else Inr \<lparr>sh_creatorWallet = num_or_0 (oget input ''creatorWalletPercent''),
                sh_holderAirdrop = num_or_0 (oget input ''holderAirdropPercent''),
                sh_solClaim = num_or_0 (nullish (oget input ''solClaimPercent'') (oget input ''xPercent''))\<rparr>)"

definition x_handle :: "string \<Rightarrow> bool" where
  "x_handle s \<longleftrightarrow> s \<noteq> [] \<and> hd s = CHR ''@'' \<and> 2 \<le> length s \<and> length s \<le> 16 \<and> list_all is_word_char (tl s)"

record fee_validation =
  fv_valid :: bool
  fv_sharesValid :: bool
  fv_shares :: fee_shares
  fv_total :: jsnum
  fv_remaining :: jsnum
  fv_xRecipientValid :: bool

text \<open>\<open>creator\<close> is the active \<open>FEE_DISTRIBUTION.creatorPercent\<close>.\<close>

definition fee_validation_of :: "jsnum \<Rightarrow> jsval \<Rightarrow> fee_validation res" where
  "fee_validation_of creator input =
     bindR (readFeeShares input) (\<lambda>s.
       let valuesValid = list_all (\<lambda>v. nfinite v \<and> \<not> nless v (Fin 0) \<and> nle v creator)
             [sh_creatorWallet s, sh_holderAirdrop s, sh_solClaim s];
           tot = nadd (nadd (sh_creatorWallet s) (sh_holderAirdrop s)) (sh_solClaim s);
           xRecipient = trim (to_str (jor (oget input ''xRecipient'') (Str [])));
           xValid = (sh_solClaim s = Fin 0 \<or> x_handle xRecipient) in
       Inr \<lparr>fv_valid = valuesValid \<and> nless (math_abs (nsub tot creator)) (rnd (1 / 1000)) \<and> xValid,
            fv_sharesValid = valuesValid, fv_shares = s, fv_total = tot, fv_remaining = nsub creator tot,
            fv_xRecipientValid = xValid\<rparr>)"

definition validateFeeDistribution :: "protocol_state \<Rightarrow> jsval \<Rightarrow> fee_validation res" where
  "validateFeeDistribution st = fee_validation_of (nint (fd_creatorPercent (st_distribution st)))"

definition shares_error :: "'a res" where
  "shares_error = throw ''Creator fee shares must total exactly 80%, with a valid X recipient when enabled.''"

definition num_fields :: "(string \<times> jsnum) list \<Rightarrow> (string \<times> jsval) list" where
  "num_fields = map (\<lambda>(k, n). (k, Num n))"

definition str_fields :: "(string \<times> string) list \<Rightarrow> (string \<times> jsval) list" where
  "str_fields = map (\<lambda>(k, s). (k, Str s))"

definition level_value :: "referral_level \<Rightarrow> jsval" where
  "level_value l = Obj [(''level'', Num (nint (lv_level l))), (''relationship'', Str (lv_relationship l)),
     (''percentOfFundedRevenue'', Num (lv_percent l)), (''effectivePercentOfCreatorFees'', Num (lv_effective l))]"

definition shares_value :: "fee_shares \<Rightarrow> jsval" where
  "shares_value s = Obj (num_fields [(''creatorWalletPercent'', sh_creatorWallet s),
     (''holderAirdropPercent'', sh_holderAirdrop s), (''solClaimPercent'', sh_solClaim s)])"

definition rate_fields :: "jsnum \<Rightarrow> (string \<times> jsval) list" where
  "rate_fields r = num_fields [(''percentOfFundedRevenue'', r), (''effectivePercentOfCreatorFees'', effectivePercent r)]"

definition pump_route_value :: "fee_distribution \<Rightarrow> jsval \<Rightarrow> jsval" where
  "pump_route_value d input = Obj
     ([(''percent'', Num (nint (fd_pumpRoutedPercent d))), (''shareBps'', Num (nint (fd_pumpRoutedShareBps d))),
       (''recipient'', Str ''funded-app-fee-router-pda''), (''routerAddress'', jor (oget input ''feeRouterAddress'') Null)]
      @ str_fields [(''setup'', ''pump-create-v2-creator-is-router-pda''),
          (''userRole'', ''payer-not-creator-fee-authority''),
          (''authorityRule'', ''creator-wallet-never-receives-pump-fee-authority''),
          (''activationGate'', ''bonding-curve-creator-equals-verified-router-pda'')])"

definition fixed_funded_value :: "fee_distribution \<Rightarrow> protocol_split \<Rightarrow> jsval" where
  "fixed_funded_value d s =
     (let levels = referralLevelsFor s in Obj
      ([(''percent'', Num (nint (fd_fundedPercent d))),
        (''operations'', Obj (rate_fields (ps_operations s))),
        (''appReferral'', Obj (rate_fields (nsum (ps_referral s))
           @ [(''maxDepth'', Num (nint (int (length levels)))), (''levels'', Arr (map level_value levels))]
           @ str_fields [(''basis'', ''funded-app-revenue-from-invited-guest-creators''),
               (''qualification'', ''collected-revenue-only-no-recruitment-bounty''),
               (''attribution'', ''account-level-first-touch''),
               (''uplineResolution'', ''server-referral-graph-at-first-qualified-event'')]
           @ [(''safeguards'', Arr [Str ''reject-self-referral'', Str ''reject-repeated-account-in-chain'',
                Str ''lock-upline-after-first-qualified-event'']),
              (''unattributedDestination'', Str ''community-growth-reserve'')])),
        (''communityRewards'', Obj (rate_fields (ps_community s)
           @ str_fields [(''destination'', ''community-program-reserve''), (''use'', ''daily-top-three-bonuses''),
               (''payoutMode'', ''verified-daily-snapshot-and-funded-reward-cycle'')]
           @ [(''dailyBonus'', bonus_policy_value DAILY_BONUS_POLICY)])),
        (''fundedBuyback'', Obj (rate_fields (ps_buyback s)
           @ str_fields [(''action'', ''buyback-and-burn''), (''allocationTiming'', ''when-creator-fees-are-actually-claimed''),
               (''vault'', ''dedicated-buyback-pda''), (''burnInstruction'', ''BurnChecked''),
               (''failedExecutionRule'', ''keep-pending-never-reroute'')]))]
       @ (case ps_agency s of None \<Rightarrow> []
          | Some a \<Rightarrow> [(''marketingAgency'', Obj (rate_fields a
              @ str_fields [(''destination'', ''dedicated-v3-agency-vault''),
                  (''budgetRule'', ''equal-selected-agents; retain unselected budget''),
                  (''status'', ''policy-not-execution-proof'')]))])
       @ [(''status'', Str ''policy-defined-settlement-requires-verified-receipts'')]))"

definition creator_directed_value :: "fee_distribution \<Rightarrow> fee_shares \<Rightarrow> jsval \<Rightarrow> jsval" where
  "creator_directed_value d sh input =
     (let holder = nless (Fin 0) (sh_holderAirdrop sh); x = nless (Fin 0) (sh_solClaim sh) in
      Obj [(''percent'', Num (nint (fd_creatorPercent d))), (''shares'', shares_value sh),
        (''recipients'', Obj [(''creatorWallet'', Str ''connected-creator-wallet''),
           (''holderAirdrop'', if holder then Str ''holder-rewards-vault'' else Null),
           (''xAccount'', if x then Str (trim (to_str (oget input ''xRecipient''))) else Null),
           (''solClaimMode'', if x then Str ''x-handle-wallet-verification'' else Null),
           (''xPayoutMode'', Null)]),
        (''status'', Str ''policy-defined-settlement-requires-verified-receipts'')])"

definition buildFeeDistributionPolicy :: "protocol_state \<Rightarrow> jsval \<Rightarrow> jsval \<Rightarrow> jsval res" where
  "buildFeeDistributionPolicy st input fundedSplit =
     bindR (validateFeeDistribution st input) (\<lambda>result.
     if \<not> fv_valid result then shares_error
     else bindR (validateProtocolFeeSplit fundedSplit) (\<lambda>split.
       let d = st_distribution st in
       Inr (Obj [(''pumpCreatorFeeRoute'', pump_route_value d input), (''fixedFunded'', fixed_funded_value d split),
         (''creatorDirected'', creator_directed_value d (fv_shares result) input),
         (''settlement'', Obj (str_fields [(''source'', ''creator-fees-actually-claimed-by-funded-app-router''),
            (''idempotencyKey'', ''pump-fee-claim-transaction-signature''),
            (''accountingRule'', ''create-all-obligations-before-any-payout''),
            (''failureRule'', ''retain-pending-obligation-never-reallocate'')])),
         (''immutable'', Bool True)])))"

definition roundAmount :: "jsnum \<Rightarrow> jsnum" where
  "roundAmount v = to_fixed 9 v"

text \<open>The order of the largest remainders: the first non-zero of the three differences decides.\<close>

definition remainder_before :: "(jsnum \<times> jsnum \<times> nat) \<Rightarrow> (jsnum \<times> jsnum \<times> nat) \<Rightarrow> bool" where
  "remainder_before = (\<lambda>(ra, pa, ia) (rb, pb, ib).
     (let d = nsub rb ra; e = nsub pb pa in
      if nless d (Fin 0) then True else if nless (Fin 0) d then False
      else if nless e (Fin 0) then True else if nless (Fin 0) e then False
      else ia \<le> ib))"

definition allocateLamports :: "jsnum \<Rightarrow> jsnum list \<Rightarrow> jsnum list res" where
  "allocateLamports gross percentages =
     (let lamports = math_round (nmul gross (nint 1000000000)) in
      if \<not> is_safe_integer lamports then throw ''Gross creator fees exceed the safe lamport accounting range.''
      else
        let rateTotal = nsum percentages;
            exact = map (\<lambda>rate. ndiv (nmul lamports rate) rateTotal) percentages;
            amounts = map math_floor exact;
            remaining = nsub lamports (nsum amounts);
            rows = map (\<lambda>i. (nsub (exact ! i) (amounts ! i), percentages ! i, i)) [0..<length percentages];
            order = map (\<lambda>(_, _, i). i) (sort_by remainder_before rows);
            bump = (if remaining = NaN then [] else take (nat \<lceil>case remaining of Fin q \<Rightarrow> q | _ \<Rightarrow> 0\<rceil>) order) in
        Inr (map (\<lambda>i. ndiv (if i \<in> set bump then nadd (amounts ! i) (nint 1) else amounts ! i) (nint 1000000000))
          [0..<length percentages]))"

record claim_level =
  cl_level :: int
  cl_recipient :: jsval
  cl_amount :: jsnum
  cl_status :: string
  cl_payoutMode :: "string option"

record fee_claim =
  fc_gross :: jsnum
  fc_ingress :: jsnum
  fc_creatorWallet :: jsnum
  fc_holderAirdrop :: jsnum
  fc_solClaim :: jsnum
  fc_creatorTotal :: jsnum
  fc_fundedTotal :: jsnum
  fc_operations :: jsnum
  fc_referralLevels :: "claim_level list"
  fc_referralPayout :: jsnum
  fc_communityBase :: jsnum
  fc_missingReferral :: jsnum
  fc_community :: jsnum
  fc_buyback :: jsnum
  fc_agency :: "jsnum option"
  fc_totalAllocated :: jsnum
  fc_status :: string

definition calculateCreatorFeeClaim ::
  "protocol_state \<Rightarrow> jsval \<Rightarrow> jsval \<Rightarrow> jsval list \<Rightarrow> jsval \<Rightarrow> fee_claim res" where
  "calculateCreatorFeeClaim st grossCreatorFees input referralRecipients fixedFunded =
     (let gross = to_number grossCreatorFees in
      if \<not> nfinite gross \<or> nless gross (Fin 0) then throw ''Gross creator fees must be a non-negative number.''
      else bindR (validateFeeDistribution st input) (\<lambda>v.
      if \<not> fv_valid v then shares_error
      else bindR (splitFromSnapshot st fixedFunded) (\<lambda>split.
      let defs = referralLevelsFor split; sh = fv_shares v in
      bindR (allocateLamports gross
          ([sh_creatorWallet sh, sh_holderAirdrop sh, sh_solClaim sh, effectivePercent (ps_operations split),
            effectivePercent (ps_community split), effectivePercent (ps_buyback split)]
           @ map lv_effective defs
           @ (case ps_agency split of None \<Rightarrow> [] | Some a \<Rightarrow> [effectivePercent a]))) (\<lambda>al.
      let operations = al ! 3; communityBase = al ! 4; buyback = al ! 5; referral = drop 6 al;
          agency = (case ps_agency split of None \<Rightarrow> Fin 0 | Some _ \<Rightarrow> referral ! length defs);
          levels = map (\<lambda>i. let r = jor (if i < length referralRecipients then referralRecipients ! i else Undef) Null in
              \<lparr>cl_level = lv_level (defs ! i), cl_recipient = r, cl_amount = referral ! i,
               cl_status = (if truthy r then ''claimable'' else ''redirected-to-community-growth-reserve''),
               cl_payoutMode = (if truthy r then Some ''user-initiated-wallet-claim'' else None)\<rparr>) [0..<length defs];
          referralPayout = roundAmount (nsum (map cl_amount (filter (\<lambda>l. truthy (cl_recipient l)) levels)));
          missingReferral = roundAmount (nsum (map cl_amount (filter (\<lambda>l. \<not> truthy (cl_recipient l)) levels)));
          community = roundAmount (nadd communityBase missingReferral);
          creatorTotal = roundAmount (nsum [al ! 0, al ! 1, al ! 2]);
          totalAllocated = roundAmount (nadd (nadd (nadd (nadd (nadd creatorTotal operations) referralPayout) community) buyback) agency) in
      if neq_js (math_round (nmul totalAllocated (nint 1000000000))) (math_round (nmul gross (nint 1000000000)))
        then throw ''Creator-fee settlement must allocate every claimed lamport exactly once.''
      else Inr \<lparr>fc_gross = roundAmount gross, fc_ingress = roundAmount gross,
        fc_creatorWallet = al ! 0, fc_holderAirdrop = al ! 1, fc_solClaim = al ! 2, fc_creatorTotal = creatorTotal,
        fc_fundedTotal = roundAmount (nadd (nadd (nadd (nadd operations referralPayout) community) buyback) agency),
        fc_operations = operations, fc_referralLevels = levels, fc_referralPayout = referralPayout,
        fc_communityBase = communityBase, fc_missingReferral = missingReferral, fc_community = community,
        fc_buyback = buyback, fc_agency = map_option (\<lambda>_. agency) (ps_agency split),
        fc_totalAllocated = totalAllocated, fc_status = ''obligations-created''\<rparr>))))"

record fee_settlement =
  fs_claimSignature :: string
  fs_claimedAt :: jsval
  fs_asset :: string
  fs_claim :: fee_claim

definition claim_key :: "jsval \<Rightarrow> string" where
  "claim_key event = trim (to_str (jor (oget event ''claimSignature'') (Str [])))"

text \<open>\<open>nowIso\<close> is \<open>new Date().toISOString()\<close>; the map of settled claims is passed along.\<close>

definition settleCreatorFeeClaim ::
  "protocol_state \<Rightarrow> string \<Rightarrow> jsval \<Rightarrow> jsval list \<Rightarrow> jsval \<Rightarrow> jsval \<Rightarrow> (string, fee_settlement) omap
    \<Rightarrow> (fee_settlement \<times> (string, fee_settlement) omap) res" where
  "settleCreatorFeeClaim st nowIso input recipients fixedFunded event settled =
     (let claimSignature = claim_key event in
      if claimSignature = [] then throw ''A Pump fee-claim transaction signature is required.''
      else case map_of settled claimSignature of
        Some s \<Rightarrow> Inr (s, settled)
      | None \<Rightarrow> bindR (calculateCreatorFeeClaim st (oget event ''grossCreatorFees'') input recipients fixedFunded) (\<lambda>claim.
          let s = \<lparr>fs_claimSignature = claimSignature, fs_claimedAt = jor (oget event ''claimedAt'') (Str nowIso),
                fs_asset = map to_upper (to_str (jor (oget event ''asset'') (Str ''SOL''))), fs_claim = claim\<rparr> in
          Inr (s, oset claimSignature s settled)))"

section \<open>referral-program.js\<close>

definition referral_code_pattern :: "string \<Rightarrow> bool" where
  "referral_code_pattern c \<longleftrightarrow> take 4 c = ''FND-'' \<and> 12 \<le> length c \<and> length c \<le> 20
     \<and> list_all (\<lambda>x. is_upper x \<or> is_digit x) (drop 4 c)"

definition normalizeReferralCode :: "jsval \<Rightarrow> string" where
  "normalizeReferralCode v =
     (let code = map to_upper (trim (to_str (jor v (Str [])))) in if referral_code_pattern code then code else [])"

definition createReferralCode :: "int list \<Rightarrow> string res" where
  "createReferralCode bytes =
     (if length bytes < 4 then throw ''Referral code entropy is too short.''
      else Inr (normalizeReferralCode (Str (''FND-'' @ map to_upper (take 12
        (concat (map (\<lambda>b. [hex_digit (b div 16), hex_digit (b mod 16)]) bytes)))))))"

definition set_field :: "string \<Rightarrow> jsval \<Rightarrow> jsval \<Rightarrow> jsval" where
  "set_field k v ob = (case ob of Obj fs \<Rightarrow> Obj (oset k v fs) | _ \<Rightarrow> Obj [(k, v)])"

definition captureFirstTouch :: "jsval \<Rightarrow> jsval \<Rightarrow> string \<Rightarrow> jsval \<Rightarrow> jsval" where
  "captureFirstTouch existing candidate now ownCode =
     (let current = (if truthy (oget existing ''code'') then normalizeReferralCode (oget existing ''code'') else []) in
      if current \<noteq> [] then set_field ''code'' (Str current) existing
      else let code = normalizeReferralCode candidate in
        if code = [] \<or> code = normalizeReferralCode ownCode then Null
        else Obj [(''code'', Str code), (''directInviterCode'', Str code), (''scope'', Str ''app-account''),
          (''capturedAt'', Str now), (''lock'', Str ''first-touch''), (''status'', Str ''pending-first-qualified-event''),
          (''maxRewardDepth'', Num (nint 3)), (''uplineResolution'', Str ''server-referral-graph-at-first-qualified-event'')])"

definition bindReferralAttribution :: "jsval \<Rightarrow> jsval \<Rightarrow> jsval \<Rightarrow> jsval" where
  "bindReferralAttribution attribution walletAddress ownCode =
     (if \<not> truthy (oget attribution ''code'') \<or> \<not> truthy walletAddress then jor attribution Null
      else if normalizeReferralCode (oget attribution ''code'') = normalizeReferralCode ownCode then Null
      else if truthy (oget attribution ''wallet'') \<and> \<not> jeq (oget attribution ''wallet'') walletAddress then Null
      else set_field ''wallet'' walletAddress attribution)"

text \<open>Wallets are strings, the empty one standing for none; \<open>n\<close> is the depth that is left.\<close>

fun upline_loop :: "(string \<times> string) list \<Rightarrow> string list \<Rightarrow> string \<Rightarrow> nat \<Rightarrow> string list res" where
  "upline_loop graph visited current 0 = Inr []"
| "upline_loop graph visited current (Suc n) =
     (if current = [] then Inr []
      else if current \<in> set visited then throw ''Referral graph contains a cycle.''
      else bindR (upline_loop graph (current # visited) (case map_of graph current of Some p \<Rightarrow> p | None \<Rightarrow> []) n)
        (\<lambda>r. Inr (current # r)))"

definition resolveReferralUpline :: "string \<Rightarrow> (string \<times> string) list \<Rightarrow> nat \<Rightarrow> string list res" where
  "resolveReferralUpline directInviter graph maxDepth = upline_loop graph [] directInviter maxDepth"

record attribution_row =
  at_wallet :: string
  at_inviter :: string

fun reaches :: "(string \<times> string) list \<Rightarrow> string \<Rightarrow> string list \<Rightarrow> string \<Rightarrow> nat \<Rightarrow> bool" where
  "reaches graph rt visited current 0 = False"
| "reaches graph rt visited current (Suc n) =
     (if current = [] \<or> current \<in> set visited then False
      else if current = rt then True
      else reaches graph rt (current # visited) (case map_of graph current of Some p \<Rightarrow> p | None \<Rightarrow> []) n)"

text \<open>\<open>Object.fromEntries\<close> keeps the last entry of a key.\<close>

definition resolveReferralNetwork :: "jsval \<Rightarrow> attribution_row list \<Rightarrow> jsnum \<Rightarrow> string list" where
  "resolveReferralNetwork wallet rows maxDepth =
     (let rt = trim (to_str (jor wallet (Str []))) in
      if rt = [] \<or> \<not> is_integer maxDepth \<or> nless maxDepth (nint 1) then []
      else let graph = rev (map (\<lambda>r. (at_wallet r, at_inviter r))
             (filter (\<lambda>r. at_wallet r \<noteq> [] \<and> at_inviter r \<noteq> []) rows)) in
        map at_wallet (filter (\<lambda>r. reaches graph rt [] (at_inviter r) (nat (to_int maxDepth))) rows))"

record reward_level =
  rl_level :: jsval
  rl_percent :: jsval
  rl_effective :: jsval

record referral_reward =
  rr_level :: jsval
  rr_recipient :: jsval
  rr_amount :: jsnum
  rr_percentOfGross :: jsnum

record referral_rewards =
  rs_gross :: jsnum
  rs_fundedRevenue :: jsnum
  rs_allocations :: "referral_reward list"
  rs_total :: jsnum
  rs_unallocated :: jsnum
  rs_remaining :: jsnum

definition zero_or :: "jsval \<Rightarrow> jsnum" where
  "zero_or v = to_number (jor v (Num (Fin 0)))"

definition calculateReferralRewards :: "jsval \<Rightarrow> jsnum \<Rightarrow> reward_level list \<Rightarrow> jsval list \<Rightarrow> referral_rewards" where
  "calculateReferralRewards grossCreatorFees fundedPercent levels upline =
     (let gross = nmax (Fin 0) (num_or_0 grossCreatorFees);
          fundedRevenue = ndiv (nmul gross fundedPercent) (nint 100);
          pool = ndiv (nmul fundedRevenue (nsum (map (\<lambda>l. zero_or (rl_percent l)) levels))) (nint 100);
          allocations = map (\<lambda>(l, w). \<lparr>rr_level = rl_level l, rr_recipient = w,
              rr_amount = ndiv (nmul fundedRevenue (zero_or (rl_percent l))) (nint 100),
              rr_percentOfGross = zero_or (rl_effective l)\<rparr>) (zip levels upline);
          allocated = nsum (map rr_amount allocations) in
      \<lparr>rs_gross = gross, rs_fundedRevenue = fundedRevenue, rs_allocations = allocations, rs_total = allocated,
       rs_unallocated = nmax (Fin 0) (nsub pool allocated), rs_remaining = nsub fundedRevenue allocated\<rparr>)"

record referral_settlement =
  re_eventId :: jsval
  re_rewards :: referral_rewards
  re_status :: string

definition settleReferralRevenue ::
  "jsnum \<Rightarrow> reward_level list \<Rightarrow> jsval list \<Rightarrow> jsval \<Rightarrow> (jsval, referral_settlement) omap
    \<Rightarrow> (referral_settlement \<times> (jsval, referral_settlement) omap) res" where
  "settleReferralRevenue fundedPercent levels upline event settled =
     (let i = oget event ''id'' in
      if \<not> truthy i then throw ''A revenue event id is required.''
      else case map_of settled i of
        Some s \<Rightarrow> Inr (s, settled)
      | None \<Rightarrow>
          let s = \<lparr>re_eventId = i, re_rewards = calculateReferralRewards (oget event ''grossCreatorFees'') fundedPercent levels upline,
                re_status = ''pending-settlement''\<rparr> in
          Inr (s, oset i s settled))"

section \<open>coin-rewards-policy.js\<close>

definition percent :: "jsval \<Rightarrow> jsnum option" where
  "percent v = (case v of Num n \<Rightarrow> if nfinite n \<and> nle (Fin 0) n \<and> nle n (nint 100) then Some n else None | _ \<Rightarrow> None)"

definition matches :: "jsnum option \<Rightarrow> jsnum \<Rightarrow> bool" where
  "matches v expected \<longleftrightarrow> (case v of Some n \<Rightarrow> nless (math_abs (nsub n expected)) micro | None \<Rightarrow> False)"

definition formatPolicyPercent :: "jsnum \<Rightarrow> string" where
  "formatPolicyPercent v = num_to_str (to_fixed 6 v) @ ''%''"

record coin_policy =
  cp_creator :: jsnum
  cp_holders :: jsnum
  cp_x :: jsnum
  cp_protocol :: jsnum
  cp_xAccount :: "string option"
  cp_programs :: "(string \<times> jsnum) list"
  cp_compact :: string

definition program_percents :: "jsval \<Rightarrow> (string \<times> jsnum option) list" where
  "program_percents fixed =
     (let p = (\<lambda>k. percent (oget (oget fixed k) ''effectivePercentOfCreatorFees'')) in
      [(''operations'', p ''operations''), (''referrals'', p ''appReferral''), (''community'', p ''communityRewards''),
       (''buyback'', p ''fundedBuyback'')]
      @ (if truthy (oget fixed ''marketingAgency'') then [(''agency'', p ''marketingAgency'')] else []))"

definition verifiedCoinRewardsPolicy :: "jsval \<Rightarrow> jsval \<Rightarrow> jsval \<Rightarrow> coin_policy option" where
  "verifiedCoinRewardsPolicy policy mint cluster =
     (if \<not> truthy policy \<or> \<not> jeq (oget policy ''mint'') mint \<or> \<not> jeq (oget policy ''cluster'') cluster
         \<or> oget policy ''onchainVerified'' \<noteq> Bool True
         \<or> (case oget policy ''policySignature'' of Str s \<Rightarrow> trim s = [] | _ \<Rightarrow> True) then None
      else
        let dist = oget policy ''feeDistribution''; directed = oget dist ''creatorDirected''; shares = oget directed ''shares'';
            fixed = oget dist ''fixedFunded''; protocol = percent (oget fixed ''percent'') in
        case (percent (oget shares ''creatorWalletPercent''), percent (oget shares ''holderAirdropPercent''),
              percent (oget shares ''solClaimPercent''), protocol) of
          (Some creator, Some holders, Some x, Some pr) \<Rightarrow>
            if \<not> matches protocol (nint 20) \<or> \<not> matches (percent (oget directed ''percent'')) (nint 80)
               \<or> \<not> matches (percent (oget (oget dist ''pumpCreatorFeeRoute'') ''percent'')) (nint 100)
               \<or> \<not> matches (Some (nadd (nadd creator holders) x)) (nint 80) then None
            else
              let xAccount = oget (oget directed ''recipients'') ''xAccount'';
                  account = (case xAccount of Str s \<Rightarrow> s | _ \<Rightarrow> []);
                  programs = program_percents fixed; onx = nless (Fin 0) x in
              if onx \<and> (case xAccount of Str s \<Rightarrow> \<not> x_handle s | _ \<Rightarrow> True) then None
              else if \<not> list_all (\<lambda>(_, p). p \<noteq> None) programs
                  \<or> \<not> matches (Some (nsum (map (\<lambda>(_, p). the p) programs))) pr then None
              else Some \<lparr>cp_creator = creator, cp_holders = holders, cp_x = x, cp_protocol = pr,
                cp_xAccount = (if onx then Some account else None),
                cp_programs = map (\<lambda>(k, p). (k, the p)) programs,
                cp_compact = join mid_dot
                  ((if nless (Fin 0) creator then [''Creator '' @ formatPolicyPercent creator] else [])
                   @ (if nless (Fin 0) holders then [''Holders '' @ formatPolicyPercent holders] else [])
                   @ (if onx then [account @ '' '' @ formatPolicyPercent x] else []))\<rparr>
        | _ \<Rightarrow> None)"

section \<open>server/v3-allocation-plan.mjs\<close>

definition plan_lamports :: "jsval \<Rightarrow> int res" where
  "plan_lamports v = (if \<not> canon_dec (to_str v) then throw ''Finalized V3 allocation contains invalid lamports.'' else to_bigint v)"

definition shareBps :: "jsnum \<Rightarrow> int res" where
  "shareBps v =
     (let bps = math_round (nmul v (nint 100)) in
      if \<not> is_safe_integer bps \<or> nless micro (math_abs (nsub (ndiv bps (nint 100)) v))
        then throw ''Creator-directed V3 shares must use whole basis points.'' else Inr (to_int bps))"

text \<open>The cumulative entitlement of the wallet, the holders and the X account.\<close>

definition directed_targets :: "int \<Rightarrow> int \<Rightarrow> int \<Rightarrow> int list" where
  "directed_targets walletBps holderBps pool =
     [pool * walletBps div 8000, pool * (walletBps + holderBps) div 8000 - pool * walletBps div 8000,
      pool - pool * (walletBps + holderBps) div 8000]"

record v3_plan =
  vp_collectionSignature :: jsval
  vp_settlementSignature :: jsval
  vp_mint :: jsval
  vp_programId :: jsval
  vp_position :: "(string \<times> string) option"
  vp_grossLamports :: string
  vp_creatorPoolLamports :: string
  vp_walletLamports :: string
  vp_holderLamports :: string
  vp_xLamports :: string
  vp_xUserId :: "string option"
  vp_xHandle :: jsval
  vp_operationsLamports :: string
  vp_referralLamports :: "string list"
  vp_communityLamports :: string
  vp_buybackLamports :: string
  vp_agencyLamports :: "string option"

definition user_id_ok :: "jsval \<Rightarrow> bool" where
  "user_id_ok v \<longleftrightarrow> (let s = to_str (jor v (Str [])) in all_digits s \<and> length s \<le> 24)"

definition with_x_recipient :: "jsval \<Rightarrow> jsval \<Rightarrow> jsval" where
  "with_x_recipient shares x = (case shares of Obj fs \<Rightarrow> Obj (oset ''xRecipient'' x fs) | _ \<Rightarrow> Obj [(''xRecipient'', x)])"

definition launch_settlement_match :: "jsval \<Rightarrow> jsval \<Rightarrow> bool res" where
  "launch_settlement_match launch settlement =
     (let route = oget launch ''pumpFeeRoute'' in
      if \<not> jeq (oget route ''scope'') (Str ''per-mint-v3'') \<or> \<not> jeq (oget launch ''mint'') (oget settlement ''mint'')
         \<or> \<not> truthy (oget launch ''onchainVerified'') \<or> \<not> jeq (oget launch ''cluster'') (Str ''devnet'')
        then Inr False
      else bindR (jget settlement ''programId'') (\<lambda>p. Inr (jeq (oget route ''programId'') p)))"

text \<open>The basis points of the signed creator-directed split.\<close>

definition directed_bps :: "protocol_state \<Rightarrow> jsval \<Rightarrow> (int \<times> int \<times> int) res" where
  "directed_bps st launch =
     (let directed = oget (oget launch ''feeDistribution'') ''creatorDirected'';
          xAccount = oget (oget directed ''recipients'') ''xAccount'' in
      bindR (validateFeeDistribution st (with_x_recipient (oget directed ''shares'') (jor xAccount (Str [])))) (\<lambda>checked.
      if \<not> fv_valid checked then throw ''The signed creator-directed fee split is invalid.''
      else bindR (shareBps (sh_creatorWallet (fv_shares checked))) (\<lambda>walletBps.
      bindR (shareBps (sh_holderAirdrop (fv_shares checked))) (\<lambda>holderBps.
      bindR (shareBps (sh_solClaim (fv_shares checked))) (\<lambda>xBps.
      if walletBps + holderBps + xBps \<noteq> 8000 \<or> (xBps > 0 \<and> \<not> user_id_ok (oget launch ''xUserId''))
        then throw ''The V3 creator-directed split or X identity is incomplete.''
      else Inr (walletBps, holderBps, xBps))))))"

text \<open>The signed category amounts, checked against the settled amount.\<close>

definition v3_categories :: "jsval \<Rightarrow> bool \<Rightarrow> (int list \<times> int) res" where
  "v3_categories settlement agency =
     (let rows = (case oget settlement ''categoryLamports'' of Arr rs \<Rightarrow> rs | _ \<Rightarrow> []) in
      if length rows \<noteq> (if agency then 8 else 7) then throw ''The signed V3 policy category count differs.''
      else bindR (mapR plan_lamports rows) (\<lambda>category.
      bindR (plan_lamports (oget settlement ''expectedLamports'')) (\<lambda>gross.
      if gross \<le> 0 \<or> sum_list category \<noteq> gross
        then throw ''V3 category allocations do not reconcile to the settled fee amount.''
      else Inr (category, gross))))"

text \<open>The creator pool before and after the collection.\<close>

definition v3_position :: "jsval \<Rightarrow> int \<Rightarrow> (int \<times> int) res" where
  "v3_position settlement creatorPool =
     (let position = oget settlement ''position'' in
      bindR (if truthy position then plan_lamports (oget position ''creatorPoolBeforeLamports'') else Inr 0) (\<lambda>priorPool.
      bindR (if truthy position then plan_lamports (oget position ''creatorPoolAfterLamports'') else Inr creatorPool) (\<lambda>afterPool.
      if afterPool - priorPool \<noteq> creatorPool then throw ''The cumulative V3 creator pool does not reconcile.''
      else Inr (priorPool, afterPool))))"

definition directed_amounts :: "int \<Rightarrow> int \<Rightarrow> int \<Rightarrow> int \<Rightarrow> int \<Rightarrow> (int \<times> int \<times> int) res" where
  "directed_amounts priorPool afterPool creatorPool walletBps holderBps =
     (let wallet = afterPool * walletBps div 8000 - priorPool * walletBps div 8000;
          holder = afterPool * (walletBps + holderBps) div 8000 - priorPool * (walletBps + holderBps) div 8000 - wallet;
          x = creatorPool - wallet - holder in
      if wallet < 0 \<or> holder < 0 \<or> x < 0 then throw ''The collection is too small to release cumulative rounding safely.''
      else Inr (wallet, holder, x))"

definition allocated_plan ::
  "jsval \<Rightarrow> jsval \<Rightarrow> bool \<Rightarrow> int list \<times> int \<Rightarrow> int \<times> int \<times> int \<Rightarrow> int \<times> int \<Rightarrow> int \<times> int \<times> int \<Rightarrow> v3_plan" where
  "allocated_plan launch settlement agency cats bps pos amounts =
     (let (category, gross) = cats; (_, _, xBps) = bps; (priorPool, afterPool) = pos; (wallet, holder, x) = amounts in
      \<lparr>vp_collectionSignature = oget settlement ''collectionSignature'',
       vp_settlementSignature = oget settlement ''settlementSignature'', vp_mint = oget launch ''mint'',
       vp_programId = oget (oget launch ''pumpFeeRoute'') ''programId'',
       vp_position = (if truthy (oget settlement ''position'') then Some (show_int priorPool, show_int afterPool) else None),
       vp_grossLamports = show_int gross, vp_creatorPoolLamports = show_int (category ! 0),
       vp_walletLamports = show_int wallet, vp_holderLamports = show_int holder, vp_xLamports = show_int x,
       vp_xUserId = (if xBps > 0 then Some (to_str (oget launch ''xUserId'')) else None),
       vp_xHandle = (if xBps > 0 then oget (oget (oget (oget launch ''feeDistribution'') ''creatorDirected'') ''recipients'') ''xAccount'' else Null),
       vp_operationsLamports = show_int (category ! 1), vp_referralLamports = map show_int (take 3 (drop 2 category)),
       vp_communityLamports = show_int (category ! 5), vp_buybackLamports = show_int (category ! 6),
       vp_agencyLamports = (if agency then Some (show_int (category ! 7)) else None)\<rparr>)"

definition v3AllocationPlan :: "protocol_state \<Rightarrow> jsval \<Rightarrow> jsval \<Rightarrow> v3_plan res" where
  "v3AllocationPlan st launch settlement =
     bindR (launch_settlement_match launch settlement) (\<lambda>ok.
     if \<not> ok then throw ''A matching verified V3 launch and settlement are required.''
     else
     let agency = (oget (oget (oget launch ''pumpFeeRoute'') ''protocolSplit'') ''agencyPercent'' \<noteq> Undef) in
     bindR (v3_categories settlement agency) (\<lambda>cats.
     bindR (directed_bps st launch) (\<lambda>bps.
     bindR (v3_position settlement (fst cats ! 0)) (\<lambda>pos.
     bindR (directed_amounts (fst pos) (snd pos) (fst cats ! 0) (fst bps) (fst (snd bps))) (\<lambda>amounts.
     Inr (allocated_plan launch settlement agency cats bps pos amounts))))))"

text \<open>\<open>None\<close> is the blocked plan that asks for reconciliation.\<close>

definition recordedV3AllocationPlan :: "protocol_state \<Rightarrow> jsval \<Rightarrow> jsval \<Rightarrow> v3_plan option" where
  "recordedV3AllocationPlan st launch settlement =
     (case v3AllocationPlan st launch settlement of Inr p \<Rightarrow> Some p | Inl _ \<Rightarrow> None)"

section \<open>Lemmas\<close>

text \<open>
  The interface of a ledger that settles an event once: an event whose key is known gets the
  settlement on record, and a new one is recorded under its key.
\<close>

definition or_keep :: "('m \<Rightarrow> ('v \<times> 'm) res) \<Rightarrow> 'm \<Rightarrow> 'm" where
  "or_keep f m = (case f m of Inl _ \<Rightarrow> m | Inr r \<Rightarrow> snd r)"

locale settle_once =
  fixes settle :: "'e \<Rightarrow> ('k, 'v) omap \<Rightarrow> ('v \<times> ('k, 'v) omap) res"
    and key :: "'e \<Rightarrow> 'k" and valid :: "'e \<Rightarrow> bool"
  assumes known: "valid e \<Longrightarrow> map_of m (key e) = Some v \<Longrightarrow> settle e m = Inr (v, m)"
    and fresh: "map_of m (key e) = None \<Longrightarrow> settle e m = Inr (v, m') \<Longrightarrow> m' = oset (key e) v m"
    and needs_valid: "settle e m = Inr (v, m') \<Longrightarrow> valid e"
begin

lemma settled: "settle e m = Inr (v, m') \<Longrightarrow> map_of m' (key e) = Some v"
proof (cases "map_of m (key e)")
  case None
  assume "settle e m = Inr (v, m')"
  with fresh [OF None] show ?thesis by simp
next
  case (Some w)
  assume s: "settle e m = Inr (v, m')"
  with known [OF needs_valid [OF s] Some] Some show ?thesis by simp
qed

lemma keeps: "settle e m = Inr (v, m') \<Longrightarrow> map_of m k = Some w \<Longrightarrow> map_of m' k = Some w"
proof (cases "map_of m (key e)")
  case None
  assume s: "settle e m = Inr (v, m')" and "map_of m k = Some w"
  with fresh [OF None s] None show ?thesis by auto
next
  case (Some u)
  assume s: "settle e m = Inr (v, m')" and "map_of m k = Some w"
  with known [OF needs_valid [OF s] Some] show ?thesis by simp
qed

text \<open>Under any events, some of which may be refused, what is on record stays, and every record was made by
  one of them.\<close>

lemma run_keeps: "map_of m k = Some w \<Longrightarrow> map_of (fold (\<lambda>e. or_keep (settle e)) es m) k = Some w"
proof (induction es arbitrary: m)
  case (Cons e es)
  have "map_of (or_keep (settle e) m) k = Some w"
    using Cons.prems keeps [of e m] by (cases "settle e m") (auto simp: or_keep_def)
  with Cons.IH show ?case by simp
qed simp

lemma run_origin:
  "map_of (fold (\<lambda>e. or_keep (settle e)) es m) k = Some w \<Longrightarrow>
   map_of m k = Some w \<or> (\<exists>e \<in> set es. key e = k \<and> (\<exists>m' m''. map_of m' k = None \<and> settle e m' = Inr (w, m'')))"
proof (induction es arbitrary: m)
  case (Cons e es)
  have step: "map_of m k = Some w \<or> key e = k \<and> map_of m k = None \<and> (\<exists>m''. settle e m = Inr (w, m''))"
    if "map_of (or_keep (settle e) m) k = Some w"
  proof (cases "settle e m")
    case (Inr r)
    show ?thesis
    proof (cases "map_of m (key e)")
      case None
      have "snd r = oset (key e) (fst r) m" using fresh [OF None] Inr by (metis prod.collapse)
      then show ?thesis using that Inr None by (cases r) (auto simp: or_keep_def split: if_split_asm)
    next
      case (Some u)
      then have "r = (u, m)" using known [of e m u] needs_valid Inr by (metis prod.collapse sum.inject(2))
      then show ?thesis using that Inr by (simp add: or_keep_def)
    qed
  qed (use that in \<open>simp add: or_keep_def\<close>)
  from Cons.IH [of "or_keep (settle e) m"] Cons.prems step show ?case by auto
qed simp

lemma run_distinct: "distinct (map fst m) \<Longrightarrow> distinct (map fst (fold (\<lambda>e. or_keep (settle e)) es m))"
proof (induction es arbitrary: m)
  case (Cons e es)
  have "distinct (map fst (or_keep (settle e) m))"
  proof (cases "settle e m")
    case (Inr r)
    then have "snd r = m \<or> snd r = oset (key e) (fst r) m"
      using fresh [of m e] known [of e m] needs_valid [of e m]
      by (cases r; cases "map_of m (key e)") auto
    then show ?thesis using Cons.prems Inr by (auto simp: or_keep_def)
  qed (use Cons.prems in \<open>simp add: or_keep_def\<close>)
  with Cons.IH show ?case by simp
qed simp

end

text \<open>A call of \<open>settleCreatorFeeClaim\<close> with everything it is given.\<close>

record settle_call =
  sc_state :: protocol_state
  sc_now :: string
  sc_input :: jsval
  sc_recipients :: "jsval list"
  sc_fixedFunded :: jsval
  sc_event :: jsval

definition settle_with :: "settle_call \<Rightarrow> (string, fee_settlement) omap \<Rightarrow> (fee_settlement \<times> (string, fee_settlement) omap) res" where
  "settle_with c = settleCreatorFeeClaim (sc_state c) (sc_now c) (sc_input c) (sc_recipients c) (sc_fixedFunded c) (sc_event c)"

definition call_key :: "settle_call \<Rightarrow> string" where
  "call_key c = claim_key (sc_event c)"

definition claim_of_call :: "settle_call \<Rightarrow> fee_claim res" where
  "claim_of_call c = calculateCreatorFeeClaim (sc_state c) (oget (sc_event c) ''grossCreatorFees'') (sc_input c) (sc_recipients c)
     (sc_fixedFunded c)"

text \<open>The ledger after a sequence of calls; a call that throws leaves it as it is.\<close>

definition run_settlements :: "settle_call list \<Rightarrow> (string, fee_settlement) omap" where
  "run_settlements calls = fold (\<lambda>c. or_keep (settle_with c)) calls []"

interpretation fee_ledger: settle_once settle_with call_key "\<lambda>c. call_key c \<noteq> []"
  by unfold_locales
    (auto simp: settle_with_def call_key_def settleCreatorFeeClaim_def Let_def bindR_Inr_iff split: if_splits option.splits)

interpretation referral_ledger: settle_once "settleReferralRevenue fp levels upline" "\<lambda>e. oget e ''id''" "\<lambda>e. truthy (oget e ''id'')"
  for fp levels upline
  by unfold_locales (auto simp: settleReferralRevenue_def Let_def split: if_splits option.splits)

interpretation directed_split: cumulative_split "directed_targets w h" 3 for w h
  by unfold_locales (simp_all add: directed_targets_def)

lemma plan_lamports_nonneg: "plan_lamports v = Inr n \<Longrightarrow> 0 \<le> n"
  by (auto simp: plan_lamports_def intro: canon_to_bigint_nonneg split: if_splits)

lemma v3_categoriesD:
  assumes "v3_categories settlement agency = Inr (category, gross)"
  shows "length category = (if agency then 8 else 7)" and "sum_list category = gross" and "0 < gross"
    and "\<forall>c \<in> set category. 0 \<le> c"
proof -
  from assms have m: "mapR plan_lamports (case oget settlement ''categoryLamports'' of Arr rs \<Rightarrow> rs | _ \<Rightarrow> []) = Inr category"
    and l: "length (case oget settlement ''categoryLamports'' of Arr rs \<Rightarrow> rs | _ \<Rightarrow> []) = (if agency then 8 else 7)"
    and g: "sum_list category = gross" "0 < gross"
    unfolding v3_categories_def Let_def
    by (simp_all only: bindR_Inr_iff Inr_Inl_False if_False split: if_splits) auto
  show "length category = (if agency then 8 else 7)" using mapR_length [OF m] l by simp
  show "sum_list category = gross" "0 < gross" by (fact g)+
  show "\<forall>c \<in> set category. 0 \<le> c"
    using m by (auto simp: mapR_Inr_list_all2 list_all2_conv_all_nth in_set_conv_nth dest!: plan_lamports_nonneg) 
qed



lemma v3_positionD: "v3_position settlement c = Inr (prior, after) \<Longrightarrow> after - prior = c"
  by (auto simp: v3_position_def Let_def bindR_Inr_iff split: if_splits)

lemma v3_position_nonneg:
  "v3_position settlement c = Inr (prior, after) \<Longrightarrow> truthy (oget settlement ''position'') \<Longrightarrow> 0 \<le> prior \<and> 0 \<le> after"
  by (auto simp: v3_position_def Let_def bindR_Inr_iff dest: plan_lamports_nonneg split: if_splits)

lemma directed_amountsD:
  assumes "directed_amounts prior after c w h = Inr (ws, hs, xs)" and "after - prior = c"
  shows "[ws, hs, xs] = deltas (directed_targets w h) prior after" and "ws + hs + xs = c"
    and "0 \<le> ws" and "0 \<le> hs" and "0 \<le> xs"
  using assms by (auto simp: directed_amounts_def directed_targets_def deltas_def Let_def split: if_splits)

text \<open>Every plan comes from the four checked stages, and its fields are their results.\<close>

lemma v3AllocationPlanE:
  assumes "v3AllocationPlan st launch settlement = Inr p"
  obtains agency category gross w h xb prior after ws hs xs where
    "v3_categories settlement agency = Inr (category, gross)" "directed_bps st launch = Inr (w, h, xb)"
    "v3_position settlement (category ! 0) = Inr (prior, after)"
    "directed_amounts prior after (category ! 0) w h = Inr (ws, hs, xs)"
    "vp_position p = (if truthy (oget settlement ''position'') then Some (show_int prior, show_int after) else None)"
    "vp_grossLamports p = show_int gross" "vp_creatorPoolLamports p = show_int (category ! 0)"
    "vp_walletLamports p = show_int ws" "vp_holderLamports p = show_int hs" "vp_xLamports p = show_int xs"
    "vp_operationsLamports p = show_int (category ! 1)" "vp_referralLamports p = map show_int (take 3 (drop 2 category))"
    "vp_communityLamports p = show_int (category ! 5)" "vp_buybackLamports p = show_int (category ! 6)"
    "vp_agencyLamports p = (if agency then Some (show_int (category ! 7)) else None)"
proof -
  let ?agency = "oget (oget (oget launch ''pumpFeeRoute'') ''protocolSplit'') ''agencyPercent'' \<noteq> Undef"
  from assms obtain cats bps pos amounts where
    s: "v3_categories settlement ?agency = Inr cats" "directed_bps st launch = Inr bps"
      "v3_position settlement (fst cats ! 0) = Inr pos"
      "directed_amounts (fst pos) (snd pos) (fst cats ! 0) (fst bps) (fst (snd bps)) = Inr amounts"
    and p: "p = allocated_plan launch settlement ?agency cats bps pos amounts"
    unfolding v3AllocationPlan_def Let_def bindR_Inr_iff by (auto simp: bindR_Inr_iff split: if_splits)
  obtain category gross w h xb prior after ws hs xs where
    t: "cats = (category, gross)" "bps = (w, h, xb)" "pos = (prior, after)" "amounts = (ws, hs, xs)"
    by (metis surj_pair)
  show thesis
    by (rule that [of ?agency category gross w h xb prior after ws hs xs])
      (use s in \<open>simp_all add: p t allocated_plan_def\<close>)
qed

text \<open>The amounts of a plan.\<close>

definition plan_directed :: "v3_plan \<Rightarrow> int list" where
  "plan_directed p = [parse_dec (vp_walletLamports p), parse_dec (vp_holderLamports p), parse_dec (vp_xLamports p)]"

definition plan_protocol :: "v3_plan \<Rightarrow> int list" where
  "plan_protocol p = map parse_dec ([vp_operationsLamports p] @ vp_referralLamports p
     @ [vp_communityLamports p, vp_buybackLamports p] @ (case vp_agencyLamports p of None \<Rightarrow> [] | Some a \<Rightarrow> [a]))"

lemma in_set_tl: "x \<in> set (tl xs) \<Longrightarrow> x \<in> set xs"
  by (cases xs) auto

lemma category_tl:
  fixes xs :: "int list"
  assumes "length xs = (if b then 8 else 7)"
  shows "tl xs = [xs ! 1] @ take 3 (drop 2 xs) @ [xs ! 5, xs ! 6] @ (if b then [xs ! 7] else [])"
  using assms by (cases b) (auto simp: eval_nat_numeral length_Suc_conv)

lemma map_parse_show: "\<forall>c \<in> set xs. 0 \<le> c \<Longrightarrow> map (\<lambda>n. parse_dec (show_int n)) xs = xs"
  by (induction xs) simp_all

lemma plan_protocol_eq:
  assumes "length category = (if agency then 8 else 7)" and "\<forall>c \<in> set category. 0 \<le> c"
    and "vp_operationsLamports p = show_int (category ! 1)" "vp_referralLamports p = map show_int (take 3 (drop 2 category))"
    "vp_communityLamports p = show_int (category ! 5)" "vp_buybackLamports p = show_int (category ! 6)"
    "vp_agencyLamports p = (if agency then Some (show_int (category ! 7)) else None)"
  shows "plan_protocol p = tl category"
proof -
  let ?xs = "[category ! 1] @ take 3 (drop 2 category) @ [category ! 5, category ! 6] @ (if agency then [category ! 7] else [])"
  have xs: "?xs = tl category" by (rule category_tl [OF assms(1), symmetric])
  have "plan_protocol p = map (\<lambda>n. parse_dec (show_int n)) ?xs"
    by (simp add: plan_protocol_def assms(3-) comp_def)
  also have "\<dots> = ?xs"
    by (rule map_parse_show) (metis assms(2) in_set_tl xs)
  finally show ?thesis by (simp only: xs)
qed

text \<open>The parent of a wallet in the referral graph, iterated.\<close>

definition ancestor :: "(string \<times> string) list \<Rightarrow> string \<Rightarrow> nat \<Rightarrow> string" where
  "ancestor graph w i = ((\<lambda>x. case map_of graph x of Some p \<Rightarrow> p | None \<Rightarrow> []) ^^ i) w"

lemma ancestor_Suc: "ancestor graph w (Suc i) = ancestor graph (case map_of graph w of Some p \<Rightarrow> p | None \<Rightarrow> []) i"
  by (simp only: ancestor_def funpow_Suc_right comp_def)

definition named_ancestors :: "(string \<times> string) list \<Rightarrow> string \<Rightarrow> nat \<Rightarrow> string list" where
  "named_ancestors graph w n = takeWhile (\<lambda>x. x \<noteq> []) (map (ancestor graph w) [0..<n])"

lemma named_ancestors_simps:
  "named_ancestors graph w 0 = []"
  "named_ancestors graph w (Suc n) = (if w = [] then []
     else w # named_ancestors graph (case map_of graph w of Some p \<Rightarrow> p | None \<Rightarrow> []) n)"
  by (simp_all add: named_ancestors_def upt_conv_Cons map_Suc_upt [symmetric] comp_def ancestor_Suc del: upt_Suc)
    (simp add: ancestor_def)

lemma upline_loop_eq:
  "upline_loop graph visited w n = (let ups = named_ancestors graph w n in
     if distinct ups \<and> set ups \<inter> set visited = {} then Inr ups else throw ''Referral graph contains a cycle.'')"
  by (induction graph visited w n rule: upline_loop.induct)
    (auto simp: named_ancestors_simps Let_def)

lemma settle_fresh_claim:
  "settle_with c m = Inr (s, m') \<Longrightarrow> map_of m (call_key c) = None \<Longrightarrow>
   fs_claimSignature s = call_key c \<and> claim_of_call c = Inr (fs_claim s)"
  by (auto simp: settle_with_def call_key_def claim_of_call_def settleCreatorFeeClaim_def Let_def bindR_Inr_iff split: if_split_asm)

text \<open>C19. A creator-fee claim is settled once.  Whatever calls were made before on the empty ledger, each with its
  own policy, recipients, time and event, when a call settles a signature the settlement is of that signature, which is
  not empty, and its amounts are what one of the calls for the signature computes; and after any calls that
  follow, with any policies again, every further call for the signature returns the very same settlement and
  leaves the ledger as it is.  No signature is in the ledger twice.\<close>

theorem settleCreatorFeeClaim_once:
  assumes "settle_with c (run_settlements calls) = Inr (s, ledger)"
  shows "fs_claimSignature s = call_key c \<and> call_key c \<noteq> []
    \<and> (\<exists>b \<in> set (calls @ [c]). call_key b = call_key c \<and> claim_of_call b = Inr (fs_claim s))
    \<and> (\<forall>later c'. call_key c' = call_key c \<longrightarrow>
        settle_with c' (run_settlements (calls @ c # later)) = Inr (s, run_settlements (calls @ c # later)))
    \<and> distinct (map fst ledger)"
proof -
  have run: "run_settlements (calls @ [c]) = ledger" "run_settlements (calls @ c # later) = fold (\<lambda>c. or_keep (settle_with c)) later ledger"
    for later using assms by (simp_all add: run_settlements_def or_keep_def)
  have rec: "map_of ledger (call_key c) = Some s" using fee_ledger.settled [OF assms] .
  obtain b m m' where b: "b \<in> set (calls @ [c])" "call_key b = call_key c" "map_of m (call_key b) = None"
      "settle_with b m = Inr (s, m')"
    using fee_ledger.run_origin [of "calls @ [c]" "[]" "call_key c" s] rec run(1) unfolding run_settlements_def by auto
  have ne: "call_key c \<noteq> []" using fee_ledger.needs_valid [OF assms] .
  have "settle_with c' (run_settlements (calls @ c # later)) = Inr (s, run_settlements (calls @ c # later))"
    if "call_key c' = call_key c" for later c'
    unfolding run(2) using that ne by (intro fee_ledger.known) (simp_all add: fee_ledger.run_keeps [OF rec])
  moreover have "distinct (map fst ledger)"
    unfolding run(1) [symmetric] run_settlements_def by (rule fee_ledger.run_distinct) simp
  ultimately show ?thesis using b settle_fresh_claim [OF b(4,3)] ne by auto
qed

text \<open>C20. The upline of a new user is the chain of inviters in the referral graph, cut at the
  first wallet without an inviter or at the maximal depth; a chain that meets a wallet twice is
  refused.\<close>

theorem resolveReferralUpline_reference:
  "resolveReferralUpline directInviter graph maxDepth =
     (let ups = named_ancestors graph directInviter maxDepth in
      if distinct ups then Inr ups else throw ''Referral graph contains a cycle.'')"
  by (simp add: resolveReferralUpline_def upline_loop_eq)

text \<open>C21. An accepted V3 plan distributes exactly the settled amount: the wallet, holder and X
  shares add up to the creator pool, with the protocol shares they add up to the gross amount,
  and no share is negative.\<close>

theorem v3AllocationPlan_conserves:
  assumes "v3AllocationPlan st launch settlement = Inr p"
  shows "sum_list (plan_directed p) = parse_dec (vp_creatorPoolLamports p)
    \<and> sum_list (plan_directed p) + sum_list (plan_protocol p) = parse_dec (vp_grossLamports p)
    \<and> list_all (\<lambda>v. 0 \<le> v) (plan_directed p @ plan_protocol p)"
proof (intro conjI)
  from assms obtain agency category gross w h xb prior after ws hs xs where
    s: "v3_categories settlement agency = Inr (category, gross)" "v3_position settlement (category ! 0) = Inr (prior, after)"
      "directed_amounts prior after (category ! 0) w h = Inr (ws, hs, xs)"
    and f: "vp_grossLamports p = show_int gross" "vp_creatorPoolLamports p = show_int (category ! 0)"
      "vp_walletLamports p = show_int ws" "vp_holderLamports p = show_int hs" "vp_xLamports p = show_int xs"
    and pr: "vp_operationsLamports p = show_int (category ! 1)" "vp_referralLamports p = map show_int (take 3 (drop 2 category))"
      "vp_communityLamports p = show_int (category ! 5)" "vp_buybackLamports p = show_int (category ! 6)"
      "vp_agencyLamports p = (if agency then Some (show_int (category ! 7)) else None)"
    by (rule v3AllocationPlanE)
  note c = v3_categoriesD [OF s(1)]
  note d = directed_amountsD [OF s(3) v3_positionD [OF s(2)]]
  have dir: "plan_directed p = [ws, hs, xs]" using d by (simp add: plan_directed_def f)
  have prot: "plan_protocol p = tl category" by (rule plan_protocol_eq [OF c(1,4) pr])
  have ne: "category \<noteq> []" using c(1) by (auto split: if_splits)
  then have cons: "category = category ! 0 # tl category" by (cases category) simp_all
  have pos: "0 \<le> category ! 0" using c(4) ne by simp
  show "sum_list (plan_directed p) = parse_dec (vp_creatorPoolLamports p)" using d(2) pos by (simp add: dir f)
  have "sum_list category = category ! 0 + sum_list (tl category)" by (subst cons) simp
  then show "sum_list (plan_directed p) + sum_list (plan_protocol p) = parse_dec (vp_grossLamports p)"
    using c(2,3) d(2) by (simp add: dir prot f)
  show "list_all (\<lambda>v. 0 \<le> v) (plan_directed p @ plan_protocol p)"
    using d(3-5) c(4) by (auto simp: dir prot list_all_iff dest: in_set_tl)
qed

text \<open>C22. Paying a creator pool over consecutive collections pays each party what one collection
  over the whole range pays: with the same launch, plans for \<open>a\<close> to \<open>b\<close> and \<open>b\<close> to \<open>c\<close> add up
  to the plan for \<open>a\<close> to \<open>c\<close>.\<close>

theorem v3AllocationPlan_steps:
  assumes "v3AllocationPlan st launch s1 = Inr p" and "v3AllocationPlan st launch s2 = Inr q"
    and "v3AllocationPlan st launch s3 = Inr r" and "vp_position p = Some (a, b)"
    and "vp_position q = Some (b, c)" and "vp_position r = Some (a, c)"
  shows "map2 (+) (plan_directed p) (plan_directed q) = plan_directed r"
proof -
  have eq: "\<exists>w h xb. directed_bps st launch = Inr (w, h, xb) \<and> plan_directed p = deltas (directed_targets w h) (parse_dec m) (parse_dec n)"
    if "v3AllocationPlan st launch s = Inr p" and "vp_position p = Some (m, n)" for s p m n
  proof -
    from that(1) obtain agency category gross w h xb prior after ws hs xs where
      s: "directed_bps st launch = Inr (w, h, xb)" "v3_position s (category ! 0) = Inr (prior, after)"
        "directed_amounts prior after (category ! 0) w h = Inr (ws, hs, xs)"
      and f: "vp_position p = (if truthy (oget s ''position'') then Some (show_int prior, show_int after) else None)"
        "vp_walletLamports p = show_int ws" "vp_holderLamports p = show_int hs" "vp_xLamports p = show_int xs"
      by (rule v3AllocationPlanE)
    note d = directed_amountsD [OF s(3) v3_positionD [OF s(2)]]
    have "prior = parse_dec m" "after = parse_dec n"
      using that(2) f(1) v3_position_nonneg [OF s(2)] by (auto split: if_splits)
    moreover have "plan_directed p = [ws, hs, xs]" using d by (simp add: plan_directed_def f)
    ultimately show ?thesis using s(1) d(1) by auto
  qed
  from eq [OF assms(1,4)] eq [OF assms(2,5)] eq [OF assms(3,6)] show ?thesis
    by (auto simp: directed_split.deltas_chain)
qed


definition sample_shares :: jsval where
  "sample_shares = Obj [(''creatorWalletPercent'', Num (nint 30)), (''holderAirdropPercent'', Num (nint 50)), (''solClaimPercent'', Num (nint 0))]"

definition sample_validation :: fee_validation where
  "sample_validation = \<lparr>fv_valid = True, fv_sharesValid = True,
     fv_shares = \<lparr>sh_creatorWallet = nint 30, sh_holderAirdrop = nint 50, sh_solClaim = nint 0\<rparr>,
     fv_total = nint 80, fv_remaining = nint 0, fv_xRecipientValid = True\<rparr>"

definition sample_launch :: jsval where
  "sample_launch = Obj [(''mint'', Str ''M''), (''onchainVerified'', Bool True), (''cluster'', Str ''devnet''),
     (''pumpFeeRoute'', Obj [(''scope'', Str ''per-mint-v3''), (''programId'', Str ''P'')]),
     (''feeDistribution'', Obj [(''creatorDirected'', Obj [(''shares'', sample_shares)])])]"

definition sample_settlement :: "string \<Rightarrow> string \<Rightarrow> string \<Rightarrow> jsval" where
  "sample_settlement a b pool = Obj [(''mint'', Str ''M''), (''programId'', Str ''P''), (''expectedLamports'', Str pool),
     (''categoryLamports'', Arr [Str pool, Str ''0'', Str ''0'', Str ''0'', Str ''0'', Str ''0'', Str ''0'']),
     (''position'', Obj [(''creatorPoolBeforeLamports'', Str a), (''creatorPoolAfterLamports'', Str b)])]"

definition sample_state :: protocol_state where
  "sample_state = protocol_state_of (projr (validateProtocolFeeSplit PROTOCOL_FEE_SPLIT))"


text \<open>The split of the sample launch, 30 and 50 of the 80 percent.\<close>

lemma sample_bps: "directed_bps sample_state sample_launch = Inr (3000, 5000, 0)"
proof -
  have "fd_creatorPercent (st_distribution sample_state) = 80"
    by (simp add: sample_state_def protocol_state_of_def feeDistributionFor_def)
  moreover have "fee_validation_of (nint 80) (with_x_recipient sample_shares (Str [])) = Inr sample_validation"
    by code_simp
  moreover have "oget (oget (oget sample_launch ''feeDistribution'') ''creatorDirected'') ''shares'' = sample_shares"
    "jor (oget (oget (oget (oget sample_launch ''feeDistribution'') ''creatorDirected'') ''recipients'') ''xAccount'') (Str []) = Str []"
    by code_simp+
  moreover have "shareBps (nint 30) = Inr 3000" "shareBps (nint 50) = Inr 5000" "shareBps (nint 0) = Inr 0"
    by code_simp+
  ultimately show ?thesis by (simp add: directed_bps_def validateFeeDistribution_def sample_validation_def)
qed

definition sample_plan :: "string \<Rightarrow> string \<Rightarrow> string \<Rightarrow> v3_plan" where
  "sample_plan a b pool = projr (v3AllocationPlan sample_state sample_launch (sample_settlement a b pool))"

lemma sample_plan:
  assumes "launch_settlement_match sample_launch (sample_settlement a b pool) = Inr True"
    and "v3_categories (sample_settlement a b pool) False = Inr (category, gross)"
    and "v3_position (sample_settlement a b pool) (category ! 0) = Inr (m, n)"
    and "directed_amounts m n (category ! 0) 3000 5000 = Inr (ws, hs, xs)"
    and "oget (oget (oget sample_launch ''pumpFeeRoute'') ''protocolSplit'') ''agencyPercent'' = Undef"
    and "truthy (oget (sample_settlement a b pool) ''position'')"
  shows "v3AllocationPlan sample_state sample_launch (sample_settlement a b pool) = Inr (sample_plan a b pool)"
    and "vp_position (sample_plan a b pool) = Some (show_int m, show_int n)"
    and "plan_directed (sample_plan a b pool) = map (\<lambda>n. parse_dec (show_int n)) [ws, hs, xs]"
  using assms by (simp_all add: sample_plan_def v3AllocationPlan_def sample_bps plan_directed_def allocated_plan_def)

lemma sample_plan1:
  "v3AllocationPlan sample_state sample_launch (sample_settlement ''0'' ''1003'' ''1003'') = Inr (sample_plan ''0'' ''1003'' ''1003'')"
  "vp_position (sample_plan ''0'' ''1003'' ''1003'') = Some (show_int 0, show_int 1003)"
  by (rule sample_plan [where category = "[1003, 0, 0, 0, 0, 0, 0]" and gross = 1003 and m = 0 and n = 1003
      and ws = 376 and hs = 627 and xs = 0]; code_simp)+

lemma sample_plan2:
  "v3AllocationPlan sample_state sample_launch (sample_settlement ''1003'' ''2007'' ''1004'') = Inr (sample_plan ''1003'' ''2007'' ''1004'')"
  "vp_position (sample_plan ''1003'' ''2007'' ''1004'') = Some (show_int 1003, show_int 2007)"
  by (rule sample_plan [where category = "[1004, 0, 0, 0, 0, 0, 0]" and gross = 1004 and m = 1003 and n = 2007
      and ws = 376 and hs = 628 and xs = 0]; code_simp)+

lemma sample_plan3:
  "v3AllocationPlan sample_state sample_launch (sample_settlement ''0'' ''2007'' ''2007'') = Inr (sample_plan ''0'' ''2007'' ''2007'')"
  "vp_position (sample_plan ''0'' ''2007'' ''2007'') = Some (show_int 0, show_int 2007)"
  by (rule sample_plan [where category = "[2007, 0, 0, 0, 0, 0, 0]" and gross = 2007 and m = 0 and n = 2007
      and ws = 752 and hs = 1255 and xs = 0]; code_simp)+

theorem v3AllocationPlan_conserves_witness:
  "sum_list (plan_directed (sample_plan ''1003'' ''2007'' ''1004'')) = parse_dec (vp_creatorPoolLamports (sample_plan ''1003'' ''2007'' ''1004''))"
  by (rule v3AllocationPlan_conserves [OF sample_plan2(1), THEN conjunct1])

theorem v3AllocationPlan_steps_witness:
  "map2 (+) (plan_directed (sample_plan ''0'' ''1003'' ''1003'')) (plan_directed (sample_plan ''1003'' ''2007'' ''1004''))
     = plan_directed (sample_plan ''0'' ''2007'' ''2007'')"
  by (rule v3AllocationPlan_steps [OF sample_plan1(1) sample_plan2(1) sample_plan3(1) sample_plan1(2) sample_plan2(2) sample_plan3(2)])

text \<open>A claim of 1000 SOL under the shares of the sample launch, settled on the empty ledger.\<close>

definition sample_split :: protocol_split where
  "sample_split = \<lparr>ps_operations = Fin 40, ps_referral = [Fin 10, Fin 3, Fin 2], ps_community = Fin 20, ps_buyback = Fin 25, ps_agency = None\<rparr>"

lemma sample_split: "splitFromSnapshot sample_state Undef = Inr sample_split"
  by code_simp

lemma sample_shares_valid: "validateFeeDistribution sample_state sample_shares = Inr sample_validation"
  by code_simp

definition sample_rates :: "jsnum list" where
  "sample_rates = [nint 30, nint 50, nint 0, effectivePercent (nint 40), effectivePercent (nint 20), effectivePercent (nint 25)]
     @ map lv_effective (referralLevelsFor sample_split)"

definition sample_amounts :: "jsnum list" where
  "sample_amounts = [Fin 300, Fin 500, Fin 0, Fin 80, Fin 40, Fin 50, Fin 20, Fin 6, Fin 4]"

lemma sample_rates_eq: "sample_rates = [Fin 30, Fin 50, Fin 0, Fin 8, Fin 4, Fin 5, Fin 2, Fin (5404319552844595 / 9007199254740992),
  Fin (3602879701896397 / 9007199254740992)]" by code_simp
lemma sample_allocated: "allocateLamports (Fin 1000) sample_rates = Inr sample_amounts"
  unfolding sample_rates_eq
  by code_simp

lemma isl_if: "\<not> C \<Longrightarrow> isl (if C then a else Inr b) = False"
  by simp

lemma sample_claimed: "isl (calculateCreatorFeeClaim sample_state (Str ''1000'') sample_shares [] Undef) = False"
proof -
  have n: "to_number (Str ''1000'') = Fin 1000" by code_simp
  have f: "\<not> nfinite (Fin 1000) \<or> nless (Fin 1000) (Fin 0) \<longleftrightarrow> False" by code_simp
  have v: "fv_valid sample_validation = True" "sh_creatorWallet (fv_shares sample_validation) = nint 30"
    "sh_holderAirdrop (fv_shares sample_validation) = nint 50" "sh_solClaim (fv_shares sample_validation) = nint 0"
    by (simp_all add: sample_validation_def)
  have s: "ps_operations sample_split = nint 40" "ps_community sample_split = nint 20" "ps_buyback sample_split = nint 25"
    "ps_agency sample_split = None" by (simp_all add: sample_split_def)
  have al: "allocateLamports (Fin 1000) ([nint 30, nint 50, nint 0, effectivePercent (nint 40), effectivePercent (nint 20), effectivePercent (nint 25)]
     @ map lv_effective (referralLevelsFor sample_split) @ []) = Inr sample_amounts"
    using sample_allocated by (simp only: sample_rates_def append_Nil2)
  show ?thesis
    unfolding calculateCreatorFeeClaim_def Let_def n f if_False sample_shares_valid bindR_simps sample_split v s option.case al
      not_True_eq_False if_False
    by (rule isl_if) code_simp
qed

definition sample_call :: "string \<Rightarrow> string \<Rightarrow> settle_call" where
  "sample_call signature fees = \<lparr>sc_state = sample_state, sc_now = ''now'', sc_input = sample_shares, sc_recipients = [],
     sc_fixedFunded = Undef, sc_event = Obj [(''claimSignature'', Str signature), (''grossCreatorFees'', Str fees), (''claimedAt'', Str ''t'')]\<rparr>"

lemma sample_call_key: "call_key (sample_call '' sig1 '' f) = ''sig1''" "call_key (sample_call ''sig1'' f) = ''sig1''"
  by (simp_all add: call_key_def claim_key_def sample_call_def) code_simp+

text \<open>The same signature again, with another amount and after a call for another signature.\<close>

theorem settleCreatorFeeClaim_once_witness:
  "\<exists>s. fs_claimSignature s = ''sig1''
    \<and> settle_with (sample_call ''sig1'' ''99'') (run_settlements [sample_call '' sig1 '' ''1000'', sample_call ''sig2'' ''7''])
      = Inr (s, run_settlements [sample_call '' sig1 '' ''1000'', sample_call ''sig2'' ''7''])"
proof -
  have fees: "oget (sc_event (sample_call '' sig1 '' ''1000'')) ''grossCreatorFees'' = Str ''1000''"
    by (simp add: sample_call_def)
  have "isl (claim_of_call (sample_call '' sig1 '' ''1000'')) = False"
    using sample_claimed unfolding claim_of_call_def fees by (simp add: sample_call_def)
  then obtain claim where "claim_of_call (sample_call '' sig1 '' ''1000'') = Inr claim"
    by (cases "claim_of_call (sample_call '' sig1 '' ''1000'')") auto
  then obtain s ledger where "settle_with (sample_call '' sig1 '' ''1000'') (run_settlements []) = Inr (s, ledger)"
    using sample_call_key(1) [of "''1000''"]
    by (auto simp: settle_with_def settleCreatorFeeClaim_def claim_of_call_def call_key_def run_settlements_def Let_def)
  from settleCreatorFeeClaim_once [OF this] show ?thesis by (auto simp: sample_call_key)
qed

end
