(* ===== verification/LaunchTiers.thy ===== *)
theory LaunchTiers
  imports JsConv
begin

text \<open>
  The choices a launch offers and the filters of the launch feed: the burn tiers and the burn
  policy of a launch (\<open>launch-burn-policy.js\<close>) and the home filters (\<open>home-launch-filters.js\<close>),
  with what their round trips and defaults promise.
\<close>

section \<open>launch-burn-policy.js\<close>

definition DEFAULT_BOOST_AMOUNT :: int where "DEFAULT_BOOST_AMOUNT = 25000"
definition DEFAULT_PRO_AMOUNT :: int where "DEFAULT_PRO_AMOUNT = 100000"
definition DEFAULT_PREMIER_AMOUNT :: int where "DEFAULT_PREMIER_AMOUNT = 250000"

definition positiveInteger :: "jsval \<Rightarrow> int \<Rightarrow> int" where
  "positiveInteger v fallback =
     (let amount = to_number v in if is_safe_integer amount \<and> nless (Fin 0) amount then to_int amount else fallback)"

record burn_tier =
  bt_id :: string
  bt_label :: string
  bt_amountTokens :: int
  bt_tone :: string
  bt_benefits :: "string list"

text \<open>An omitted amount is the default amount.\<close>

definition default_to :: "jsval \<Rightarrow> int \<Rightarrow> jsval" where
  "default_to v d = (if v = Undef then Num (nint d) else v)"

definition burn_tiers :: "int \<Rightarrow> int \<Rightarrow> int \<Rightarrow> burn_tier list" where
  "burn_tiers boost pro premier =
     [\<lparr>bt_id = ''standard'', bt_label = ''Standard'', bt_amountTokens = 0, bt_tone = ''standard'',
       bt_benefits = [''Core Pump launch'', ''Community airdrop'',
         ''Basic funded.vip X launch announcement when publishing is active'', ''Published fee route'']\<rparr>,
      \<lparr>bt_id = ''boost'', bt_label = ''Boost'', bt_amountTokens = boost, bt_tone = ''boost'',
       bt_benefits = [''Verified Boost badge'', ''Boost directory filter'', ''Public burn receipt'']\<rparr>,
      \<lparr>bt_id = ''pro'', bt_label = ''Pro'', bt_amountTokens = pro, bt_tone = ''pro'',
       bt_benefits = [''Verified Pro badge'', ''Public burn receipt'',
         ''One featured verified funded.vip X launch post when publishing is active'']\<rparr>,
      \<lparr>bt_id = ''premier'', bt_label = ''Premier'', bt_amountTokens = premier, bt_tone = ''premier'',
       bt_benefits = [''Verified Premier badge'', ''Public burn receipt'',
         ''One verified funded.vip X launch post and a follow-up after 24 hours when publishing is active'']\<rparr>]"

definition createLaunchBurnTiers :: "jsval \<Rightarrow> jsval \<Rightarrow> jsval \<Rightarrow> burn_tier list res" where
  "createLaunchBurnTiers boostAmount proAmount premierAmount =
     (let boost = positiveInteger (default_to boostAmount DEFAULT_BOOST_AMOUNT) DEFAULT_BOOST_AMOUNT;
          pro = positiveInteger (default_to proAmount DEFAULT_PRO_AMOUNT) DEFAULT_PRO_AMOUNT;
          premier = positiveInteger (default_to premierAmount DEFAULT_PREMIER_AMOUNT) DEFAULT_PREMIER_AMOUNT in
      if pro \<le> boost then throw ''The Pro burn amount must be greater than the Boost burn amount.''
      else if premier \<le> pro then throw ''The Premier burn amount must be greater than the Pro burn amount.''
      else Inr (burn_tiers boost pro premier))"

definition LAUNCH_BURN_POLICY_VERSION :: int where "LAUNCH_BURN_POLICY_VERSION = 1"

text \<open>\<open>createLaunchBurnTiers()\<close> on the defaults.\<close>

definition LAUNCH_BURN_TIERS :: "burn_tier list" where
  "LAUNCH_BURN_TIERS = burn_tiers DEFAULT_BOOST_AMOUNT DEFAULT_PRO_AMOUNT DEFAULT_PREMIER_AMOUNT"

text \<open>\<open>toLowerCase\<close> on Latin-1 text.\<close>

definition lower_char :: "char \<Rightarrow> char" where
  "lower_char c = (if is_upper c \<or> 192 \<le> ccode c \<and> ccode c \<le> 222 \<and> ccode c \<noteq> 215 then char_of (ccode c + 32) else c)"

definition lower_case :: "string \<Rightarrow> string" where
  "lower_case s = map lower_char s"

definition findLaunchBurnTier :: "jsval \<Rightarrow> burn_tier list \<Rightarrow> burn_tier res" where
  "findLaunchBurnTier tierId tiers =
     (let i = lower_case (trim (to_str (jor tierId (Str ''standard'')))) in
      case find (\<lambda>t. bt_id t = i) tiers of
        None \<Rightarrow> throw (''Unknown launch burn tier: '' @ i)
      | Some t \<Rightarrow> Inr t)"

definition buildLaunchBurnPolicy :: "jsval \<Rightarrow> jsval \<Rightarrow> burn_tier list \<Rightarrow> jsval res" where
  "buildLaunchBurnPolicy tierId fundedMint tiers =
     bindR (findLaunchBurnTier tierId tiers) (\<lambda>tier.
       let m = trim (to_str (jor fundedMint (Str [])));
           mint = (if m = [] then Null else Str m);
           requiresBurn = (bt_id tier \<noteq> ''standard'') in
       Inr (Obj [(''version'', Num (nint LAUNCH_BURN_POLICY_VERSION)), (''tier'', Str (bt_id tier)),
         (''label'', Str (bt_label tier)), (''amountTokens'', Num (nint (bt_amountTokens tier))), (''fundedMint'', mint),
         (''requiresBurn'', Bool requiresBurn), (''instruction'', if requiresBurn then Str ''BurnChecked'' else Null),
         (''atomicWithPumpLaunch'', Bool requiresBurn), (''benefits'', Arr (map Str (bt_benefits tier))),
         (''featuredPlacementGuaranteed'', Bool False), (''separateFromRevenueBuyback'', Bool True),
         (''status'', Str (if requiresBurn
            then (if mint \<noteq> Null then ''configured-awaiting-wallet-check'' else ''blocked-mint-not-configured'')
            else ''no-burn-required''))]))"

definition validateLaunchBurnPolicy :: "jsval \<Rightarrow> (bool \<times> string) res" where
  "validateLaunchBurnPolicy policy =
     (if \<not> truthy policy then Inr (False, ''invalid-tier'')
      else bindR (findLaunchBurnTier (oget policy ''tier'') LAUNCH_BURN_TIERS) (\<lambda>_.
        if \<not> truthy (oget policy ''requiresBurn'') then Inr (True, ''no-burn-required'')
        else if \<not> truthy (oget policy ''fundedMint'') then Inr (False, ''funded-mint-required'')
        else if \<not> is_safe (oget policy ''amountTokens'') \<or> safe_int (oget policy ''amountTokens'') \<le> 0
          then Inr (False, ''invalid-burn-amount'')
        else Inr (True, ''configured'')))"

definition tokensToBaseUnits :: "jsval \<Rightarrow> jsval \<Rightarrow> int res" where
  "tokensToBaseUnits amountTokens decimals =
     (if \<not> is_safe amountTokens \<or> safe_int amountTokens < 0 then throw ''Burn amount must be a non-negative safe integer.''
      else if \<not> is_int_val decimals \<or> safe_int decimals < 0 \<or> 18 < safe_int decimals
        then throw ''Mint decimals must be between 0 and 18.''
      else Inr (safe_int amountTokens * 10 ^ nat (safe_int decimals)))"

section \<open>home-launch-filters.js\<close>

definition HOME_FILTER_FLAGS :: "string list" where
  "HOME_FILTER_FLAGS = [''curve'', ''migrated'', ''mintRevoked'', ''freezeRevoked'', ''social'', ''promoted'', ''holderFees'', ''airdrop'']"

definition HOME_FILTER_RANGES :: "string list" where
  "HOME_FILTER_RANGES = [''ageHours'', ''marketCapUsd'', ''reserveUsd'', ''volumeUsd'', ''trades'', ''collectedCreatorFeesSol'',
     ''holders'', ''topTenHolderPercent'', ''devHoldingPercent'']"

text \<open>A bound that is not set is \<open>null\<close>.\<close>

record home_filters =
  hf_query :: string
  hf_flags :: "string list"
  hf_ranges :: "(string \<times> jsnum option \<times> jsnum option) list"

definition emptyHomeLaunchFilters :: home_filters where
  "emptyHomeLaunchFilters = \<lparr>hf_query = [], hf_flags = [], hf_ranges = map (\<lambda>n. (n, None, None)) HOME_FILTER_RANGES\<rparr>"

definition filter_bound :: "jsval \<Rightarrow> jsnum option" where
  "filter_bound raw =
     (let number = (if raw = Undef \<or> raw = Null \<or> raw = Str [] then NaN else to_number raw) in
      if nfinite number \<and> \<not> nless number (Fin 0) then Some number else None)"

definition has_flag :: "jsval \<Rightarrow> string \<Rightarrow> bool" where
  "has_flag flags name = (case flags of Arr xs \<Rightarrow> Str name \<in> set xs | _ \<Rightarrow> False)"

definition normalizeHomeLaunchFilters :: "jsval \<Rightarrow> home_filters" where
  "normalizeHomeLaunchFilters v =
     \<lparr>hf_query = take 100 (trim (to_str (jor (oget v ''query'') (Str [])))),
      hf_flags = filter (has_flag (oget v ''flags'')) HOME_FILTER_FLAGS,
      hf_ranges = map (\<lambda>n. let r = oget (oget v ''ranges'') n in (n, filter_bound (oget r ''min''), filter_bound (oget r ''max'')))
        HOME_FILTER_RANGES\<rparr>"

definition homeLaunchFilterCount :: "jsval \<Rightarrow> nat" where
  "homeLaunchFilterCount v =
     (let f = normalizeHomeLaunchFilters v in
      (if hf_query f \<noteq> [] then 1 else 0) + length (hf_flags f)
      + sum_list (map (\<lambda>(_, lo, hi). (if lo \<noteq> None then 1 else 0) + (if hi \<noteq> None then 1 else 0)) (hf_ranges f)))"

definition observed :: "jsval \<Rightarrow> jsnum option" where
  "observed v = (if v = Undef \<or> v = Null \<or> v = Str [] \<or> \<not> nfinite (to_number v) then None else Some (to_number v))"

definition bounded :: "jsnum option \<Rightarrow> jsnum option \<times> jsnum option \<Rightarrow> bool \<Rightarrow> bool" where
  "bounded v rng lowerBoundOnly =
     (case rng of (lo, hi) \<Rightarrow>
        if lo = None \<and> hi = None then True
        else case v of None \<Rightarrow> False
        | Some x \<Rightarrow>
          if (case lo of Some l \<Rightarrow> nless x l | None \<Rightarrow> False) then False
          else if (case hi of Some h \<Rightarrow> lowerBoundOnly \<or> nless h x | None \<Rightarrow> False) then False
          else True)"

text \<open>\<open>v > 0\<close> on a value.\<close>

definition positive :: "jsval \<Rightarrow> bool" where
  "positive v = nless (Fin 0) (to_number v)"

definition flags_match :: "string list \<Rightarrow> jsval \<Rightarrow> bool" where
  "flags_match flags item =
     (if (''curve'' \<in> set flags \<or> ''migrated'' \<in> set flags)
         \<and> \<not> (''curve'' \<in> set flags \<and> oget item ''complete'' = Bool False \<and> oget item ''migrated'' \<noteq> Bool True)
         \<and> \<not> (''migrated'' \<in> set flags \<and> oget item ''migrated'' = Bool True) then False
      else if ''mintRevoked'' \<in> set flags \<and> oget item ''mintAuthorityRevoked'' \<noteq> Bool True then False
      else if ''freezeRevoked'' \<in> set flags \<and> oget item ''freezeAuthorityRevoked'' \<noteq> Bool True then False
      else if ''social'' \<in> set flags \<and> \<not> list_ex (\<lambda>k. truthy (oget item k)) [''website'', ''twitter'', ''telegram'', ''discord'', ''x''] then False
      else if ''promoted'' \<in> set flags \<and> oget item ''promotionTier'' \<notin> {Str ''boost'', Str ''pro'', Str ''premier''} then False
      else if ''holderFees'' \<in> set flags \<and> \<not> positive (oget item ''holderFeePercent'') then False
      else if ''airdrop'' \<in> set flags \<and> \<not> positive (oget item ''communityAirdropPercent'') then False
      else True)"

definition age_hours :: "jsval \<Rightarrow> jsnum \<Rightarrow> jsnum option" where
  "age_hours createdTimestamp nowMs =
     (case observed createdTimestamp of
        None \<Rightarrow> None
      | Some created \<Rightarrow>
          let ms = (if nless (nint 10000000000) created then created else nmul created (nint 1000)) in
          if nless (Fin 0) ms \<and> nle ms nowMs then Some (ndiv (nsub nowMs ms) (nint 3600000)) else None)"

text \<open>An amount in SOL at the quoted price, or an indexed amount in USD.\<close>

definition usd_of :: "bool \<Rightarrow> jsnum option \<Rightarrow> jsnum option \<Rightarrow> jsval \<Rightarrow> jsnum option" where
  "usd_of devnet sol quote indexed =
     (if devnet then (case (sol, quote) of (Some s, Some q) \<Rightarrow> Some (nmul s q) | _ \<Rightarrow> None) else observed indexed)"

definition range_of :: "home_filters \<Rightarrow> string \<Rightarrow> jsnum option \<times> jsnum option" where
  "range_of f n = (case map_of (hf_ranges f) n of Some r \<Rightarrow> r | None \<Rightarrow> (None, None))"

definition ranges_match :: "home_filters \<Rightarrow> jsval \<Rightarrow> bool \<Rightarrow> jsval \<Rightarrow> jsnum \<Rightarrow> bool" where
  "ranges_match f item devnet solUsdPrice nowMs =
     (let quote = observed solUsdPrice; migrated = (oget item ''migrated'' = Bool True);
          capSol = observed (oget item (if migrated then ''poolMarketCapSol'' else ''curveCapSol''));
          reserveSol = observed (oget item (if migrated then ''poolReserveSol'' else ''curveReserveSol''));
          volumeSol = observed (oget item ''windowVolumeSol'');
          trades = observed (oget item (if devnet then ''windowTradeCount'' else ''tradeCount24h''));
          indexed = observed (oget item ''holders''); sampled = observed (oget item ''holderWalletCount'');
          holders = (case indexed of Some h \<Rightarrow> Some h | None \<Rightarrow> sampled);
          lower = (indexed = None \<and> oget item ''holderWalletCoverage'' = Str ''lower-bound'');
          partial = (oget item ''windowCoverage'' = Str ''partial'') in
      bounded (age_hours (oget item ''createdTimestamp'') nowMs) (range_of f ''ageHours'') False
      \<and> bounded (usd_of devnet capSol quote (oget item ''marketCapUsd'')) (range_of f ''marketCapUsd'') False
      \<and> bounded (usd_of devnet reserveSol quote (oget item ''liquidityUsd'')) (range_of f ''reserveUsd'') False
      \<and> bounded (usd_of devnet volumeSol quote (oget item ''volume24hUsd'')) (range_of f ''volumeUsd'') partial
      \<and> bounded trades (range_of f ''trades'') partial
      \<and> bounded holders (range_of f ''holders'') lower
      \<and> bounded (observed (oget item ''collectedCreatorFeesSol'')) (range_of f ''collectedCreatorFeesSol'') False
      \<and> bounded (observed (oget item ''topTenHolderPercent'')) (range_of f ''topTenHolderPercent'') False
      \<and> bounded (observed (oget item ''devHoldingPercent'')) (range_of f ''devHoldingPercent'') False)"

text \<open>An omitted cluster is \<open>devnet\<close>.\<close>

definition matchesHomeLaunchFilters :: "jsval \<Rightarrow> jsval \<Rightarrow> jsval \<Rightarrow> jsval \<Rightarrow> jsnum \<Rightarrow> bool res" where
  "matchesHomeLaunchFilters item v cluster solUsdPrice nowMs =
     (if item = Undef \<or> item = Null then Inl TypeErr
      else
      let f = normalizeHomeLaunchFilters v; query = lower_case (hf_query f);
          text = lower_case (to_str (jor (oget item ''name'') (Str [])) @ '' '' @ to_str (jor (oget item ''symbol'') (Str []))
            @ '' '' @ to_str (jor (oget item ''address'') (Str [])));
          devnet = (cluster = Undef \<or> cluster = Str ''devnet'') in
      Inr ((query = [] \<or> contains_text text query) \<and> flags_match (hf_flags f) item
        \<and> ranges_match f item devnet solUsdPrice nowMs))"

section \<open>Lemmas\<close>

lemma safe_positive:
  assumes "is_safe_integer n" and "nless (Fin 0) n"
  shows "0 < to_int n \<and> to_int n \<le> max_safe"
proof -
  from assms(1) obtain i where n: "n = nint i" and i: "\<bar>i\<bar> \<le> max_safe" by (rule safe_integerE)
  from assms(2) have "0 < i" unfolding n by simp
  with i show ?thesis unfolding n by simp
qed

lemma positiveInteger_range:
  assumes "0 < d" and "d \<le> max_safe"
  shows "0 < positiveInteger v d" and "positiveInteger v d \<le> max_safe"
proof -
  show "0 < positiveInteger v d" "positiveInteger v d \<le> max_safe"
    using assms safe_positive [of "to_number v"] by (auto simp: positiveInteger_def Let_def)
qed

lemma createLaunchBurnTiersE:
  assumes "createLaunchBurnTiers b p q = Inr tiers"
  obtains x y z where "tiers = burn_tiers x y z" "0 < x" "x < y" "y < z" "z \<le> max_safe"
proof -
  define x where "x = positiveInteger (default_to b DEFAULT_BOOST_AMOUNT) DEFAULT_BOOST_AMOUNT"
  define y where "y = positiveInteger (default_to p DEFAULT_PRO_AMOUNT) DEFAULT_PRO_AMOUNT"
  define z where "z = positiveInteger (default_to q DEFAULT_PREMIER_AMOUNT) DEFAULT_PREMIER_AMOUNT"
  have "0 < x" unfolding x_def by (rule positiveInteger_range) (simp_all add: DEFAULT_BOOST_AMOUNT_def max_safe_def)
  moreover have "z \<le> max_safe" unfolding z_def
    by (rule positiveInteger_range) (simp_all add: DEFAULT_PREMIER_AMOUNT_def max_safe_def)
  moreover have "tiers = burn_tiers x y z" "x < y" "y < z"
    using assms by (auto simp: createLaunchBurnTiers_def Let_def x_def y_def z_def split: if_splits)
  ultimately show thesis using that by blast
qed

lemma bt_amounts: "map bt_amountTokens (burn_tiers x y z) = [0, x, y, z]"
  by (simp add: burn_tiers_def)

lemma find_props: "find P xs = Some x \<Longrightarrow> P x \<and> x \<in> set xs"
  by (induction xs) (auto split: if_splits)

text \<open>The ids of the default tiers survive the normalisation of an id.\<close>

lemma default_tier_again:
  assumes "t \<in> set LAUNCH_BURN_TIERS"
  shows "findLaunchBurnTier (Str (bt_id t)) LAUNCH_BURN_TIERS = Inr t"
proof -
  have "list_all (\<lambda>t. findLaunchBurnTier (Str (bt_id t)) LAUNCH_BURN_TIERS = Inr t) LAUNCH_BURN_TIERS"
    by code_simp
  with assms show ?thesis by (simp add: list_all_iff)
qed

lemma default_tier_amount:
  assumes "t \<in> set LAUNCH_BURN_TIERS"
  shows "is_safe (Num (nint (bt_amountTokens t)))" and "bt_id t \<noteq> ''standard'' \<Longrightarrow> 0 < bt_amountTokens t"
  using assms
  by (auto simp: LAUNCH_BURN_TIERS_def burn_tiers_def DEFAULT_BOOST_AMOUNT_def DEFAULT_PRO_AMOUNT_def
    DEFAULT_PREMIER_AMOUNT_def max_safe_def is_safe_def is_safe_integer_def is_int_rat_def)

lemma built_policy:
  assumes "findLaunchBurnTier tierId tiers = Inr t" and "buildLaunchBurnPolicy tierId fundedMint tiers = Inr p"
  shows "truthy p" and "oget p ''tier'' = Str (bt_id t)" and "oget p ''requiresBurn'' = Bool (bt_id t \<noteq> ''standard'')"
    and "oget p ''fundedMint'' = (let m = trim (to_str (jor fundedMint (Str []))) in if m = [] then Null else Str m)"
    and "oget p ''amountTokens'' = Num (nint (bt_amountTokens t))"
  using assms(2) by (simp_all add: buildLaunchBurnPolicy_def assms(1) Let_def split: if_splits, safe, simp_all)

lemma no_filters:
  assumes "homeLaunchFilterCount v = 0"
  shows "hf_query (normalizeHomeLaunchFilters v) = []" and "hf_flags (normalizeHomeLaunchFilters v) = []"
    and "range_of (normalizeHomeLaunchFilters v) n = (None, None)"
proof -
  let ?f = "normalizeHomeLaunchFilters v"
  have r: "\<forall>(_, lo, hi) \<in> set (hf_ranges ?f). lo = None \<and> hi = None"
    using assms by (auto simp: homeLaunchFilterCount_def Let_def split: if_splits)
  show "hf_query ?f = []" "hf_flags ?f = []"
    using assms by (auto simp: homeLaunchFilterCount_def Let_def split: if_splits)
  show "range_of ?f n = (None, None)"
    using r by (auto simp: range_of_def split: option.splits dest!: map_of_SomeD)
qed

lemma bounded_free: "bounded x (None, None) b"
  by (simp add: bounded_def)

text \<open>The amounts of accepted burn tiers are four increasing safe integers that start at 0: a
  higher tier always burns more.\<close>

lemma createLaunchBurnTiers_increasing:
  assumes "createLaunchBurnTiers b p q = Inr tiers"
  shows "sorted_wrt (<) (map bt_amountTokens tiers) \<and> length tiers = 4 \<and> hd (map bt_amountTokens tiers) = 0
    \<and> last (map bt_amountTokens tiers) \<le> max_safe"
proof -
  from assms obtain x y z where "tiers = burn_tiers x y z" "0 < x" "x < y" "y < z" "z \<le> max_safe"
    by (rule createLaunchBurnTiersE)
  then show ?thesis by (simp add: bt_amounts) (simp add: burn_tiers_def)
qed

text \<open>Validation accepts exactly what the builder makes: a built policy of the standard tier needs
  no burn, one of a higher tier is configured if a mint is given and asks for the mint if not.\<close>

lemma buildLaunchBurnPolicy_validates:
  assumes "buildLaunchBurnPolicy tierId fundedMint LAUNCH_BURN_TIERS = Inr policy"
  shows "validateLaunchBurnPolicy policy = Inr
    (if oget policy ''tier'' = Str ''standard'' then (True, ''no-burn-required'')
     else if trim (to_str (jor fundedMint (Str []))) = [] then (False, ''funded-mint-required'')
     else (True, ''configured''))"
proof -
  from assms obtain t where f: "findLaunchBurnTier tierId LAUNCH_BURN_TIERS = Inr t"
    and p: "buildLaunchBurnPolicy tierId fundedMint LAUNCH_BURN_TIERS = Inr policy"
    by (auto simp: buildLaunchBurnPolicy_def bindR_Inr_iff)
  then have t: "t \<in> set LAUNCH_BURN_TIERS"
    by (auto simp: findLaunchBurnTier_def Let_def split: option.splits dest: find_props)
  note fields = built_policy [OF f p]
  have "safe_int (Num (nint (bt_amountTokens t))) = bt_amountTokens t" by (rule safe_int_nint)
  with default_tier_amount [OF t] default_tier_again [OF t] fields(1) show ?thesis
    unfolding validateLaunchBurnPolicy_def fields(2-)
    by (cases "bt_id t = ''standard''") (simp_all add: Let_def del: is_safe_nint safe_int_nint)
qed

text \<open>Filters whose count shown to the user is 0 hide no launch.\<close>

lemma no_filter_matches_all:
  assumes "homeLaunchFilterCount v = 0" and "item \<noteq> Undef" and "item \<noteq> Null"
  shows "matchesHomeLaunchFilters item v cluster solUsdPrice nowMs = Inr True"
proof -
  note n = no_filters [OF assms(1)]
  show ?thesis
    by (simp add: matchesHomeLaunchFilters_def assms(2,3) Let_def n lower_case_def flags_match_def ranges_match_def bounded_free)
qed

end
