(* ===== verification/AppRuntime.thy ===== *)
theory AppRuntime
  imports JsConv
begin

text \<open>
  The context of an application instance (\<open>src/app/runtime.js\<close>): an object whose properties are
  the imported dependencies, fixed, and the bindings of a schema, each behind an accessor that
  rejects reads and writes before the binding is initialised and writes to constants after it.
  The theory holds the runtime, its steps, what every run of steps preserves, and the programs
  of startup steps that the startup modules are.
\<close>

section \<open>src/app/runtime.js\<close>

text \<open>A value a binding holds: a plain value, a new collection, or an object of the browser or a
  function, which the model only passes on.\<close>

datatype app_value = Plain jsval | NewMap | NewSet "string list" | NewWeakSet | HostObject nat

datatype binding_kind = ConstB | LetB | VarB

record cell =
  cl_kind :: binding_kind
  cl_ready :: bool
  cl_value :: app_value

text \<open>\<open>rt_extra\<close> holds the properties assigned to the context that are neither dependencies nor
  bindings: the operations of the controllers.\<close>

record runtime =
  rt_dependencies :: "(string, app_value) omap"
  rt_cells :: "(string, cell) omap"
  rt_extra :: "(string, app_value) omap"

definition new_cell :: "binding_kind \<Rightarrow> cell" where
  "new_cell k = \<lparr>cl_kind = k, cl_ready = (k = VarB), cl_value = Plain Undef\<rparr>"

fun add_cells :: "(string, app_value) omap \<Rightarrow> (string \<times> binding_kind) list \<Rightarrow> (string, cell) omap \<Rightarrow> (string, cell) omap res" where
  "add_cells deps [] cells = Inr cells"
| "add_cells deps ((n, k) # schema) cells =
     (if map_of deps n \<noteq> None \<or> map_of cells n \<noteq> None then throw (''Duplicate app binding: '' @ n)
      else add_cells deps schema (oset n (new_cell k) cells))"

definition createAppRuntime :: "(string, app_value) omap \<Rightarrow> (string \<times> binding_kind) list \<Rightarrow> runtime res" where
  "createAppRuntime deps schema =
     bindR (add_cells deps schema []) (\<lambda>cells. Inr \<lparr>rt_dependencies = deps, rt_cells = cells, rt_extra = []\<rparr>)"

definition uninitialised :: "string \<Rightarrow> 'a res" where
  "uninitialised n = throw (''Cannot access '' @ [CHR 0x27] @ n @ [CHR 0x27] @ '' before initialization'')"

text \<open>Reading a property: the accessor of a binding, a dependency, or an assigned property
  (\<open>undefined\<close> when there is none).\<close>

definition readAppState :: "runtime \<Rightarrow> string \<Rightarrow> app_value res" where
  "readAppState rt n =
     (case map_of (rt_cells rt) n of
        Some c \<Rightarrow> if \<not> cl_ready c then uninitialised n else Inr (cl_value c)
      | None \<Rightarrow> (case map_of (rt_dependencies rt) n of
          Some v \<Rightarrow> Inr v
        | None \<Rightarrow> Inr (case map_of (rt_extra rt) n of Some v \<Rightarrow> v | None \<Rightarrow> Plain Undef)))"

text \<open>Assigning a property: a dependency is read-only, so the assignment raises \<open>TypeError\<close>.\<close>

definition writeAppState :: "runtime \<Rightarrow> string \<Rightarrow> app_value \<Rightarrow> runtime res" where
  "writeAppState rt n v =
     (case map_of (rt_cells rt) n of
        Some c \<Rightarrow>
          if \<not> cl_ready c then uninitialised n
          else if cl_kind c = ConstB then throw (''Assignment to constant app binding '' @ [CHR 0x27] @ n @ [CHR 0x27])
          else Inr (rt\<lparr>rt_cells := oset n (c\<lparr>cl_value := v\<rparr>) (rt_cells rt)\<rparr>)
      | None \<Rightarrow>
          if map_of (rt_dependencies rt) n \<noteq> None then Inl TypeErr
          else Inr (rt\<lparr>rt_extra := oset n v (rt_extra rt)\<rparr>))"

definition initializeAppState :: "runtime \<Rightarrow> string \<Rightarrow> app_value \<Rightarrow> runtime res" where
  "initializeAppState rt n v =
     (case map_of (rt_cells rt) n of
        None \<Rightarrow> throw (''Unknown app binding: '' @ n)
      | Some c \<Rightarrow>
          if cl_ready c \<and> cl_kind c \<noteq> VarB then throw (''App binding already initialized: '' @ n)
          else Inr (rt\<lparr>rt_cells := oset n (c\<lparr>cl_value := v, cl_ready := True\<rparr>) (rt_cells rt)\<rparr>))"

section \<open>Runs of the context\<close>

text \<open>A step of the context is an initialisation or an assignment that succeeds; reads do not
  change it.\<close>

inductive app_step :: "runtime \<Rightarrow> runtime \<Rightarrow> bool" where
  Initialize: "initializeAppState rt n v = Inr rt' \<Longrightarrow> app_step rt rt'"
| Assign: "writeAppState rt n v = Inr rt' \<Longrightarrow> app_step rt rt'"

inductive_cases app_stepE: "app_step rt rt'"

inductive app_run :: "runtime \<Rightarrow> runtime \<Rightarrow> bool" where
  Stop: "app_run rt rt"
| Step: "app_run rt rt' \<Longrightarrow> app_step rt' rt'' \<Longrightarrow> app_run rt rt''"

text \<open>What a step may do to a binding: initialise it, or change the value of one that is ready
  and no constant; and a successful initialisation leaves it ready with its value.\<close>

lemma initializeAppState_cell:
  assumes "initializeAppState rt n v = Inr rt'"
  shows "map_of (rt_cells rt') m =
      (if m = n then map_option (\<lambda>c. c\<lparr>cl_value := v, cl_ready := True\<rparr>) (map_of (rt_cells rt) n) else map_of (rt_cells rt) m)"
    and "rt_dependencies rt' = rt_dependencies rt"
    and "\<exists>c. map_of (rt_cells rt) n = Some c \<and> (cl_ready c \<longrightarrow> cl_kind c = VarB)"
  using assms by (auto simp: initializeAppState_def split: option.splits if_splits)

lemma writeAppState_cell:
  assumes "writeAppState rt n v = Inr rt'"
  shows "map_of (rt_cells rt') m =
      (if m = n then map_option (\<lambda>c. c\<lparr>cl_value := v\<rparr>) (map_of (rt_cells rt) n) else map_of (rt_cells rt) m)"
    and "rt_dependencies rt' = rt_dependencies rt"
    and "map_of (rt_cells rt) n = Some c \<Longrightarrow> cl_ready c \<and> cl_kind c \<noteq> ConstB"
  using assms by (auto simp: writeAppState_def uninitialised_def split: option.splits if_splits)

text \<open>Progress of a binding from one state of the context to a later one.\<close>

definition cell_le :: "cell option \<Rightarrow> cell option \<Rightarrow> bool" where
  "cell_le c c' \<longleftrightarrow> (case (c, c') of
      (None, None) \<Rightarrow> True
    | (Some c, Some c') \<Rightarrow> cl_kind c' = cl_kind c \<and> (cl_ready c \<longrightarrow> cl_ready c')
        \<and> (cl_ready c \<and> cl_kind c = ConstB \<longrightarrow> cl_value c' = cl_value c)
    | _ \<Rightarrow> False)"

lemma cell_le_refl: "cell_le c c"
  by (cases c) (simp_all add: cell_le_def)

lemma cell_le_trans: "cell_le a b \<Longrightarrow> cell_le b c \<Longrightarrow> cell_le a c"
  by (auto simp: cell_le_def split: option.splits)

lemma app_step_cell:
  assumes "app_step rt rt'"
  shows "cell_le (map_of (rt_cells rt) m) (map_of (rt_cells rt') m)"
  using assms
proof (cases rule: app_step.cases)
  case (Initialize n v)
  note c = initializeAppState_cell [OF Initialize]
  show ?thesis
  proof (cases "m = n")
    case True
    with c(3) show ?thesis by (auto simp: c(1) cell_le_def)
  qed (simp add: c(1) cell_le_refl)
next
  case (Assign n v)
  note c = writeAppState_cell [OF Assign]
  show ?thesis
  proof (cases "m = n")
    case True
    then show ?thesis using c(3) by (cases "map_of (rt_cells rt) n") (auto simp: c(1) cell_le_def)
  qed (simp add: c(1) cell_le_refl)
qed

lemma app_step_dependencies: "app_step rt rt' \<Longrightarrow> rt_dependencies rt' = rt_dependencies rt"
  by (erule app_stepE) (simp_all add: initializeAppState_cell(2) writeAppState_cell(2))

lemma app_run_cell: "app_run rt rt' \<Longrightarrow> cell_le (map_of (rt_cells rt) m) (map_of (rt_cells rt') m)"
proof (induction rule: app_run.induct)
  case (Stop rt)
  show ?case by (rule cell_le_refl)
next
  case (Step rt rt' rt'')
  then show ?case using app_step_cell [of rt' rt'' m] cell_le_trans by blast
qed

lemma app_run_dependencies: "app_run rt rt' \<Longrightarrow> rt_dependencies rt' = rt_dependencies rt"
  by (induction rule: app_run.induct) (simp_all add: app_step_dependencies)

section \<open>Programs of startup steps\<close>

text \<open>
  A startup module is a list of steps: it initialises a binding, with a value or with an expression
  that may throw, reads a binding while it runs, or calls into the browser or a controller.  Such a call changes the context only by assignments, which
  the parameter \<open>host\<close> gives; an assignment the context rejects ends the startup.
\<close>

datatype startup_step = Init string app_value | Compute string "app_value res" | Use string | Host string

definition assign_all :: "(string \<times> app_value) list \<Rightarrow> runtime \<Rightarrow> runtime res" where
  "assign_all ws rt = foldR (\<lambda>rt w. writeAppState rt (fst w) (snd w)) rt ws"

fun run_step :: "(string \<Rightarrow> (string \<times> app_value) list) \<Rightarrow> runtime \<Rightarrow> startup_step \<Rightarrow> runtime res" where
  "run_step host rt (Init n v) = initializeAppState rt n v"
| "run_step host rt (Compute n r) = bindR r (initializeAppState rt n)"
| "run_step host rt (Use n) = bindR (readAppState rt n) (\<lambda>_. Inr rt)"
| "run_step host rt (Host c) = assign_all (host c) rt"

definition run_startup :: "(string \<Rightarrow> (string \<times> app_value) list) \<Rightarrow> startup_step list \<Rightarrow> runtime \<Rightarrow> runtime res" where
  "run_startup host ss rt = foldR (run_step host) rt ss"

fun init_names :: "startup_step list \<Rightarrow> string list" where
  "init_names [] = []"
| "init_names (Init n v # ss) = n # init_names ss"
| "init_names (Compute n r # ss) = n # init_names ss"
| "init_names (Use n # ss) = init_names ss"
| "init_names (Host c # ss) = init_names ss"

text \<open>Every binding a program reads has been initialised by an earlier step of it.\<close>

fun uses_ok :: "string list \<Rightarrow> startup_step list \<Rightarrow> bool" where
  "uses_ok initialised [] = True"
| "uses_ok initialised (Init n v # ss) = uses_ok (n # initialised) ss"
| "uses_ok initialised (Compute n r # ss) = uses_ok (n # initialised) ss"
| "uses_ok initialised (Use n # ss) = (n \<in> set initialised \<and> uses_ok initialised ss)"
| "uses_ok initialised (Host c # ss) = uses_ok initialised ss"

lemma init_names_append: "init_names (xs @ ys) = init_names xs @ init_names ys"
  by (induction xs rule: init_names.induct) simp_all

text \<open>The bindings a program reads before it initialises them.\<close>

fun needs :: "startup_step list \<Rightarrow> string list" where
  "needs [] = []"
| "needs (Init n v # ss) = filter (\<lambda>m. m \<noteq> n) (needs ss)"
| "needs (Compute n r # ss) = filter (\<lambda>m. m \<noteq> n) (needs ss)"
| "needs (Use n # ss) = n # needs ss"
| "needs (Host c # ss) = needs ss"

lemma uses_ok_needs: "uses_ok initialised ss \<longleftrightarrow> set (needs ss) \<subseteq> set initialised"
  by (induction initialised ss rule: uses_ok.induct) auto

lemma needs_append: "set (needs (xs @ ys)) = set (needs xs) \<union> (set (needs ys) - set (init_names xs))"
  by (induction xs rule: needs.induct) auto

text \<open>The state of a startup: what is ready is what has been initialised.\<close>

definition ready_names :: "runtime \<Rightarrow> string set" where
  "ready_names rt = {n. \<exists>c. map_of (rt_cells rt) n = Some c \<and> cl_ready c}"

text \<open>The bindings that can no longer be initialised.\<close>

definition closed_names :: "runtime \<Rightarrow> string set" where
  "closed_names rt = {n. \<exists>c. map_of (rt_cells rt) n = Some c \<and> cl_ready c \<and> cl_kind c \<noteq> VarB}"

definition cell_names :: "runtime \<Rightarrow> string set" where
  "cell_names rt = dom (map_of (rt_cells rt))"

lemma init_names_step:
  assumes "initializeAppState rt n v = Inr rt'"
  shows "ready_names rt' = insert n (ready_names rt)" and "cell_names rt' = cell_names rt"
    and "closed_names rt' \<subseteq> insert n (closed_names rt)"
  using initializeAppState_cell(1) [OF assms] initializeAppState_cell(3) [OF assms]
  by (auto simp: ready_names_def cell_names_def closed_names_def split: if_splits)

lemma write_names_step:
  assumes "writeAppState rt n v = Inr rt'"
  shows "ready_names rt' = ready_names rt" and "cell_names rt' = cell_names rt" and "closed_names rt' = closed_names rt"
  using writeAppState_cell(1) [OF assms]
  by (auto simp: ready_names_def cell_names_def closed_names_def split: if_splits)

lemma assign_all_names:
  assumes "assign_all ws rt = Inr rt'"
  shows "ready_names rt' = ready_names rt \<and> cell_names rt' = cell_names rt \<and> closed_names rt' = closed_names rt"
  by (rule foldR_invariant [OF assms [unfolded assign_all_def]]) (auto dest: write_names_step)

lemma read_ready: "n \<in> ready_names rt \<Longrightarrow> \<exists>v. readAppState rt n = Inr v"
  by (auto simp: ready_names_def readAppState_def)

lemma initialize_fresh: "n \<in> cell_names rt \<Longrightarrow> n \<notin> closed_names rt \<Longrightarrow> \<exists>rt'. initializeAppState rt n v = Inr rt'"
  by (auto simp: cell_names_def closed_names_def initializeAppState_def)

text \<open>
  A program whose initialisations are distinct bindings of the context that are still open, and whose
  reads come after them, either runs to the end, and then exactly those bindings have become
  ready, or is ended by an assignment of a host call or by an expression that throws.
\<close>

definition stopped_by :: "(string \<Rightarrow> (string \<times> app_value) list) \<Rightarrow> startup_step list \<Rightarrow> js_error \<Rightarrow> bool" where
  "stopped_by host ss e \<longleftrightarrow>
     (\<exists>c rt. Host c \<in> set ss \<and> assign_all (host c) rt = Inl e) \<or> (\<exists>n. Compute n (Inl e) \<in> set ss)"

lemma stopped_by_Cons: "stopped_by host ss e \<Longrightarrow> stopped_by host (s # ss) e"
  by (auto simp: stopped_by_def)

lemma run_startup_progress:
  assumes "distinct (init_names ss)" and "set (init_names ss) \<subseteq> cell_names rt"
    and "set (init_names ss) \<inter> closed_names rt = {}" and "uses_ok initialised ss" and "set initialised \<subseteq> ready_names rt"
  shows "case run_startup host ss rt of
      Inr rt' \<Rightarrow> ready_names rt' = ready_names rt \<union> set (init_names ss)
    | Inl e \<Rightarrow> stopped_by host ss e"
  using assms
proof (induction ss arbitrary: initialised rt)
  case Nil
  then show ?case by (simp add: run_startup_def)
next
  case (Cons s ss)
  have init: "case bindR (initializeAppState rt n v) (\<lambda>rt'. run_startup host ss rt') of
      Inr rt' \<Rightarrow> ready_names rt' = insert n (ready_names rt \<union> set (init_names ss))
    | Inl e \<Rightarrow> stopped_by host ss e"
    if s: "init_names (s # ss) = n # init_names ss" "uses_ok (n # initialised) ss" for n v
  proof -
    from Cons.prems s initialize_fresh [of n rt v] obtain rt' where rt': "initializeAppState rt n v = Inr rt'" by auto
    note r = init_names_step [OF rt']
    have "case run_startup host ss rt' of
        Inr rt'' \<Rightarrow> ready_names rt'' = ready_names rt' \<union> set (init_names ss)
      | Inl e \<Rightarrow> stopped_by host ss e"
      by (rule Cons.IH [where initialised = "n # initialised"]) (use Cons.prems s r in auto)
    then show ?thesis using r by (simp add: rt' split: sum.splits)
  qed
  have rest: "case run_startup host ss rt' of
      Inr rt'' \<Rightarrow> ready_names rt'' = ready_names rt \<union> set (init_names ss)
    | Inl e \<Rightarrow> stopped_by host ss e"
    if s: "init_names (s # ss) = init_names ss" "uses_ok initialised ss"
      and r: "ready_names rt' = ready_names rt" "cell_names rt' = cell_names rt" "closed_names rt' = closed_names rt" for rt'
  proof -
    have "case run_startup host ss rt' of
        Inr rt'' \<Rightarrow> ready_names rt'' = ready_names rt' \<union> set (init_names ss)
      | Inl e \<Rightarrow> stopped_by host ss e"
      by (rule Cons.IH [where initialised = initialised]) (use Cons.prems s r in auto)
    then show ?thesis by (simp only: r(1))
  qed
  show ?case
  proof (cases s)
    case (Init n v)
    with init [of n v] Cons.prems(4) show ?thesis
      by (auto simp: run_startup_def bindR_def stopped_by_Cons split: sum.splits)
  next
    case (Compute n r)
    show ?thesis
    proof (cases r)
      case (Inl e)
      then show ?thesis by (auto simp: run_startup_def Compute stopped_by_def)
    next
      case (Inr v)
      with Compute init [of n v] Cons.prems(4) show ?thesis
        by (auto simp: run_startup_def bindR_def stopped_by_Cons split: sum.splits)
    qed
  next
    case (Use n)
    with Cons.prems read_ready [of n rt] obtain v where "readAppState rt n = Inr v" by auto
    with Use rest [of rt] Cons.prems(4) show ?thesis
      by (auto simp: run_startup_def stopped_by_Cons split: sum.splits)
  next
    case (Host c)
    show ?thesis
    proof (cases "assign_all (host c) rt")
      case (Inl e)
      then show ?thesis by (auto simp: run_startup_def Host stopped_by_def)
    next
      case (Inr rt')
      with Host rest [of rt'] assign_all_names [OF Inr] Cons.prems(4) show ?thesis
        by (auto simp: run_startup_def stopped_by_Cons split: sum.splits)
    qed
  qed
qed

section \<open>Created contexts\<close>

lemma add_cells_Inr:
  assumes "distinct (map fst schema)" and "fst ` set schema \<inter> (fst ` set deps \<union> fst ` set cells) = {}"
  shows "\<exists>cells'. add_cells deps schema cells = Inr cells'
    \<and> (\<forall>n. map_of cells' n = (case map_of schema n of Some k \<Rightarrow> Some (new_cell k) | None \<Rightarrow> map_of cells n))"
  using assms
proof (induction deps schema cells rule: add_cells.induct)
  case (1 deps cells)
  then show ?case by simp
next
  case (2 deps n k schema cells)
  have n: "map_of deps n = None" "map_of cells n = None" "map_of schema n = None"
    using "2.prems" by (auto simp: map_of_eq_None_iff)
  have keys: "fst ` set (oset n (new_cell k) cells) = insert n (fst ` set cells)" by simp
  have "\<exists>cells'. add_cells deps schema (oset n (new_cell k) cells) = Inr cells'
    \<and> (\<forall>m. map_of cells' m = (case map_of schema m of Some k \<Rightarrow> Some (new_cell k)
         | None \<Rightarrow> map_of (oset n (new_cell k) cells) m))"
  proof (rule "2.IH")
    show "\<not> (map_of deps n \<noteq> None \<or> map_of cells n \<noteq> None)" using n by simp
    show "distinct (map fst schema)" using "2.prems"(1) by simp
    show "fst ` set schema \<inter> (fst ` set deps \<union> fst ` set (oset n (new_cell k) cells)) = {}"
      unfolding keys using "2.prems" by auto
  qed
  then obtain cells' where c: "add_cells deps schema (oset n (new_cell k) cells) = Inr cells'"
    and m: "map_of cells' m = (case map_of schema m of Some k \<Rightarrow> Some (new_cell k)
         | None \<Rightarrow> map_of (oset n (new_cell k) cells) m)" for m
    by blast
  have "map_of cells' m = (case map_of ((n, k) # schema) m of Some k \<Rightarrow> Some (new_cell k)
         | None \<Rightarrow> map_of cells m)" for m
    using m [of m] n by (cases "m = n") (auto split: option.splits)
  with c n show ?case by simp
qed

text \<open>A created context has exactly the cells of its schema; the \<open>var\<close> bindings are ready.\<close>

lemma createAppRuntime_cells:
  assumes "distinct (map fst schema)" and "fst ` set schema \<inter> fst ` set deps = {}"
  shows "\<exists>rt. createAppRuntime deps schema = Inr rt
    \<and> (\<forall>n. map_of (rt_cells rt) n = map_option new_cell (map_of schema n))"
proof -
  from add_cells_Inr [of schema deps "[]"] assms obtain cells where
    c: "add_cells deps schema [] = Inr cells"
    and m: "map_of cells n = (case map_of schema n of Some k \<Rightarrow> Some (new_cell k) | None \<Rightarrow> map_of [] n)" for n
    by auto
  have "map_of cells n = map_option new_cell (map_of schema n)" for n
    by (simp add: m split: option.splits)
  with c show ?thesis by (simp add: createAppRuntime_def)
qed

lemma add_cells_accepts:
  "add_cells deps schema cells = Inr cells' \<Longrightarrow> distinct (map fst schema)
    \<and> (\<forall>n \<in> fst ` set schema. map_of deps n = None \<and> map_of cells n = None)"
proof (induction deps schema cells rule: add_cells.induct)
  case (1 deps cells)
  then show ?case by simp
next
  case (2 deps n k schema cells)
  then have n: "map_of deps n = None" "map_of cells n = None"
    and ih: "distinct (map fst schema)"
      "\<forall>m \<in> fst ` set schema. map_of deps m = None \<and> map_of (oset n (new_cell k) cells) m = None"
    by (auto split: if_splits)
  from ih(2) have "n \<notin> fst ` set schema" by auto
  moreover have "map_of cells m = None" if "m \<in> fst ` set schema" for m
    using ih(2) that by (metis fun_upd_apply map_of_oset option.distinct(1))
  ultimately show ?case using n ih by auto
qed

lemma created_cell:
  assumes "createAppRuntime deps schema = Inr rt" and "(n, k) \<in> set schema"
  shows "map_of (rt_cells rt) n = Some (new_cell k)"
proof -
  from assms(1) obtain cells where c: "add_cells deps schema [] = Inr cells" and rt: "rt_cells rt = cells"
    by (auto simp: createAppRuntime_def bindR_Inr_iff)
  note acc = add_cells_accepts [OF c]
  then have "fst ` set schema \<inter> fst ` set deps = {}" by (auto simp: map_of_eq_None_iff)
  with createAppRuntime_cells [of schema deps] acc assms(1)
  have "map_of (rt_cells rt) n = map_option new_cell (map_of schema n)" by auto
  moreover have "map_of schema n = Some k" using assms(2) acc by (simp add: map_of_eq_Some_iff)
  ultimately show ?thesis by simp
qed

text \<open>C26. A constant binding never changes: in every run of initialisations and assignments from a
  context in which it is ready, it keeps its value; and a binding that is ready stays readable.\<close>

theorem constants_never_change:
  assumes "app_run rt rt'" and "map_of (rt_cells rt) n = Some c" and "cl_ready c"
  shows "\<exists>v. readAppState rt' n = Inr v \<and> (cl_kind c = ConstB \<longrightarrow> v = cl_value c)"
proof -
  from app_run_cell [OF assms(1), of n] assms(2,3) obtain c' where
    "map_of (rt_cells rt') n = Some c'" "cl_ready c'" "cl_kind c = ConstB \<longrightarrow> cl_value c' = cl_value c"
    by (auto simp: cell_le_def split: option.splits)
  then show ?thesis by (simp add: readAppState_def)
qed

definition sample_contexts :: "runtime list" where
  "sample_contexts =
     (let a = projr (createAppRuntime [(''dep'', NewMap)] [(''KEY'', ConstB), (''count'', LetB)]);
          b = projr (initializeAppState a ''KEY'' (Plain (Str ''k''))); c = projr (initializeAppState b ''count'' (Plain Null)) in
      [a, b, c, projr (writeAppState c ''count'' (Plain (Bool True)))])"

theorem constants_never_change_witness:
  "readAppState (sample_contexts ! 3) ''KEY'' = Inr (Plain (Str ''k''))"
proof -
  have "app_step (sample_contexts ! 1) (sample_contexts ! 2)"
    by (rule Initialize [of _ "''count''" "Plain Null"]) code_simp
  moreover have "app_step (sample_contexts ! 2) (sample_contexts ! 3)"
    by (rule Assign [of _ "''count''" "Plain (Bool True)"]) code_simp
  ultimately have "app_run (sample_contexts ! 1) (sample_contexts ! 3)" by (blast intro: Stop Step)
  moreover have "map_of (rt_cells (sample_contexts ! 1)) ''KEY'' = Some \<lparr>cl_kind = ConstB, cl_ready = True, cl_value = Plain (Str ''k'')\<rparr>"
    by code_simp
  ultimately show ?thesis using constants_never_change by fastforce
qed

text \<open>C27. In a created context a \<open>let\<close> or \<open>const\<close> binding rejects reads and writes until it is
  initialised, which succeeds, makes the value readable, and cannot be done again.\<close>

theorem binding_lifecycle:
  assumes "createAppRuntime deps schema = Inr rt" and "(n, k) \<in> set schema" and "k \<noteq> VarB"
  shows "readAppState rt n = uninitialised n \<and> writeAppState rt n v = uninitialised n
    \<and> (\<exists>rt'. initializeAppState rt n v = Inr rt' \<and> readAppState rt' n = Inr v
         \<and> initializeAppState rt' n u = throw (''App binding already initialized: '' @ n))"
  using created_cell [OF assms(1,2)] assms(3)
  by (simp add: readAppState_def writeAppState_def initializeAppState_def new_cell_def)

theorem binding_lifecycle_witness:
  "readAppState (sample_contexts ! 0) ''KEY'' = uninitialised ''KEY''"
proof -
  have "createAppRuntime [(''dep'', NewMap)] [(''KEY'', ConstB), (''count'', LetB)] = Inr (sample_contexts ! 0)" by code_simp
  from binding_lifecycle [OF this, of "''KEY''" ConstB] show ?thesis by simp
qed

end
