(* ===== verification/AppStartup.thy ===== *)
theory AppStartup
  imports AppRuntime Distribution LaunchTiers
begin

text \<open>
  The startup of the application: the schema of its bindings (\<open>src/app/state-schema.js\<close>), the names
  of the imported dependencies (\<open>src/app/dependencies.js\<close>), and the modules of \<open>src/app/startup\<close>
  as programs of steps, in the order of \<open>src/app/start.js\<close>.  A module is modelled by what its
  statements do to the context: the bindings it initialises and with which values, the bindings it
  reads while it runs, and its calls of controllers.  Registering a listener or touching the page
  does not touch the context; the body of a listener is no part of the startup.
\<close>

section \<open>src/app/state-schema.js and src/app/dependencies.js\<close>







section \<open>What the startup reads from outside\<close>










text \<open>The links to the Solana explorer that the two first bindings build.\<close>

definition explorer_url :: "string \<Rightarrow> string \<Rightarrow> string" where
  "explorer_url query path = ''https://explorer.solana.com/'' @ path @ query"

definition explore_explorer_url :: "string \<Rightarrow> string \<Rightarrow> string" where
  "explore_explorer_url cluster path =
     ''https://explorer.solana.com/'' @ path @ (if cluster = ''mainnet-beta'' then [] else ''?cluster='' @ cluster)"

section \<open>src/app/startup\<close>






















































section \<open>src/app/start.js\<close>











end
