(* ===== verification/StepSystem.thy ===== *)
theory StepSystem
  imports Prelude
begin

text \<open>
  Interfaces for the components that are state machines: what is true of every reachable state, and
  when the runs of a machine are runs of its specification.
\<close>

locale step_invariant =
  fixes start :: "'s \<Rightarrow> bool" and step :: "'s \<Rightarrow> 's \<Rightarrow> bool" and inv :: "'s \<Rightarrow> bool"
  assumes start_inv: "start s \<Longrightarrow> inv s"
    and step_inv: "inv s \<Longrightarrow> step s s' \<Longrightarrow> inv s'"
begin

lemma run_inv: "step\<^sup>*\<^sup>* s s' \<Longrightarrow> inv s \<Longrightarrow> inv s'"
  by (induction rule: rtranclp_induct) (auto intro: step_inv)

lemma reachable_inv: "start s \<Longrightarrow> step\<^sup>*\<^sup>* s s' \<Longrightarrow> inv s'"
  by (blast intro: start_inv run_inv)

end

text \<open>A forward simulation: one step of the machine is some steps of the specification.\<close>

locale forward_simulation = step_invariant +
  fixes spec :: "'a \<Rightarrow> 'a \<Rightarrow> bool" and abstraction :: "'s \<Rightarrow> 'a"
  assumes step_refines: "inv s \<Longrightarrow> step s s' \<Longrightarrow> spec\<^sup>*\<^sup>* (abstraction s) (abstraction s')"
begin

lemma run_refines:
  assumes "start s" and "step\<^sup>*\<^sup>* s s'"
  shows "spec\<^sup>*\<^sup>* (abstraction s) (abstraction s')"
  using assms(2)
proof (induction rule: rtranclp_induct)
  case base
  show ?case by simp
next
  case (step s' s'')
  then have "inv s'" using assms(1) reachable_inv by blast
  with step show ?case using step_refines rtranclp_trans by metis
qed

end

end
