(* ===== verification/RpcScheduler.thy ===== *)
theory RpcScheduler
  imports StepSystem JsConv
begin

text \<open>
  The queue that bounds the RPC reads of a page (\<open>src/features/shared/rpc-read-scheduler.js\<close>).
  A scheduler is the closure of \<open>createRpcReadScheduler\<close>: its counter and queue, beside what has
  become of the requests it took.  Its events are a call of \<open>scheduledFetch\<close>, an abort of a signal
  and the settling of a request that was sent.
\<close>

section \<open>src/features/shared/rpc-read-scheduler.js\<close>

record entry =
  en_id :: nat
  en_signal :: "nat option"
  en_interactive :: bool

text \<open>\<open>sc_sent\<close> are the requests given to \<open>fetch\<close> and not settled, \<open>sc_settled\<close> those that are,
  \<open>sc_rejected\<close> the requests rejected with the reason of their signal, \<open>sc_next\<close> the number of
  entries made.\<close>

record scheduler =
  sc_maxActive :: nat
  sc_maxQueued :: nat
  sc_active :: nat
  sc_queue :: "entry list"
  sc_aborted :: "nat list"
  sc_sent :: "nat list"
  sc_settled :: "nat list"
  sc_rejected :: "nat list"
  sc_next :: nat

definition createRpcReadScheduler :: "jsval \<Rightarrow> jsval \<Rightarrow> scheduler res" where
  "createRpcReadScheduler maxActive maxQueued =
     (if \<not> is_int_val maxActive \<or> nless (to_number maxActive) (nint 1)
         \<or> \<not> is_int_val maxQueued \<or> nless (to_number maxQueued) (nint 1) then throw ''Invalid RPC queue limits''
      else Inr \<lparr>sc_maxActive = nat (to_int (to_number maxActive)), sc_maxQueued = nat (to_int (to_number maxQueued)),
        sc_active = 0, sc_queue = [], sc_aborted = [], sc_sent = [], sc_settled = [], sc_rejected = [], sc_next = 0\<rparr>)"

definition aborted :: "scheduler \<Rightarrow> nat option \<Rightarrow> bool" where
  "aborted st signal = (case signal of Some s \<Rightarrow> s \<in> set (sc_aborted st) | None \<Rightarrow> False)"

definition reject_entry :: "nat \<Rightarrow> scheduler \<Rightarrow> scheduler" where
  "reject_entry i st = st\<lparr>sc_rejected := sc_rejected st @ [i]\<rparr>"

definition send_entry :: "nat \<Rightarrow> scheduler \<Rightarrow> scheduler" where
  "send_entry i st = st\<lparr>sc_active := sc_active st + 1, sc_sent := sc_sent st @ [i]\<rparr>"

function drain :: "scheduler \<Rightarrow> scheduler" where
  "drain st =
     (if sc_active st < sc_maxActive st then
        (case sc_queue st of
           [] \<Rightarrow> st
         | e # q \<Rightarrow>
             if aborted st (en_signal e) then drain (reject_entry (en_id e) (st\<lparr>sc_queue := q\<rparr>))
             else drain (send_entry (en_id e) (st\<lparr>sc_queue := q\<rparr>)))
      else st)"
  by pat_completeness auto
termination
  by (relation "measure (\<lambda>st. length (sc_queue st))") (auto simp: reject_entry_def send_entry_def)

declare drain.simps [simp del]

definition allowed_reads :: "string list" where
  "allowed_reads =
     [''getAccountInfo'', ''getMultipleAccounts'', ''getBalance'', ''getTokenAccountsByOwner'',
      ''getTokenAccountBalance'', ''getMinimumBalanceForRentExemption'', ''getSlot'', ''getBlockHeight'',
      ''getLatestBlockhash'', ''getGenesisHash'', ''getSignatureStatuses'', ''getTransaction'', ''getSignaturesForAddress'',
      ''getTokenLargestAccounts'', ''getTokenSupply'', ''getProgramAccounts'', ''getBlockTime'', ''getVersion'',
      ''getEpochInfo'', ''getFeeForMessage'', ''isBlockhashValid'']"

text \<open>\<open>parsed\<close> is the body of the request after \<open>JSON.parse\<close>, \<open>None\<close> when it throws.\<close>

definition scheduled_read :: "jsval option \<Rightarrow> bool" where
  "scheduled_read parsed =
     (case parsed of
        None \<Rightarrow> False
      | Some request \<Rightarrow>
          let reads = (case request of Arr rows \<Rightarrow> rows | row \<Rightarrow> [row]) in
          reads \<noteq> [] \<and> list_all (\<lambda>row. oget row ''method'' \<in> set (map Str allowed_reads)) reads)"

definition enqueue :: "entry \<Rightarrow> entry list \<Rightarrow> entry list" where
  "enqueue e q =
     (if en_interactive e then takeWhile en_interactive q @ e # dropWhile en_interactive q else q @ [e])"

datatype fetch_answer = SentDirectly | AlreadyAborted | QueueBusy | Scheduled

text \<open>\<open>purpose\<close> is the query parameter of that name in the address, \<open>None\<close> when it has none or is no
  address.\<close>

definition scheduledFetch :: "jsval option \<Rightarrow> nat option \<Rightarrow> string option \<Rightarrow> scheduler \<Rightarrow> fetch_answer \<times> scheduler" where
  "scheduledFetch parsed signal purpose st =
     (if \<not> scheduled_read parsed then (SentDirectly, st)
      else if aborted st signal then (AlreadyAborted, st)
      else if length (sc_queue st) \<ge> sc_maxQueued st then (QueueBusy, st)
      else
        let e = \<lparr>en_id = sc_next st, en_signal = signal, en_interactive = (purpose = Some ''trade-preview'')\<rparr> in
        (Scheduled, drain (st\<lparr>sc_next := sc_next st + 1, sc_queue := enqueue e (sc_queue st)\<rparr>)))"

text \<open>An abort runs the listeners of the queued entries of its signal.\<close>

definition abort_signal :: "nat \<Rightarrow> scheduler \<Rightarrow> scheduler" where
  "abort_signal s st =
     st\<lparr>sc_aborted := s # sc_aborted st,
        sc_queue := filter (\<lambda>e. en_signal e \<noteq> Some s) (sc_queue st),
        sc_rejected := sc_rejected st @ map en_id (filter (\<lambda>e. en_signal e = Some s) (sc_queue st))\<rparr>"

definition settle :: "nat \<Rightarrow> scheduler \<Rightarrow> scheduler" where
  "settle i st =
     drain (st\<lparr>sc_active := sc_active st - 1, sc_sent := remove1 i (sc_sent st), sc_settled := sc_settled st @ [i]\<rparr>)"

inductive sched_step :: "scheduler \<Rightarrow> scheduler \<Rightarrow> bool" where
  Fetch: "scheduledFetch parsed signal purpose st = (answer, st') \<Longrightarrow> sched_step st st'"
| Abort: "sched_step st (abort_signal s st)"
| Settle: "i \<in> set (sc_sent st) \<Longrightarrow> sched_step st (settle i st)"

inductive_cases sched_stepE: "sched_step st st'"

section \<open>What holds in every state\<close>

text \<open>All entries made are in one place.\<close>

definition places :: "scheduler \<Rightarrow> nat multiset" where
  "places st = mset (map en_id (sc_queue st)) + mset (sc_sent st) + mset (sc_settled st) + mset (sc_rejected st)"

definition interactive_first :: "entry list \<Rightarrow> bool" where
  "interactive_first q = sorted_wrt (\<lambda>a b. en_interactive b \<longrightarrow> en_interactive a) q"

text \<open>What holds while the queue is drained, and what also holds between events.\<close>

definition sched_base :: "scheduler \<Rightarrow> bool" where
  "sched_base st \<longleftrightarrow> sc_active st = length (sc_sent st) \<and> sc_active st \<le> sc_maxActive st \<and> 0 < sc_maxActive st
     \<and> length (sc_queue st) \<le> sc_maxQueued st \<and> interactive_first (sc_queue st) \<and> places st = mset [0..<sc_next st]"

definition sched_ok :: "scheduler \<Rightarrow> bool" where
  "sched_ok st \<longleftrightarrow> sched_base st \<and> (sc_active st < sc_maxActive st \<longrightarrow> sc_queue st = [])"

definition limits :: "scheduler \<Rightarrow> nat \<times> nat" where
  "limits st = (sc_maxActive st, sc_maxQueued st)"

lemma interactive_first_filter: "interactive_first q \<Longrightarrow> interactive_first (filter f q)"
  by (simp add: interactive_first_def sorted_wrt_filter)

lemma interactive_first_Nil: "interactive_first []"
  by (simp add: interactive_first_def)

lemma interactive_first_Cons:
  "interactive_first (a # q) \<longleftrightarrow> (\<forall>b \<in> set q. en_interactive b \<longrightarrow> en_interactive a) \<and> interactive_first q"
  by (simp add: interactive_first_def)

lemma interactive_first_append:
  "interactive_first (p @ q) \<longleftrightarrow> interactive_first p \<and> interactive_first q
     \<and> (\<forall>a \<in> set p. \<forall>b \<in> set q. en_interactive b \<longrightarrow> en_interactive a)"
  by (simp add: interactive_first_def sorted_wrt_append)

lemma interactive_first_rest: "interactive_first q \<Longrightarrow> b \<in> set (dropWhile en_interactive q) \<Longrightarrow> \<not> en_interactive b"
proof (induction q)
  case (Cons a q)
  then show ?case by (cases "en_interactive a") (auto simp: interactive_first_Cons)
qed simp

lemma interactive_first_enqueue:
  assumes "interactive_first q"
  shows "interactive_first (enqueue e q)"
proof (cases "en_interactive e")
  case True
  have "interactive_first (takeWhile en_interactive q) \<and> interactive_first (dropWhile en_interactive q)"
    using assms by (metis interactive_first_append takeWhile_dropWhile_id)
  moreover have "\<forall>a \<in> set (takeWhile en_interactive q). en_interactive a" by (auto dest: set_takeWhileD)
  ultimately show ?thesis using True
    unfolding enqueue_def if_P [OF True] interactive_first_append interactive_first_Cons by auto
next
  case False
  with assms show ?thesis by (simp add: enqueue_def interactive_first_append interactive_first_Cons interactive_first_Nil)
qed

lemma mset_enqueue [simp]: "mset (enqueue e q) = add_mset e (mset q)"
proof -
  have "mset (takeWhile en_interactive q) + mset (dropWhile en_interactive q) = mset q"
    by (metis mset_append takeWhile_dropWhile_id)
  then show ?thesis by (simp add: enqueue_def)
qed

lemma length_enqueue [simp]: "length (enqueue e q) = Suc (length q)"
  by (metis mset_enqueue size_add_mset size_mset)

text \<open>Draining keeps what holds, and leaves no request waiting while a place is free.\<close>

lemma drain_step:
  assumes "sched_base st" and "sc_active st < sc_maxActive st" and "sc_queue st = e # q"
  shows "sched_base (reject_entry (en_id e) (st\<lparr>sc_queue := q\<rparr>))" and "sched_base (send_entry (en_id e) (st\<lparr>sc_queue := q\<rparr>))"
  using assms by (simp_all add: sched_base_def reject_entry_def send_entry_def places_def interactive_first_Cons)

lemma drain_ok: "sched_base st \<Longrightarrow> sched_ok (drain st)"
proof (induction st rule: drain.induct)
  case (1 st)
  show ?case
  proof (cases "sc_active st < sc_maxActive st")
    case False
    with "1.prems" show ?thesis by (simp add: drain.simps sched_ok_def)
  next
    case active: True
    show ?thesis
    proof (cases "sc_queue st")
      case Nil
      with active "1.prems" show ?thesis by (simp add: drain.simps sched_ok_def)
    next
      case (Cons e q)
      note d = drain_step [OF "1.prems" active Cons]
      show ?thesis
      proof (cases "aborted st (en_signal e)")
        case True
        with "1.IH"(1) [OF active Cons True d(1)] active Cons show ?thesis by (simp add: drain.simps [of st])
      next
        case False
        with "1.IH"(2) [OF active Cons False d(2)] active Cons show ?thesis by (simp add: drain.simps [of st])
      qed
    qed
  qed
qed

lemma drain_limits: "limits (drain st) = limits st"
proof (induction st rule: drain.induct)
  case (1 st)
  then show ?case
    by (subst drain.simps) (auto simp: limits_def reject_entry_def send_entry_def split: list.splits)
qed

lemma created_ok:
  assumes "createRpcReadScheduler a q = Inr st"
  shows "sched_ok st"
proof -
  have "\<not> nless (to_number a) (nint 1)" "is_int_val a" using assms by (auto simp: createRpcReadScheduler_def split: if_splits)
  then have "0 < nat (to_int (to_number a))"
    by (auto simp: is_int_val_def is_integer_def to_int_def split: jsval.splits jsnum.splits)
  with assms show ?thesis
    by (auto simp: createRpcReadScheduler_def sched_ok_def sched_base_def places_def interactive_first_def split: if_splits)
qed

lemma fetch_base:
  assumes "sched_ok st" and "length (sc_queue st) < sc_maxQueued st"
  shows "sched_base (st\<lparr>sc_next := sc_next st + 1, sc_queue := enqueue \<lparr>en_id = sc_next st, en_signal = signal, en_interactive = b\<rparr> (sc_queue st)\<rparr>)"
  using assms by (auto simp: sched_ok_def sched_base_def places_def interactive_first_enqueue)

lemma settle_base:
  assumes "sched_ok st" and "i \<in> set (sc_sent st)"
  shows "sched_base (st\<lparr>sc_active := sc_active st - 1, sc_sent := remove1 i (sc_sent st), sc_settled := sc_settled st @ [i]\<rparr>)"
  using assms by (auto simp: sched_ok_def sched_base_def places_def length_remove1)

lemma settle_ok: "sched_ok st \<Longrightarrow> i \<in> set (sc_sent st) \<Longrightarrow> sched_ok (settle i st)"
  unfolding settle_def by (rule drain_ok [OF settle_base])

lemma abort_places: "places (abort_signal s st) = places st"
proof -
  have "mset (map en_id q) = mset (map en_id (filter (\<lambda>e. en_signal e \<noteq> Some s) q)) + mset (map en_id (filter (\<lambda>e. en_signal e = Some s) q))" for q
    by (induction q) auto
  from this [of "sc_queue st"] show ?thesis
    unfolding places_def abort_signal_def by (simp del: mset_map add: mset_append ac_simps)
qed

lemma abort_ok:
  assumes "sched_ok st"
  shows "sched_ok (abort_signal s st)"
  using assms unfolding sched_ok_def sched_base_def abort_places
  by (auto simp: abort_signal_def interactive_first_filter intro: le_trans [OF length_filter_le])

lemma fetch_ok:
  assumes "sched_ok st" and "scheduledFetch parsed signal purpose st = (answer, st')"
  shows "sched_ok st'"
  using assms(2) assms(1) drain_ok [OF fetch_base [OF assms(1)]]
  by (auto simp: scheduledFetch_def Let_def split: if_splits)

lemma step_ok: "sched_ok st \<Longrightarrow> sched_step st st' \<Longrightarrow> sched_ok st'"
  by (erule sched_stepE) (auto intro: fetch_ok abort_ok settle_ok)

lemma step_limits: "sched_step st st' \<Longrightarrow> limits st' = limits st"
proof (erule sched_stepE)
  fix parsed signal purpose answer
  assume "scheduledFetch parsed signal purpose st = (answer, st')"
  then show "limits st' = limits st"
    by (auto simp: scheduledFetch_def Let_def drain_limits split: if_splits) (simp_all add: limits_def)
next
  fix s assume "st' = abort_signal s st"
  then show "limits st' = limits st" by (simp add: abort_signal_def limits_def)
next
  fix i assume "st' = settle i st"
  then show "limits st' = limits st" unfolding settle_def by (simp add: drain_limits) (simp add: limits_def)
qed

lemma run_limits: "sched_step\<^sup>*\<^sup>* st st' \<Longrightarrow> limits st' = limits st"
  by (induction rule: rtranclp_induct) (simp_all add: step_limits)

section \<open>The specification: a pool of bounded concurrency\<close>

text \<open>The state of the pool is its limit, the requests that wait, that run, and that are done with.\<close>

record pool =
  po_limit :: nat
  po_waiting :: "nat set"
  po_running :: "nat set"
  po_over :: "nat set"

inductive pool_step :: "pool \<Rightarrow> pool \<Rightarrow> bool" where
  Accept: "i \<notin> po_waiting p \<union> po_running p \<union> po_over p \<Longrightarrow> pool_step p (p\<lparr>po_waiting := insert i (po_waiting p)\<rparr>)"
| Start: "i \<in> po_waiting p \<Longrightarrow> card (po_running p) < po_limit p
    \<Longrightarrow> pool_step p (p\<lparr>po_waiting := po_waiting p - {i}, po_running := insert i (po_running p)\<rparr>)"
| Drop: "i \<in> po_waiting p \<Longrightarrow> pool_step p (p\<lparr>po_waiting := po_waiting p - {i}, po_over := insert i (po_over p)\<rparr>)"
| Finish: "i \<in> po_running p \<Longrightarrow> pool_step p (p\<lparr>po_running := po_running p - {i}, po_over := insert i (po_over p)\<rparr>)"

definition pool_of :: "scheduler \<Rightarrow> pool" where
  "pool_of st = \<lparr>po_limit = sc_maxActive st, po_waiting = en_id ` set (sc_queue st), po_running = set (sc_sent st),
     po_over = set (sc_settled st) \<union> set (sc_rejected st)\<rparr>"

lemma sched_distinct:
  assumes "sched_base st"
  shows "distinct (map en_id (sc_queue st) @ sc_sent st @ sc_settled st @ sc_rejected st)"
proof -
  have "mset (map en_id (sc_queue st) @ sc_sent st @ sc_settled st @ sc_rejected st) = mset [0..<sc_next st]"
    using assms by (simp add: sched_base_def places_def ac_simps)
  then show ?thesis by (metis distinct_upt mset_eq_imp_distinct_iff)
qed

lemma sched_known:
  assumes "sched_base st"
  shows "en_id ` set (sc_queue st) \<union> set (sc_sent st) \<union> set (sc_settled st) \<union> set (sc_rejected st) = {0..<sc_next st}"
proof -
  have "set_mset (places st) = set_mset (mset [0..<sc_next st])" using assms by (simp only: sched_base_def)
  then show ?thesis by (simp only: places_def set_mset_union set_mset_mset set_map set_upt)
qed

lemma drain_refines: "sched_base st \<Longrightarrow> pool_step\<^sup>*\<^sup>* (pool_of st) (pool_of (drain st))"
proof (induction st rule: drain.induct)
  case (1 st)
  show ?case
  proof (cases "sc_active st < sc_maxActive st \<and> sc_queue st \<noteq> []")
    case False
    then show ?thesis by (auto simp: drain.simps [of st] split: list.splits)
  next
    case True
    then obtain e q where active: "sc_active st < sc_maxActive st" and q: "sc_queue st = e # q" by (cases "sc_queue st") auto
    note d = drain_step [OF "1.prems" active q]
    have fresh: "en_id e \<notin> en_id ` set q" and sent: "distinct (sc_sent st)" using sched_distinct [OF "1.prems"] q by auto
    have waiting: "po_waiting (pool_of st) - {en_id e} = en_id ` set q" using fresh by (auto simp: pool_of_def q)
    have running: "card (po_running (pool_of st)) < po_limit (pool_of st)"
      using "1.prems" active sent by (simp add: sched_base_def pool_of_def distinct_card)
    have i: "en_id e \<in> po_waiting (pool_of st)" by (simp add: pool_of_def q)
    show ?thesis
    proof (cases "aborted st (en_signal e)")
      case True
      have "pool_of (reject_entry (en_id e) (st\<lparr>sc_queue := q\<rparr>)) = (pool_of st)\<lparr>po_waiting := po_waiting (pool_of st) - {en_id e},
          po_over := insert (en_id e) (po_over (pool_of st))\<rparr>"
        unfolding waiting by (simp add: pool_of_def reject_entry_def)
      with Drop [OF i] "1.IH"(1) [OF active q True d(1)] active q True show ?thesis
        by (simp add: drain.simps [of st] converse_rtranclp_into_rtranclp)
    next
      case False
      have "pool_of (send_entry (en_id e) (st\<lparr>sc_queue := q\<rparr>)) = (pool_of st)\<lparr>po_waiting := po_waiting (pool_of st) - {en_id e},
          po_running := insert (en_id e) (po_running (pool_of st))\<rparr>"
        unfolding waiting by (simp add: pool_of_def send_entry_def)
      with Start [OF i running] "1.IH"(2) [OF active q False d(2)] active q False show ?thesis
        by (simp add: drain.simps [of st] converse_rtranclp_into_rtranclp)
    qed
  qed
qed

lemma drop_waiting:
  assumes "distinct is" and "set is \<subseteq> po_waiting p"
  shows "pool_step\<^sup>*\<^sup>* p (p\<lparr>po_waiting := po_waiting p - set is, po_over := set is \<union> po_over p\<rparr>)"
  using assms
proof (induction "is" arbitrary: p)
  case (Cons i "is")
  let ?p = "p\<lparr>po_waiting := po_waiting p - {i}, po_over := insert i (po_over p)\<rparr>"
  have "pool_step p ?p" using Cons.prems by (intro Drop) simp
  moreover have "set is \<subseteq> po_waiting ?p" using Cons.prems by auto
  ultimately have "pool_step\<^sup>*\<^sup>* p (?p\<lparr>po_waiting := po_waiting ?p - set is, po_over := set is \<union> po_over ?p\<rparr>)"
    using Cons.IH [of ?p] Cons.prems by (simp add: converse_rtranclp_into_rtranclp)
  moreover have "po_waiting p - {i} - set is = po_waiting p - set (i # is)" by auto
  ultimately show ?case by simp
qed simp

lemma abort_refines:
  assumes "sched_ok st"
  shows "pool_step\<^sup>*\<^sup>* (pool_of st) (pool_of (abort_signal s st))"
proof -
  let ?is = "map en_id (filter (\<lambda>e. en_signal e = Some s) (sc_queue st))"
  have d: "distinct (map en_id (sc_queue st))" using assms sched_distinct by (auto simp: sched_ok_def)
  then have "distinct ?is" by (rule distinct_map_filter)
  moreover have "set ?is \<subseteq> po_waiting (pool_of st)" by (auto simp: pool_of_def)
  ultimately have "pool_step\<^sup>*\<^sup>* (pool_of st)
    ((pool_of st)\<lparr>po_waiting := po_waiting (pool_of st) - set ?is, po_over := set ?is \<union> po_over (pool_of st)\<rparr>)"
    by (rule drop_waiting)
  moreover have "en_id ` {e \<in> set (sc_queue st). en_signal e \<noteq> Some s}
      = en_id ` set (sc_queue st) - en_id ` {e \<in> set (sc_queue st). en_signal e = Some s}"
    using d by (auto simp: distinct_map inj_on_def)
  ultimately show ?thesis by (simp add: pool_of_def abort_signal_def ac_simps)
qed

lemma fetch_refines:
  assumes "sched_ok st" and "scheduledFetch parsed signal purpose st = (answer, st')"
  shows "pool_step\<^sup>*\<^sup>* (pool_of st) (pool_of st')"
proof (cases "answer = Scheduled")
  case False
  with assms(2) show ?thesis by (auto simp: scheduledFetch_def Let_def split: if_splits)
next
  case True
  then obtain b where room: "length (sc_queue st) < sc_maxQueued st" and
    st': "st' = drain (st\<lparr>sc_next := sc_next st + 1,
      sc_queue := enqueue \<lparr>en_id = sc_next st, en_signal = signal, en_interactive = b\<rparr> (sc_queue st)\<rparr>)" (is "_ = drain ?st")
    using assms(2) by (auto simp: scheduledFetch_def Let_def split: if_splits)
  have e: "set (enqueue x q) = insert x (set q)" for x q by (metis mset_enqueue set_mset_add_mset_insert set_mset_mset)
  have "pool_of ?st = (pool_of st)\<lparr>po_waiting := insert (sc_next st) (po_waiting (pool_of st))\<rparr>"
    by (simp add: pool_of_def e)
  moreover have "sc_next st \<notin> po_waiting (pool_of st) \<union> po_running (pool_of st) \<union> po_over (pool_of st)"
    using sched_known [of st] assms(1) by (auto simp: pool_of_def sched_ok_def)
  ultimately have "pool_step (pool_of st) (pool_of ?st)" using Accept by metis
  then show ?thesis
    unfolding st' by (rule converse_rtranclp_into_rtranclp [OF _ drain_refines [OF fetch_base [OF assms(1) room]]])
qed

lemma settle_refines:
  assumes "sched_ok st" and "i \<in> set (sc_sent st)"
  shows "pool_step\<^sup>*\<^sup>* (pool_of st) (pool_of (settle i st))"
proof -
  let ?st = "st\<lparr>sc_active := sc_active st - 1, sc_sent := remove1 i (sc_sent st), sc_settled := sc_settled st @ [i]\<rparr>"
  have "distinct (sc_sent st)" using assms(1) sched_distinct by (auto simp: sched_ok_def)
  then have "pool_of ?st = (pool_of st)\<lparr>po_running := po_running (pool_of st) - {i}, po_over := insert i (po_over (pool_of st))\<rparr>"
    by (simp add: pool_of_def)
  moreover have "i \<in> po_running (pool_of st)" using assms(2) by (simp add: pool_of_def)
  ultimately have "pool_step (pool_of st) (pool_of ?st)" using Finish by metis
  then show ?thesis
    unfolding settle_def by (rule converse_rtranclp_into_rtranclp [OF _ drain_refines [OF settle_base [OF assms]]])
qed

lemma step_refines_pool: "sched_ok st \<Longrightarrow> sched_step st st' \<Longrightarrow> pool_step\<^sup>*\<^sup>* (pool_of st) (pool_of st')"
  by (erule sched_stepE) (auto intro: fetch_refines abort_refines settle_refines)

interpretation read_pool: forward_simulation "\<lambda>st. \<exists>a q. createRpcReadScheduler a q = Inr st" sched_step sched_ok pool_step pool_of
  by unfold_locales (auto intro: created_ok step_ok step_refines_pool)

section \<open>The specification: two lanes\<close>

text \<open>Explicit quotes wait in one lane and the other reads in another, both first come, first served; a place that is
  free goes to the first request of the lane of quotes, or of the other when that is empty.\<close>

record read_lanes =
  ln_limit :: nat
  ln_room :: nat
  ln_quotes :: "entry list"
  ln_reads :: "entry list"
  ln_aborted :: "nat list"
  ln_running :: "nat list"
  ln_settled :: "nat list"
  ln_rejected :: "nat list"
  ln_next :: nat

text \<open>Which of the waiting requests are started with \<open>n\<close> places, which are rejected on the way, and who is left.\<close>

fun admit :: "nat \<Rightarrow> (nat option \<Rightarrow> bool) \<Rightarrow> entry list \<Rightarrow> nat list \<times> nat list \<times> entry list" where
  "admit 0 gone es = ([], [], es)"
| "admit (Suc n) gone [] = ([], [], [])"
| "admit (Suc n) gone (e # es) =
     (if gone (en_signal e) then (case admit (Suc n) gone es of (s, r, l) \<Rightarrow> (s, en_id e # r, l))
      else (case admit n gone es of (s, r, l) \<Rightarrow> (en_id e # s, r, l)))"

definition lane_gone :: "read_lanes \<Rightarrow> nat option \<Rightarrow> bool" where
  "lane_gone l signal = (case signal of None \<Rightarrow> False | Some s \<Rightarrow> s \<in> set (ln_aborted l))"

definition fill_lanes :: "read_lanes \<Rightarrow> read_lanes" where
  "fill_lanes l =
     (case admit (ln_limit l - length (ln_running l)) (lane_gone l) (ln_quotes l @ ln_reads l) of (s, r, w) \<Rightarrow>
        l\<lparr>ln_quotes := filter en_interactive w, ln_reads := filter (\<lambda>e. \<not> en_interactive e) w,
          ln_running := ln_running l @ s, ln_rejected := ln_rejected l @ r\<rparr>)"

definition lane_fetch :: "jsval option \<Rightarrow> nat option \<Rightarrow> string option \<Rightarrow> read_lanes \<Rightarrow> fetch_answer \<times> read_lanes" where
  "lane_fetch parsed signal purpose l =
     (if \<not> scheduled_read parsed then (SentDirectly, l)
      else if lane_gone l signal then (AlreadyAborted, l)
      else if ln_room l \<le> length (ln_quotes l) + length (ln_reads l) then (QueueBusy, l)
      else let quote = (purpose = Some ''trade-preview''); e = \<lparr>en_id = ln_next l, en_signal = signal, en_interactive = quote\<rparr> in
        (Scheduled, fill_lanes (l\<lparr>ln_next := ln_next l + 1, ln_quotes := ln_quotes l @ (if quote then [e] else []),
           ln_reads := ln_reads l @ (if quote then [] else [e])\<rparr>)))"

text \<open>The events of a page; a request settles once, while it runs.\<close>

datatype read_event = Fetching "jsval option" "nat option" "string option" | Aborting nat | Settling nat

definition perform_lanes :: "read_event \<Rightarrow> read_lanes \<Rightarrow> read_lanes" where
  "perform_lanes ev l =
     (case ev of
        Fetching parsed signal purpose \<Rightarrow> snd (lane_fetch parsed signal purpose l)
      | Aborting s \<Rightarrow>
          l\<lparr>ln_aborted := s # ln_aborted l, ln_quotes := filter (\<lambda>e. en_signal e \<noteq> Some s) (ln_quotes l),
            ln_reads := filter (\<lambda>e. en_signal e \<noteq> Some s) (ln_reads l),
            ln_rejected := ln_rejected l @ map en_id (filter (\<lambda>e. en_signal e = Some s) (ln_quotes l @ ln_reads l))\<rparr>
      | Settling i \<Rightarrow>
          if i \<in> set (ln_running l)
          then fill_lanes (l\<lparr>ln_running := remove1 i (ln_running l), ln_settled := ln_settled l @ [i]\<rparr>) else l)"

definition perform_read :: "read_event \<Rightarrow> scheduler \<Rightarrow> scheduler" where
  "perform_read ev st =
     (case ev of
        Fetching parsed signal purpose \<Rightarrow> snd (scheduledFetch parsed signal purpose st)
      | Aborting s \<Rightarrow> abort_signal s st
      | Settling i \<Rightarrow> if i \<in> set (sc_sent st) then settle i st else st)"

definition lanes_of :: "scheduler \<Rightarrow> read_lanes" where
  "lanes_of st = \<lparr>ln_limit = sc_maxActive st, ln_room = sc_maxQueued st, ln_quotes = filter en_interactive (sc_queue st),
     ln_reads = filter (\<lambda>e. \<not> en_interactive e) (sc_queue st), ln_aborted = sc_aborted st, ln_running = sc_sent st,
     ln_settled = sc_settled st, ln_rejected = sc_rejected st, ln_next = sc_next st\<rparr>"

lemma lanes_queue: "interactive_first q \<Longrightarrow> filter en_interactive q @ filter (\<lambda>e. \<not> en_interactive e) q = q"
proof (induction q)
  case (Cons a q)
  show ?case
  proof (cases "en_interactive a")
    case False
    then have "filter en_interactive q = []" using Cons.prems by (auto simp: interactive_first_Cons filter_empty_conv)
    with Cons False show ?thesis by (simp add: interactive_first_Cons)
  qed (use Cons in \<open>simp add: interactive_first_Cons\<close>)
qed simp

lemma filter_enqueue:
  assumes "interactive_first q"
  shows "filter en_interactive (enqueue e q) = filter en_interactive q @ (if en_interactive e then [e] else [])"
    and "filter (\<lambda>e. \<not> en_interactive e) (enqueue e q) = filter (\<lambda>e. \<not> en_interactive e) q @ (if en_interactive e then [] else [e])"
proof -
  have "filter en_interactive (dropWhile en_interactive q) = []"
    using interactive_first_rest [OF assms] by (auto simp: filter_empty_conv)
  moreover have "filter (\<lambda>e. \<not> en_interactive e) (takeWhile en_interactive q) = []"
    by (auto simp: filter_empty_conv dest: set_takeWhileD)
  moreover have "filter P q = filter P (takeWhile en_interactive q) @ filter P (dropWhile en_interactive q)" for P
    by (simp flip: filter_append)
  ultimately show "filter en_interactive (enqueue e q) = filter en_interactive q @ (if en_interactive e then [e] else [])"
    "filter (\<lambda>e. \<not> en_interactive e) (enqueue e q) = filter (\<lambda>e. \<not> en_interactive e) q @ (if en_interactive e then [] else [e])"
    by (simp_all add: enqueue_def)
qed

text \<open>The loop of \<open>drain\<close> admits from its queue.\<close>

lemma drain_admits:
  "drain st = (case admit (sc_maxActive st - sc_active st) (aborted st) (sc_queue st) of (s, r, w) \<Rightarrow>
     st\<lparr>sc_active := sc_active st + length s, sc_queue := w, sc_sent := sc_sent st @ s, sc_rejected := sc_rejected st @ r\<rparr>)"
proof (induction st rule: drain.induct)
  case (1 st)
  show ?case
  proof (cases "sc_active st < sc_maxActive st")
    case False
    then show ?thesis by (simp add: drain.simps [of st])
  next
    case active: True
    then obtain n where n: "sc_maxActive st - sc_active st = Suc n" by (metis Suc_diff_Suc)
    show ?thesis
    proof (cases "sc_queue st")
      case Nil
      then show ?thesis using active by (simp add: drain.simps [of st] n)
    next
      case (Cons e q)
      have same: "aborted (reject_entry i (st\<lparr>sc_queue := q\<rparr>)) = aborted st" "aborted (send_entry i (st\<lparr>sc_queue := q\<rparr>)) = aborted st" for i
        by (simp_all add: aborted_def [abs_def] reject_entry_def send_entry_def)
      show ?thesis
      proof (cases "aborted st (en_signal e)")
        case True
        have d: "drain st = drain (reject_entry (en_id e) (st\<lparr>sc_queue := q\<rparr>))"
          using active Cons True by (simp add: drain.simps [of st])
        show ?thesis
          unfolding d "1.IH"(1) [OF active Cons True] same
          by (simp add: Cons n True reject_entry_def split: prod.split)
      next
        case False
        have d: "drain st = drain (send_entry (en_id e) (st\<lparr>sc_queue := q\<rparr>))"
          using active Cons False by (simp add: drain.simps [of st])
        have "sc_maxActive st - Suc (sc_active st) = n" using n by simp
        then show ?thesis
          unfolding d "1.IH"(2) [OF active Cons False] same
          by (simp add: Cons n False send_entry_def split: prod.split)
      qed
    qed
  qed
qed

lemma lane_gone_of [simp]: "lane_gone (lanes_of st) = aborted st"
  by (intro ext) (simp add: lane_gone_def lanes_of_def aborted_def split: option.splits)

lemma drain_lanes:
  assumes "sched_base st"
  shows "lanes_of (drain st) = fill_lanes (lanes_of st)"
proof -
  have "filter en_interactive (sc_queue st) @ filter (\<lambda>e. \<not> en_interactive e) (sc_queue st) = sc_queue st"
    and "sc_active st = length (sc_sent st)"
    using assms by (simp_all add: sched_base_def lanes_queue)
  then show ?thesis
    unfolding drain_admits [of st] fill_lanes_def lane_gone_of by (simp add: lanes_of_def split: prod.split)
qed

lemma fetch_lanes:
  assumes "sched_ok st"
  shows "fst (scheduledFetch parsed signal purpose st) = fst (lane_fetch parsed signal purpose (lanes_of st))
    \<and> lanes_of (snd (scheduledFetch parsed signal purpose st)) = snd (lane_fetch parsed signal purpose (lanes_of st))"
proof (cases "scheduled_read parsed \<and> \<not> aborted st signal \<and> length (sc_queue st) < sc_maxQueued st")
  case True
  have q: "interactive_first (sc_queue st)" using assms by (simp add: sched_ok_def sched_base_def)
  have "length (filter en_interactive (sc_queue st)) + length (filter (\<lambda>e. \<not> en_interactive e) (sc_queue st)) = length (sc_queue st)"
    by (rule sum_length_filter_compl)
  then have room: "ln_room (lanes_of st) \<le> length (ln_quotes (lanes_of st)) + length (ln_reads (lanes_of st)) \<longleftrightarrow> False"
    using True by (simp add: lanes_of_def)
  define e where "e = \<lparr>en_id = sc_next st, en_signal = signal, en_interactive = (purpose = Some ''trade-preview'')\<rparr>"
  define st1 where "st1 = st\<lparr>sc_next := sc_next st + 1, sc_queue := enqueue e (sc_queue st)\<rparr>"
  have "scheduledFetch parsed signal purpose st = (Scheduled, drain st1)"
    using True by (simp add: scheduledFetch_def Let_def st1_def e_def)
  moreover have "lane_fetch parsed signal purpose (lanes_of st) = (Scheduled, fill_lanes (lanes_of st1))"
  proof -
    have "lanes_of st1 = (lanes_of st)\<lparr>ln_next := ln_next (lanes_of st) + 1,
        ln_quotes := ln_quotes (lanes_of st) @ (if purpose = Some ''trade-preview'' then [e] else []),
        ln_reads := ln_reads (lanes_of st) @ (if purpose = Some ''trade-preview'' then [] else [e])\<rparr>"
      by (simp add: lanes_of_def st1_def filter_enqueue [OF q]) (simp add: e_def)
    moreover have "ln_next (lanes_of st) = sc_next st" by (simp add: lanes_of_def)
    ultimately show ?thesis using True by (simp add: lane_fetch_def room Let_def e_def)
  qed
  moreover have "sched_base st1" using fetch_base [OF assms] True by (simp add: st1_def e_def)
  ultimately show ?thesis by (simp add: drain_lanes)
next
  case False
  have "length (filter en_interactive (sc_queue st)) + length (filter (\<lambda>e. \<not> en_interactive e) (sc_queue st)) = length (sc_queue st)"
    by (rule sum_length_filter_compl)
  with False show ?thesis by (auto simp: scheduledFetch_def lane_fetch_def Let_def) (auto simp: lanes_of_def)
qed

lemma perform_read_lanes:
  assumes "sched_ok st"
  shows "lanes_of (perform_read ev st) = perform_lanes ev (lanes_of st) \<and> sched_ok (perform_read ev st)"
proof (cases ev)
  case (Fetching parsed signal purpose)
  have "sched_ok (snd (scheduledFetch parsed signal purpose st))" by (rule fetch_ok [OF assms]) (rule prod.collapse [symmetric])
  then show ?thesis using Fetching fetch_lanes [OF assms] by (simp add: perform_read_def perform_lanes_def)
next
  case (Aborting s)
  have q: "interactive_first (sc_queue st)" using assms by (simp add: sched_ok_def sched_base_def)
  have "filter P (filter en_interactive (sc_queue st) @ filter (\<lambda>e. \<not> en_interactive e) (sc_queue st)) = filter P (sc_queue st)" for P
    by (simp only: lanes_queue [OF q])
  then show ?thesis
    using Aborting abort_ok [OF assms]
    by (simp add: perform_read_def perform_lanes_def abort_signal_def lanes_of_def conj_commute flip: filter_append map_append)
next
  case (Settling i)
  show ?thesis
  proof (cases "i \<in> set (sc_sent st)")
    case True
    then show ?thesis
      using Settling settle_ok [OF assms True] drain_lanes [OF settle_base [OF assms True]]
      by (simp add: perform_read_def perform_lanes_def settle_def) (simp add: lanes_of_def)
  qed (use Settling assms in \<open>simp add: perform_read_def perform_lanes_def lanes_of_def\<close>)
qed

lemma run_read_lanes:
  "sched_ok st \<Longrightarrow> lanes_of (fold perform_read evs st) = fold perform_lanes evs (lanes_of st) \<and> sched_ok (fold perform_read evs st)"
proof (induction evs arbitrary: st)
  case (Cons ev evs)
  with perform_read_lanes [OF Cons.prems, of ev] show ?case by simp
qed simp

section \<open>Draining the scheduler\<close>

text \<open>The requests the scheduler has in hand, and the settling of the oldest one it sent.\<close>

definition in_hand :: "scheduler \<Rightarrow> nat" where
  "in_hand st = length (sc_queue st) + length (sc_sent st)"

definition settle_oldest :: "scheduler \<Rightarrow> scheduler" where
  "settle_oldest st = (case sc_sent st of [] \<Rightarrow> st | i # _ \<Rightarrow> settle i st)"

lemma drain_in_hand: "in_hand (drain st) \<le> in_hand st"
proof (induction st rule: drain.induct)
  case (1 st)
  then show ?case
    by (subst drain.simps) (auto simp: in_hand_def reject_entry_def send_entry_def split: list.splits)
qed

lemma settle_oldest_ok: "sched_ok st \<Longrightarrow> sched_ok (settle_oldest st)"
  by (auto simp: settle_oldest_def split: list.splits intro: settle_ok)

lemma settle_oldest_in_hand:
  assumes "sched_ok st" and "0 < in_hand st"
  shows "in_hand (settle_oldest st) < in_hand st"
proof (cases "sc_sent st")
  case Nil
  with assms show ?thesis by (auto simp: sched_ok_def sched_base_def in_hand_def)
next
  case (Cons i r)
  let ?st = "st\<lparr>sc_active := sc_active st - 1, sc_sent := remove1 i (sc_sent st), sc_settled := sc_settled st @ [i]\<rparr>"
  have "in_hand ?st < in_hand st" by (simp add: in_hand_def Cons)
  with drain_in_hand [of ?st] show ?thesis by (simp add: settle_oldest_def Cons settle_def)
qed

lemma settle_all_ok:
  "sched_ok st \<Longrightarrow> in_hand st \<le> n \<Longrightarrow> sched_ok ((settle_oldest ^^ n) st) \<and> in_hand ((settle_oldest ^^ n) st) = 0"
proof (induction n arbitrary: st)
  case (Suc n)
  have "in_hand (settle_oldest st) \<le> n"
  proof (cases "in_hand st = 0")
    case True
    then have "settle_oldest st = st" by (simp add: in_hand_def settle_oldest_def)
    with True show ?thesis by simp
  next
    case False
    with settle_oldest_in_hand [OF Suc.prems(1)] Suc.prems(2) show ?thesis by simp
  qed
  with Suc.IH [OF settle_oldest_ok [OF Suc.prems(1)]] show ?case by (simp add: funpow_swap1)
qed simp

lemma settle_all_next: "sc_next ((settle_oldest ^^ n) st) = sc_next st"
proof (induction n)
  case (Suc n)
  have drain: "sc_next (drain st) = sc_next st" for st
  proof (induction st rule: drain.induct)
    case (1 st)
    then show ?case by (subst drain.simps) (auto simp: reject_entry_def send_entry_def split: list.splits)
  qed
  have "sc_next (settle_oldest st) = sc_next st" for st
    by (simp add: settle_oldest_def settle_def drain split: list.splits)
  with Suc show ?case by simp
qed simp

section \<open>Properties\<close>

text \<open>C29. In every state a scheduler can reach, it counts the requests it sent and not settled, at
  most its limit; its queue is at most its limit; nothing waits while a place is free; explicit
  quotes wait in front of the other reads; and every request it took is in exactly one place.\<close>

theorem read_queue_invariant:
  assumes "createRpcReadScheduler a q = Inr st0" and "sched_step\<^sup>*\<^sup>* st0 st"
  shows "sc_active st = length (sc_sent st) \<and> sc_active st \<le> sc_maxActive st0
    \<and> length (sc_queue st) \<le> sc_maxQueued st0 \<and> (sc_active st < sc_maxActive st0 \<longrightarrow> sc_queue st = [])
    \<and> sorted_wrt (\<lambda>a b. en_interactive b \<longrightarrow> en_interactive a) (sc_queue st)
    \<and> mset (map en_id (sc_queue st) @ sc_sent st @ sc_settled st @ sc_rejected st) = mset [0..<sc_next st]"
proof -
  from assms(1) have "\<exists>a q. createRpcReadScheduler a q = Inr st0" by blast
  from read_pool.reachable_inv [OF this assms(2)] have "sched_ok st" .
  moreover have "limits st = limits st0" using assms(2) by (rule run_limits)
  ultimately show ?thesis
    by (simp add: sched_ok_def sched_base_def places_def limits_def interactive_first_def ac_simps)
qed

definition slot_read :: "jsval option" where
  "slot_read = Some (Obj [(''method'', Str ''getSlot'')])"

definition sample_schedulers :: "scheduler list" where
  "sample_schedulers =
     (let a = projr (createRpcReadScheduler (Num (Fin 1)) (Num (Fin 2)));
          b = snd (scheduledFetch slot_read None None a); c = snd (scheduledFetch slot_read (Some 7) (Some ''trade-preview'') b) in
      [a, b, c, settle 0 c])"

lemma sample_schedulers_run:
  "createRpcReadScheduler (Num (Fin 1)) (Num (Fin 2)) = Inr (sample_schedulers ! 0)"
  "sched_step\<^sup>*\<^sup>* (sample_schedulers ! 0) (sample_schedulers ! 2)"
  "sched_step\<^sup>*\<^sup>* (sample_schedulers ! 0) (sample_schedulers ! 3)"
proof -
  show "createRpcReadScheduler (Num (Fin 1)) (Num (Fin 2)) = Inr (sample_schedulers ! 0)" by code_simp
  have "sched_step (sample_schedulers ! 0) (sample_schedulers ! 1)"
    by (rule sched_step.Fetch [of slot_read None None _ Scheduled]) code_simp
  moreover have "sched_step (sample_schedulers ! 1) (sample_schedulers ! 2)"
    by (rule sched_step.Fetch [of slot_read "Some 7" "Some ''trade-preview''" _ Scheduled]) code_simp
  ultimately show two: "sched_step\<^sup>*\<^sup>* (sample_schedulers ! 0) (sample_schedulers ! 2)" by (simp add: rtranclp.intros)
  have "0 \<in> set (sc_sent (sample_schedulers ! 2))" by code_simp
  moreover have "sample_schedulers ! 3 = settle 0 (sample_schedulers ! 2)" by (simp add: sample_schedulers_def Let_def)
  ultimately have "sched_step (sample_schedulers ! 2) (sample_schedulers ! 3)" by (simp add: sched_step.Settle)
  with two show "sched_step\<^sup>*\<^sup>* (sample_schedulers ! 0) (sample_schedulers ! 3)" by (rule rtranclp.rtrancl_into_rtrancl)
qed

theorem read_queue_invariant_witness:
  "sc_active (sample_schedulers ! 2) \<le> sc_maxActive (sample_schedulers ! 0) \<and> length (sc_queue (sample_schedulers ! 2)) = 1"
proof -
  have "length (sc_queue (sample_schedulers ! 2)) = 1" by code_simp
  with read_queue_invariant [OF sample_schedulers_run(1,2)] show ?thesis by blast
qed

text \<open>Seen through its waiting, running and finished requests a scheduler is also a pool of bounded concurrency.\<close>

lemma read_queue_pool:
  assumes "createRpcReadScheduler a q = Inr st0" and "sched_step\<^sup>*\<^sup>* st0 st"
  shows "pool_step\<^sup>*\<^sup>* (pool_of st0) (pool_of st)"
  using read_pool.run_refines [OF _ assms(2)] assms(1) by blast

text \<open>C30. A scheduler refines the specification with two lanes: under any sequence of fetches, aborts and
  settlements its one queue holds the lane of quotes followed by the lane of the other reads, each first
  come, first served, and it starts, settles and rejects exactly the requests the specification does, in
  the same order; every fetch gets the same answer.\<close>

theorem read_queue_refines:
  assumes "createRpcReadScheduler a q = Inr st0"
  defines "start \<equiv> \<lparr>ln_limit = sc_maxActive st0, ln_room = sc_maxQueued st0, ln_quotes = [], ln_reads = [], ln_aborted = [],
    ln_running = [], ln_settled = [], ln_rejected = [], ln_next = 0\<rparr>"
  shows "lanes_of (fold perform_read evs st0) = fold perform_lanes evs start
    \<and> sc_queue (fold perform_read evs st0) = ln_quotes (fold perform_lanes evs start) @ ln_reads (fold perform_lanes evs start)
    \<and> fst (scheduledFetch parsed signal purpose (fold perform_read evs st0))
        = fst (lane_fetch parsed signal purpose (fold perform_lanes evs start))"
proof -
  have "lanes_of st0 = start" using assms by (auto simp: createRpcReadScheduler_def lanes_of_def split: if_splits)
  with run_read_lanes [OF created_ok [OF assms(1)], of evs]
  have l: "lanes_of (fold perform_read evs st0) = fold perform_lanes evs start" and ok: "sched_ok (fold perform_read evs st0)"
    by simp_all
  have "interactive_first (sc_queue (fold perform_read evs st0))" using ok by (simp add: sched_ok_def sched_base_def)
  then have "sc_queue (fold perform_read evs st0) = ln_quotes (lanes_of (fold perform_read evs st0)) @ ln_reads (lanes_of (fold perform_read evs st0))"
    by (simp add: lanes_of_def lanes_queue)
  then show ?thesis using l fetch_lanes [OF ok] by metis
qed

text \<open>One place: a read runs, two more wait, and a quote that comes last is sent before them.\<close>

definition sample_events :: "read_event list" where
  "sample_events = [Fetching slot_read None None, Fetching slot_read (Some 7) None, Fetching slot_read None (Some ''trade-preview''),
     Settling 0]"

theorem read_queue_refines_witness:
  "sc_sent (fold perform_read sample_events (sample_schedulers ! 0)) = [2]
    \<and> map en_id (ln_reads (fold perform_lanes sample_events \<lparr>ln_limit = sc_maxActive (sample_schedulers ! 0),
        ln_room = sc_maxQueued (sample_schedulers ! 0), ln_quotes = [], ln_reads = [], ln_aborted = [],
        ln_running = [], ln_settled = [], ln_rejected = [], ln_next = 0\<rparr>)) = [1]"
proof -
  have "sc_sent (fold perform_read sample_events (sample_schedulers ! 0)) = [2]"
    "map en_id (filter (\<lambda>e. \<not> en_interactive e) (sc_queue (fold perform_read sample_events (sample_schedulers ! 0)))) = [1]"
    by code_simp+
  moreover have "ln_reads (lanes_of st) = filter (\<lambda>e. \<not> en_interactive e) (sc_queue st)" for st by (simp add: lanes_of_def)
  moreover note lanes = read_queue_refines [OF sample_schedulers_run(1), of sample_events, THEN conjunct1]
  ultimately show ?thesis by (simp only: lanes [symmetric])
qed

text \<open>C31. No read is lost: when the requests sent settle, the oldest first, then after as many
  settlements as there are requests in hand nothing waits and nothing runs, and every request
  ever taken has settled or was rejected by its signal.\<close>

theorem read_queue_drains:
  assumes "createRpcReadScheduler a q = Inr st0" and "sched_step\<^sup>*\<^sup>* st0 st"
  defines "st' \<equiv> (settle_oldest ^^ in_hand st) st"
  shows "sc_queue st' = [] \<and> sc_sent st' = [] \<and> mset (sc_settled st' @ sc_rejected st') = mset [0..<sc_next st]"
proof -
  from assms(1) have "\<exists>a q. createRpcReadScheduler a q = Inr st0" by blast
  from read_pool.reachable_inv [OF this assms(2)] have "sched_ok st" .
  from settle_all_ok [OF this order.refl] have "sched_ok st'" "in_hand st' = 0" by (simp_all add: st'_def)
  moreover have "sc_next st' = sc_next st" by (simp add: st'_def settle_all_next)
  ultimately show ?thesis by (auto simp: in_hand_def sched_ok_def sched_base_def places_def)
qed

theorem read_queue_drains_witness: "sc_queue ((settle_oldest ^^ in_hand (sample_schedulers ! 2)) (sample_schedulers ! 2)) = []"
  using read_queue_drains [OF sample_schedulers_run(1,2)] by blast

end
