(* ===== verification/ReadCache.thy ===== *)
theory ReadCache
  imports StepSystem JsVal
begin

text \<open>
  The shared cache of read-only loaders on the server (\<open>server/read-cache.mjs\<close>): values served
  while they are fresh, a background refresh while they are stale, and one load for the callers
  that wait.  A cache is the closure of \<open>createReadCache\<close>, its events are a call, and the
  success or the failure of a load.  Times are milliseconds; \<open>now\<close> is an argument of every event.
\<close>

section \<open>server/read-cache.mjs\<close>

record cache_options =
  co_ttlMs :: int
  co_maxEntries :: int
  co_staleMs :: int

text \<open>The entries of the map are shared objects; \<open>ce_id\<close> is the identity of one, and of the promise
  of its load.\<close>

record cache_entry =
  ce_id :: nat
  ce_pending :: bool
  ce_expires :: int
  ce_value :: jsval
  ce_hasValue :: bool
  ce_staleUntil :: int

record cache_load =
  ld_id :: nat
  ld_key :: string
  ld_previous :: "cache_entry option"

text \<open>\<open>rc_loads\<close> are the loads that have not settled, \<open>rc_results\<close> what the successful ones gave,
  for which key and when.\<close>

record cache =
  rc_entries :: "(string, cache_entry) omap"
  rc_loads :: "cache_load list"
  rc_results :: "(nat \<times> string \<times> jsval \<times> int) list"
  rc_next :: nat

definition createReadCache :: cache where
  "createReadCache = \<lparr>rc_entries = [], rc_loads = [], rc_results = [], rc_next = 0\<rparr>"

definition new_entry :: "nat \<Rightarrow> cache_entry option \<Rightarrow> cache_entry" where
  "new_entry i previous =
     \<lparr>ce_id = i, ce_pending = True, ce_expires = 0,
      ce_value = (case previous of Some p \<Rightarrow> ce_value p | None \<Rightarrow> Undef),
      ce_hasValue = (case previous of Some p \<Rightarrow> ce_hasValue p | None \<Rightarrow> False),
      ce_staleUntil = (case previous of Some p \<Rightarrow> ce_staleUntil p | None \<Rightarrow> 0)\<rparr>"

definition load :: "cache_options \<Rightarrow> string \<Rightarrow> cache_entry option \<Rightarrow> cache \<Rightarrow> cache" where
  "load opt key previous st =
     (let entries = (if previous = None \<and> int (length (rc_entries st)) \<ge> co_maxEntries opt then tl (rc_entries st) else rc_entries st) in
      st\<lparr>rc_entries := oset key (new_entry (rc_next st) previous) entries,
         rc_loads := rc_loads st @ [\<lparr>ld_id = rc_next st, ld_key = key, ld_previous = previous\<rparr>],
         rc_next := rc_next st + 1\<rparr>)"

text \<open>A call answers with the promise of a load, or with a value.\<close>

datatype cache_answer = OfLoad nat | OfValue jsval

definition read_through :: "cache_options \<Rightarrow> int \<Rightarrow> string \<Rightarrow> cache \<Rightarrow> cache_answer \<times> cache" where
  "read_through opt now key st =
     (let fresh_load = (OfLoad (rc_next st), load opt key None st) in
      case map_of (rc_entries st) key of
        None \<Rightarrow> fresh_load
      | Some e \<Rightarrow>
          if ce_pending e \<and> \<not> ce_hasValue e \<or> ce_expires e > now then (OfLoad (ce_id e), st)
          else if ce_hasValue e \<and> ce_staleUntil e > now then
            (OfValue (ce_value e), if \<not> ce_pending e then load opt key (Some e) st else st)
          else fresh_load)"

text \<open>The entry of a settled load is updated where it still is in the map; the object of one that is
  not is reachable by nothing else.\<close>

definition settle_entry :: "cache_load \<Rightarrow> ((string, cache_entry) omap \<Rightarrow> (string, cache_entry) omap) \<Rightarrow> cache \<Rightarrow> cache" where
  "settle_entry l f st =
     st\<lparr>rc_loads := remove1 l (rc_loads st),
        rc_entries := (case map_of (rc_entries st) (ld_key l) of
           Some e \<Rightarrow> if ce_id e = ld_id l then f (rc_entries st) else rc_entries st
         | None \<Rightarrow> rc_entries st)\<rparr>"

definition load_succeeds :: "cache_options \<Rightarrow> int \<Rightarrow> cache_load \<Rightarrow> jsval \<Rightarrow> cache \<Rightarrow> cache" where
  "load_succeeds opt now l v st =
     (let expires = now + co_ttlMs opt in
      settle_entry l (oset (ld_key l) \<lparr>ce_id = ld_id l, ce_pending = False, ce_expires = expires, ce_value = v,
          ce_hasValue = True, ce_staleUntil = expires + co_staleMs opt\<rparr>)
        (st\<lparr>rc_results := (ld_id l, ld_key l, v, now) # rc_results st\<rparr>))"

definition load_fails :: "int \<Rightarrow> cache_load \<Rightarrow> cache \<Rightarrow> cache" where
  "load_fails now l st =
     settle_entry l (case ld_previous l of
         Some p \<Rightarrow> if ce_hasValue p \<and> ce_staleUntil p > now then oset (ld_key l) p else filter (\<lambda>kv. fst kv \<noteq> ld_key l)
       | None \<Rightarrow> filter (\<lambda>kv. fst kv \<noteq> ld_key l)) st"

inductive cache_step :: "cache_options \<Rightarrow> cache \<Rightarrow> cache \<Rightarrow> bool" for opt where
  Read: "read_through opt now key st = (answer, st') \<Longrightarrow> cache_step opt st st'"
| Succeed: "l \<in> set (rc_loads st) \<Longrightarrow> cache_step opt st (load_succeeds opt now l v st)"
| Fail: "l \<in> set (rc_loads st) \<Longrightarrow> cache_step opt st (load_fails now l st)"

inductive_cases cache_stepE: "cache_step opt st st'"

section \<open>What holds in every state\<close>

text \<open>Load \<open>i\<close> gave value \<open>v\<close> for \<open>key\<close> at time \<open>t\<close>.\<close>

definition loaded :: "cache \<Rightarrow> nat \<Rightarrow> string \<Rightarrow> jsval \<Rightarrow> int \<Rightarrow> bool" where
  "loaded st i key v t \<longleftrightarrow> (i, key, v, t) \<in> set (rc_results st)"

definition loading :: "cache \<Rightarrow> nat \<Rightarrow> string \<Rightarrow> bool" where
  "loading st i key \<longleftrightarrow> (\<exists>l \<in> set (rc_loads st). ld_id l = i \<and> ld_key l = key)"

text \<open>The value an entry holds was loaded for its key, and is stale when it should be.\<close>

definition value_ok :: "cache_options \<Rightarrow> cache \<Rightarrow> string \<Rightarrow> cache_entry \<Rightarrow> bool" where
  "value_ok opt st key e \<longleftrightarrow>
     (\<exists>i t. loaded st i key (ce_value e) t \<and> ce_staleUntil e = t + co_ttlMs opt + co_staleMs opt)"

definition done_ok :: "cache_options \<Rightarrow> cache \<Rightarrow> string \<Rightarrow> cache_entry \<Rightarrow> bool" where
  "done_ok opt st key e \<longleftrightarrow> \<not> ce_pending e \<and> ce_hasValue e \<and> value_ok opt st key e
     \<and> (\<exists>t. loaded st (ce_id e) key (ce_value e) t \<and> ce_expires e = t + co_ttlMs opt)"

definition entry_ok :: "cache_options \<Rightarrow> cache \<Rightarrow> string \<Rightarrow> cache_entry \<Rightarrow> bool" where
  "entry_ok opt st key e \<longleftrightarrow>
     (if ce_pending e then loading st (ce_id e) key \<and> (ce_hasValue e \<longrightarrow> value_ok opt st key e) else done_ok opt st key e)"

definition cache_ok :: "cache_options \<Rightarrow> cache \<Rightarrow> bool" where
  "cache_ok opt st \<longleftrightarrow> distinct (map fst (rc_entries st))
     \<and> int (length (rc_entries st)) \<le> max 1 (co_maxEntries opt)
     \<and> (\<forall>(key, e) \<in> set (rc_entries st). entry_ok opt st key e)
     \<and> (\<forall>l \<in> set (rc_loads st). ld_id l < rc_next st \<and> (\<forall>p. ld_previous l = Some p \<longrightarrow> done_ok opt st (ld_key l) p))
     \<and> distinct (map ld_id (rc_loads st))"

lemma value_ok_mono: "value_ok opt st key e \<Longrightarrow> set (rc_results st) \<subseteq> set (rc_results st') \<Longrightarrow> value_ok opt st' key e"
  by (auto simp: value_ok_def loaded_def)

lemma done_ok_mono: "done_ok opt st key e \<Longrightarrow> set (rc_results st) \<subseteq> set (rc_results st') \<Longrightarrow> done_ok opt st' key e"
  by (auto simp: done_ok_def loaded_def intro: value_ok_mono)

lemma entry_ok_mono:
  assumes "entry_ok opt st key e" and "set (rc_results st) \<subseteq> set (rc_results st')"
    and "loading st (ce_id e) key \<Longrightarrow> loading st' (ce_id e) key"
  shows "entry_ok opt st' key e"
  using assms value_ok_mono done_ok_mono unfolding entry_ok_def by (metis (no_types, lifting))

lemma done_entry_ok: "done_ok opt st key e \<Longrightarrow> entry_ok opt st key e"
  by (simp add: entry_ok_def done_ok_def)

lemma length_oset: "length (oset k v m) = (if k \<in> fst ` set m then length m else Suc (length m))"
  by (induction k v m rule: oset.induct) auto

lemma oset_replaces:
  assumes "distinct (map fst m)" and "k \<in> fst ` set m" and "v \<in> E"
  shows "distinct (map fst (oset k v m)) \<and> length (oset k v m) \<le> length m
    \<and> set (oset k v m) \<subseteq> {kv \<in> set m. fst kv \<noteq> k} \<union> {k} \<times> E"
proof -
  have "set (oset k v m) \<subseteq> {kv \<in> set m. fst kv \<noteq> k} \<union> {(k, v)}"
    using assms(1) by (induction k v m rule: oset.induct) (auto simp: rev_image_eqI)
  then show ?thesis using assms by (auto simp: length_oset)
qed

lemma entries_oset:
  "\<forall>(k, e) \<in> set m. P k e \<Longrightarrow> P key e' \<Longrightarrow> \<forall>(k, e) \<in> set (oset key e' m). P k e"
  using set_oset [of key e' m] by blast

lemma load_entries:
  assumes "cache_ok opt st" and "\<And>p. previous = Some p \<Longrightarrow> map_of (rc_entries st) key = Some p \<and> \<not> ce_pending p"
  defines "m \<equiv> (if previous = None \<and> int (length (rc_entries st)) \<ge> co_maxEntries opt then tl (rc_entries st) else rc_entries st)"
  shows "distinct (map fst m)" and "set m \<subseteq> set (rc_entries st)"
    and "int (length (oset key e m)) \<le> max 1 (co_maxEntries opt)"
proof -
  have d: "distinct (map fst (rc_entries st))" and len: "int (length (rc_entries st)) \<le> max 1 (co_maxEntries opt)"
    using assms(1) by (auto simp: cache_ok_def)
  show "distinct (map fst m)" using d by (simp add: m_def map_tl distinct_tl)
  show "set m \<subseteq> set (rc_entries st)" by (cases "rc_entries st") (auto simp: m_def)
  show "int (length (oset key e m)) \<le> max 1 (co_maxEntries opt)"
  proof (cases previous)
    case None
    with len show ?thesis by (auto simp: m_def length_oset)
  next
    case (Some p)
    with assms(2) have "key \<in> fst ` set (rc_entries st)" by (metis map_of_eq_None_iff option.distinct(1))
    with Some len show ?thesis by (simp add: m_def length_oset)
  qed
qed

lemma load_ok:
  assumes ok: "cache_ok opt st" and p: "\<And>p. previous = Some p \<Longrightarrow> map_of (rc_entries st) key = Some p \<and> \<not> ce_pending p"
  shows "cache_ok opt (load opt key previous st)"
proof -
  let ?st = "load opt key previous st"
  define m where "m = (if previous = None \<and> int (length (rc_entries st)) \<ge> co_maxEntries opt then tl (rc_entries st) else rc_entries st)"
  note m = load_entries [of opt st previous key, OF ok p, folded m_def]
  have st: "rc_entries ?st = oset key (new_entry (rc_next st) previous) m" "rc_next ?st = Suc (rc_next st)"
    "rc_loads ?st = rc_loads st @ [\<lparr>ld_id = rc_next st, ld_key = key, ld_previous = previous\<rparr>]" "rc_results ?st = rc_results st"
    by (simp_all add: load_def m_def Let_def)
  have prev: "done_ok opt st key e" if "previous = Some e" for e
    using p [OF that] ok by (auto simp: cache_ok_def entry_ok_def dest!: map_of_SomeD)
  have new: "entry_ok opt ?st key (new_entry (rc_next st) previous)"
    using prev by (auto simp: entry_ok_def new_entry_def loading_def st value_ok_def loaded_def done_ok_def split: option.splits)
  have "\<forall>(k, e) \<in> set m. entry_ok opt ?st k e"
  proof (clarify)
    fix k e assume "(k, e) \<in> set m"
    with m(2) ok have "entry_ok opt st k e" by (auto simp: cache_ok_def)
    then show "entry_ok opt ?st k e" by (rule entry_ok_mono) (auto simp: st loading_def)
  qed
  then have "\<forall>(k, e) \<in> set (rc_entries ?st). entry_ok opt ?st k e" unfolding st by (rule entries_oset [where P = "entry_ok opt (load opt key previous st)"]) (rule new)
  moreover have "done_ok opt ?st k e" if "done_ok opt st k e" for k e using that by (rule done_ok_mono) (simp add: st)
  ultimately show ?thesis using ok m prev unfolding cache_ok_def st by (auto simp: less_Suc_eq)
qed

lemma settle_entry_ok:
  assumes ok: "cache_ok opt st" and l: "l \<in> set (rc_loads st)" and r: "set (rc_results st) \<subseteq> set rs"
    and f: "\<And>m. distinct (map fst m) \<Longrightarrow> ld_key l \<in> fst ` set m \<Longrightarrow>
      distinct (map fst (f m)) \<and> length (f m) \<le> length m \<and> set (f m) \<subseteq> {kv \<in> set m. fst kv \<noteq> ld_key l} \<union> {ld_key l} \<times> E"
    and E: "\<And>e. e \<in> E \<Longrightarrow> done_ok opt (st\<lparr>rc_results := rs\<rparr>) (ld_key l) e"
  shows "cache_ok opt (settle_entry l f (st\<lparr>rc_results := rs\<rparr>))"
proof -
  let ?st = "settle_entry l f (st\<lparr>rc_results := rs\<rparr>)"
  have st: "rc_next ?st = rc_next st" "rc_loads ?st = remove1 l (rc_loads st)" "rc_results ?st = rs"
    by (simp_all add: settle_entry_def)
  have d: "distinct (map fst (rc_entries st))" and dl: "distinct (map ld_id (rc_loads st))" using ok by (auto simp: cache_ok_def)
  have keep: "entry_ok opt ?st k e" if "(k, e) \<in> set (rc_entries st)" "k = ld_key l \<longrightarrow> ce_id e \<noteq> ld_id l" for k e
  proof (rule entry_ok_mono [of opt st])
    show "entry_ok opt st k e" using ok that(1) by (auto simp: cache_ok_def)
    show "set (rc_results st) \<subseteq> set (rc_results ?st)" using r by (simp add: st)
    show "loading ?st (ce_id e) k" if "loading st (ce_id e) k"
    proof -
      from that obtain l' where l': "l' \<in> set (rc_loads st)" "ld_id l' = ce_id e" "ld_key l' = k" by (auto simp: loading_def)
      with \<open>k = ld_key l \<longrightarrow> ce_id e \<noteq> ld_id l\<close> have "l' \<noteq> l" by auto
      with l' show ?thesis by (auto simp: loading_def st)
    qed
  qed
  have "distinct (map fst (rc_entries ?st)) \<and> length (rc_entries ?st) \<le> length (rc_entries st)
    \<and> (\<forall>(k, e) \<in> set (rc_entries ?st). entry_ok opt ?st k e)"
  proof (cases "\<exists>e. map_of (rc_entries st) (ld_key l) = Some e \<and> ce_id e = ld_id l")
    case True
    then have e: "rc_entries ?st = f (rc_entries st)" by (auto simp: settle_entry_def)
    from True have "ld_key l \<in> fst ` set (rc_entries st)" by (metis map_of_eq_None_iff option.distinct(1))
    note f = f [OF d this]
    have "entry_ok opt ?st k e" if "(k, e) \<in> set (f (rc_entries st))" for k e
    proof (cases "k = ld_key l")
      case True
      with that f have "e \<in> E" by auto
      from E [OF this] have "done_ok opt ?st (ld_key l) e" by (rule done_ok_mono) (simp add: st)
      with True show ?thesis by (simp add: done_entry_ok)
    next
      case False
      with that f keep show ?thesis by auto
    qed
    with f show ?thesis by (auto simp: e)
  next
    case False
    then have e: "rc_entries ?st = rc_entries st" by (auto simp: settle_entry_def split: option.splits)
    have "k = ld_key l \<longrightarrow> ce_id e \<noteq> ld_id l" if "(k, e) \<in> set (rc_entries st)" for k e
      using False d that by (metis map_of_eq_Some_iff)
    with keep d show ?thesis by (auto simp: e)
  qed
  moreover have "done_ok opt ?st k e" if "done_ok opt st k e" for k e using that by (rule done_ok_mono) (simp add: st r)
  moreover have "distinct (map ld_id (remove1 l (rc_loads st)))" using dl by (simp add: distinct_map distinct_remove1 inj_on_def set_remove1_eq)
  ultimately show ?thesis using ok unfolding cache_ok_def st by (auto dest: notin_set_remove1 set_remove1_subset [THEN subsetD])
qed

lemma load_succeeds_ok:
  assumes "cache_ok opt st" and "l \<in> set (rc_loads st)"
  shows "cache_ok opt (load_succeeds opt now l v st)"
  unfolding load_succeeds_def Let_def
proof (rule settle_entry_ok [OF assms, where E = "{\<lparr>ce_id = ld_id l, ce_pending = False, ce_expires = now + co_ttlMs opt,
    ce_value = v, ce_hasValue = True, ce_staleUntil = now + co_ttlMs opt + co_staleMs opt\<rparr>}"], goal_cases)
  case 1
  show ?case by auto
next
  case (2 m)
  then show ?case by (intro oset_replaces) auto
next
  case (3 e)
  then show ?case by (auto simp: done_ok_def value_ok_def loaded_def)
qed

lemma load_fails_ok:
  assumes ok: "cache_ok opt st" and l: "l \<in> set (rc_loads st)"
  shows "cache_ok opt (load_fails now l st)"
proof -
  have "cache_ok opt (settle_entry l (case ld_previous l of
         Some p \<Rightarrow> if ce_hasValue p \<and> ce_staleUntil p > now then oset (ld_key l) p else filter (\<lambda>kv. fst kv \<noteq> ld_key l)
       | None \<Rightarrow> filter (\<lambda>kv. fst kv \<noteq> ld_key l)) (st\<lparr>rc_results := rc_results st\<rparr>))"
  proof (rule settle_entry_ok [OF assms, where E = "set_option (ld_previous l)"], goal_cases)
    case 1
    show ?case by simp
  next
    case (2 m)
    have drop: "distinct (map fst (filter (\<lambda>kv. fst kv \<noteq> ld_key l) m))" using 2(1) by (simp add: distinct_map_filter)
    show ?case
    proof (cases "\<exists>p. ld_previous l = Some p \<and> ce_hasValue p \<and> ce_staleUntil p > now")
      case False
      with drop show ?thesis by (auto split: option.splits)
    next
      case True
      then obtain p where p: "ld_previous l = Some p" "ce_hasValue p" "ce_staleUntil p > now" by auto
      with oset_replaces [OF 2, of p "set_option (ld_previous l)"] show ?thesis by simp
    qed
  next
    case (3 e)
    with ok l show ?case by (auto simp: cache_ok_def)
  qed
  then show ?thesis by (simp add: load_fails_def)
qed

lemma read_through_ok:
  assumes "cache_ok opt st" and "read_through opt now key st = (answer, st')"
  shows "cache_ok opt st'"
  using assms load_ok [OF assms(1)]
  by (auto simp: read_through_def Let_def split: option.splits if_splits)

lemma created_cache_ok: "cache_ok opt createReadCache"
  by (simp add: createReadCache_def cache_ok_def)

lemma cache_step_ok: "cache_ok opt st \<Longrightarrow> cache_step opt st st' \<Longrightarrow> cache_ok opt st'"
  by (erule cache_stepE) (auto intro: read_through_ok load_succeeds_ok load_fails_ok)

interpretation read_cache: step_invariant "\<lambda>st. st = createReadCache" "cache_step opt" "cache_ok opt" for opt
  by unfold_locales (auto intro: created_cache_ok cache_step_ok)

text \<open>C32. A cache never serves a value beyond its time: in every state it can reach, a value it
  answers with was loaded for the same key less than \<open>ttlMs + staleMs\<close> ago, and a promise is that of
  a load of the key that still runs, or was loaded less than \<open>ttlMs\<close> ago; and it never holds more
  than \<open>maxEntries\<close> entries (one, when that is less).\<close>

theorem cache_serves_fresh_values:
  assumes "(cache_step opt)\<^sup>*\<^sup>* createReadCache st" and "read_through opt now key st = (answer, st')"
  shows "(case answer of
      OfValue v \<Rightarrow> \<exists>i t. loaded st i key v t \<and> now < t + co_ttlMs opt + co_staleMs opt
    | OfLoad i \<Rightarrow> loading st' i key \<or> (\<exists>v t. loaded st i key v t \<and> now < t + co_ttlMs opt))
    \<and> int (length (rc_entries st')) \<le> max 1 (co_maxEntries opt)"
proof -
  have ok: "cache_ok opt st" using read_cache.reachable_inv [OF refl assms(1)] .
  have bound: "int (length (rc_entries st')) \<le> max 1 (co_maxEntries opt)"
    using read_through_ok [OF ok assms(2)] by (simp add: cache_ok_def)
  have new: "loading (load opt key p st) (rc_next st) key" for p by (simp add: loading_def load_def Let_def)
  have entry: "entry_ok opt st key e" if "map_of (rc_entries st) key = Some e" for e
    using ok map_of_SomeD [OF that] by (auto simp: cache_ok_def)
  show ?thesis
  proof (cases "map_of (rc_entries st) key")
    case None
    with assms(2) new bound show ?thesis by (auto simp: read_through_def Let_def)
  next
    case (Some e)
    with assms(2) new bound entry [OF Some] show ?thesis
      by (auto simp: read_through_def Let_def entry_ok_def done_ok_def value_ok_def split: if_splits; metis)
  qed
qed

definition sample_options :: cache_options where
  "sample_options = \<lparr>co_ttlMs = 10, co_maxEntries = 2, co_staleMs = 5\<rparr>"

definition sample_caches :: "cache list" where
  "sample_caches =
     (let a = snd (read_through sample_options 0 ''slot'' createReadCache) in
      [a, load_succeeds sample_options 3 \<lparr>ld_id = 0, ld_key = ''slot'', ld_previous = None\<rparr> (Num (Fin 9)) a])"

theorem cache_serves_fresh_values_witness:
  "fst (read_through sample_options 14 ''slot'' (sample_caches ! 1)) = OfValue (Num (Fin 9))
    \<and> (\<exists>i t. loaded (sample_caches ! 1) i ''slot'' (Num (Fin 9)) t \<and> 14 < t + 15)"
proof -
  let ?l = "\<lparr>ld_id = 0, ld_key = ''slot'', ld_previous = None\<rparr> :: cache_load"
  have "cache_step sample_options createReadCache (sample_caches ! 0)"
    by (rule Read [of _ 0 "''slot''" _ "OfLoad 0"]) code_simp
  moreover have "?l \<in> set (rc_loads (sample_caches ! 0))" by code_simp
  then have "cache_step sample_options (sample_caches ! 0) (load_succeeds sample_options 3 ?l (Num (Fin 9)) (sample_caches ! 0))"
    by (rule Succeed)
  then have "cache_step sample_options (sample_caches ! 0) (sample_caches ! 1)" by (simp add: sample_caches_def Let_def)
  ultimately have run: "(cache_step sample_options)\<^sup>*\<^sup>* createReadCache (sample_caches ! 1)" by (simp add: rtranclp.intros)
  have answer: "read_through sample_options 14 ''slot'' (sample_caches ! 1)
      = (OfValue (Num (Fin 9)), snd (read_through sample_options 14 ''slot'' (sample_caches ! 1)))" by code_simp
  from cache_serves_fresh_values [OF run answer] show ?thesis by (subst answer) (simp add: sample_options_def add.assoc)
qed

end
