(* ===== verification/RpcRetry.thy ===== *)
theory RpcRetry
  imports JsConv
begin

text \<open>
  Retries of an RPC operation (\<open>rpc-retry.js\<close>) and the pacing of the gateway
  (\<open>server/rpc-gateway-pacing.mjs\<close>).  The operation is a function of the attempt that gives a value
  or a thrown error; what the loop does to the outside is a list of events.
\<close>

section \<open>rpc-retry.js\<close>

definition RPC_QUOTA_COOLDOWN_MS :: int where
  "RPC_QUOTA_COOLDOWN_MS = 15 * 60000"

text \<open>\<open>String(error?.message || error || '')\<close>.\<close>

definition error_detail :: "jsval \<Rightarrow> string" where
  "error_detail error = to_str (jor (jor (oget error ''message'') error) (Str []))"

text \<open>The text after the first match of \<open>\b429\b\<close>; \<open>p\<close> tells whether a word character comes before.\<close>

fun after_429 :: "bool \<Rightarrow> string \<Rightarrow> string option" where
  "after_429 p [] = None"
| "after_429 p (c # s) =
     (if \<not> p \<and> take 3 (c # s) = ''429'' \<and> (case drop 2 s of [] \<Rightarrow> True | d # _ \<Rightarrow> \<not> is_word_char d) then Some (drop 2 s)
      else after_429 (is_word_char c) s)"

definition rpcQuotaExhausted :: "jsval \<Rightarrow> bool" where
  "rpcQuotaExhausted error =
     (case after_429 False (error_detail error) of
        Some rest \<Rightarrow> contains_text (map to_lower rest) ''max usage reached''
      | None \<Rightarrow> False)"

definition retryableRpcError :: "jsval \<Rightarrow> bool" where
  "retryableRpcError error =
     (let detail = error_detail error in
      \<not> rpcQuotaExhausted error
      \<and> (after_429 False detail \<noteq> None
         \<or> list_ex (contains_text (map to_lower detail))
             [''rate limit'', ''too many requests'', ''failed to fetch'', ''networkerror'', ''econnrefused'', ''timed out'',
              ''temporarily unavailable'']))"

definition rpcWorkerWaitMs :: "jsval \<Rightarrow> jsnum \<Rightarrow> jsnum" where
  "rpcWorkerWaitMs error intervalMs =
     (if rpcQuotaExhausted error then nmax intervalMs (nint RPC_QUOTA_COOLDOWN_MS) else intervalMs)"

text \<open>What the loop does to the outside: a call of the operation, of \<open>onRetry\<close>, and of \<open>wait\<close>.\<close>

datatype retry_event = Called nat | Retried nat jsval | Waited jsnum

datatype 'a retry_result = Returned 'a | Threw jsval | Refused string

definition retry_delay :: "jsval list \<Rightarrow> nat \<Rightarrow> jsnum" where
  "retry_delay delaysMs attempt =
     to_number (nullish (nullish (if attempt < length delaysMs then delaysMs ! attempt else Undef)
       (if delaysMs = [] then Undef else last delaysMs)) (Num (nint 0)))"

function retry_loop :: "(nat \<Rightarrow> jsval + 'a) \<Rightarrow> jsval list \<Rightarrow> nat \<Rightarrow> nat \<Rightarrow> jsval \<Rightarrow> 'a retry_result \<times> retry_event list" where
  "retry_loop operation delaysMs attempts attempt lastError =
     (if attempt < attempts then
        (case operation attempt of
           Inr v \<Rightarrow> (Returned v, [Called attempt])
         | Inl error \<Rightarrow>
             if \<not> retryableRpcError error \<or> attempt + 1 \<ge> attempts then (Threw error, [Called attempt])
             else
               (let (result, events) = retry_loop operation delaysMs attempts (attempt + 1) error in
                (result, [Called attempt, Retried (attempt + 1) error, Waited (retry_delay delaysMs attempt)] @ events)))
      else (Threw lastError, []))"
  by pat_completeness auto
termination
  by (relation "measure (\<lambda>(_, _, attempts, attempt, _). attempts - attempt)") auto

declare retry_loop.simps [simp del]

text \<open>\<open>operation\<close> is \<open>None\<close> when it is no function.\<close>

definition withRpcRetry :: "(nat \<Rightarrow> jsval + 'a) option \<Rightarrow> jsval \<Rightarrow> jsval list \<Rightarrow> 'a retry_result \<times> retry_event list" where
  "withRpcRetry operation attempts delaysMs =
     (case operation of
        None \<Rightarrow> (Refused ''An RPC operation is required.'', [])
      | Some op \<Rightarrow>
          if \<not> is_safe attempts \<or> safe_int attempts < 1 \<or> safe_int attempts > 5
          then (Refused ''RPC retry attempts must be between 1 and 5.'', [])
          else retry_loop op delaysMs (nat (safe_int attempts)) 0 Undef)"

section \<open>server/rpc-gateway-pacing.mjs\<close>

record gateway_pacing =
  gp_minIntervalMs :: int
  gp_blockIntervalMs :: int
  gp_sendIntervalMs :: int
  gp_maxConcurrent :: int

definition ends_with :: "string \<Rightarrow> string \<Rightarrow> bool" where
  "ends_with s t \<longleftrightarrow> length t \<le> length s \<and> drop (length s - length t) s = t"

text \<open>\<open>hostname\<close> is that of the parsed address, \<open>None\<close> when \<open>URL\<close> throws.\<close>

definition rpcGatewayPacing :: "string option \<Rightarrow> gateway_pacing res" where
  "rpcGatewayPacing hostname =
     (case hostname of
        None \<Rightarrow> throw ''Invalid RPC gateway pacing configuration''
      | Some h \<Rightarrow>
          let helius = (h = ''helius-rpc.com'' \<or> ends_with h ''.helius-rpc.com'') in
          Inr \<lparr>gp_minIntervalMs = (if helius then 150 else 500), gp_blockIntervalMs = 2500, gp_sendIntervalMs = 1000,
            gp_maxConcurrent = (if helius then 4 else 1)\<rparr>)"

section \<open>The loop\<close>

text \<open>A failure the loop retries.\<close>

definition retried :: "jsval + 'a \<Rightarrow> bool" where
  "retried r \<longleftrightarrow> (case r of Inl e \<Rightarrow> retryableRpcError e | Inr _ \<Rightarrow> False)"

definition outcome :: "jsval + 'a \<Rightarrow> 'a retry_result" where
  "outcome r = (case r of Inl e \<Rightarrow> Threw e | Inr v \<Rightarrow> Returned v)"

definition calls :: "retry_event list \<Rightarrow> nat list" where
  "calls events = List.map_filter (\<lambda>e. case e of Called i \<Rightarrow> Some i | _ \<Rightarrow> None) events"

definition waits :: "retry_event list \<Rightarrow> jsnum list" where
  "waits events = List.map_filter (\<lambda>e. case e of Waited t \<Rightarrow> Some t | _ \<Rightarrow> None) events"

lemma event_simps [simp]:
  "calls [] = []" "calls (Called i # es) = i # calls es" "calls (Retried i e # es) = calls es" "calls (Waited t # es) = calls es"
  "waits [] = []" "waits (Called i # es) = waits es" "waits (Retried i e # es) = waits es" "waits (Waited t # es) = t # waits es"
  by (simp_all add: calls_def waits_def List.map_filter_simps)

lemma retry_loop_outcome:
  assumes "attempt < attempts"
  shows "\<exists>k. attempt \<le> k \<and> k < attempts \<and> (\<forall>i. attempt \<le> i \<and> i < k \<longrightarrow> retried (operation i))
    \<and> (k + 1 = attempts \<or> \<not> retried (operation k))
    \<and> fst (retry_loop operation delaysMs attempts attempt lastError) = outcome (operation k)
    \<and> calls (snd (retry_loop operation delaysMs attempts attempt lastError)) = [attempt..<k + 1]
    \<and> waits (snd (retry_loop operation delaysMs attempts attempt lastError)) = map (retry_delay delaysMs) [attempt..<k]"
  using assms
proof (induction "attempts - attempt" arbitrary: attempt lastError)
  case (Suc n)
  show ?case
  proof (cases "retried (operation attempt) \<and> attempt + 1 < attempts")
    case False
    have "\<not> retried (operation attempt) \<or> attempt + 1 = attempts" using False Suc.prems by auto
    then have "fst (retry_loop operation delaysMs attempts attempt lastError) = outcome (operation attempt)
      \<and> snd (retry_loop operation delaysMs attempts attempt lastError) = [Called attempt]"
      using Suc.prems by (auto simp: retry_loop.simps [of operation] outcome_def retried_def split: sum.splits)
    with False Suc.prems show ?thesis by (intro exI [of _ attempt]) auto
  next
    case True
    then obtain e where e: "operation attempt = Inl e" "retryableRpcError e" by (auto simp: retried_def split: sum.splits)
    have "n = attempts - (attempt + 1)" and "attempt + 1 < attempts" using Suc.hyps(2) True by simp_all
    from Suc.hyps(1) [OF this, of e] obtain k where
      k: "attempt + 1 \<le> k" "k < attempts" "\<forall>i. attempt + 1 \<le> i \<and> i < k \<longrightarrow> retried (operation i)"
        "k + 1 = attempts \<or> \<not> retried (operation k)"
        "fst (retry_loop operation delaysMs attempts (attempt + 1) e) = outcome (operation k)"
        "calls (snd (retry_loop operation delaysMs attempts (attempt + 1) e)) = [attempt + 1..<k + 1]"
        "waits (snd (retry_loop operation delaysMs attempts (attempt + 1) e)) = map (retry_delay delaysMs) [attempt + 1..<k]"
      by blast
    have loop: "retry_loop operation delaysMs attempts attempt lastError =
        (fst (retry_loop operation delaysMs attempts (attempt + 1) e),
         [Called attempt, Retried (attempt + 1) e, Waited (retry_delay delaysMs attempt)] @ snd (retry_loop operation delaysMs attempts (attempt + 1) e))"
      using True e by (subst retry_loop.simps) (simp add: case_prod_beta)
    have "\<forall>i. attempt \<le> i \<and> i < k \<longrightarrow> retried (operation i)"
      using k(3) True by (metis Suc_eq_plus1 le_neq_implies_less Suc_leI)
    moreover have "[attempt..<k + 1] = attempt # [attempt + 1..<k + 1]" "[attempt..<k] = attempt # [attempt + 1..<k]"
      using k(1) by (simp_all add: upt_conv_Cons)
    ultimately show ?thesis using k unfolding loop by (intro exI [of _ k]) auto
  qed
qed simp

text \<open>C33. A retried operation ends after at most five calls: with the first attempt that succeeds or
  fails with an error that is not retried, or with the last one; the attempts called are exactly
  those before and it, in order, with the configured delay after every retried failure.\<close>

theorem withRpcRetry_ends:
  assumes "is_safe attempts" and "1 \<le> safe_int attempts" and "safe_int attempts \<le> 5"
  shows "\<exists>k < nat (safe_int attempts). (\<forall>i<k. retried (operation i))
    \<and> (k + 1 = nat (safe_int attempts) \<or> \<not> retried (operation k))
    \<and> fst (withRpcRetry (Some operation) attempts delaysMs) = outcome (operation k)
    \<and> calls (snd (withRpcRetry (Some operation) attempts delaysMs)) = [0..<k + 1] \<and> k < 5
    \<and> waits (snd (withRpcRetry (Some operation) attempts delaysMs)) = map (retry_delay delaysMs) [0..<k]"
proof -
  have "0 < nat (safe_int attempts)" "nat (safe_int attempts) \<le> 5" using assms by simp_all
  with retry_loop_outcome [of 0 "nat (safe_int attempts)" operation delaysMs Undef] show ?thesis
    using assms by (auto simp: withRpcRetry_def)
qed

definition flaky_read :: "nat \<Rightarrow> jsval + nat" where
  "flaky_read i = (if i = 0 then Inl (Obj [(''message'', Str ''HTTP 429: Too Many Requests'')]) else Inr (40 + i))"

theorem withRpcRetry_ends_witness:
  "\<exists>k<3. fst (withRpcRetry (Some flaky_read) (Num (Fin 3)) [Num (Fin 200), Num (Fin 600)]) = outcome (flaky_read k)
     \<and> calls (snd (withRpcRetry (Some flaky_read) (Num (Fin 3)) [Num (Fin 200), Num (Fin 600)])) = [0..<k + 1]"
proof -
  have "is_safe (Num (Fin 3))" "safe_int (Num (Fin 3)) = 3" by code_simp+
  with withRpcRetry_ends [of "Num (Fin 3)" flaky_read "[Num (Fin 200), Num (Fin 600)]"] show ?thesis by auto
qed

end
