(* ===== verification/Buyback.thy ===== *)
theory Buyback
  imports JsDate
begin

text \<open>
  Buybacks of the mint router V3: the orders of a source and what they have spent
  (\<open>server/v3-buyback-orders.mjs\<close>), the queue of a cycle (\<open>v3-buyback-cycle.mjs\<close>), orders over
  several collections (\<open>v3-buyback-aggregate.mjs\<close>), and the limits of the worker
  (\<open>v3-buyback-execution-policy.mjs\<close>, \<open>v3-buyback-worker-policy.mjs\<close>, the clip of \<open>v3-buyback-quote.mjs\<close>).
  The rows of the stored state are values; \<open>Object.entries\<close> of a map gives its rows in the order
  they were added.  \<open>localeCompare\<close>, the parsing of other dates, SHA-256 and \<open>PublicKey\<close> are parameters.
\<close>

section \<open>server/v3-buyback-orders.mjs\<close>

record buyback_state =
  bs_orders :: "(string, jsval) omap"
  bs_settlements :: "(string, jsval) omap"
  bs_launches :: "(string, jsval) omap"
  bs_collections :: "(string, jsval) omap"

definition verifiedV3BuybackOrder :: "jsval \<Rightarrow> bool" where
  "verifiedV3BuybackOrder row \<longleftrightarrow> oget row ''status'' = Str ''finalized''
     \<and> oget row ''finalized'' = Bool True \<and> oget row ''vaultDebitVerified'' = Bool True
     \<and> oget row ''burnInstructionVerified'' = Bool True"

record source_order =
  so_key :: string
  so_row :: jsval
  so_round :: jsnum

definition of_source :: "jsval \<Rightarrow> string \<times> jsval \<Rightarrow> bool" where
  "of_source source o1 \<longleftrightarrow> Str (fst o1) = source \<or> jeq (oget (snd o1) ''collectionSignature'') source"

definition source_order :: "jsval \<Rightarrow> string \<times> jsval \<Rightarrow> source_order res" where
  "source_order source o1 =
     bindR (jget (snd o1) ''round'') (\<lambda>r. Inr \<lparr>so_key = fst o1, so_row = snd o1,
       so_round = to_number (jor r (Num (nint (if Str (fst o1) = source then 1 else 0))))\<rparr>)"

definition v3BuybackSourceOrders :: "buyback_state \<Rightarrow> jsval \<Rightarrow> source_order list res" where
  "v3BuybackSourceOrders st source =
     bindR (mapR (source_order source) (filter (of_source source) (bs_orders st)))
       (\<lambda>os. Inr (sort_by (\<lambda>a b. \<not> nless (so_round b) (so_round a)) os))"

definition direct_spent :: "string \<Rightarrow> jsval \<Rightarrow> int res" where
  "direct_spent programId row =
     (if verifiedV3BuybackOrder row \<and> oget row ''programId'' = Str programId
      then to_bigint (jor (oget row ''spentLamports'') (Str ''0'')) else Inr 0)"

text \<open>The frozen budgets of an aggregate order take what it spent in their order; the loop gives
  what is left and what the budgets of the source took.\<close>

fun attribute_spent :: "jsval \<Rightarrow> jsval list \<Rightarrow> int \<Rightarrow> int \<Rightarrow> (int \<times> int) res" where
  "attribute_spent source [] remaining attributed = Inr (remaining, attributed)"
| "attribute_spent source (budget # budgets) remaining attributed =
     bindR (jget budget ''amountLamports'') (\<lambda>v. bindR (to_bigint v) (\<lambda>amount.
       let taken = (if remaining < amount then remaining else amount) in
       attribute_spent source budgets (remaining - taken)
         (if jeq (oget budget ''source'') source then attributed + taken else attributed)))"

definition iterate :: "jsval \<Rightarrow> jsval list res" where
  "iterate v = (case v of Arr vs \<Rightarrow> Inr vs | _ \<Rightarrow> Inl TypeErr)"

definition aggregate_spent :: "string \<Rightarrow> jsval \<Rightarrow> jsval \<Rightarrow> int res" where
  "aggregate_spent programId source row =
     bindR (jget row ''sourceKind'') (\<lambda>kind.
       if kind \<noteq> Str ''aggregate-collections'' \<or> \<not> verifiedV3BuybackOrder row
         \<or> oget row ''programId'' \<noteq> Str programId then Inr 0
       else
         bindR (to_bigint (jor (oget row ''spentLamports'') (Num (nint 0)))) (\<lambda>spent.
         bindR (iterate (jor (oget row ''sourceBudgets'') (Arr []))) (\<lambda>budgets.
         bindR (attribute_spent source budgets spent 0) (\<lambda>(remaining, attributed).
           if remaining \<noteq> 0 then throw ''Aggregate buyback exceeds its frozen source budgets.'' else Inr attributed))))"

definition v3BuybackSourceSpent :: "buyback_state \<Rightarrow> jsval \<Rightarrow> string \<Rightarrow> int res" where
  "v3BuybackSourceSpent st source programId =
     bindR (v3BuybackSourceOrders st source) (\<lambda>os.
     bindR (sumR (direct_spent programId) 0 (map so_row os)) (\<lambda>direct.
       sumR (aggregate_spent programId source) direct (map snd (bs_orders st))))"

record next_order =
  no_key :: string
  no_round :: jsnum
  no_row :: jsval
  no_previous :: jsval

definition v3BuybackNextOrder :: "buyback_state \<Rightarrow> jsval \<Rightarrow> next_order res" where
  "v3BuybackNextOrder st source =
     bindR (v3BuybackSourceOrders st source) (\<lambda>orders.
       let previous = (if orders = [] then Null else jor (so_row (last orders)) Null) in
       case find (\<lambda>o1. oget (so_row o1) ''status'' \<noteq> Str ''finalized'') orders of
         Some active \<Rightarrow> Inr \<lparr>no_key = so_key active, no_round = so_round active, no_row = so_row active, no_previous = previous\<rparr>
       | None \<Rightarrow>
           let round = (if orders = [] then nint 1 else nadd (foldl nmax NegInf (map so_round orders)) (nint 1)) in
           Inr \<lparr>no_key = (if round = nint 1 then to_str source else to_str source @ '':'' @ num_to_str round),
             no_round = round, no_row = Null, no_previous = previous\<rparr>)"

section \<open>server/v3-buyback-cycle.mjs\<close>

text \<open>The arguments of a cycle, the time, SHA-256 as lower-case hexadecimal text, and the text of a \<open>PublicKey\<close>.\<close>

record buyback_cycle =
  bc_programId :: string
  bc_hash :: string
  bc_cycleId :: jsval
  bc_now :: string
  bc_sha256 :: "string \<Rightarrow> string"
  bc_publicKey :: "jsval \<Rightarrow> string res"

text \<open>\<open>v3BuybackId\<close> and \<open>v3BuybackOnchainId\<close> of \<open>server/v3-buyback-instruction.mjs\<close>, as hexadecimal text.\<close>

definition v3BuybackId :: "buyback_cycle \<Rightarrow> jsval list \<Rightarrow> jsnum \<Rightarrow> string res" where
  "v3BuybackId c sources n =
     (let ids = sort_by (\<lambda>a b. \<not> str_less b a) (map to_str (dedupe_list sources)) in
      if ids = [] \<or> list_ex (\<lambda>i. \<not> is_signature i) ids then throw ''V3 buyback requires finalized source collection signatures.''
      else if \<not> is_safe_integer n \<or> nless n (nint 1) then throw ''V3 buyback round must be a positive integer.''
      else Inr (bc_sha256 c (''funded.v3.buyback.v1:'' @ join '','' ids
        @ (if n = nint 1 then [] else '':round:'' @ num_to_str n))))"

definition v3BuybackOnchainId :: "buyback_cycle \<Rightarrow> jsval \<Rightarrow> jsnum \<Rightarrow> string res" where
  "v3BuybackOnchainId c mint n =
     bindR (bc_publicKey c mint) (\<lambda>source.
       if \<not> is_safe_integer n \<or> nless n (nint 1) then throw ''V3 buyback round must be a positive integer.''
       else Inr (bc_sha256 c (''funded.v3.buyback.onchain.v1:'' @ source @ '':round:'' @ num_to_str n)))"

definition onchainBuybackSource :: "jsval \<Rightarrow> string" where
  "onchainBuybackSource mint = ''onchain:'' @ to_str mint"

text \<open>\<open>m?.[k]\<close> on a stored map.\<close>

definition olookup :: "(string, jsval) omap \<Rightarrow> jsval \<Rightarrow> jsval" where
  "olookup m k = (case map_of m (to_str k) of Some v \<Rightarrow> v | None \<Rightarrow> Undef)"

definition queued_order :: "buyback_cycle \<Rightarrow> jsval \<Rightarrow> jsval \<Rightarrow> (string \<times> jsval) list \<Rightarrow> string \<Rightarrow> string \<Rightarrow> jsnum \<Rightarrow> jsval" where
  "queued_order c mint source extra buybackId maxTotalDebit n =
     Obj ([(''status'', Str ''queued''), (''mint'', mint), (''collectionSignature'', source)] @ extra
       @ [(''programId'', Str (bc_programId c)), (''approvedHash'', Str (map to_lower (bc_hash c))),
          (''buybackId'', Str buybackId), (''maxTotalDebit'', Str maxTotalDebit), (''round'', Num n),
          (''cycleId'', bc_cycleId c), (''queuedAt'', Str (bc_now c))])"

definition allocated_buyback :: "jsval \<Rightarrow> jsval \<Rightarrow> int res" where
  "allocated_buyback settlement d =
     to_bigint (jor (oget (oget (oget settlement ''allocationPlan'') ''protocol'') ''buybackLamports'') d)"

definition settled_launch :: "buyback_cycle \<Rightarrow> jsval \<Rightarrow> jsval \<Rightarrow> bool" where
  "settled_launch c settlement linked \<longleftrightarrow> oget settlement ''status'' = Str ''finalized''
     \<and> oget (oget settlement ''allocationPlan'') ''status'' = Str ''allocated-not-funded''
     \<and> truthy (oget linked ''onchainVerified'') \<and> oget (oget linked ''pumpFeeRoute'') ''programId'' = Str (bc_programId c)"

definition queue_settlement :: "buyback_cycle \<Rightarrow> buyback_state \<Rightarrow> jsval \<Rightarrow> buyback_state res" where
  "queue_settlement c st settlement =
     bindR (jget settlement ''collectionSignature'') (\<lambda>source.
     let linked = olookup (bs_launches st) (oget settlement ''mint''); collected = olookup (bs_collections st) source in
     bindR (v3BuybackNextOrder st source) (\<lambda>next.
     bindR (allocated_buyback settlement (Str ''0'')) (\<lambda>allocated.
     bindR (v3BuybackSourceSpent st source (bc_programId c)) (\<lambda>spent.
     let remaining = allocated - spent in
     if \<not> settled_launch c settlement linked \<or> \<not> jeq (oget collected ''signature'') source then Inr st
     else bindR (jget collected ''onchainVerified'') (\<lambda>verified.
       if verified \<noteq> Bool True \<or> oget collected ''programId'' \<noteq> Str (bc_programId c) \<or> remaining \<le> 0 \<or> truthy (no_row next) then Inr st
       else bindR (v3BuybackId c [source] (no_round next)) (\<lambda>buybackId.
         Inr (st\<lparr>bs_orders := oset (no_key next)
           (queued_order c (oget settlement ''mint'') source [] buybackId (show_int remaining) (no_round next)) (bs_orders st)\<rparr>)))))))"

definition queue_vault :: "buyback_cycle \<Rightarrow> buyback_state \<Rightarrow> jsval \<Rightarrow> buyback_state res" where
  "queue_vault c st vault =
     bindR (jget vault ''status'') (\<lambda>status.
     if status \<noteq> Str ''verified'' \<or> \<not> pos_dec (to_str (jor (oget vault ''pendingLamports'') (Str [])))
       \<or> \<not> truthy (oget vault ''creator'') \<or> \<not> truthy (oget vault ''initialAuthority'')
       \<or> list_ex (\<lambda>row. jeq (oget row ''mint'') (oget vault ''mint'')) (map snd (bs_settlements st)) then Inr st
     else
       let source = Str (onchainBuybackSource (oget vault ''mint'')) in
       bindR (v3BuybackNextOrder st source) (\<lambda>next.
       if truthy (no_row next) then Inr st
       else bindR (v3BuybackOnchainId c (oget vault ''mint'') (no_round next)) (\<lambda>buybackId.
         Inr (st\<lparr>bs_orders := oset (no_key next)
           (queued_order c (oget vault ''mint'') source
              [(''sourceKind'', Str ''onchain-policy''), (''creator'', oget vault ''creator''), (''initialAuthority'', oget vault ''initialAuthority'')]
              buybackId (to_str (oget vault ''pendingLamports'')) (no_round next)) (bs_orders st)\<rparr>))))"

text \<open>\<open>unindexed\<close> is \<open>dashboard.unindexedVaults\<close> when \<open>dashboard.unindexedStatus\<close> is \<open>'verified'\<close>, else empty.\<close>

definition queueV3BuybackCycle :: "buyback_cycle \<Rightarrow> jsval \<Rightarrow> buyback_state \<Rightarrow> buyback_state res" where
  "queueV3BuybackCycle c dashboard st =
     bindR (foldR (queue_settlement c) st (map snd (bs_settlements st))) (\<lambda>st1.
     bindR (jget dashboard ''unindexedStatus'') (\<lambda>status.
     bindR (if status = Str ''verified'' then iterate (jor (oget dashboard ''unindexedVaults'') (Arr [])) else Inr []) (\<lambda>vaults.
       foldR (queue_vault c) st1 vaults)))"

section \<open>server/v3-buyback-aggregate.mjs\<close>

definition aggregateBuybackSource :: "jsval \<Rightarrow> string" where
  "aggregateBuybackSource mint = ''aggregate:'' @ to_str mint"

definition activeAggregateOrder :: "buyback_state \<Rightarrow> jsval \<Rightarrow> jsval option res" where
  "activeAggregateOrder st mint =
     findR (\<lambda>row. bindR (jget row ''mint'') (\<lambda>m. Inr (jeq m mint \<and> oget row ''sourceKind'' = Str ''aggregate-collections''
       \<and> oget row ''status'' \<noteq> Str ''finalized'' \<and> truthy (oget row ''signature'')))) (map snd (bs_orders st))"

text \<open>The source a settlement adds to the budget: none when it is another mint's, not finalized, or used up.\<close>

definition budget_row :: "buyback_state \<Rightarrow> jsval \<Rightarrow> string \<Rightarrow> string \<times> jsval \<Rightarrow> (string \<times> int) list res" where
  "budget_row st mint programId entry =
     (let source = fst entry; row = snd entry; collected = olookup (bs_collections st) (Str source) in
      bindR (jget row ''mint'') (\<lambda>m.
      if \<not> jeq m mint \<or> oget row ''status'' \<noteq> Str ''finalized'' then Inr []
      else if \<not> truthy (oget collected ''onchainVerified'') \<or> oget collected ''status'' \<noteq> Str ''collected''
        \<or> \<not> jeq (oget collected ''mint'') mint \<or> oget collected ''programId'' \<noteq> Str programId
        \<or> oget row ''collectionSignature'' \<noteq> Str source then throw ''Aggregate source identity is unavailable.''
      else
        bindR (allocated_buyback row (Num (nint 0))) (\<lambda>allocated.
        bindR (v3BuybackSourceSpent st (Str source) programId) (\<lambda>spent.
        let remaining = allocated - spent in
        if remaining < 0 then throw ''Aggregate source accounting conflicts.''
        else Inr (if remaining > 0 then [(source, remaining)] else [])))))"

text \<open>\<open>locale_le\<close> is \<open>a.localeCompare(b) <= 0\<close>.\<close>

definition aggregateSourceBudget :: "(string \<Rightarrow> string \<Rightarrow> bool) \<Rightarrow> buyback_state \<Rightarrow> jsval \<Rightarrow> string \<Rightarrow> ((string \<times> int) list \<times> int) res" where
  "aggregateSourceBudget locale_le st mint programId =
     bindR (mapR (budget_row st mint programId) (bs_settlements st)) (\<lambda>rows.
       let sources = sort_by (\<lambda>a b. locale_le (fst a) (fst b)) (concat rows) in
       Inr (sources, sum_list (map snd sources)))"

text \<open>A budget row as it is stored in an order.\<close>

definition budget_value :: "string \<times> int \<Rightarrow> jsval" where
  "budget_value b = Obj [(''source'', Str (fst b)), (''amountLamports'', Str (show_int (snd b)))]"

definition aggregate_mint :: "(string \<Rightarrow> string \<Rightarrow> bool) \<Rightarrow> buyback_state \<Rightarrow> string \<Rightarrow> jsval list \<Rightarrow> jsval \<Rightarrow> jsval list res" where
  "aggregate_mint locale_le st programId rows mint =
     bindR (activeAggregateOrder st mint) (\<lambda>active.
     if active \<noteq> None then
       Inr (rows @ [Obj [(''mint'', mint), (''sourceCollectionSignature'', Str ''aggregate''), (''amountLamports'', Null),
         (''status'', Str ''verification-pending'')]])
     else
       bindR (aggregateSourceBudget locale_le st mint programId) (\<lambda>(sources, total).
       if length sources < 2 \<or> length sources > 32 \<or> total < 10000 then Inr rows
       else
         bindR (findR (\<lambda>row. bindR (jget row ''mint'') (\<lambda>m. Inr (jeq m mint \<and> truthy (oget row ''signature'')
           \<and> oget row ''status'' \<noteq> Str ''finalized''))) (map snd (bs_orders st))) (\<lambda>waiting.
         if waiting \<noteq> None then Inr rows
         else Inr (filter (\<lambda>row. \<not> jeq (oget row ''mint'') mint) rows
           @ [Obj [(''mint'', mint), (''sourceCollectionSignature'', Str ''aggregate''), (''amountLamports'', Str (show_int total)),
                (''sourceCount'', Num (nint (int (length sources)))), (''status'', Str ''awaiting-v3-buyback-executor'')]]))))"

definition aggregatePendingBuybacks ::
  "(string \<Rightarrow> string \<Rightarrow> bool) \<Rightarrow> buyback_state \<Rightarrow> jsval list \<Rightarrow> string \<Rightarrow> bool \<Rightarrow> jsval list res" where
  "aggregatePendingBuybacks locale_le st rows programId enabled =
     (if \<not> enabled then Inr rows
      else bindR (mapR (\<lambda>row. jget row ''mint'') rows) (\<lambda>mints.
        foldR (aggregate_mint locale_le st programId) rows (dedupe_list mints)))"

section \<open>server/v3-buyback-execution-policy.mjs\<close>

definition spend_cap :: "jsval \<Rightarrow> int \<Rightarrow> int res" where
  "spend_cap raw fallback =
     (let v = to_str (nullish raw (Num (nint fallback))) in
      if \<not> (pos_dec v \<and> length v \<le> 16) \<or> parse_dec v > max_safe
      then throw ''Buyback spend caps must be positive safe lamport amounts.'' else Inr (parse_dec v))"

record execution_policy =
  ep_maxWaitSeconds :: int
  ep_ageMinimumLamports :: int
  ep_maxOrderLamports :: int
  ep_dailyCapLamports :: int

definition buybackExecutionPolicy :: "jsval \<Rightarrow> execution_policy res" where
  "buybackExecutionPolicy env =
     (let wait = Num (to_number (jor (oget env ''FUNDED_V3_BUYBACK_MAX_WAIT_SECONDS'') (Num (nint 0))));
          minimumWait = (if oget env ''SOLANA_CLUSTER'' = Str ''devnet'' \<and> oget env ''FUNDED_DEVNET_QA_MINIMUMS_ENABLED'' = Str ''true''
            then 300 else 3600) in
      if \<not> is_safe wait \<or> safe_int wait \<noteq> 0 \<and> (safe_int wait < minimumWait \<or> safe_int wait > 604800)
      then throw ''Buyback maximum wait is disabled or between the supported minimum and seven days.''
      else
        bindR (spend_cap (oget env ''FUNDED_V3_BUYBACK_AGE_MIN_LAMPORTS'') 10000000) (\<lambda>ageMinimum.
        bindR (spend_cap (oget env ''FUNDED_V3_BUYBACK_MAX_ORDER_LAMPORTS'') 1000000000) (\<lambda>maxOrder.
        bindR (spend_cap (oget env ''FUNDED_V3_BUYBACK_DAILY_CAP_LAMPORTS'') 5000000000) (\<lambda>dailyCap.
          Inr \<lparr>ep_maxWaitSeconds = safe_int wait, ep_ageMinimumLamports = ageMinimum, ep_maxOrderLamports = maxOrder,
            ep_dailyCapLamports = dailyCap\<rparr>))))"

definition old_settlement :: "(string \<Rightarrow> jsnum) \<Rightarrow> execution_policy \<Rightarrow> jsnum \<Rightarrow> jsval \<Rightarrow> bool" where
  "old_settlement other policy now item =
     (let time = date_parse other (oget item ''finalizedAt'') in
      oget item ''status'' = Str ''finalized'' \<and> nfinite time \<and> nle time now
      \<and> nle (nmul (nint (ep_maxWaitSeconds policy)) (nint 1000)) (nsub now time))"

definition buybackAgeEligible :: "(string \<Rightarrow> jsnum) \<Rightarrow> buyback_state \<Rightarrow> jsval \<Rightarrow> execution_policy \<Rightarrow> jsnum \<Rightarrow> bool" where
  "buybackAgeEligible other st row policy now =
     (let amount = to_str (jor (oget row ''amountLamports'') (Str [])) in
      if ep_maxWaitSeconds policy = 0 \<or> \<not> pos_dec amount \<or> parse_dec amount < ep_ageMinimumLamports policy then False
      else
        let settlements = (if oget row ''sourceCollectionSignature'' = Str ''aggregate''
          then filter (\<lambda>item. jeq (oget item ''mint'') (oget row ''mint'') \<and> oget item ''status'' = Str ''finalized'') (map snd (bs_settlements st))
          else [olookup (bs_settlements st) (oget row ''sourceCollectionSignature'')]) in
        settlements \<noteq> [] \<and> list_all (old_settlement other policy now) settlements)"

text \<open>What an order counts against the cap of a day that started at \<open>start\<close>.\<close>

definition daily_use :: "(string \<Rightarrow> jsnum) \<Rightarrow> string \<Rightarrow> jsnum \<Rightarrow> jsval \<Rightarrow> int res" where
  "daily_use other programId start row =
     bindR (jget row ''programId'') (\<lambda>program.
     if program \<noteq> Str programId \<or> \<not> truthy (oget row ''signature'') then Inr 0
     else if oget row ''status'' = Str ''finalized'' then
       (if \<not> verifiedV3BuybackOrder row then throw ''A finalized buyback is missing its spending proof.''
        else
          let time = date_parse other (jor (oget row ''burnedAt'') (oget row ''finalizedAt'')) in
          if \<not> nfinite time \<or> nle start time then to_bigint (oget row ''spentLamports'') else Inr 0)
     else to_bigint (oget row ''maxTotalDebit''))"

definition remainingBuybackDailyBudget :: "(string \<Rightarrow> jsnum) \<Rightarrow> buyback_state \<Rightarrow> string \<Rightarrow> execution_policy \<Rightarrow> jsnum \<Rightarrow> int res" where
  "remainingBuybackDailyBudget other st programId policy now =
     (let start = nmul (math_floor (ndiv now (nint 86400000))) (nint 86400000) in
      bindR (sumR (daily_use other programId start) 0 (map snd (bs_orders st))) (\<lambda>used.
        Inr (if used \<ge> ep_dailyCapLamports policy then 0 else ep_dailyCapLamports policy - used)))"

section \<open>server/v3-buyback-worker-policy.mjs and server/v3-buyback-quote.mjs\<close>

definition MIN_V3_BUYBACK_ORDER_LAMPORTS :: int where "MIN_V3_BUYBACK_ORDER_LAMPORTS = 10000"

text \<open>The sums of the amounts of order size, and of the others.\<close>

fun order_sizes :: "jsval list \<Rightarrow> int \<Rightarrow> int \<Rightarrow> (int \<times> int) res" where
  "order_sizes [] eligible dust = Inr (eligible, dust)"
| "order_sizes (row # rows) eligible dust =
     bindR (jget row ''amountLamports'') (\<lambda>v.
     if \<not> pos_dec (to_str (jor v (Str []))) then order_sizes rows eligible dust
     else bindR (to_bigint v) (\<lambda>amount.
       if amount < MIN_V3_BUYBACK_ORDER_LAMPORTS then order_sizes rows eligible (dust + amount)
       else order_sizes rows (eligible + amount) dust))"

definition buybackOrderSizeSummary :: "jsval list \<Rightarrow> jsval res" where
  "buybackOrderSizeSummary rows =
     bindR (order_sizes rows 0 0) (\<lambda>(eligible, dust).
       Inr (Obj [(''orderSizeEligibleLamports'', Str (show_int eligible)), (''belowMinimumLamports'', Str (show_int dust)),
         (''executionRequiresFreshProof'', Bool True)]))"

definition v3BuybackPendingStatus :: "jsval \<Rightarrow> jsval \<Rightarrow> jsval \<Rightarrow> jsval res" where
  "v3BuybackPendingStatus order remaining fallback =
     (let status = jor (oget order ''status'') fallback; signed = truthy (oget order ''signature'') in
      if signed \<and> status \<in> {Str ''queued'', Str ''verification-pending''} then Inr (Str ''verification-pending'')
      else if signed \<or> status = Str ''verification-pending'' then Inr status
      else bindR (to_bigint remaining) (\<lambda>n. Inr (if n < MIN_V3_BUYBACK_ORDER_LAMPORTS then Str ''below-minimum-order'' else status)))"

definition shouldAttemptV3Buyback :: "jsval \<Rightarrow> jsval \<Rightarrow> jsnum \<Rightarrow> jsnum \<Rightarrow> bool" where
  "shouldAttemptV3Buyback row triggerReached retryAt now =
     (let status = oget row ''status''; amount = to_str (nullish (oget row ''amountLamports'') (Str [])) in
      if status \<notin> {Str ''queued'', Str ''verification-pending'', Str ''awaiting-v3-buyback-executor'', Str ''verified-burn-residue''} then False
      else if status \<in> {Str ''awaiting-v3-buyback-executor'', Str ''verified-burn-residue''}
        \<and> triggerReached \<noteq> Bool True \<and> oget row ''ageEligible'' \<noteq> Bool True then False
      else if \<not> is_address (to_str (jor (oget row ''mint'') (Str [])))
        \<or> \<not> (is_signature (to_str (jor (oget row ''sourceCollectionSignature'') (Str [])))
             \<or> oget row ''sourceCollectionSignature'' \<in> {Str ''onchain'', Str ''aggregate''}) then False
      else if status \<noteq> Str ''verification-pending''
        \<and> (\<not> (pos_dec amount \<and> length amount \<le> 16) \<or> parse_dec amount < MIN_V3_BUYBACK_ORDER_LAMPORTS \<or> parse_dec amount > max_safe) then False
      else status = Str ''verification-pending'' \<or> nle retryAt now)"

definition protectedV3BuybackClip :: "jsval \<Rightarrow> jsval \<Rightarrow> int res" where
  "protectedV3BuybackClip budgetLamports reserveLamports =
     bindR (to_bigint budgetLamports) (\<lambda>budget. bindR (to_bigint reserveLamports) (\<lambda>reserves.
       let cap = (if 0 \<le> reserves then reserves * 25 div 10000 else - ((- reserves) * 25 div 10000)) in Inr (if budget < cap then budget else cap)))"

section \<open>What a source has spent\<close>

lemma mapR_ok: "(\<exists>ys. mapR f xs = Inr ys) \<longleftrightarrow> list_all (\<lambda>x. \<not> isl (f x)) xs"
proof (induction xs)
  case (Cons x xs)
  show ?case
  proof (cases "f x")
    case (Inr y)
    with Cons show ?thesis by (cases "mapR f xs") auto
  qed simp
qed simp

lemma source_orders_rows:
  assumes "v3BuybackSourceOrders st source = Inr os"
  shows "mset (map so_row os) = mset (map snd (filter (of_source source) (bs_orders st)))"
proof -
  from assms obtain os' where os': "mapR (source_order source) (filter (of_source source) (bs_orders st)) = Inr os'"
    and os: "mset os = mset os'" by (auto simp: v3BuybackSourceOrders_def bindR_Inr_iff)
  have "list_all2 (\<lambda>o1 o2. so_row o2 = snd o1) (filter (of_source source) (bs_orders st)) os'"
    using os' unfolding mapR_Inr_list_all2 by (rule list_all2_mono) (auto simp: source_order_def bindR_Inr_iff)
  then have "map so_row os' = map snd (filter (of_source source) (bs_orders st))"
    by (induction rule: list_all2_induct) auto
  with os show ?thesis by (metis mset_map)
qed

definition spent_ok :: "string \<Rightarrow> jsval \<Rightarrow> (string \<times> jsval) list \<Rightarrow> bool" where
  "spent_ok p source orders \<longleftrightarrow>
     list_all (\<lambda>o1. \<not> isl (source_order source o1) \<and> \<not> isl (direct_spent p (snd o1))) (filter (of_source source) orders)
     \<and> list_all (\<lambda>o1. \<not> isl (aggregate_spent p source (snd o1))) orders"

definition spent_of :: "string \<Rightarrow> jsval \<Rightarrow> (string \<times> jsval) list \<Rightarrow> int" where
  "spent_of p source orders =
     sum_list (map (\<lambda>o1. value_or_0 (direct_spent p (snd o1))) (filter (of_source source) orders))
     + sum_list (map (\<lambda>o1. value_or_0 (aggregate_spent p source (snd o1))) orders)"

lemma spent_Inr_iff:
  "v3BuybackSourceSpent st source p = Inr s \<longleftrightarrow> spent_ok p source (bs_orders st) \<and> s = spent_of p source (bs_orders st)"
proof (cases "v3BuybackSourceOrders st source")
  case (Inl e)
  then have "\<not> list_all (\<lambda>o1. \<not> isl (source_order source o1)) (filter (of_source source) (bs_orders st))"
    unfolding mapR_ok [symmetric] by (auto simp: v3BuybackSourceOrders_def bindR_Inl_iff)
  with Inl show ?thesis by (auto simp: v3BuybackSourceSpent_def spent_ok_def list_all_iff)
next
  case (Inr os)
  note rows = source_orders_rows [OF Inr]
  have ok: "list_all (\<lambda>o1. \<not> isl (source_order source o1)) (filter (of_source source) (bs_orders st))"
    unfolding mapR_ok [symmetric] using Inr by (auto simp: v3BuybackSourceOrders_def bindR_Inr_iff)
  have all: "list_all P (map so_row os) \<longleftrightarrow> list_all P (map snd (filter (of_source source) (bs_orders st)))" for P
    unfolding list_all_iff using rows by (metis set_mset_mset)
  have sum: "sum_list (map f (map so_row os)) = sum_list (map f (map snd (filter (of_source source) (bs_orders st))))" for f :: "jsval \<Rightarrow> int"
    using rows by (metis mset_map sum_mset_sum_list)
  have "v3BuybackSourceSpent st source p = Inr s \<longleftrightarrow>
      list_all (\<lambda>r. \<not> isl (direct_spent p r)) (map snd (filter (of_source source) (bs_orders st)))
      \<and> list_all (\<lambda>r. \<not> isl (aggregate_spent p source r)) (map snd (bs_orders st))
      \<and> s = sum_list (map (\<lambda>r. value_or_0 (direct_spent p r)) (map snd (filter (of_source source) (bs_orders st))))
          + sum_list (map (\<lambda>r. value_or_0 (aggregate_spent p source r)) (map snd (bs_orders st)))"
    unfolding v3BuybackSourceSpent_def Inr bindR_simps bindR_Inr_iff sumR_Inr_iff all sum by auto
  with ok show ?thesis by (auto simp: spent_ok_def spent_of_def list_all_iff comp_def)
qed

text \<open>Attribution is greedy: each budget takes what is left, up to its amount.\<close>

fun takes :: "int \<Rightarrow> (string \<times> int) list \<Rightarrow> (string \<times> int) list" where
  "takes r [] = []"
| "takes r ((k, x) # bs) = (k, min r x) # takes (r - min r x) bs"

lemma takes_props:
  assumes "0 \<le> r" and "\<forall>b \<in> set bs. 0 \<le> snd b"
  shows "sum_list (map snd (takes r bs)) = min r (sum_list (map snd bs)) \<and> map fst (takes r bs) = map fst bs
    \<and> list_all2 (\<lambda>t b. 0 \<le> snd t \<and> snd t \<le> snd b) (takes r bs) bs"
  using assms
proof (induction bs arbitrary: r)
  case (Cons b bs)
  have "0 \<le> sum_list (map snd bs)" using Cons.prems by (intro sum_list_nonneg_int) auto
  with Cons.IH [of "r - min r (snd b)"] Cons.prems show ?case by (cases b) auto
qed simp

lemma budget_value_simps [simp]:
  "jget (budget_value b) ''amountLamports'' = Inr (Str (show_int (snd b)))" "oget (budget_value b) ''source'' = Str (fst b)"
  by (simp_all add: budget_value_def jget_def)

lemma attribute_takes:
  assumes "0 \<le> r" and "\<forall>b \<in> set bs. 0 \<le> snd b"
  shows "attribute_spent (Str k) (map budget_value bs) r a
    = Inr (r - sum_list (map snd (takes r bs)), a + sum_list (map snd (filter (\<lambda>t. fst t = k) (takes r bs))))"
  using assms
proof (induction bs arbitrary: r a)
  case (Cons b bs)
  obtain k' x where b: "b = (k', x)" by (cases b)
  have m: "(if r < x then r else x) = min r x" by simp
  have x: "to_bigint (Str (show_int x)) = Inr x" using Cons.prems b by (simp add: str_to_bigint_digits)
  have "attribute_spent (Str k) (map budget_value bs) (r - min r x) (if k' = k then a + min r x else a)
    = Inr (r - min r x - sum_list (map snd (takes (r - min r x) bs)),
        (if k' = k then a + min r x else a) + sum_list (map snd (filter (\<lambda>t. fst t = k) (takes (r - min r x) bs))))"
    using Cons.prems b by (intro Cons.IH) auto
  then show ?case by (cases "k' = k") (simp_all add: b m x Let_def jeq_def algebra_simps del: to_bigint.simps)
qed simp

section \<open>What an aggregate order leaves\<close>

text \<open>An aggregate order that carries frozen budgets, is proved final and spent \<open>s\<close>.\<close>

definition finished_aggregate :: "string \<Rightarrow> (string \<times> int) list \<Rightarrow> int \<Rightarrow> jsval \<Rightarrow> bool" where
  "finished_aggregate p sources s row \<longleftrightarrow> verifiedV3BuybackOrder row \<and> oget row ''programId'' = Str p
     \<and> oget row ''sourceKind'' = Str ''aggregate-collections'' \<and> oget row ''sourceBudgets'' = Arr (map budget_value sources)
     \<and> oget row ''spentLamports'' = Str (show_int s)"

definition taken :: "int \<Rightarrow> (string \<times> int) list \<Rightarrow> string \<Rightarrow> int" where
  "taken s sources k = sum_list (map snd (filter (\<lambda>t. fst t = k) (takes s sources)))"

lemma aggregate_spent_finished:
  assumes "finished_aggregate p sources s row" and "0 \<le> s" and "\<forall>b \<in> set sources. 0 \<le> snd b"
    and "s \<le> sum_list (map snd sources)"
  shows "aggregate_spent p (Str k) row = Inr (taken s sources k)"
proof -
  have row: "row \<noteq> Undef" "row \<noteq> Null" using assms(1) by (auto simp: finished_aggregate_def)
  have spent: "to_bigint (jor (Str (show_int s)) (Num (nint 0))) = Inr s"
    using assms(2) by (simp add: jor_def str_to_bigint_digits)
  have "sum_list (map snd (takes s sources)) = s" using takes_props [OF assms(2,3)] assms(4) by simp
  with attribute_takes [OF assms(2,3), of k 0] show ?thesis
    using assms(1) row spent
    by (simp add: aggregate_spent_def finished_aggregate_def jget_def iterate_def jor_def taken_def)
qed

lemma spent_after_aggregate:
  assumes "v3BuybackSourceSpent st (Str k) p = Inr s0" and "finished_aggregate p sources s row"
    and "0 \<le> s" "\<forall>b \<in> set sources. 0 \<le> snd b" "s \<le> sum_list (map snd sources)"
    and "key \<notin> fst ` set (bs_orders st)" and "key \<noteq> k" and "oget row ''collectionSignature'' \<noteq> Str k"
  shows "v3BuybackSourceSpent (st\<lparr>bs_orders := oset key row (bs_orders st)\<rparr>) (Str k) p = Inr (s0 + taken s sources k)"
proof -
  have no: "\<not> of_source (Str k) (key, row)" using assms(7,8) by (auto simp: of_source_def jeq_def split: jsval.splits)
  note agg = aggregate_spent_finished [OF assms(2-5), of k]
  show ?thesis
    using assms(1) no agg unfolding spent_Inr_iff
    by (simp add: oset_fresh [OF assms(6)] spent_ok_def spent_of_def)
qed

lemma taken_Cons: "taken r ((k', x) # bs) k = (if k' = k then min r x else 0) + taken (r - min r x) bs k"
  by (simp add: taken_def)

lemma taken_other: "0 \<le> r \<Longrightarrow> \<forall>b \<in> set bs. 0 \<le> snd b \<Longrightarrow> k \<notin> fst ` set bs \<Longrightarrow> taken r bs k = 0"
proof (induction bs arbitrary: r)
  case (Cons b bs)
  then show ?case by (cases b) (auto simp: taken_Cons)
qed (simp add: taken_def)

lemma taken_bound:
  assumes "0 \<le> r" and "\<forall>b \<in> set bs. 0 \<le> snd b" and "distinct (map fst bs)" and "(k, x) \<in> set bs"
  shows "0 \<le> taken r bs k \<and> taken r bs k \<le> x"
  using assms
proof (induction bs arbitrary: r)
  case (Cons b bs)
  obtain k' y where b: "b = (k', y)" by (cases b)
  show ?case
  proof (cases "k' = k")
    case True
    then have "k \<notin> fst ` set bs" and "x = y" using Cons.prems(3,4) b by (auto simp: rev_image_eqI)
    with True taken_other [of "r - min r y" bs k] Cons.prems show ?thesis by (auto simp: b taken_Cons)
  next
    case False
    with Cons.IH [of "r - min r y"] Cons.prems b show ?thesis by (auto simp: taken_Cons)
  qed
qed simp

lemma taken_sum:
  assumes "0 \<le> r" and "\<forall>b \<in> set bs. 0 \<le> snd b" and "distinct (map fst bs)"
  shows "sum_list (map (\<lambda>b. taken r bs (fst b)) bs) = sum_list (map snd (takes r bs))"
  using assms
proof (induction bs arbitrary: r)
  case (Cons b bs)
  obtain k x where b: "b = (k, x)" by (cases b)
  have "map (\<lambda>c. taken r (b # bs) (fst c)) bs = map (\<lambda>c. taken (r - min r x) bs (fst c)) bs"
    using Cons.prems(3) by (auto simp: b taken_Cons)
  then have "sum_list (map (\<lambda>c. taken r (b # bs) (fst c)) (b # bs)) = taken r (b # bs) k + sum_list (map (\<lambda>c. taken (r - min r x) bs (fst c)) bs)"
    by (simp only: list.map sum_list.Cons b fst_conv)
  also have "taken r (b # bs) k = min r x" using Cons.prems by (simp add: b taken_Cons taken_other)
  also have "sum_list (map (\<lambda>c. taken (r - min r x) bs (fst c)) bs) = sum_list (map snd (takes (r - min r x) bs))"
    using Cons.prems by (intro Cons.IH) auto
  finally show ?case by (simp add: b)
qed simp

lemma budget_row_shape:
  "budget_row st mint p entry = Inr l \<Longrightarrow> l = [] \<or> (\<exists>x > 0. l = [(fst entry, x)])"
  by (auto simp: budget_row_def Let_def bindR_Inr_iff split: if_splits)

lemma budget_row_after:
  assumes "budget_row st mint p entry = Inr l"
    and "bs_collections st' = bs_collections st"
    and "\<And>s0. v3BuybackSourceSpent st (Str (fst entry)) p = Inr s0
      \<Longrightarrow> v3BuybackSourceSpent st' (Str (fst entry)) p = Inr (s0 + t)"
    and "l = [] \<Longrightarrow> t = 0" and "\<And>x. l = [(fst entry, x)] \<Longrightarrow> t \<le> x"
  shows "budget_row st' mint p entry = Inr (filter (\<lambda>b. 0 < snd b) (map (\<lambda>b. (fst b, snd b - t)) l))"
proof -
  from assms(1) obtain m where m: "jget (snd entry) ''mint'' = Inr m" by (auto simp: budget_row_def Let_def bindR_Inr_iff)
  show ?thesis
  proof (cases "v3BuybackSourceSpent st (Str (fst entry)) p")
    case (Inl e)
    with assms(1) m have "\<not> jeq m mint \<or> oget (snd entry) ''status'' \<noteq> Str ''finalized''" and "l = []"
      by (auto simp: budget_row_def Let_def bindR_Inr_iff split: if_splits)
    with m show ?thesis by (auto simp: budget_row_def Let_def)
  next
    case (Inr s0)
    with assms(1,4,5) m show ?thesis
      by (auto simp: budget_row_def Let_def bindR_Inr_iff assms(2) assms(3) [OF Inr] split: if_splits)
  qed
qed

lemma sum_positive_part:
  "\<forall>b \<in> set bs. f b \<le> (snd b :: int) \<Longrightarrow>
    sum_list (map snd (filter (\<lambda>b. 0 < snd b) (map (\<lambda>b. (fst b, snd b - f b)) bs))) = sum_list (map snd bs) - sum_list (map f bs)"
  by (induction bs) auto

lemma budget_rows_sources:
  assumes "mapR (budget_row st mint p) entries = Inr rows" and "distinct (map fst entries)"
  shows "distinct (map fst (concat rows)) \<and> fst ` set (concat rows) \<subseteq> fst ` set entries \<and> (\<forall>b \<in> set (concat rows). 0 < snd b)"
  using assms
proof (induction entries arbitrary: rows)
  case (Cons e entries)
  then obtain l rows' where r: "budget_row st mint p e = Inr l" "mapR (budget_row st mint p) entries = Inr rows'" "rows = l # rows'"
    by (auto simp: bindR_Inr_iff)
  have "distinct (map fst entries)" using Cons.prems(2) by simp
  note ih = Cons.IH [OF r(2) this]
  from budget_row_shape [OF r(1)] show ?case
  proof
    assume "l = []"
    with ih r(3) show ?thesis by auto
  next
    assume "\<exists>x>0. l = [(fst e, x)]"
    then obtain x where "0 < x" "l = [(fst e, x)]" by blast
    with ih r(3) Cons.prems(2) show ?thesis by auto
  qed
qed simp

lemma budget_rows_after:
  assumes "mapR (budget_row st mint p) entries = Inr rows" and "distinct (map fst entries)"
    and "\<And>entry l. entry \<in> set entries \<Longrightarrow> budget_row st mint p entry = Inr l \<Longrightarrow>
      budget_row st' mint p entry = Inr (filter (\<lambda>b. 0 < snd b) (map (\<lambda>b. (fst b, snd b - f (fst b))) l))"
  shows "mapR (budget_row st' mint p) entries
    = Inr (map (\<lambda>l. filter (\<lambda>b. 0 < snd b) (map (\<lambda>b. (fst b, snd b - f (fst b))) l)) rows)"
  using assms
proof (induction entries arbitrary: rows)
  case (Cons e entries)
  from Cons.prems(1) obtain l rows' where r: "budget_row st mint p e = Inr l" "mapR (budget_row st mint p) entries = Inr rows'"
    "rows = l # rows'" by (auto simp: bindR_Inr_iff)
  have "budget_row st' mint p e = Inr (filter (\<lambda>b. 0 < snd b) (map (\<lambda>b. (fst b, snd b - f (fst b))) l))"
    by (rule Cons.prems(3) [OF _ r(1)]) simp
  moreover have "mapR (budget_row st' mint p) entries
    = Inr (map (\<lambda>l. filter (\<lambda>b. 0 < snd b) (map (\<lambda>b. (fst b, snd b - f (fst b))) l)) rows')"
    using Cons.prems(2) by (intro Cons.IH [OF r(2)] Cons.prems(3)) auto
  ultimately show ?case by (simp add: r(3))
qed simp

section \<open>Open orders\<close>

text \<open>The orders of a source that are not final.\<close>

definition open_orders :: "buyback_state \<Rightarrow> string \<Rightarrow> (string \<times> jsval) list" where
  "open_orders st s = filter (\<lambda>o1. of_source (Str s) o1 \<and> oget (snd o1) ''status'' \<noteq> Str ''finalized'') (bs_orders st)"

definition one_open :: "string \<Rightarrow> buyback_state \<Rightarrow> bool" where
  "one_open s st \<longleftrightarrow> list_all (\<lambda>o1. truthy (snd o1)) (bs_orders st) \<and> length (open_orders st s) \<le> 1"

lemma length_filter_oset: "length (filter P (oset k v m)) \<le> length (filter P m) + (if P (k, v) then 1 else 0)"
  by (induction k v m rule: oset.induct) auto

lemma next_order_fresh:
  assumes "v3BuybackNextOrder st (Str x) = Inr nxt" and "\<not> truthy (no_row nxt)" and "list_all (\<lambda>o1. truthy (snd o1)) (bs_orders st)"
  shows "open_orders st x = [] \<and> (no_key nxt = x \<or> (\<exists>r. no_key nxt = x @ '':'' @ r))"
proof -
  from assms(1) obtain os where os: "v3BuybackSourceOrders st (Str x) = Inr os" by (auto simp: v3BuybackNextOrder_def bindR_Inr_iff)
  note rows = source_orders_rows [OF os]
  have "set (map so_row os) = set (map snd (filter (of_source (Str x)) (bs_orders st)))" using rows by (metis set_mset_mset)
  then have mem: "so_row ` set os = snd ` {o1 \<in> set (bs_orders st). of_source (Str x) o1}" by simp
  have none: "find (\<lambda>o1. oget (so_row o1) ''status'' \<noteq> Str ''finalized'') os = None"
  proof (rule ccontr)
    assume "find (\<lambda>o1. oget (so_row o1) ''status'' \<noteq> Str ''finalized'') os \<noteq> None"
    then obtain a where a: "find (\<lambda>o1. oget (so_row o1) ''status'' \<noteq> Str ''finalized'') os = Some a" by auto
    then have "so_row a \<in> so_row ` set os" by (auto simp: find_Some_iff)
    then have "truthy (so_row a)" using assms(3) unfolding mem by (auto simp: list_all_iff)
    with assms(1,2) os a show False by (auto simp: v3BuybackNextOrder_def)
  qed
  then have "\<forall>r \<in> so_row ` set os. oget r ''status'' = Str ''finalized''" by (simp add: find_None_iff)
  then have "open_orders st x = []" unfolding mem by (auto simp: open_orders_def filter_empty_conv)
  moreover have "no_key nxt = x \<or> (\<exists>r. no_key nxt = x @ '':'' @ r)"
    using assms(1) os none by (auto simp: v3BuybackNextOrder_def Let_def split: if_splits)
  ultimately show ?thesis by simp
qed

lemma queued_order_simps [simp]:
  "truthy (queued_order c mint source extra i t n)" "oget (queued_order c mint source extra i t n) ''collectionSignature'' = source"
  by (simp_all add: queued_order_def)

text \<open>An order queued under the next key of its source keeps one open order.\<close>

lemma one_open_queue:
  assumes "one_open s st" and "v3BuybackNextOrder st (Str x) = Inr nxt" and "\<not> truthy (no_row nxt)" and "CHR '':'' \<notin> set s"
  shows "one_open s (st\<lparr>bs_orders := oset (no_key nxt) (queued_order c mint (Str x) extra i t n) (bs_orders st)\<rparr>)"
proof -
  let ?row = "queued_order c mint (Str x) extra i t n"
  have truthy: "list_all (\<lambda>o1. truthy (snd o1)) (bs_orders st)" using assms(1) by (simp add: one_open_def)
  then have "list_all (\<lambda>o1. truthy (snd o1)) (oset (no_key nxt) ?row (bs_orders st))"
    using set_oset [of "no_key nxt" ?row "bs_orders st"] by (auto simp: list_all_iff)
  moreover have "length (open_orders (st\<lparr>bs_orders := oset (no_key nxt) ?row (bs_orders st)\<rparr>) s) \<le> 1"
  proof (cases "x = s")
    case True
    with next_order_fresh [OF assms(2,3) truthy] have "open_orders st s = []" by simp
    with length_filter_oset [of "\<lambda>o1. of_source (Str s) o1 \<and> oget (snd o1) ''status'' \<noteq> Str ''finalized''" "no_key nxt" ?row "bs_orders st"]
    show ?thesis by (simp add: open_orders_def split: if_splits)
  next
    case False
    have "no_key nxt \<noteq> s" using next_order_fresh [OF assms(2,3) truthy] False assms(4) by auto
    with False have "\<not> of_source (Str s) (no_key nxt, ?row)" by (simp add: of_source_def jeq_def)
    with length_filter_oset [of "\<lambda>o1. of_source (Str s) o1 \<and> oget (snd o1) ''status'' \<noteq> Str ''finalized''" "no_key nxt" ?row "bs_orders st"]
      assms(1) show ?thesis by (simp add: open_orders_def one_open_def)
  qed
  ultimately show ?thesis by (simp add: one_open_def)
qed

lemma one_open_settlement:
  assumes "one_open s st" and "CHR '':'' \<notin> set s" and "oget row ''collectionSignature'' = Str x" and "queue_settlement c st row = Inr st'"
  shows "one_open s st'"
proof (cases "st' = st")
  case False
  have "jget row ''collectionSignature'' = Inr (Str x)" using assms(3) by (auto simp: jget_def)
  with assms(4) False obtain nxt i t where "v3BuybackNextOrder st (Str x) = Inr nxt" "\<not> truthy (no_row nxt)"
    and st': "st' = st\<lparr>bs_orders := oset (no_key nxt)
      (queued_order c (oget row ''mint'') (Str x) [] i t (no_round nxt)) (bs_orders st)\<rparr>"
    by (auto simp: queue_settlement_def Let_def bindR_Inr_iff split: if_splits)
  then show ?thesis unfolding st' by (intro one_open_queue assms)
qed (simp add: assms)

lemma one_open_vault:
  assumes "one_open s st" and "CHR '':'' \<notin> set s" and "queue_vault c st vault = Inr st'"
  shows "one_open s st'"
proof (cases "st' = st")
  case False
  with assms(3) obtain nxt i extra t where "v3BuybackNextOrder st (Str (onchainBuybackSource (oget vault ''mint''))) = Inr nxt"
    "\<not> truthy (no_row nxt)"
    and st': "st' = st\<lparr>bs_orders := oset (no_key nxt)
      (queued_order c (oget vault ''mint'') (Str (onchainBuybackSource (oget vault ''mint''))) extra i t (no_round nxt)) (bs_orders st)\<rparr>"
    by (auto simp: queue_vault_def Let_def bindR_Inr_iff split: if_splits)
  then show ?thesis unfolding st' by (intro one_open_queue assms)
qed (simp add: assms)

text \<open>C34. A cycle never opens a second order for a collection: when every stored order is an object and
  every settlement names its collection by a string, a collection that had at most one order that
  is not final has at most one after the whole cycle, whatever the vaults on chain.\<close>

theorem buyback_cycle_one_open:
  assumes "queueV3BuybackCycle c dashboard st0 = Inr st'" and "one_open s st0" and "CHR '':'' \<notin> set s"
    and "list_all (\<lambda>row. \<exists>x. oget row ''collectionSignature'' = Str x) (map snd (bs_settlements st0))"
  shows "one_open s st'"
proof -
  from assms(1) obtain st1 vaults where st1: "foldR (queue_settlement c) st0 (map snd (bs_settlements st0)) = Inr st1"
    and st': "foldR (queue_vault c) st1 vaults = Inr st'" by (auto simp: queueV3BuybackCycle_def bindR_Inr_iff)
  have "one_open s st1"
  proof (rule foldR_invariant [where P = "one_open s", OF st1 assms(2)])
    fix st row st'
    assume "row \<in> set (map snd (bs_settlements st0))"
    then obtain x where "oget row ''collectionSignature'' = Str x" using assms(4) by (auto simp: list_all_iff)
    moreover assume "one_open s st" "queue_settlement c st row = Inr st'"
    ultimately show "one_open s st'" using one_open_settlement assms(3) by blast
  qed
  then show ?thesis
    by (rule foldR_invariant [where P = "one_open s", OF st']) (rule one_open_vault [OF _ assms(3)])
qed

text \<open>The sources of a budget, and what an executed aggregate order changes in one of its rows.\<close>

lemma aggregate_sources:
  assumes "mapR (budget_row st mint p) (bs_settlements st) = Inr rows" and "distinct (map fst (bs_settlements st))"
    and "mset sources = mset (concat rows)"
  shows "set sources = set (concat rows) \<and> distinct (map fst sources) \<and> (\<forall>b \<in> set sources. 0 \<le> snd b)"
proof -
  note B = budget_rows_sources [OF assms(1,2)]
  have set: "set sources = set (concat rows)" using assms(3) by (rule mset_eq_setD)
  have "distinct (map fst sources)" using B assms(3) by (metis mset_eq_imp_distinct_iff mset_map)
  moreover have "\<forall>b \<in> set sources. 0 \<le> snd b" unfolding set using B by (meson less_imp_le)
  ultimately show ?thesis using set by simp
qed

lemma budget_row_executed:
  assumes rows: "mapR (budget_row st mint p) (bs_settlements st) = Inr rows" and d: "distinct (map fst (bs_settlements st))"
    and sources: "mset sources = mset (concat rows)"
    and order: "finished_aggregate p sources s row" "0 \<le> s" "s \<le> sum_list (map snd sources)"
    and fresh: "key \<notin> fst ` set (bs_orders st) \<union> fst ` set (bs_settlements st)"
      "oget row ''collectionSignature'' \<notin> Str ` fst ` set (bs_settlements st)"
    and e: "entry \<in> set (bs_settlements st)" and l: "budget_row st mint p entry = Inr l"
  shows "budget_row (st\<lparr>bs_orders := oset key row (bs_orders st)\<rparr>) mint p entry
    = Inr (filter (\<lambda>b. 0 < snd b) (map (\<lambda>b. (fst b, snd b - taken s sources (fst b))) l))"
proof -
  let ?st = "st\<lparr>bs_orders := oset key row (bs_orders st)\<rparr>" and ?t = "taken s sources"
  from aggregate_sources [OF rows d sources] have set: "set sources = set (concat rows)"
    and ds: "distinct (map fst sources)" and pos: "\<forall>b \<in> set sources. 0 \<le> snd b" by blast+
  have k: "key \<noteq> fst entry" "key \<notin> fst ` set (bs_orders st)" "oget row ''collectionSignature'' \<noteq> Str (fst entry)"
    using fresh e by auto
  have mem: "l \<in> set rows" using mapR_set [OF rows e] l by auto
  have only: "l \<noteq> []" if s: "fst entry \<in> fst ` set sources"
  proof -
    from s obtain l' x where l': "l' \<in> set rows" "(fst entry, x) \<in> set l'" by (auto simp: set)
    from mapR_preimage [OF rows l'(1)] obtain e' where e': "e' \<in> set (bs_settlements st)" "budget_row st mint p e' = Inr l'"
      by blast
    with budget_row_shape [OF e'(2)] l'(2) have "fst e' = fst entry" by auto
    with e e'(1) d have "e' = entry" by (auto simp: distinct_map inj_on_def)
    with e'(2) l l'(2) show ?thesis by auto
  qed
  have "budget_row ?st mint p entry = Inr (filter (\<lambda>b. 0 < snd b) (map (\<lambda>b. (fst b, snd b - ?t (fst entry))) l))"
  proof (rule budget_row_after [OF l])
    show "v3BuybackSourceSpent ?st (Str (fst entry)) p = Inr (s0 + ?t (fst entry))"
      if "v3BuybackSourceSpent st (Str (fst entry)) p = Inr s0" for s0
      by (rule spent_after_aggregate [OF that order(1,2) pos order(3) k(2,1,3)])
    show "?t (fst entry) = 0" if "l = []" using taken_other [OF order(2) pos] only that by blast
    show "?t (fst entry) \<le> x" if "l = [(fst entry, x)]" for x
    proof -
      have "(fst entry, x) \<in> set sources" using mem that by (force simp: set)
      then show ?thesis using taken_bound [OF order(2) pos ds] by blast
    qed
  qed simp
  moreover have "\<forall>b \<in> set l. fst b = fst entry" using budget_row_shape [OF l] by auto
  then have "map (\<lambda>b. (fst b, snd b - ?t (fst entry))) l = map (\<lambda>b. (fst b, snd b - ?t (fst b))) l" by simp
  ultimately show ?thesis by simp
qed

text \<open>C35. An aggregate order spends its sources down exactly: when an order that froze the budgets of a
  mint is proved final with \<open>s\<close> spent, at most their total, then the budgets of the mint are still
  consistent, what they have left is the total less \<open>s\<close>, and no source spent more than it had.\<close>

theorem aggregate_order_spends_budget:
  assumes "aggregateSourceBudget locale_le st mint p = Inr (sources, budget)" and "finished_aggregate p sources s row"
    and "0 \<le> s" and "s \<le> budget" and "distinct (map fst (bs_settlements st))"
    and "key \<notin> fst ` set (bs_orders st) \<union> fst ` set (bs_settlements st)"
    and "oget row ''collectionSignature'' \<notin> Str ` fst ` set (bs_settlements st)"
  shows "\<exists>left. aggregateSourceBudget locale_le (st\<lparr>bs_orders := oset key row (bs_orders st)\<rparr>) mint p = Inr (left, budget - s)
    \<and> list_all (\<lambda>(source, x). 0 \<le> taken s sources source \<and> taken s sources source \<le> x) sources"
proof -
  let ?st = "st\<lparr>bs_orders := oset key row (bs_orders st)\<rparr>" and ?le = "\<lambda>a b. locale_le (fst a) (fst b)"
  let ?t = "taken s sources" and ?r = "\<lambda>bs. filter (\<lambda>b. 0 < snd b) (map (\<lambda>b. (fst b, snd b - taken s sources (fst b))) bs)"
  from assms(1) obtain rows where rows: "mapR (budget_row st mint p) (bs_settlements st) = Inr rows"
    and sources: "sources = sort_by ?le (concat rows)" and budget: "budget = sum_list (map snd sources)"
    by (auto simp: aggregateSourceBudget_def bindR_Inr_iff Let_def)
  have perm: "mset sources = mset (concat rows)" by (simp add: sources)
  from aggregate_sources [OF rows assms(5) perm] have set: "set sources = set (concat rows)"
    and d: "distinct (map fst sources)" and pos: "\<forall>b \<in> set sources. 0 \<le> snd b" by blast+
  note bound = taken_bound [OF assms(3) pos d]
  have "mapR (budget_row ?st mint p) (bs_settlements st) = Inr (map ?r rows)"
    by (rule budget_rows_after [OF rows assms(5)], rule budget_row_executed [OF rows assms(5) perm assms(2,3) _ assms(6,7)])
      (use assms(4) budget in simp_all)
  then have "aggregateSourceBudget locale_le ?st mint p = Inr (sort_by ?le (concat (map ?r rows)), sum_list (map snd (concat (map ?r rows))))"
    by (simp add: aggregateSourceBudget_def Let_def)
  moreover have "concat (map ?r rows) = ?r (concat rows)" by (induction rows) simp_all
  moreover have "sum_list (map snd (?r (concat rows))) = sum_list (map snd (concat rows)) - sum_list (map (\<lambda>b. ?t (fst b)) (concat rows))"
    by (rule sum_positive_part) (use bound set in auto)
  moreover have "sum_list (map (\<lambda>b. ?t (fst b)) (concat rows)) = sum_list (map (\<lambda>b. ?t (fst b)) sources)"
    "sum_list (map snd (concat rows)) = budget" by (simp_all add: sources budget)
  moreover have "sum_list (map (\<lambda>b. ?t (fst b)) sources) = s"
    using taken_sum [OF assms(3) pos d] takes_props [OF assms(3) pos] assms(4) budget by simp
  moreover have "list_all (\<lambda>(source, x). 0 \<le> ?t source \<and> ?t source \<le> x) sources" using bound by (auto simp: list_all_iff)
  ultimately show ?thesis by auto
qed

definition sample_buyback :: buyback_state where
  "sample_buyback =
     (let settled = (\<lambda>source n. Obj [(''mint'', Str ''m''), (''status'', Str ''finalized''), (''collectionSignature'', Str source),
        (''allocationPlan'', Obj [(''protocol'', Obj [(''buybackLamports'', Str n)])])]);
      collected = Obj [(''onchainVerified'', Bool True), (''status'', Str ''collected''), (''mint'', Str ''m''), (''programId'', Str ''p'')] in
      \<lparr>bs_orders = [], bs_settlements = [(''a'', settled ''a'' ''700''), (''b'', settled ''b'' ''300'')], bs_launches = [],
       bs_collections = [(''a'', collected), (''b'', collected)]\<rparr>)"

definition sample_aggregate :: jsval where
  "sample_aggregate =
     Obj [(''status'', Str ''finalized''), (''finalized'', Bool True), (''vaultDebitVerified'', Bool True),
       (''burnInstructionVerified'', Bool True), (''programId'', Str ''p''), (''sourceKind'', Str ''aggregate-collections''),
       (''sourceBudgets'', Arr (map budget_value [(''a'', 700), (''b'', 300)])), (''spentLamports'', Str ''900''),
       (''collectionSignature'', Str ''aggregate:m'')]"

theorem aggregate_order_spends_budget_witness:
  "\<exists>left. aggregateSourceBudget (\<lambda>a b. \<not> str_less b a)
     (sample_buyback\<lparr>bs_orders := oset ''k'' sample_aggregate (bs_orders sample_buyback)\<rparr>) (Str ''m'') ''p'' = Inr (left, 100)"
proof -
  have "aggregateSourceBudget (\<lambda>a b. \<not> str_less b a) sample_buyback (Str ''m'') ''p'' = Inr ([(''a'', 700), (''b'', 300)], 1000)"
    by code_simp
  moreover have "finished_aggregate ''p'' [(''a'', 700), (''b'', 300)] 900 sample_aggregate" by code_simp
  moreover have "distinct (map fst (bs_settlements sample_buyback))" by code_simp
  moreover have "''k'' \<notin> fst ` set (bs_orders sample_buyback) \<union> fst ` set (bs_settlements sample_buyback)" by code_simp
  moreover have "oget sample_aggregate ''collectionSignature'' \<notin> Str ` fst ` set (bs_settlements sample_buyback)" by code_simp
  ultimately show ?thesis
    using aggregate_order_spends_budget [of "\<lambda>a b. \<not> str_less b a" sample_buyback "Str ''m''" "''p''" _ 1000 900 sample_aggregate "''k''"]
    by auto
qed

definition sample_cycle :: buyback_cycle where
  "sample_cycle = \<lparr>bc_programId = ''p'', bc_hash = ''AB'', bc_cycleId = Str ''c'', bc_now = ''now'', bc_sha256 = (\<lambda>t. ''h'' @ t),
     bc_publicKey = (\<lambda>v. Inr (to_str v))\<rparr>"

definition sample_signature :: string where
  "sample_signature = replicate 64 (CHR ''7'')"

definition sample_ledger :: buyback_state where
  "sample_ledger =
     (let sig = Str sample_signature in
      \<lparr>bs_orders = [],
       bs_settlements = [(sample_signature, Obj [(''mint'', Str ''m''), (''status'', Str ''finalized''), (''collectionSignature'', sig),
          (''allocationPlan'', Obj [(''status'', Str ''allocated-not-funded''), (''protocol'', Obj [(''buybackLamports'', Str ''700'')])])])],
       bs_launches = [(''m'', Obj [(''onchainVerified'', Bool True), (''pumpFeeRoute'', Obj [(''programId'', Str ''p'')])])],
       bs_collections = [(sample_signature, Obj [(''signature'', sig), (''onchainVerified'', Bool True), (''programId'', Str ''p'')])]\<rparr>)"

definition sample_vaults :: jsval where
  "sample_vaults = Obj [(''unindexedStatus'', Str ''verified''), (''unindexedVaults'', Arr [Obj [(''status'', Str ''verified''),
     (''pendingLamports'', Str ''9''), (''creator'', Str ''x''), (''initialAuthority'', Str ''y''), (''mint'', Str ''n'')]])]"

theorem buyback_cycle_one_open_witness:
  "length (bs_orders (projr (queueV3BuybackCycle sample_cycle sample_vaults sample_ledger))) = 2
    \<and> one_open sample_signature (projr (queueV3BuybackCycle sample_cycle sample_vaults sample_ledger))"
proof -
  have n: "length (bs_orders (projr (queueV3BuybackCycle sample_cycle sample_vaults sample_ledger))) = 2" by code_simp
  have "\<not> isl (queueV3BuybackCycle sample_cycle sample_vaults sample_ledger)" by code_simp
  then have "queueV3BuybackCycle sample_cycle sample_vaults sample_ledger
    = Inr (projr (queueV3BuybackCycle sample_cycle sample_vaults sample_ledger))"
    by (cases "queueV3BuybackCycle sample_cycle sample_vaults sample_ledger") simp_all
  moreover have "one_open sample_signature sample_ledger" "CHR '':'' \<notin> set sample_signature" by code_simp+
  moreover have "list_all (\<lambda>row. \<exists>x. oget row ''collectionSignature'' = Str x) (map snd (bs_settlements sample_ledger))"
    by (simp add: sample_ledger_def Let_def)
  ultimately show ?thesis using buyback_cycle_one_open n by blast
qed

end
