(* ===== verification/Jackpot.thy ===== *)
theory Jackpot
  imports JsDate "HOL-Library.List_Lexorder" "HOL-Library.FuncSet"
begin

text \<open>
  The daily jackpots: windows, eligible entries, the draw and the payout
  (\<open>server/jackpot-model.mjs\<close>), and the calculation and settlement of a round
  (\<open>server/jackpot-round.mjs\<close>).  Receipts and proofs are values whose fields the code tests;
  SHA-256, as lower-case hexadecimal text, and \<open>JSON.stringify\<close> are parameters.
\<close>

section \<open>server/jackpot-model.mjs\<close>

record jackpot_lib =
  jl_sha256 :: "string \<Rightarrow> string"
  jl_json :: "jsval \<Rightarrow> string"

definition JACKPOT_PERIOD_SECONDS :: int where "JACKPOT_PERIOD_SECONDS = 86400"
definition CREATOR_SHARE_BPS :: int where "CREATOR_SHARE_BPS = 100"
definition TRADER_FEE_BPS :: int where "TRADER_FEE_BPS = 500"

record jackpot_window =
  jw_start :: jsnum
  jw_end :: jsnum
  jw_secondsRemaining :: jsnum

definition jackpotWindow :: "jsval \<Rightarrow> jackpot_window res" where
  "jackpotWindow nowSeconds =
     (if \<not> is_safe nowSeconds \<or> safe_int nowSeconds < 0 then throw ''Invalid round time.''
      else
        let now = nint (safe_int nowSeconds); period = nint JACKPOT_PERIOD_SECONDS;
            start = nmul (math_floor (ndiv now period)) period in
        Inr \<lparr>jw_start = start, jw_end = nadd start period, jw_secondsRemaining = nsub (nadd start period) now\<rparr>)"

definition jackpot_lamports :: "jsval \<Rightarrow> int res" where
  "jackpot_lamports v = (if \<not> canon_dec (to_str v) then throw ''Invalid lamport amount.'' else to_bigint v)"

definition jackpotContribution :: "jsval \<Rightarrow> int \<Rightarrow> string res" where
  "jackpotContribution sourceLamports bps =
     (if bps \<notin> {CREATOR_SHARE_BPS, TRADER_FEE_BPS} then throw ''Invalid jackpot rate.''
      else bindR (jackpot_lamports sourceLamports) (\<lambda>n. Inr (show_int (n * bps div 10000))))"

definition is_object :: "jsval \<Rightarrow> bool" where
  "is_object v = (case v of Obj _ \<Rightarrow> True | Arr _ \<Rightarrow> True | _ \<Rightarrow> False)"

definition address_value :: "jsval \<Rightarrow> bool" where
  "address_value v \<longleftrightarrow> is_address (to_str (jor v (Str [])))"

definition signature_value :: "jsval \<Rightarrow> bool" where
  "signature_value v \<longleftrightarrow> is_signature (to_str (jor v (Str [])))"

text \<open>A window that starts on a boundary of the period and lasts one.\<close>

definition round_window :: "jsval \<Rightarrow> bool" where
  "round_window w \<longleftrightarrow> truthy w \<and> is_safe (oget w ''start'') \<and> is_safe (oget w ''end'')
     \<and> safe_int (oget w ''end'') - safe_int (oget w ''start'') = JACKPOT_PERIOD_SECONDS
     \<and> safe_int (oget w ''start'') mod JACKPOT_PERIOD_SECONDS = 0"

definition in_round :: "jsval \<Rightarrow> jsval \<Rightarrow> bool" where
  "in_round w blockTime \<longleftrightarrow> is_safe blockTime \<and> safe_int (oget w ''start'') \<le> safe_int blockTime
     \<and> safe_int blockTime < safe_int (oget w ''end'')"

definition entry_wallet :: "string \<Rightarrow> jsval \<Rightarrow> jsval" where
  "entry_wallet kind row = oget row (if kind = ''creator'' then ''creatorWallet'' else ''traderWallet'')"

definition entry_source :: "string \<Rightarrow> jsval \<Rightarrow> jsval" where
  "entry_source kind row = oget row (if kind = ''creator'' then ''mint'' else ''signature'')"

definition eligible_row :: "string \<Rightarrow> jsval \<Rightarrow> jsval \<Rightarrow> bool" where
  "eligible_row kind w row \<longleftrightarrow> truthy row \<and> is_object row
     \<and> oget row ''cluster'' = Str ''devnet'' \<and> oget row ''finalized'' = Bool True \<and> oget row ''onchainVerified'' = Bool True
     \<and> address_value (entry_wallet kind row)
     \<and> (kind = ''creator'' \<longrightarrow> address_value (entry_source kind row))
     \<and> (kind = ''trader'' \<longrightarrow> signature_value (entry_source kind row))
     \<and> in_round w (oget row ''blockTime'')
     \<and> (kind = ''trader'' \<longrightarrow> oget row ''feeTransferVerified'' = Bool True
          \<and> pos_dec (to_str (jor (oget row ''feeLamports'') (Str []))))"

record jackpot_entry =
  je_wallet :: jsval
  je_source :: jsval
  je_blockTime :: jsval
  je_feeLamports :: "string option"

definition entry_of :: "string \<Rightarrow> jsval \<Rightarrow> jackpot_entry" where
  "entry_of kind row =
     \<lparr>je_wallet = entry_wallet kind row, je_source = entry_source kind row, je_blockTime = oget row ''blockTime'',
      je_feeLamports = (if kind = ''trader'' then Some (to_str (oget row ''feeLamports'')) else None)\<rparr>"

definition conflicting :: "string \<Rightarrow> jackpot_entry \<Rightarrow> jackpot_entry \<Rightarrow> bool" where
  "conflicting kind existing e \<longleftrightarrow> \<not> jeq (je_wallet existing) (je_wallet e) \<or> \<not> jeq (je_blockTime existing) (je_blockTime e)
     \<or> kind = ''trader'' \<and> je_feeLamports existing \<noteq> je_feeLamports e"

definition add_receipt :: "string \<Rightarrow> jsval \<Rightarrow> (jsval, jackpot_entry) omap \<Rightarrow> jsval \<Rightarrow> (jsval, jackpot_entry) omap res" where
  "add_receipt kind w unique row =
     (if \<not> eligible_row kind w row then Inr unique
      else
        let e = entry_of kind row in
        if (case map_of unique (je_source e) of Some existing \<Rightarrow> conflicting kind existing e | None \<Rightarrow> False)
        then throw ''Conflicting finalized jackpot receipt.''
        else Inr (oset (je_source e) e unique))"

text \<open>\<open>a.source < b.source ? -1 : a.source > b.source ? 1 : 0\<close> on sources that are text.\<close>

definition source_le :: "jsval \<Rightarrow> jsval \<Rightarrow> bool" where
  "source_le a b \<longleftrightarrow> \<not> str_less (to_str b) (to_str a)"

definition entry_value :: "jackpot_entry \<Rightarrow> jsval" where
  "entry_value e = Obj [(''wallet'', je_wallet e), (''source'', je_source e)]"

definition iterable :: "jsval \<Rightarrow> jsval list res" where
  "iterable v = (case v of Arr vs \<Rightarrow> Inr vs | _ \<Rightarrow> Inl TypeErr)"

definition eligibleJackpotEntries :: "string \<Rightarrow> jsval \<Rightarrow> jsval \<Rightarrow> jsval list res" where
  "eligibleJackpotEntries kind receipts w =
     (if kind \<notin> {''creator'', ''trader''} then throw ''Invalid jackpot kind.''
      else if \<not> round_window w \<or> safe_int (oget w ''start'') < 0 then throw ''Invalid jackpot window.''
      else
        bindR (iterable (jor receipts (Arr []))) (\<lambda>rows.
        bindR (foldR (add_receipt kind w) [] rows) (\<lambda>unique.
          Inr (map entry_value (sort_by (\<lambda>a b. source_le (je_source a) (je_source b)) (map snd unique))))))"

record jackpot_draw =
  jd_winner :: jsval
  jd_selectedEntry :: jsval
  jd_entryIndex :: int
  jd_entropyHex :: string
  jd_nonce :: nat
  jd_drawHash :: string

fun check_entries :: "jsval list \<Rightarrow> jsval list \<Rightarrow> unit res" where
  "check_entries seen [] = Inr ()"
| "check_entries seen (entry # entries) =
     (if \<not> truthy entry \<or> \<not> address_value (oget entry ''wallet'') \<or> \<not> truthy (oget entry ''source'')
         \<or> oget entry ''source'' \<in> set seen then throw ''Invalid or duplicate jackpot entry.''
      else check_entries (oget entry ''source'' # seen) entries)"

definition order_entries :: "jsval list \<Rightarrow> jsval list" where
  "order_entries entries = sort_by (\<lambda>a b. source_le (oget a ''source'') (oget b ''source'')) entries"

definition draw_hash :: "jackpot_lib \<Rightarrow> string \<Rightarrow> string \<Rightarrow> nat \<Rightarrow> string" where
  "draw_hash L roundId entropy nonce = jl_sha256 L (roundId @ '':'' @ map to_lower entropy @ '':'' @ show_dec (int nonce))"

definition draw_range :: int where "draw_range = 2 ^ 256"

text \<open>The numbers below the limit fall evenly on the entries.\<close>

definition draw_limit :: "int \<Rightarrow> int" where
  "draw_limit n = draw_range - draw_range mod n"

fun draw_loop :: "jackpot_lib \<Rightarrow> string \<Rightarrow> string \<Rightarrow> jsval list \<Rightarrow> nat list \<Rightarrow> jackpot_draw res" where
  "draw_loop L roundId entropy ordered [] = throw ''Public entropy could not select a winner.''"
| "draw_loop L roundId entropy ordered (nonce # nonces) =
     (let n = int (length ordered); hash = draw_hash L roundId entropy nonce; number = parse_base 16 hash in
      if number < draw_limit n then
        let i = number mod n; e = ordered ! nat i in
        Inr \<lparr>jd_winner = oget e ''wallet'', jd_selectedEntry = oget e ''source'', jd_entryIndex = i,
          jd_entropyHex = map to_lower entropy, jd_nonce = nonce, jd_drawHash = hash\<rparr>
      else draw_loop L roundId entropy ordered nonces)"

text \<open>\<open>/^(creator|trader):\d+$/\<close> and the number after the colon.\<close>

definition round_start :: "string \<Rightarrow> jsnum option" where
  "round_start roundId =
     (case split_on (CHR '':'') roundId of
        [kind, digits] \<Rightarrow> if kind \<in> {''creator'', ''trader''} \<and> all_digits digits then Some (str_to_num digits) else None
      | _ \<Rightarrow> None)"

definition selectJackpotWinner :: "jackpot_lib \<Rightarrow> jsval \<Rightarrow> jsval \<Rightarrow> string \<Rightarrow> jackpot_draw res" where
  "selectJackpotWinner L entries entropyHex roundId =
     (case entries of
        Arr (e # es) \<Rightarrow>
          if \<not> (length (to_str entropyHex) = 64 \<and> list_all is_hex (to_str entropyHex))
            then throw ''A 32-byte public entropy proof is required.''
          else (case round_start roundId of
              None \<Rightarrow> throw ''Invalid round ID.''
            | Some start \<Rightarrow>
                if \<not> is_safe_integer start \<or> to_int start mod JACKPOT_PERIOD_SECONDS \<noteq> 0 then throw ''Invalid round boundary.''
                else bindR (check_entries [] (e # es)) (\<lambda>_.
                  draw_loop L roundId (to_str entropyHex) (order_entries (e # es)) [0..<1000]))
      | _ \<Rightarrow> throw ''No eligible entries.'')"

record jackpot_payout =
  jp_roundId :: jsval
  jp_winner :: jsval
  jp_amountLamports :: string
  jp_signature :: jsval
  jp_paidAt :: jsval

definition payout_refused :: "'a res" where
  "payout_refused = throw ''Payout has no matching finalized SOL transfer proof.''"

definition verifiedJackpotPayout :: "jsval \<Rightarrow> jsval \<Rightarrow> jackpot_payout res" where
  "verifiedJackpotPayout round1 proof1 =
     (let f = oget round1; p = oget proof1 in
      if \<not> truthy round1 \<or> \<not> truthy proof1 \<or> f ''status'' \<noteq> Str ''drawn'' \<or> f ''cluster'' \<noteq> Str ''devnet''
        \<or> \<not> address_value (f ''winner'') \<or> \<not> address_value (f ''vault'')
        \<or> \<not> signature_value (p ''signature'') \<or> p ''cluster'' \<noteq> Str ''devnet''
        \<or> p ''commitment'' \<noteq> Str ''finalized'' \<or> p ''transactionSucceeded'' \<noteq> Bool True
        \<or> p ''balanceDeltaVerified'' \<noteq> Bool True \<or> \<not> jeq (p ''from'') (f ''vault'') \<or> \<not> jeq (p ''to'') (f ''winner'')
      then payout_refused
      else
        bindR (jackpot_lamports (jor (p ''amountLamports'') (Str ''0''))) (\<lambda>amount.
        bindR (jackpot_lamports (jor (f ''prizeLamports'') (Str ''0''))) (\<lambda>prize.
          if amount \<noteq> prize \<or> prize \<le> 0 \<or> \<not> is_safe (p ''blockTime'')
            \<or> nless (to_number (p ''blockTime'')) (to_number (jor (f ''windowEnd'') (Num (nint 0)))) then payout_refused
          else Inr \<lparr>jp_roundId = f ''id'', jp_winner = f ''winner'', jp_amountLamports = to_str (f ''prizeLamports''),
            jp_signature = p ''signature'', jp_paidAt = p ''blockTime''\<rparr>)))"

text \<open>\<open>jackpotPreview(nowSeconds, cluster)\<close>; \<open>cluster\<close> is \<open>devnet\<close> when the caller passes none.\<close>

definition preview_common :: "jackpot_window \<Rightarrow> (string \<times> jsval) list" where
  "preview_common w =
     [(''windowStart'', Num (jw_start w)), (''windowEnd'', Num (jw_end w)),
      (''secondsRemaining'', Num (jw_secondsRemaining w)), (''fundedLamports'', Str ''0''), (''entries'', Null),
      (''fundingVerified'', Bool False), (''payoutEnabled'', Bool False), (''rulesPublished'', Bool False),
      (''eligibilityApproved'', Bool False), (''status'', Str ''inactive''), (''history'', Arr [])]"

definition jackpotPreview :: "jsval \<Rightarrow> jsval \<Rightarrow> jsval res" where
  "jackpotPreview nowSeconds cluster =
     bindR (jackpotWindow nowSeconds) (\<lambda>w.
     bindR (iso_of_num (nmul (to_number nowSeconds) (nint 1000))) (\<lambda>generatedAt.
     let start = num_to_str (jw_start w) in
     Inr (Obj [(''cluster'', cluster), (''mode'', Str ''devnet-prototype''), (''generatedAt'', Str generatedAt),
       (''creator'', Obj (preview_common w @ [(''id'', Str (''creator:'' @ start)),
          (''contributionBpsOfFundedShare'', Num (nint CREATOR_SHARE_BPS)),
          (''entryRule'', Str ''One finalized verified launch per unique mint'')])),
       (''trader'', Obj (preview_common w @ [(''id'', Str (''trader:'' @ start)),
          (''contributionBpsOfAppTradingFee'', Num (nint TRADER_FEE_BPS)),
          (''entryRule'', Str ''One finalized verified fee-paying trade per unique signature'')])),
       (''blockers'', Arr [
          Str ''No prospective creator-fee allocation, dedicated jackpot vault, or finalized contribution ledger.'',
          Str ''No persistent finalized wallet-attributed trading-fee receipt index.'',
          Str ''No durable round lock, independent draw beacon, or automatic payout worker.'',
          Str ''Worldwide eligibility and paid-activity-weighted odds require legal approval.''])])))"

section \<open>server/jackpot-round.mjs\<close>

record funding_row =
  fn_signature :: jsval
  fn_sources :: "jsval list"
  fn_sourceFeeLamports :: string
  fn_amountLamports :: string

record funding_state =
  fu_seen :: "jsval list"
  fu_seenSources :: "jsval list"
  fu_prize :: int
  fu_sourceFees :: int
  fu_funding :: "funding_row list"

definition source_list :: "jsval \<Rightarrow> jsval list" where
  "source_list v = (case v of Arr vs \<Rightarrow> vs | _ \<Rightarrow> [])"

definition funding_ok :: "string \<Rightarrow> jsval \<Rightarrow> jsval \<Rightarrow> funding_state \<Rightarrow> jsval \<Rightarrow> bool" where
  "funding_ok kind w vault st row \<longleftrightarrow> truthy row \<and> oget row ''cluster'' = Str ''devnet'' \<and> oget row ''kind'' = Str kind
     \<and> oget row ''finalized'' = Bool True \<and> oget row ''onchainVerified'' = Bool True \<and> oget row ''feeSourceVerified'' = Bool True
     \<and> jeq (oget row ''vault'') vault \<and> signature_value (oget row ''signature'')
     \<and> source_list (oget row ''sourceSignatures'') \<noteq> []
     \<and> list_all (\<lambda>s. signature_value s \<and> s \<notin> set (fu_seenSources st)) (source_list (oget row ''sourceSignatures''))
     \<and> distinct (source_list (oget row ''sourceSignatures''))
     \<and> in_round w (oget row ''blockTime'') \<and> oget row ''signature'' \<notin> set (fu_seen st)"

definition add_funding :: "string \<Rightarrow> jsval \<Rightarrow> jsval \<Rightarrow> funding_state \<Rightarrow> jsval \<Rightarrow> funding_state res" where
  "add_funding kind w vault st row =
     (let sources = source_list (oget row ''sourceSignatures''); fee = oget row ''sourceFeeLamports''; paid = oget row ''transferLamports'' in
      if \<not> funding_ok kind w vault st row then throw ''Invalid or duplicate jackpot funding receipt.''
      else if \<not> pos_dec (to_str (jor fee (Str []))) \<or> \<not> pos_dec (to_str (jor paid (Str [])))
        then throw ''Jackpot funding does not match the fee share.''
      else bindR (to_bigint fee) (\<lambda>feeLamports. bindR (to_bigint paid) (\<lambda>paidLamports.
        Inr \<lparr>fu_seen = oget row ''signature'' # fu_seen st, fu_seenSources = sources @ fu_seenSources st,
          fu_prize = fu_prize st + paidLamports, fu_sourceFees = fu_sourceFees st + feeLamports,
          fu_funding = fu_funding st @ [\<lparr>fn_signature = oget row ''signature'', fn_sources = sort_by source_le sources,
            fn_sourceFeeLamports = to_str fee, fn_amountLamports = to_str paid\<rparr>]\<rparr>)))"

definition funding_value :: "funding_row \<Rightarrow> jsval" where
  "funding_value r = Obj [(''signature'', fn_signature r), (''sourceSignatures'', Arr (fn_sources r)),
     (''sourceFeeLamports'', Str (fn_sourceFeeLamports r)), (''amountLamports'', Str (fn_amountLamports r))]"

record jackpot_round =
  jr_id :: string
  jr_kind :: string
  jr_windowStart :: jsval
  jr_windowEnd :: jsval
  jr_vault :: jsval
  jr_prizeLamports :: string
  jr_entryCount :: nat
  jr_entrySnapshot :: string
  jr_fundingSnapshot :: string
  jr_funding :: "funding_row list"
  jr_entropySource :: jsval
  jr_draw :: jackpot_draw

definition entropy_ok :: "jsval \<Rightarrow> jsval \<Rightarrow> jsval \<Rightarrow> bool" where
  "entropy_ok entropyProof w nowSeconds \<longleftrightarrow> truthy entropyProof \<and> oget entropyProof ''cluster'' = Str ''devnet''
     \<and> oget entropyProof ''finalized'' = Bool True \<and> oget entropyProof ''independent'' = Bool True
     \<and> signature_value (oget entropyProof ''sourceSignature'') \<and> is_safe (oget entropyProof ''blockTime'')
     \<and> safe_int (oget w ''end'') \<le> safe_int (oget entropyProof ''blockTime'')
     \<and> safe_int (oget entropyProof ''blockTime'') \<le> safe_int nowSeconds"

definition share_bps :: "string \<Rightarrow> int" where
  "share_bps kind = (if kind = ''creator'' then CREATOR_SHARE_BPS else TRADER_FEE_BPS)"

definition finish_round ::
  "jackpot_lib \<Rightarrow> string \<Rightarrow> jsval \<Rightarrow> jsval \<Rightarrow> jsval \<Rightarrow> jsval list \<Rightarrow> funding_state \<Rightarrow> jackpot_round res" where
  "finish_round L kind w vault entropyProof entries st =
     (if fu_funding st = [] \<or> fu_prize st \<le> 0 then throw ''Jackpot has no verified funding.''
      else
        bindR (jackpotContribution (Str (show_int (fu_sourceFees st))) (share_bps kind)) (\<lambda>share.
        bindR (str_to_bigint share) (\<lambda>expected.
        if fu_prize st \<noteq> expected then throw ''Jackpot funding does not match the aggregate fee share.''
        else
          let funding = sort_by (\<lambda>a b. source_le (fn_signature a) (fn_signature b)) (fu_funding st);
              roundId = kind @ '':'' @ to_str (oget w ''start'') in
          bindR (selectJackpotWinner L (Arr entries) (oget entropyProof ''entropyHex'') roundId) (\<lambda>draw.
            Inr \<lparr>jr_id = roundId, jr_kind = kind, jr_windowStart = oget w ''start'', jr_windowEnd = oget w ''end'',
              jr_vault = vault, jr_prizeLamports = show_int (fu_prize st), jr_entryCount = length entries,
              jr_entrySnapshot = jl_sha256 L (jl_json L (Arr entries)),
              jr_fundingSnapshot = jl_sha256 L (jl_json L (Arr (map funding_value funding))),
              jr_funding = funding, jr_entropySource = oget entropyProof ''sourceSignature'', jr_draw = draw\<rparr>))))"

definition prepareJackpotRound ::
  "jackpot_lib \<Rightarrow> string \<Rightarrow> jsval \<Rightarrow> jsval \<Rightarrow> jsval \<Rightarrow> jsval \<Rightarrow> jsval \<Rightarrow> jsval \<Rightarrow> jackpot_round res" where
  "prepareJackpotRound L kind w nowSeconds entryReceipts contributionReceipts entropyProof vault =
     (if kind \<notin> {''creator'', ''trader''} then throw ''Invalid jackpot kind.''
      else if \<not> round_window w \<or> \<not> is_safe nowSeconds \<or> safe_int nowSeconds < safe_int (oget w ''end'')
        then throw ''Jackpot round is not closed.''
      else if \<not> address_value vault then throw ''Invalid jackpot vault.''
      else if \<not> entropy_ok entropyProof w nowSeconds then throw ''Independent finalized draw entropy is missing.''
      else
        bindR (eligibleJackpotEntries kind entryReceipts w) (\<lambda>entries.
        if entries = [] then throw ''No eligible entries.''
        else
          bindR (iterable (jor contributionReceipts (Arr []))) (\<lambda>rows.
          bindR (foldR (add_funding kind w vault)
            \<lparr>fu_seen = [], fu_seenSources = [], fu_prize = 0, fu_sourceFees = 0, fu_funding = []\<rparr> rows) (\<lambda>st.
            finish_round L kind w vault entropyProof entries st))))"

definition settleJackpotRound :: "jsval \<Rightarrow> jsval \<Rightarrow> jsval list \<Rightarrow> jackpot_payout res" where
  "settleJackpotRound round1 proof1 existingReceipts =
     bindR (findR (\<lambda>row. bindR (jget row ''roundId'') (\<lambda>i. Inr (jeq i (oget round1 ''id'')
         \<or> jeq (oget row ''signature'') (oget proof1 ''signature'')))) existingReceipts) (\<lambda>recorded.
       if recorded \<noteq> None then throw ''Jackpot payout already recorded.'' else verifiedJackpotPayout round1 proof1)"

text \<open>
  What the RPC connection returns is given: the genesis hash and the parsed transaction.
  \<open>toBase58\<close> is the text of a public key that is no string.
\<close>

fun index_of :: "jsval \<Rightarrow> jsval list \<Rightarrow> nat option" where
  "index_of v [] = None"
| "index_of v (k # ks) = (if jeq k v then Some 0 else map_option Suc (index_of v ks))"

definition item_at :: "jsval \<Rightarrow> nat \<Rightarrow> jsval" where
  "item_at v i = (case v of Arr vs \<Rightarrow> if i < length vs then vs ! i else Undef | _ \<Rightarrow> Undef)"

definition is_array :: "jsval \<Rightarrow> bool" where
  "is_array v = (case v of Arr _ \<Rightarrow> True | _ \<Rightarrow> False)"

definition single_transfer :: "jsval \<Rightarrow> bool" where
  "single_transfer tx \<longleftrightarrow> truthy tx \<and> \<not> truthy (oget (oget tx ''meta'') ''err'') \<and> is_safe (oget tx ''blockTime'')
     \<and> (case oget (oget (oget tx ''transaction'') ''message'') ''instructions'' of Arr [_] \<Rightarrow> True | _ \<Rightarrow> False)"

definition transfer_of :: "jsval \<Rightarrow> jsval \<Rightarrow> bool" where
  "transfer_of instruction round1 \<longleftrightarrow> oget instruction ''program'' = Str ''system''
     \<and> oget (oget instruction ''parsed'') ''type'' = Str ''transfer''
     \<and> (let info = oget (oget instruction ''parsed'') ''info'' in
         jeq (oget info ''source'') (oget round1 ''vault'') \<and> jeq (oget info ''destination'') (oget round1 ''winner'')
         \<and> to_str (oget info ''lamports'') = to_str (oget round1 ''prizeLamports''))"

text \<open>The balances of the vault and of the winner change by the prize, and the fee is the vault's.\<close>

definition balances_match :: "jsval \<Rightarrow> jsval \<Rightarrow> nat \<Rightarrow> nat \<Rightarrow> int \<Rightarrow> bool" where
  "balances_match meta keys i j amount \<longleftrightarrow>
     (let pre = item_at (oget meta ''preBalances''); post = item_at (oget meta ''postBalances'') in
      i \<noteq> j \<and> truthy (oget (item_at keys i) ''signer'')
      \<and> is_array (oget meta ''preBalances'') \<and> is_array (oget meta ''postBalances'')
      \<and> is_safe (oget meta ''fee'') \<and> 0 \<le> safe_int (oget meta ''fee'')
      \<and> list_all is_safe [pre i, post i, pre j, post j]
      \<and> safe_int (post j) - safe_int (pre j) = amount
      \<and> safe_int (pre i) - safe_int (post i) = amount + safe_int (oget meta ''fee''))"

definition verifyJackpotPayoutOnchain ::
  "(jsval \<Rightarrow> jsval) \<Rightarrow> jsval \<Rightarrow> jsval \<Rightarrow> jsval \<Rightarrow> jsval \<Rightarrow> jsval \<Rightarrow> jsval list \<Rightarrow> jackpot_payout res" where
  "verifyJackpotPayoutOnchain toBase58 genesis tx expectedGenesisHash round1 signature existingReceipts =
     (if \<not> truthy expectedGenesisHash \<or> \<not> signature_value signature
        then throw ''Trusted Solana RPC and payout signature are required.''
      else if \<not> jeq genesis expectedGenesisHash then throw ''Payout RPC is on the wrong Solana cluster.''
      else if \<not> single_transfer tx then throw ''Payout transaction is missing, failed, or not a single transfer.''
      else
        let message = oget (oget tx ''transaction'') ''message''; instruction = item_at (oget message ''instructions'') 0 in
        bindR (jget instruction ''program'') (\<lambda>_.
        if \<not> transfer_of instruction round1 then throw ''Payout transfer does not match the draw.''
        else
          bindR (iterable (oget message ''accountKeys'')) (\<lambda>rows.
          bindR (mapR (\<lambda>row. jget row ''pubkey'') rows) (\<lambda>pubkeys.
          let keys = map (\<lambda>k. case k of Str _ \<Rightarrow> k | _ \<Rightarrow> toBase58 k) pubkeys in
          bindR (jget round1 ''vault'') (\<lambda>vault.
          bindR (to_bigint (oget round1 ''prizeLamports'')) (\<lambda>amount.
          if (case (index_of vault keys, index_of (oget round1 ''winner'') keys) of
                (Some i, Some j) \<Rightarrow> \<not> balances_match (oget tx ''meta'') (oget message ''accountKeys'') i j amount
              | _ \<Rightarrow> True)
            then throw ''Finalized payout balance changes do not match the draw.''
          else
            let proof1 = Obj [(''signature'', signature), (''cluster'', Str ''devnet''), (''commitment'', Str ''finalized''),
                (''transactionSucceeded'', Bool True), (''balanceDeltaVerified'', Bool True), (''from'', vault),
                (''to'', oget round1 ''winner''), (''amountLamports'', oget round1 ''prizeLamports''),
                (''blockTime'', oget tx ''blockTime'')] in
            settleJackpotRound round1 proof1 existingReceipts))))))"

section \<open>Orders of the sources\<close>

lemma str_less_key: "str_less s t \<longleftrightarrow> map ccode s < map ccode t"
proof (induction s t rule: str_less.induct)
  case (3 c s d t)
  have "ccode c = ccode d \<longleftrightarrow> c = d" by (simp add: ccode_def)
  with 3 show ?case by auto
qed simp_all

lemma source_le_key: "source_le a b \<longleftrightarrow> map ccode (to_str a) \<le> map ccode (to_str b)"
  by (simp add: source_le_def str_less_key not_less)

lemma ccode_inj: "map ccode s = map ccode t \<longleftrightarrow> s = t"
proof
  assume "map ccode s = map ccode t"
  moreover have "inj ccode" by (rule injI) (simp add: ccode_def)
  ultimately show "s = t" by (simp add: inj_map_eq_map)
qed simp

lemma sorted_source_order:
  "sorted (map (\<lambda>e. map ccode (to_str (f e))) (sort_by (\<lambda>a b. source_le (f a) (f b)) es))"
proof -
  have "sorted_wrt (\<lambda>a b. source_le (f a) (f b)) (sort_by (\<lambda>a b. source_le (f a) (f b)) es)"
    by (rule sorted_sort_by) (auto simp: source_le_key)
  then show ?thesis by (simp add: sorted_map source_le_key)
qed

text \<open>Entries with different sources have one order, whatever the order they came in.\<close>

lemma source_order_unique:
  assumes "mset es = mset es'" and "distinct (map (\<lambda>e. to_str (f e)) es)"
  shows "sort_by (\<lambda>a b. source_le (f a) (f b)) es = sort_by (\<lambda>a b. source_le (f a) (f b)) es'"
    (is "?s = ?s'")
proof -
  let ?k = "\<lambda>e. map ccode (to_str (f e))"
  have k: "?k = map ccode \<circ> (\<lambda>e. to_str (f e))" by (simp add: comp_def)
  have inj: "inj (map ccode)" by (rule injI) (simp only: ccode_inj)
  have d: "distinct (map ?k es)"
    unfolding k map_map [symmetric] using assms(2) by (simp only: distinct_map inj_on_subset [OF inj subset_UNIV] simp_thms)
  have d': "distinct (map ?k es')" using d assms(1) by (metis mset_eq_imp_distinct_iff mset_map)
  have set: "set es = set es'" using assms(1) by (rule mset_eq_setD)
  have "map ?k ?s = map ?k ?s'"
    by (rule sorted_distinct_set_unique) (use d d' set in \<open>simp_all add: sorted_source_order\<close>)
  moreover have "inj_on ?k (set ?s \<union> set ?s')" using d set by (simp add: distinct_map)
  ultimately show ?thesis by (rule map_inj_on)
qed

section \<open>The draw\<close>

definition entry_ok :: "jsval \<Rightarrow> bool" where
  "entry_ok e \<longleftrightarrow> truthy e \<and> address_value (oget e ''wallet'') \<and> truthy (oget e ''source'')"

lemma check_entries_iff:
  "check_entries seen es = (if list_all entry_ok es \<and> distinct (map (\<lambda>e. oget e ''source'') es)
      \<and> (\<lambda>e. oget e ''source'') ` set es \<inter> set seen = {} then Inr () else throw ''Invalid or duplicate jackpot entry.'')"
  by (induction seen es rule: check_entries.induct) (auto simp: entry_ok_def)

text \<open>C36. The draw does not depend on the order of the entries: two lists of the same entries, whose
  sources are text, give the same result, the winner or the error.\<close>

theorem jackpot_draw_order_free:
  assumes "mset es = mset es'" and "list_all (\<lambda>e. \<exists>x. oget e ''source'' = Str x) es"
  shows "selectJackpotWinner L (Arr es) entropyHex roundId = selectJackpotWinner L (Arr es') entropyHex roundId"
proof -
  let ?src = "\<lambda>e. oget e ''source''"
  have set: "set es = set es'" using assms(1) by (rule mset_eq_setD)
  have d: "distinct (map ?src es) \<longleftrightarrow> distinct (map ?src es')"
    by (rule mset_eq_imp_distinct_iff) (simp add: assms(1))
  have check: "check_entries [] es = check_entries [] es'" by (simp only: check_entries_iff list_all_iff set d)
  have order: "order_entries es = order_entries es'" if ok: "check_entries [] es = Inr ()"
    unfolding order_entries_def
  proof (rule source_order_unique [OF assms(1)])
    have "distinct (map ?src es)" using ok by (simp add: check_entries_iff split: if_splits)
    moreover have "inj_on to_str (?src ` set es)" using assms(2) by (auto simp: inj_on_def list_all_iff) (metis to_str.simps(6))
    ultimately have "distinct (map to_str (map ?src es))" by (simp only: distinct_map [of to_str] set_map simp_thms)
    then show "distinct (map (\<lambda>e. to_str (oget e ''source'')) es)" by (simp add: comp_def)
  qed
  show ?thesis
  proof (cases es)
    case Nil
    with assms(1) show ?thesis by simp
  next
    case (Cons e r)
    with assms(1) obtain e' r' where es': "es' = e' # r'" by (cases es') auto
    have "bindR (check_entries [] es) (\<lambda>_. draw_loop L roundId (to_str entropyHex) (order_entries es) [0..<1000])
      = bindR (check_entries [] es') (\<lambda>_. draw_loop L roundId (to_str entropyHex) (order_entries es') [0..<1000])"
    proof (cases "check_entries [] es")
      case (Inl x)
      with check have "check_entries [] es' = Inl x" by simp
      with Inl show ?thesis by simp
    next
      case (Inr u)
      with check order show ?thesis by simp
    qed
    then show ?thesis by (simp add: selectJackpotWinner_def Cons es' split: option.splits)
  qed
qed

definition toy_jackpot :: jackpot_lib where
  "toy_jackpot = \<lparr>jl_sha256 = (\<lambda>t. ''0a'' @ show_dec (int (length t))), jl_json = to_str\<rparr>"

definition toy_entry :: "char \<Rightarrow> jsval" where
  "toy_entry c = Obj [(''wallet'', Str (replicate 32 c)), (''source'', Str (replicate 40 c))]"

theorem jackpot_draw_order_free_witness:
  "selectJackpotWinner toy_jackpot (Arr [toy_entry CHR ''7'', toy_entry CHR ''8'']) (Str (replicate 64 CHR ''b'')) ''creator:86400''
    = selectJackpotWinner toy_jackpot (Arr [toy_entry CHR ''8'', toy_entry CHR ''7'']) (Str (replicate 64 CHR ''b'')) ''creator:86400''"
  by (rule jackpot_draw_order_free) (simp_all add: toy_entry_def)

lemma card_residue:
  assumes "0 < n" and "n dvd M" and "0 \<le> M" and "0 \<le> k" and "k < (n::int)"
  shows "card {x \<in> {0..<M}. x mod n = k} = nat (M div n)"
proof -
  have "bij_betw (\<lambda>q. q * n + k) {0..<M div n} {x \<in> {0..<M}. x mod n = k}"
  proof (rule bij_betwI [where g = "\<lambda>x. x div n"])
    show "(\<lambda>q. q * n + k) \<in> {0..<M div n} \<rightarrow> {x \<in> {0..<M}. x mod n = k}"
    proof (rule Pi_I)
      fix q assume q: "q \<in> {0..<M div n}"
      have "q * n + k < q * n + n" using assms(5) by simp
      also have "\<dots> = (q + 1) * n" by (simp add: algebra_simps)
      also have "\<dots> \<le> M div n * n" using q assms(1) by (intro mult_right_mono) auto
      also have "\<dots> = M" using assms(2) by simp
      finally show "q * n + k \<in> {x \<in> {0..<M}. x mod n = k}" using q assms by simp
    qed
    show "(\<lambda>x. x div n) \<in> {x \<in> {0..<M}. x mod n = k} \<rightarrow> {0..<M div n}"
    proof (rule Pi_I)
      fix x assume x: "x \<in> {x \<in> {0..<M}. x mod n = k}"
      obtain c where c: "M = n * c" using assms(2) by (rule dvdE)
      have "x div n * n \<le> x" using assms(1) by (simp add: div_mult_mod_eq [symmetric] minus_mod_eq_div_mult [symmetric])
      then have "x div n * n < c * n" using x c by (simp add: mult.commute)
      then have "x div n < c" using assms(1) by simp
      then show "x div n \<in> {0..<M div n}" using x assms(1) c by (simp add: pos_imp_zdiv_nonneg_iff)
    qed
  qed (use assms in \<open>auto simp: mult.commute\<close>)
  from bij_betw_same_card [OF this] show ?thesis by simp
qed

lemma draw_limit_props:
  assumes "0 < n"
  shows "n dvd draw_limit n \<and> 0 \<le> draw_limit n"
proof -
  have "draw_limit n = draw_range div n * n" by (simp add: draw_limit_def minus_mod_eq_div_mult)
  moreover have "0 \<le> draw_range div n" using assms by (simp add: draw_range_def pos_imp_zdiv_nonneg_iff)
  ultimately show ?thesis using assms by simp
qed

text \<open>The number of a nonce, and the first accepted one.\<close>

definition draw_number :: "jackpot_lib \<Rightarrow> string \<Rightarrow> string \<Rightarrow> nat \<Rightarrow> int" where
  "draw_number L roundId entropy i = parse_base 16 (draw_hash L roundId entropy i)"

lemma draw_loop_Inr:
  assumes "draw_loop L roundId entropy ordered [j..<k] = Inr d" and "ordered \<noteq> []"
  defines "n \<equiv> int (length ordered)"
  shows "j \<le> jd_nonce d \<and> jd_nonce d < k \<and> (\<forall>i. j \<le> i \<and> i < jd_nonce d \<longrightarrow> draw_limit n \<le> draw_number L roundId entropy i)
    \<and> draw_number L roundId entropy (jd_nonce d) < draw_limit n
    \<and> jd_entryIndex d = draw_number L roundId entropy (jd_nonce d) mod n
    \<and> jd_winner d = oget (ordered ! nat (jd_entryIndex d)) ''wallet''
    \<and> jd_selectedEntry d = oget (ordered ! nat (jd_entryIndex d)) ''source''"
  using assms(1)
proof (induction "k - j" arbitrary: j)
  case (Suc m)
  then have jk: "j < k" and j: "[j..<k] = j # [Suc j..<k]" by (simp_all add: upt_conv_Cons)
  show ?case
  proof (cases "draw_number L roundId entropy j < draw_limit n")
    case True
    with Suc.prems j jk show ?thesis by (auto simp: Let_def draw_number_def n_def)
  next
    case False
    with Suc.prems j have "draw_loop L roundId entropy ordered [Suc j..<k] = Inr d" by (simp add: Let_def draw_number_def n_def)
    from Suc.hyps(1) [OF _ this] Suc.hyps(2) have ih: "Suc j \<le> jd_nonce d" "jd_nonce d < k"
      "\<forall>i. Suc j \<le> i \<and> i < jd_nonce d \<longrightarrow> draw_limit n \<le> draw_number L roundId entropy i"
      "draw_number L roundId entropy (jd_nonce d) < draw_limit n"
      "jd_entryIndex d = draw_number L roundId entropy (jd_nonce d) mod n"
      "jd_winner d = oget (ordered ! nat (jd_entryIndex d)) ''wallet''"
      "jd_selectedEntry d = oget (ordered ! nat (jd_entryIndex d)) ''source''" by simp_all
    moreover have "\<forall>i. j \<le> i \<and> i < jd_nonce d \<longrightarrow> draw_limit n \<le> draw_number L roundId entropy i"
      using ih(3) False by (metis not_less not_less_eq_eq le_antisym)
    ultimately show ?thesis by simp
  qed
qed simp

text \<open>C37. The draw is fair: an accepted draw uses the first of the thousand numbers below the limit, picks
  the entry at that number modulo the number of entries, in the order of the sources, and every
  entry is picked by equally many of the numbers below the limit.\<close>

theorem jackpot_draw_fair:
  assumes "selectJackpotWinner L (Arr es) entropyHex roundId = Inr d"
  defines "n \<equiv> int (length es)" and "number \<equiv> draw_number L roundId (to_str entropyHex)"
  shows "0 < n \<and> jd_nonce d < 1000 \<and> (\<forall>i < jd_nonce d. draw_limit n \<le> number i) \<and> number (jd_nonce d) < draw_limit n
    \<and> jd_entryIndex d = number (jd_nonce d) mod n
    \<and> jd_winner d = oget (order_entries es ! nat (jd_entryIndex d)) ''wallet''
    \<and> (\<forall>k \<in> {0..<n}. card {x \<in> {0..<draw_limit n}. x mod n = k} = nat (draw_limit n div n))"
proof -
  from assms(1) obtain e r where es: "es = e # r" by (cases es) (auto simp: selectJackpotWinner_def)
  then have n: "0 < n" by (simp add: n_def)
  have "draw_loop L roundId (to_str entropyHex) (order_entries es) [0..<1000] = Inr d"
    using assms(1) by (auto simp: es selectJackpotWinner_def bindR_Inr_iff split: if_splits option.splits)
  moreover have "length (order_entries es) = length es" by (simp add: order_entries_def)
  moreover have "order_entries es \<noteq> []" using calculation(2) es by auto
  ultimately have d: "jd_nonce d < 1000 \<and> (\<forall>i. 0 \<le> i \<and> i < jd_nonce d \<longrightarrow> draw_limit n \<le> number i) \<and> number (jd_nonce d) < draw_limit n
      \<and> jd_entryIndex d = number (jd_nonce d) mod n \<and> jd_winner d = oget (order_entries es ! nat (jd_entryIndex d)) ''wallet''"
    using draw_loop_Inr [of L roundId "to_str entropyHex" "order_entries es" 0 1000 d] by (simp add: n_def number_def)
  have "\<forall>k \<in> {0..<n}. card {x \<in> {0..<draw_limit n}. x mod n = k} = nat (draw_limit n div n)"
    using card_residue [OF n] draw_limit_props [OF n] by simp
  with n d show ?thesis by simp
qed

definition toy_draw :: "jackpot_draw res" where
  "toy_draw = selectJackpotWinner toy_jackpot (Arr [toy_entry CHR ''7'', toy_entry CHR ''8'']) (Str (replicate 64 CHR ''b'')) ''creator:86400''"

theorem jackpot_draw_fair_witness:
  "jd_nonce (projr toy_draw) < 1000
    \<and> card {x \<in> {0..<draw_limit 2}. x mod 2 = (1::int)} = nat (draw_limit 2 div 2)"
proof -
  have "\<not> isl toy_draw" by code_simp
  then have "toy_draw = Inr (projr toy_draw)" by (cases toy_draw) simp_all
  from jackpot_draw_fair [OF this [unfolded toy_draw_def], folded toy_draw_def] show ?thesis by simp
qed

section \<open>Rounds\<close>

text \<open>What the funding rows added so far say.\<close>

definition funding_inv :: "funding_state \<Rightarrow> bool" where
  "funding_inv st \<longleftrightarrow>
     fu_prize st = sum_list (map (\<lambda>r. parse_dec (fn_amountLamports r)) (fu_funding st))
     \<and> fu_sourceFees st = sum_list (map (\<lambda>r. parse_dec (fn_sourceFeeLamports r)) (fu_funding st))
     \<and> set (map fn_signature (fu_funding st)) = set (fu_seen st) \<and> distinct (map fn_signature (fu_funding st))
     \<and> set (concat (map fn_sources (fu_funding st))) = set (fu_seenSources st) \<and> distinct (concat (map fn_sources (fu_funding st)))
     \<and> 0 \<le> fu_sourceFees st"

definition is_text :: "jsval \<Rightarrow> bool" where
  "is_text v = (case v of Str _ \<Rightarrow> True | _ \<Rightarrow> False)"

definition text_receipt :: "jsval \<Rightarrow> bool" where
  "text_receipt row \<longleftrightarrow> is_text (oget row ''sourceFeeLamports'') \<and> is_text (oget row ''transferLamports'')
     \<and> is_text (oget row ''signature'') \<and> list_all is_text (source_list (oget row ''sourceSignatures''))"

lemma pos_dec_to_bigint: "pos_dec (to_str (jor (Str x) (Str []))) \<Longrightarrow> to_bigint (Str x) = Inr (parse_dec x) \<and> 1 \<le> parse_dec x"
  using pos_dec_pos [of x] by (auto simp: jor_def str_to_bigint_digits pos_dec_canon canon_dec_digits pos_dec_def split: if_splits)

lemma add_funding_inv:
  assumes "funding_inv st" and "text_receipt row" and "add_funding kind w vault st row = Inr st'"
  shows "funding_inv st'"
proof -
  from assms(2) obtain x y where x: "oget row ''sourceFeeLamports'' = Str x" and y: "oget row ''transferLamports'' = Str y"
    by (auto simp: text_receipt_def is_text_def split: jsval.splits)
  let ?s = "source_list (oget row ''sourceSignatures'')"
  have ok: "funding_ok kind w vault st row" and px: "pos_dec (to_str (jor (Str x) (Str [])))" and py: "pos_dec (to_str (jor (Str y) (Str [])))"
    using assms(3) by (auto simp: add_funding_def Let_def x y split: if_splits)
  note bx = pos_dec_to_bigint [OF px] and b_y = pos_dec_to_bigint [OF py]
  from assms(3) ok px py bx b_y have st': "st' = \<lparr>fu_seen = oget row ''signature'' # fu_seen st, fu_seenSources = ?s @ fu_seenSources st,
      fu_prize = fu_prize st + parse_dec y, fu_sourceFees = fu_sourceFees st + parse_dec x,
      fu_funding = fu_funding st @ [\<lparr>fn_signature = oget row ''signature'', fn_sources = sort_by source_le ?s,
        fn_sourceFeeLamports = x, fn_amountLamports = y\<rparr>]\<rparr>"
    by (simp add: add_funding_def Let_def x y del: to_bigint.simps) 
  have "distinct ?s" "set ?s \<inter> set (fu_seenSources st) = {}" "oget row ''signature'' \<notin> set (fu_seen st)"
    using ok by (auto simp: funding_ok_def list_all_iff)
  then show ?thesis using assms(1) bx unfolding st' funding_inv_def by auto
qed

text \<open>The entries are those of eligible receipts, one for each source.\<close>

definition entries_inv :: "string \<Rightarrow> jsval \<Rightarrow> jsval list \<Rightarrow> (jsval, jackpot_entry) omap \<Rightarrow> bool" where
  "entries_inv kind w rows unique \<longleftrightarrow> distinct (map fst unique)
     \<and> (\<forall>(k, e) \<in> set unique. k = je_source e \<and> (\<exists>row \<in> set rows. eligible_row kind w row \<and> e = entry_of kind row))"

lemma add_receipt_inv:
  assumes "entries_inv kind w rows unique" and "row \<in> set rows" and "add_receipt kind w unique row = Inr unique'"
  shows "entries_inv kind w rows unique'"
proof (cases "eligible_row kind w row")
  case True
  let ?e = "entry_of kind row"
  have u: "unique' = oset (je_source ?e) ?e unique" using assms(3) True by (auto simp: add_receipt_def Let_def split: if_splits)
  have "distinct (map fst unique')" using assms(1) by (simp add: u entries_inv_def)
  moreover have "k = je_source e \<and> (\<exists>row \<in> set rows. eligible_row kind w row \<and> e = entry_of kind row)"
    if "(k, e) \<in> set unique'" for k e
    using that set_oset [of "je_source ?e" ?e unique] assms(1,2) True by (auto simp: u entries_inv_def)
  ultimately show ?thesis by (auto simp: entries_inv_def)
qed (use assms in \<open>simp add: add_receipt_def\<close>)

lemma eligible_entries:
  assumes "eligibleJackpotEntries kind receipts w = Inr entries"
  shows "\<exists>rows. iterable (jor receipts (Arr [])) = Inr rows \<and> distinct (map (\<lambda>e. oget e ''source'') entries)
    \<and> (\<forall>e \<in> set entries. \<exists>row \<in> set rows. eligible_row kind w row \<and> e = entry_value (entry_of kind row))"
proof -
  from assms obtain rows unique where rows: "iterable (jor receipts (Arr [])) = Inr rows"
    and unique: "foldR (add_receipt kind w) [] rows = Inr unique"
    and entries: "entries = map entry_value (sort_by (\<lambda>a b. source_le (je_source a) (je_source b)) (map snd unique))"
    by (auto simp: eligibleJackpotEntries_def bindR_Inr_iff split: if_splits)
  have inv: "entries_inv kind w rows unique"
    by (rule foldR_invariant [where P = "entries_inv kind w rows", OF unique])
      (auto simp: entries_inv_def [of _ _ _ "[]"] intro: add_receipt_inv)
  have m: "map je_source (map snd unique) = map fst unique" using inv by (auto simp: entries_inv_def)
  have "distinct (map je_source (map snd unique))" unfolding m using inv by (simp add: entries_inv_def)
  moreover have "(\<lambda>e. oget e ''source'') \<circ> entry_value = je_source" by (rule ext) (simp add: entry_value_def)
  ultimately have "distinct (map (\<lambda>e. oget e ''source'') entries)" by (simp add: entries)
  moreover have "\<forall>e \<in> set entries. \<exists>row \<in> set rows. eligible_row kind w row \<and> e = entry_value (entry_of kind row)"
    using inv by (fastforce simp: entries entries_inv_def)
  ultimately show ?thesis using rows by blast
qed

text \<open>Every eligible receipt is represented: a later receipt of the same source agrees with the first.\<close>

definition represented :: "string \<Rightarrow> (jsval, jackpot_entry) omap \<Rightarrow> jsval \<Rightarrow> bool" where
  "represented kind unique row \<longleftrightarrow> (\<exists>e. map_of unique (entry_source kind row) = Some e \<and> je_wallet e = entry_wallet kind row)"

lemma add_receipt_represents:
  assumes "entries_inv kind w rows unique" and "add_receipt kind w unique row = Inr unique'"
  shows "eligible_row kind w row \<Longrightarrow> represented kind unique' row"
    and "represented kind unique row0 \<Longrightarrow> represented kind unique' row0"
proof -
  have u: "unique' = (if eligible_row kind w row then oset (entry_source kind row) (entry_of kind row) unique else unique)"
    using assms(2) by (auto simp: add_receipt_def Let_def entry_of_def split: if_splits)
  show "represented kind unique' row" if "eligible_row kind w row"
    using that by (simp add: u represented_def entry_of_def)
  show "represented kind unique' row0" if r: "represented kind unique row0"
  proof (cases "eligible_row kind w row \<and> entry_source kind row = entry_source kind row0")
    case True
    from r obtain e where e: "map_of unique (entry_source kind row0) = Some e" "je_wallet e = entry_wallet kind row0"
      by (auto simp: represented_def)
    have "\<not> conflicting kind e (entry_of kind row)"
      using assms(2) True e(1) by (auto simp: add_receipt_def Let_def entry_of_def split: if_splits)
    then have "entry_wallet kind row0 = entry_wallet kind row" using e(2) by (simp add: conflicting_def jeq_def entry_of_def)
    then show ?thesis using True by (simp add: u represented_def entry_of_def)
  next
    case False
    then show ?thesis using r by (auto simp: u represented_def)
  qed
qed

lemma receipts_represented:
  "foldR (add_receipt kind w) unique rs = Inr unique' \<Longrightarrow> entries_inv kind w rows unique \<Longrightarrow> set rs \<subseteq> set rows \<Longrightarrow>
   (\<forall>row \<in> set rs. eligible_row kind w row \<longrightarrow> represented kind unique' row)
   \<and> (\<forall>row. represented kind unique row \<longrightarrow> represented kind unique' row)"
proof (induction rs arbitrary: unique)
  case (Cons r rs)
  then obtain u where u: "add_receipt kind w unique r = Inr u" "foldR (add_receipt kind w) u rs = Inr unique'"
    by (auto simp: bindR_Inr_iff)
  have inv: "entries_inv kind w rows u" using add_receipt_inv [OF Cons.prems(2) _ u(1)] Cons.prems(3) by simp
  note step = add_receipt_represents [OF Cons.prems(2) u(1)]
  show ?case using Cons.IH [OF u(2) inv] Cons.prems(3) step by auto
qed simp

text \<open>What a receipt has to say to take part, in full.\<close>

definition verified_receipt :: "string \<Rightarrow> jsval \<Rightarrow> jsval \<Rightarrow> bool" where
  "verified_receipt kind w row \<longleftrightarrow>
     oget row ''cluster'' = Str ''devnet'' \<and> oget row ''finalized'' = Bool True \<and> oget row ''onchainVerified'' = Bool True
     \<and> (\<exists>t. oget row ''blockTime'' = Num (nint t) \<and> safe_int (oget w ''start'') \<le> t \<and> t < safe_int (oget w ''end''))
     \<and> (if kind = ''creator''
        then is_address (to_str (oget row ''creatorWallet'')) \<and> is_address (to_str (oget row ''mint''))
        else is_address (to_str (oget row ''traderWallet'')) \<and> is_signature (to_str (oget row ''signature''))
          \<and> oget row ''feeTransferVerified'' = Bool True \<and> pos_dec (to_str (oget row ''feeLamports'')))"

lemma falsy_texts:
  assumes "\<not> truthy v"
  shows "\<not> is_address (to_str v)" and "\<not> is_signature (to_str v)" and "\<not> pos_dec (to_str v)"
proof -
  have "num_to_str NaN = ''NaN''" "num_to_str (Fin 0) = ''0''" by code_simp+
  then have "to_str v \<in> {''undefined'', ''null'', ''false'', ''NaN'', ''0'', []}"
    using assms by (cases v) (auto simp: show_int_def)
  moreover have "\<not> is_address t \<and> \<not> is_signature t \<and> \<not> pos_dec t" if "t \<in> {''undefined'', ''null'', ''false'', ''NaN'', ''0'', []}" for t
    using that by (elim insertE emptyE; hypsubst; code_simp)
  ultimately show "\<not> is_address (to_str v)" "\<not> is_signature (to_str v)" "\<not> pos_dec (to_str v)" by blast+
qed

lemma jor_texts:
  "is_address (to_str (jor v (Str []))) \<longleftrightarrow> is_address (to_str v)"
  "is_signature (to_str (jor v (Str []))) \<longleftrightarrow> is_signature (to_str v)"
  "pos_dec (to_str (jor v (Str []))) \<longleftrightarrow> pos_dec (to_str v)"
  using falsy_texts [of v] falsy_texts [of "Str []"] by (auto simp: jor_def)

lemma in_round_iff:
  assumes "round_window w" and "0 \<le> safe_int (oget w ''start'')"
  shows "in_round w b \<longleftrightarrow> (\<exists>t. b = Num (nint t) \<and> safe_int (oget w ''start'') \<le> t \<and> t < safe_int (oget w ''end''))"
proof
  assume "in_round w b"
  then show "\<exists>t. b = Num (nint t) \<and> safe_int (oget w ''start'') \<le> t \<and> t < safe_int (oget w ''end'')"
    unfolding in_round_def by (elim conjE is_safeE) auto
next
  assume "\<exists>t. b = Num (nint t) \<and> safe_int (oget w ''start'') \<le> t \<and> t < safe_int (oget w ''end'')"
  then obtain t where t: "b = Num (nint t)" "safe_int (oget w ''start'') \<le> t" "t < safe_int (oget w ''end'')" by blast
  have "is_safe (oget w ''end'')" using assms(1) by (simp add: round_window_def)
  then have "safe_int (oget w ''end'') \<le> max_safe" by (elim is_safeE) auto
  then show "in_round w b" using t assms(2) by (simp add: in_round_def)
qed

lemma eligible_row_verified:
  assumes "round_window w" and "0 \<le> safe_int (oget w ''start'')" and "kind = ''creator'' \<or> kind = ''trader''"
  shows "eligible_row kind w row \<longleftrightarrow> verified_receipt kind w row"
proof -
  have "truthy row \<and> is_object row" if "oget row ''cluster'' = Str ''devnet''"
    using that by (cases row) (auto simp: is_object_def split: if_split_asm)
  then show ?thesis
    using assms(3) unfolding eligible_row_def verified_receipt_def in_round_iff [OF assms(1,2)] address_value_def signature_value_def
      jor_texts entry_wallet_def entry_source_def
    by auto
qed

text \<open>C38. The entries of a draw are exactly the wallets and sources of the verified receipts: from the test
  network, finalized and verified on chain, with a block time in the window, naming a wallet and the
  mint or the signature; a trade also with its fee transfer verified and a positive fee.  No source is
  there twice, the entries are ordered by their sources, and the draw does not refuse them.\<close>

theorem eligible_entries_well_formed:
  assumes "eligibleJackpotEntries kind receipts w = Inr entries"
  shows "\<exists>rows. (receipts = Arr rows \<or> \<not> truthy receipts \<and> rows = [])
    \<and> set entries = (\<lambda>row. Obj [(''wallet'', entry_wallet kind row), (''source'', entry_source kind row)])
        ` {row \<in> set rows. verified_receipt kind w row}
    \<and> distinct (map (\<lambda>e. oget e ''source'') entries)
    \<and> sorted (map (\<lambda>e. map ccode (to_str (oget e ''source''))) entries)
    \<and> check_entries [] entries = Inr ()"
proof -
  from assms obtain rows unique where kind: "kind = ''creator'' \<or> kind = ''trader''"
    and w: "round_window w" "0 \<le> safe_int (oget w ''start'')"
    and rows: "iterable (jor receipts (Arr [])) = Inr rows"
    and unique: "foldR (add_receipt kind w) [] rows = Inr unique"
    and entries: "entries = map entry_value (sort_by (\<lambda>a b. source_le (je_source a) (je_source b)) (map snd unique))"
    by (auto simp: eligibleJackpotEntries_def bindR_Inr_iff split: if_splits)
  note eligible = eligible_row_verified [OF w kind]
  have inv: "entries_inv kind w rows unique"
    by (rule foldR_invariant [where P = "entries_inv kind w rows", OF unique])
      (auto simp: entries_inv_def [of _ _ _ "[]"] intro: add_receipt_inv)
  have rep: "represented kind unique row" if "row \<in> set rows" "eligible_row kind w row" for row
    using receipts_represented [OF unique, of rows] that by (simp add: entries_inv_def)
  note old = eligible_entries [OF assms]
  have d: "distinct (map (\<lambda>e. oget e ''source'') entries)" using old by blast
  have shape: "entry_value (entry_of kind row) = Obj [(''wallet'', entry_wallet kind row), (''source'', entry_source kind row)]" for row
    by (simp add: entry_value_def entry_of_def)
  have sub: "\<exists>row \<in> set rows. verified_receipt kind w row \<and> e = Obj [(''wallet'', entry_wallet kind row), (''source'', entry_source kind row)]"
    if "e \<in> set entries" for e
    using old that rows eligible shape by fastforce
  have sup: "Obj [(''wallet'', entry_wallet kind row), (''source'', entry_source kind row)] \<in> set entries"
    if "row \<in> set rows" "verified_receipt kind w row" for row
  proof -
    have "eligible_row kind w row" using that(2) eligible by simp
    from rep [OF that(1) this] obtain e where "map_of unique (entry_source kind row) = Some e" "je_wallet e = entry_wallet kind row"
      by (auto simp: represented_def)
    then have "(entry_source kind row, e) \<in> set unique" "je_wallet e = entry_wallet kind row" by (auto dest: map_of_SomeD)
    moreover from this(1) have "je_source e = entry_source kind row" using inv by (auto simp: entries_inv_def)
    ultimately show ?thesis by (force simp: entries entry_value_def)
  qed
  have "sorted (map (\<lambda>e. map ccode (to_str (oget e ''source''))) entries)"
    using sorted_source_order [of je_source "map snd unique"] by (simp add: entries comp_def entry_value_def)
  moreover have "check_entries [] entries = Inr ()"
  proof -
    have "entry_ok e" if e: "e \<in> set entries" for e
    proof -
      obtain row where row: "verified_receipt kind w row"
        "e = Obj [(''wallet'', entry_wallet kind row), (''source'', entry_source kind row)]" using sub [OF e] by blast
      then have "address_value (entry_wallet kind row)" "truthy (entry_source kind row)"
        using falsy_texts [of "entry_source kind row"]
        by (auto simp: verified_receipt_def address_value_def jor_texts entry_wallet_def entry_source_def split: if_split_asm)
      then show ?thesis by (simp add: row(2) entry_ok_def)
    qed
    then show ?thesis using d by (simp add: check_entries_iff list_all_iff)
  qed
  moreover have "receipts = Arr rows \<or> \<not> truthy receipts \<and> rows = []"
    using rows by (auto simp: iterable_def jor_def split: jsval.splits if_splits)
  ultimately show ?thesis using d sub sup by blast
qed

definition toy_window :: jsval where
  "toy_window = Obj [(''start'', Num (Fin 86400)), (''end'', Num (Fin 172800))]"

definition toy_receipt :: jsval where
  "toy_receipt = Obj [(''cluster'', Str ''devnet''), (''finalized'', Bool True), (''onchainVerified'', Bool True),
     (''creatorWallet'', Str (replicate 32 CHR ''7'')), (''mint'', Str (replicate 40 CHR ''8'')), (''blockTime'', Num (Fin 90000))]"

definition toy_entries :: "jsval list res" where
  "toy_entries = eligibleJackpotEntries ''creator'' (Arr [toy_receipt, toy_receipt]) toy_window"

theorem eligible_entries_well_formed_witness:
  "length (projr toy_entries) = 1 \<and> check_entries [] (projr toy_entries) = Inr ()"
proof -
  have "\<not> isl toy_entries" and n: "length (projr toy_entries) = 1" by code_simp+
  then have "toy_entries = Inr (projr toy_entries)" by (cases toy_entries) simp_all
  from eligible_entries_well_formed [OF this [unfolded toy_entries_def], folded toy_entries_def] n show ?thesis by blast
qed

lemma distinct_concat_perm:
  assumes "mset xs = mset ys"
  shows "distinct (concat (map f xs)) \<longleftrightarrow> distinct (concat (map f ys))"
proof (rule mset_eq_imp_distinct_iff)
  show "mset (concat (map f xs)) = mset (concat (map f ys))"
    using assms by (simp add: mset_concat flip: sum_mset_sum_list)
qed

lemma round_winner:
  assumes "eligibleJackpotEntries kind receipts w = Inr entries"
    and "selectJackpotWinner L (Arr entries) h roundId = Inr draw" and "iterable (jor receipts (Arr [])) = Inr rows"
  shows "list_ex (\<lambda>row. eligible_row kind w row \<and> jd_winner draw = entry_wallet kind row) rows"
proof -
  from eligible_entries [OF assms(1)] assms(3) have e: "\<forall>e \<in> set entries. \<exists>row \<in> set rows. eligible_row kind w row \<and> e = entry_value (entry_of kind row)"
    by auto
  from assms(2) obtain a l where es: "entries = a # l" by (cases entries) (auto simp: selectJackpotWinner_def)
  have len: "length (order_entries entries) = length entries" by (simp add: order_entries_def)
  then have ne: "order_entries entries \<noteq> []" using es by auto
  have "draw_loop L roundId (to_str h) (order_entries entries) [0..<1000] = Inr draw"
    using assms(2) by (auto simp: es selectJackpotWinner_def bindR_Inr_iff split: if_splits option.splits)
  note d = draw_loop_Inr [OF this ne]
  have "nat (jd_entryIndex draw) < length (order_entries entries)" using d es len by (simp add: nat_less_iff)
  then have "order_entries entries ! nat (jd_entryIndex draw) \<in> set entries"
    by (metis nth_mem order_entries_def set_sort_by)
  with e obtain row where "row \<in> set rows" "eligible_row kind w row"
    "order_entries entries ! nat (jd_entryIndex draw) = entry_value (entry_of kind row)" by blast
  with d show ?thesis by (auto simp: list_ex_iff entry_value_def entry_of_def)
qed

text \<open>C39. A prepared round pays exactly its share: when the funding receipts write their amounts and
  signatures as text, the prize is the sum of the transfers and is the share of the summed source fees, rounded
  down; no transfer and no source is counted twice; and the winner is the wallet of an eligible receipt.\<close>

theorem jackpot_round_funded:
  assumes "prepareJackpotRound L kind w nowSeconds entryReceipts contributionReceipts entropyProof vault = Inr r"
    and "iterable (jor contributionReceipts (Arr [])) = Inr rows" and "list_all text_receipt rows"
    and "iterable (jor entryReceipts (Arr [])) = Inr receipts"
  shows "parse_dec (jr_prizeLamports r) = sum_list (map (\<lambda>f. parse_dec (fn_amountLamports f)) (jr_funding r))
    \<and> parse_dec (jr_prizeLamports r)
        = sum_list (map (\<lambda>f. parse_dec (fn_sourceFeeLamports f)) (jr_funding r)) * share_bps kind div 10000
    \<and> distinct (map fn_signature (jr_funding r)) \<and> distinct (concat (map fn_sources (jr_funding r)))
    \<and> list_ex (\<lambda>row. eligible_row kind w row \<and> jd_winner (jr_draw r) = entry_wallet kind row) receipts"
proof -
  let ?s0 = "\<lparr>fu_seen = [], fu_seenSources = [], fu_prize = 0, fu_sourceFees = 0, fu_funding = []\<rparr>"
  from assms(1,2) obtain entries st where entries: "eligibleJackpotEntries kind entryReceipts w = Inr entries"
    and st: "foldR (add_funding kind w vault) ?s0 rows = Inr st" and fin: "finish_round L kind w vault entropyProof entries st = Inr r"
    by (auto simp: prepareJackpotRound_def bindR_Inr_iff split: if_splits)
  have inv: "funding_inv st"
    by (rule foldR_invariant [where P = funding_inv, OF st])
      (use assms(3) in \<open>auto simp: funding_inv_def [of ?s0] list_all_iff intro: add_funding_inv\<close>)
  let ?le = "\<lambda>a b. source_le (fn_signature a) (fn_signature b)"
  have bps: "share_bps kind \<in> {CREATOR_SHARE_BPS, TRADER_FEE_BPS}" "0 \<le> share_bps kind"
    by (simp_all add: share_bps_def CREATOR_SHARE_BPS_def TRADER_FEE_BPS_def)
  let ?share = "fu_sourceFees st * share_bps kind div 10000"
  have fees: "0 \<le> fu_sourceFees st" using inv by (simp add: funding_inv_def)
  with bps(2) have nn: "0 \<le> ?share" by (simp add: pos_imp_zdiv_nonneg_iff)
  have share: "jackpotContribution (Str (show_int (fu_sourceFees st))) (share_bps kind) = Inr (show_int ?share)"
    using fees bps by (simp add: jackpotContribution_def jackpot_lamports_def str_to_bigint_digits)
  have "str_to_bigint (show_int ?share) = Inr ?share" using nn by (simp add: str_to_bigint_digits)
  with fin share obtain roundId draw where prize: "0 < fu_prize st" "fu_prize st = ?share"
    and draw: "selectJackpotWinner L (Arr entries) (oget entropyProof ''entropyHex'') roundId = Inr draw"
    and r: "jr_prizeLamports r = show_int (fu_prize st)" "jr_funding r = sort_by ?le (fu_funding st)" "jr_draw r = draw"
    by (auto simp: finish_round_def Let_def bindR_Inr_iff split: if_splits)
  have winner: "list_ex (\<lambda>row. eligible_row kind w row \<and> jd_winner draw = entry_wallet kind row) receipts"
    using round_winner [OF entries draw assms(4)] .
  have d: "distinct (concat (map fn_sources (jr_funding r)))"
    using inv by (simp add: r funding_inv_def distinct_concat_perm [of "sort_by ?le (fu_funding st)" "fu_funding st"])
  from prize have paid: "parse_dec (jr_prizeLamports r) = fu_prize st" by (simp add: r)
  have same: "sum_list (map g (jr_funding r)) = sum_list (map g (fu_funding st))" for g :: "funding_row \<Rightarrow> int" by (simp add: r(2))
  have signatures: "distinct (map fn_signature (jr_funding r))" using inv by (simp add: r(2) funding_inv_def)
  have totals: "sum_list (map (\<lambda>f. parse_dec (fn_amountLamports f)) (fu_funding st)) = fu_prize st"
    "sum_list (map (\<lambda>f. parse_dec (fn_sourceFeeLamports f)) (fu_funding st)) = fu_sourceFees st"
    using inv by (auto simp: funding_inv_def)
  have sums: "sum_list (map (\<lambda>f. parse_dec (fn_amountLamports f)) (jr_funding r)) = fu_prize st"
    "sum_list (map (\<lambda>f. parse_dec (fn_sourceFeeLamports f)) (jr_funding r)) = fu_sourceFees st"
    by (simp_all only: same totals)
  from winner have won: "list_ex (\<lambda>row. eligible_row kind w row \<and> jd_winner (jr_draw r) = entry_wallet kind row) receipts"
    by (simp only: r(3))
  show ?thesis unfolding sums paid by (intro conjI prize(2) refl signatures d won)
qed

definition toy_funding :: jsval where
  "toy_funding = Obj [(''cluster'', Str ''devnet''), (''kind'', Str ''creator''), (''finalized'', Bool True), (''onchainVerified'', Bool True),
     (''feeSourceVerified'', Bool True), (''vault'', Str (replicate 32 CHR ''9'')), (''signature'', Str (replicate 64 CHR ''5'')),
     (''sourceSignatures'', Arr [Str (replicate 64 CHR ''6'')]), (''blockTime'', Num (Fin 90000)),
     (''sourceFeeLamports'', Str ''1234''), (''transferLamports'', Str ''12'')]"

definition toy_entropy :: jsval where
  "toy_entropy = Obj [(''cluster'', Str ''devnet''), (''finalized'', Bool True), (''independent'', Bool True),
     (''sourceSignature'', Str (replicate 64 CHR ''4'')), (''blockTime'', Num (Fin 172900)), (''entropyHex'', Str (replicate 64 CHR ''b''))]"

definition toy_round :: "jackpot_round res" where
  "toy_round = prepareJackpotRound toy_jackpot ''creator'' toy_window (Num (Fin 173000)) (Arr [toy_receipt]) (Arr [toy_funding])
     toy_entropy (Str (replicate 32 CHR ''9''))"

theorem jackpot_round_funded_witness:
  "parse_dec (jr_prizeLamports (projr toy_round)) = 12 \<and> distinct (map fn_signature (jr_funding (projr toy_round)))"
proof -
  have "\<not> isl toy_round \<and> parse_dec (jr_prizeLamports (projr toy_round)) = 12" by code_simp
  then have n: "parse_dec (jr_prizeLamports (projr toy_round)) = 12" and "toy_round = Inr (projr toy_round)"
    by (cases toy_round; simp)+
  moreover have "iterable (jor (Arr [toy_funding]) (Arr [])) = Inr [toy_funding]" by (simp add: iterable_def jor_def)
  moreover have "list_all text_receipt [toy_funding]" by (simp add: text_receipt_def is_text_def source_list_def toy_funding_def)
  moreover have "iterable (jor (Arr [toy_receipt]) (Arr [])) = Inr [toy_receipt]" by (simp add: iterable_def jor_def)
  ultimately show ?thesis unfolding toy_round_def using jackpot_round_funded n unfolding toy_round_def by blast
qed

end
