(* ===== verification/ExecutionJournal.thy ===== *)
theory ExecutionJournal
  imports JsDate StepSystem
begin

text \<open>
  The journals of the workers that pay from the agency and community vaults
  (\<open>server/agency-execution-journal.mjs\<close>, \<open>server/community-execution-journal.mjs\<close>, two copies of
  one protocol) and the hash that identifies an intent (\<open>server/allocation-audit-hash.mjs\<close>).

  A call of \<open>executeAgencyJournal\<close> is a process that advances from one \<open>await\<close> to the next.  The
  callback of a \<open>store.update\<close> runs as one step on the bucket (\<open>commit\<close>); any other \<open>await\<close> resumes
  with the answer of the chain or of a callback, which is arbitrary (\<open>resume\<close>).  Calls run
  concurrently, on any clocks, and may crash between any two steps.  SHA-256, \<open>JSON.stringify\<close> and
  the signature of a transaction are parameters.  An absent text field is the empty text: the code
  tests them by truthiness.
\<close>

section \<open>server/allocation-audit-hash.mjs\<close>

fun canonical :: "jsval \<Rightarrow> jsval" and canonical_items :: "jsval list \<Rightarrow> jsval list"
  and canonical_fields :: "(string \<times> jsval) list \<Rightarrow> (string \<times> jsval) list" where
  "canonical (Arr vs) = Arr (canonical_items vs)"
| "canonical (Obj kvs) = Obj (sort_by (\<lambda>a b. \<not> str_less (fst b) (fst a)) (canonical_fields kvs))"
| "canonical v = v"
| "canonical_items [] = []"
| "canonical_items (v # vs) = canonical v # canonical_items vs"
| "canonical_fields [] = []"
| "canonical_fields ((k, v) # kvs) = (k, canonical v) # canonical_fields kvs"

definition allocationAuditHash :: "(string \<Rightarrow> string) \<Rightarrow> (jsval \<Rightarrow> string) \<Rightarrow> jsval \<Rightarrow> string" where
  "allocationAuditHash sha json v = sha (json (canonical v))"

section \<open>The calls and the bucket\<close>

datatype journal = AgencyJournal | CommunityJournal

definition DEVNET_GENESIS_HASH :: string where
  "DEVNET_GENESIS_HASH = ''EtWTRABZaYq6iMfeYKouRu166VU2xqa1wcaWoxPkrZBG''"

definition JOURNAL_RESERVE :: int where "JOURNAL_RESERVE = 3000000000"

text \<open>What \<open>prepare\<close> builds: the fields the journal reads of it and of its transaction.\<close>

record built_tx =
  bt_versioned :: bool
  bt_lastValidBlockHeight :: jsval
  bt_estimatedRentLamports :: jsval
  bt_numRequiredSignatures :: int
  bt_staticAccountKeys :: "string list"
  bt_priceSigner :: "string option"
  bt_size :: nat
  bt_recentBlockhash :: string
  bt_message :: string
  bt_evidence :: "jsval option"

record exec_lib =
  xl_sha256 :: "string \<Rightarrow> string"
  xl_json :: "jsval \<Rightarrow> string"
  xl_sign :: "string \<Rightarrow> built_tx \<Rightarrow> string \<times> string"

abbreviation audit_hash :: "exec_lib \<Rightarrow> jsval \<Rightarrow> string" where
  "audit_hash L \<equiv> allocationAuditHash (xl_sha256 L) (xl_json L)"

record exec_call =
  ec_key :: string
  ec_intent :: jsval
  ec_authority :: string
  ec_leaseMs :: int
  ec_reserveLamports :: string

datatype exec_status = Preparing0 | VerificationPending | Finalized | FailedFinalized

record exec_row =
  xr_key :: string
  xr_intent :: jsval
  xr_intentHash :: string
  xr_status :: exec_status
  xr_token :: nat
  xr_leaseUntil :: int
  xr_createdAt :: string
  xr_signature :: string
  xr_signedTransaction :: string
  xr_evidence :: "jsval option"
  xr_evidenceHash :: string
  xr_blockhash :: string
  xr_lastValidBlockHeight :: jsval
  xr_preparedAt :: string
  xr_proof :: jsval
  xr_finalizedAt :: string
  xr_lastVerifiedAt :: string
  xr_failedAt :: string

type_synonym bucket = "(string, exec_row) omap"

datatype outcome = Pending string string | Final string string jsval | FinalFailure string string
  | PreparationActive string | PreparationSuperseded string

definition pending :: "exec_row \<Rightarrow> outcome" where
  "pending row = Pending (xr_signature row) (xr_key row)"

fun journal_name :: "journal \<Rightarrow> string" where
  "journal_name AgencyJournal = ''agency''"
| "journal_name CommunityJournal = ''community''"

fun journal_title :: "journal \<Rightarrow> string" where
  "journal_title AgencyJournal = ''Agency''"
| "journal_title CommunityJournal = ''Community''"

text \<open>\<open>/^agency:[1-9A-HJ-NP-Za-km-z]{32,44}:[012]:\d{1,10}$/\<close> and
  \<open>/^community:[1-9A-HJ-NP-Za-km-z]{32,44}:(open|[1-9A-HJ-NP-Za-km-z]{32,44})$/\<close>.\<close>

fun key_ok :: "journal \<Rightarrow> string \<Rightarrow> bool" where
  "key_ok AgencyJournal key =
     (case split_on (CHR '':'') key of
        [name, mint, agent, action] \<Rightarrow> name = ''agency'' \<and> is_address mint \<and> agent \<in> {''0'', ''1'', ''2''}
          \<and> all_digits action \<and> length action \<le> 10
      | _ \<Rightarrow> False)"
| "key_ok CommunityJournal key =
     (case split_on (CHR '':'') key of
        [name, mint, recipient] \<Rightarrow> name = ''community'' \<and> is_address mint \<and> (recipient = ''open'' \<or> is_address recipient)
      | _ \<Rightarrow> False)"

definition is_hash :: "string \<Rightarrow> bool" where
  "is_hash s \<longleftrightarrow> length s = 64 \<and> list_all is_hex_lower s"

definition check_call :: "journal \<Rightarrow> exec_call \<Rightarrow> unit res" where
  "check_call J c =
     (let refused = throw (''A bounded, approved Devnet '' @ journal_name J @ '' execution is required.'') in
      if \<not> key_ok J (ec_key c) \<or> oget (ec_intent c) ''cluster'' \<noteq> Str ''devnet''
         \<or> \<not> is_hash (to_str (oget (ec_intent c) ''approvedHash'')) then refused
      else bindR (str_to_bigint (ec_reserveLamports c)) (\<lambda>reserve. if reserve < JOURNAL_RESERVE then refused else Inr ()))"

section \<open>The steps of a call\<close>

text \<open>
  Where a call waits.  The first argument of \<open>Proving\<close> and \<open>Recording\<close> tells the first
  reconciliation of a saved row from the one after its broadcast.
\<close>

datatype pc =
    Starting
  | Acquiring int
  | Proving bool exec_row
  | Recording bool exec_row jsval
  | AskingStatus exec_row
  | Failing exec_row
  | CheckingBlockhash exec_row
  | Preparing exec_row
  | CheckingFunds exec_row built_tx
  | Saving built_tx string string
  | Saved exec_row
  | Sending exec_row
  | Returned outcome
  | Raised js_error
  | Crashed

definition start_call :: "journal \<Rightarrow> exec_call \<Rightarrow> pc" where
  "start_call J c = (case check_call J c of Inl e \<Rightarrow> Raised e | Inr _ \<Rightarrow> Starting)"

text \<open>The lease: an unsigned row whose lease has passed is taken over, a signed one never.\<close>

definition new_row :: "exec_lib \<Rightarrow> exec_call \<Rightarrow> nat \<Rightarrow> int \<Rightarrow> exec_row" where
  "new_row L c token now =
     \<lparr>xr_key = ec_key c, xr_intent = ec_intent c, xr_intentHash = audit_hash L (ec_intent c), xr_status = Preparing0,
      xr_token = token, xr_leaseUntil = now + ec_leaseMs c, xr_createdAt = to_iso now, xr_signature = [],
      xr_signedTransaction = [], xr_evidence = None, xr_evidenceHash = [], xr_blockhash = [],
      xr_lastValidBlockHeight = Undef, xr_preparedAt = [], xr_proof = Undef, xr_finalizedAt = [],
      xr_lastVerifiedAt = [], xr_failedAt = []\<rparr>"

definition taken_row :: "exec_lib \<Rightarrow> exec_call \<Rightarrow> nat \<Rightarrow> int \<Rightarrow> exec_row \<Rightarrow> exec_row" where
  "taken_row L c token now existing =
     existing\<lparr>xr_key := ec_key c, xr_intent := ec_intent c, xr_intentHash := audit_hash L (ec_intent c),
       xr_status := Preparing0, xr_token := token, xr_leaseUntil := now + ec_leaseMs c,
       xr_createdAt := (if xr_createdAt existing \<noteq> [] then xr_createdAt existing else to_iso now)\<rparr>"

definition after_acquire :: "journal \<Rightarrow> exec_lib \<Rightarrow> exec_call \<Rightarrow> bool \<Rightarrow> exec_row \<Rightarrow> pc" where
  "after_acquire J L c owned row =
     (if (case xr_evidence row of None \<Rightarrow> False | Some v \<Rightarrow> audit_hash L v \<noteq> xr_evidenceHash row)
        then Raised (Throw (''Saved '' @ journal_name J @ '' execution evidence changed.''))
      else if xr_signature row \<noteq> [] then Proving True row
      else if \<not> owned then Returned (PreparationActive (ec_key c))
      else Preparing row)"

definition acquire :: "journal \<Rightarrow> exec_lib \<Rightarrow> exec_call \<Rightarrow> nat \<Rightarrow> int \<Rightarrow> bucket \<Rightarrow> pc \<times> bucket" where
  "acquire J L c token now b =
     (let own = (\<lambda>row. (after_acquire J L c True row, oset (ec_key c) row b)) in
      case map_of b (ec_key c) of
        None \<Rightarrow> own (new_row L c token now)
      | Some existing \<Rightarrow>
          if xr_intentHash existing \<noteq> audit_hash L (ec_intent c)
             \<or> audit_hash L (xr_intent existing) \<noteq> audit_hash L (ec_intent c)
            then (Raised (Throw (''The immutable '' @ journal_name J @ '' execution intent changed.'')), b)
          else if xr_signature existing \<noteq> [] \<or> xr_leaseUntil existing > now
            then (after_acquire J L c False existing, b)
          else own (taken_row L c token now existing))"

text \<open>What follows a reconciliation without a proof.\<close>

definition unproved :: "bool \<Rightarrow> exec_row \<Rightarrow> pc" where
  "unproved initially row = (if initially then AskingStatus row else Returned (pending row))"

definition record_proof :: "exec_lib \<Rightarrow> exec_call \<Rightarrow> int \<Rightarrow> bool \<Rightarrow> exec_row \<Rightarrow> jsval \<Rightarrow> bucket \<Rightarrow> pc \<times> bucket" where
  "record_proof L c now initially row proof1 b =
     (case map_of b (ec_key c) of
        None \<Rightarrow> (unproved initially row, b)
      | Some active \<Rightarrow>
          if xr_signature active \<noteq> xr_signature row \<or> xr_intentHash active \<noteq> audit_hash L (ec_intent c)
            then (unproved initially row, b)
          else
            (Returned (Final (xr_signature row) (ec_key c) proof1),
             oset (ec_key c) (active\<lparr>xr_signedTransaction := [], xr_status := Finalized, xr_proof := proof1,
               xr_finalizedAt := (if xr_finalizedAt active \<noteq> [] then xr_finalizedAt active else to_iso now),
               xr_lastVerifiedAt := to_iso now\<rparr>) b))"

definition record_failure :: "exec_call \<Rightarrow> int \<Rightarrow> exec_row \<Rightarrow> bucket \<Rightarrow> pc \<times> bucket" where
  "record_failure c now row b =
     (Returned (FinalFailure (xr_signature row) (ec_key c)),
      case map_of b (ec_key c) of
        None \<Rightarrow> b
      | Some active \<Rightarrow>
          if xr_signature active = xr_signature row
            then oset (ec_key c) (active\<lparr>xr_status := FailedFinalized, xr_failedAt := to_iso now\<rparr>) b
          else b)"

definition save_signed ::
  "exec_lib \<Rightarrow> exec_call \<Rightarrow> nat \<Rightarrow> int \<Rightarrow> built_tx \<Rightarrow> string \<Rightarrow> string \<Rightarrow> bucket \<Rightarrow> pc \<times> bucket" where
  "save_signed L c token now built signature bytes b =
     (let superseded = (Returned (PreparationSuperseded (ec_key c)), b) in
      case map_of b (ec_key c) of
        None \<Rightarrow> superseded
      | Some active \<Rightarrow>
          if xr_signature active \<noteq> [] \<or> xr_token active \<noteq> token \<or> xr_intentHash active \<noteq> audit_hash L (ec_intent c)
             \<or> xr_leaseUntil active < now then superseded
          else
            let row = active\<lparr>xr_status := VerificationPending, xr_signature := signature, xr_signedTransaction := bytes,
                  xr_evidence := (case bt_evidence built of None \<Rightarrow> xr_evidence active | Some v \<Rightarrow> Some v),
                  xr_evidenceHash := (case bt_evidence built of None \<Rightarrow> xr_evidenceHash active | Some v \<Rightarrow> audit_hash L v),
                  xr_blockhash := bt_recentBlockhash built, xr_lastValidBlockHeight := bt_lastValidBlockHeight built,
                  xr_preparedAt := to_iso now\<rparr> in
            (Saved row, oset (ec_key c) row b))"

text \<open>One \<open>store.update\<close>.\<close>

fun commit :: "journal \<Rightarrow> exec_lib \<Rightarrow> exec_call \<Rightarrow> nat \<Rightarrow> int \<Rightarrow> pc \<Rightarrow> bucket \<Rightarrow> (pc \<times> bucket) option" where
  "commit J L c token now (Acquiring t) b = Some (acquire J L c token t b)"
| "commit J L c token now (Recording initially row proof1) b = Some (record_proof L c now initially row proof1 b)"
| "commit J L c token now (Failing row) b = Some (record_failure c now row b)"
| "commit J L c token now (Saving built signature bytes) b = Some (save_signed L c token now built signature bytes b)"
| "commit J L c token now p b = None"

text \<open>The answer an \<open>await\<close> resumes with.  \<open>Rejected\<close> is a rejected promise.\<close>

datatype reply =
    Genesis string
  | Proof jsval
  | Status jsval
  | BlockhashValid bool
  | Built "built_tx option"
  | Funds jsval jsval bool
  | Continue
  | Rejected js_error

definition signers_ok :: "journal \<Rightarrow> string \<Rightarrow> built_tx \<Rightarrow> bool res" where
  "signers_ok J authority built =
     (let needed = (if J = AgencyJournal \<and> bt_priceSigner built \<noteq> None then 2 else 1) in
      if bt_numRequiredSignatures built \<noteq> needed then Inr False
      else case bt_staticAccountKeys built of
        [] \<Rightarrow> Inl TypeErr
      | payer # signers \<Rightarrow>
          if payer \<noteq> authority then Inr False
          else if J = CommunityJournal then Inr (bt_size built \<le> 1232)
          else case bt_priceSigner built of
            None \<Rightarrow> Inr (bt_size built \<le> 1232)
          | Some price \<Rightarrow> (case signers of
              [] \<Rightarrow> Inl TypeErr
            | signer # _ \<Rightarrow> Inr (signer = price \<and> bt_size built \<le> 1232)))"

definition signers_refused :: "journal \<Rightarrow> js_error" where
  "signers_refused J = Throw
     (if J = AgencyJournal then ''The agency authority and approved transaction signers are required.''
      else ''The community authority must be the only fee payer and signer.'')"

definition built_ok :: "built_tx \<Rightarrow> bool" where
  "built_ok built \<longleftrightarrow> bt_versioned built \<and> is_safe (bt_lastValidBlockHeight built)
     \<and> 1 \<le> safe_int (bt_lastValidBlockHeight built) \<and> canon_dec (to_str (bt_estimatedRentLamports built))"

definition check_built :: "journal \<Rightarrow> exec_call \<Rightarrow> exec_row \<Rightarrow> built_tx option \<Rightarrow> pc" where
  "check_built J c row answer =
     (let refused = Raised (Throw (''An exact bounded '' @ journal_name J @ '' transaction and rent estimate are required.'')) in
      case answer of
        None \<Rightarrow> refused
      | Some built \<Rightarrow>
          if \<not> built_ok built then refused
          else case signers_ok J (ec_authority c) built of
            Inl e \<Rightarrow> Raised e
          | Inr ok \<Rightarrow> if ok then CheckingFunds row built else Raised (signers_refused J))"

text \<open>The payer keeps its reserve after the fee and the rent.\<close>

definition within_reserve :: "exec_call \<Rightarrow> built_tx \<Rightarrow> jsval \<Rightarrow> jsval \<Rightarrow> bool res" where
  "within_reserve c built fee balance =
     (if \<not> is_safe fee \<or> safe_int fee < 0 \<or> \<not> is_safe balance then Inr False
      else
        bindR (to_bigint (bt_estimatedRentLamports built)) (\<lambda>rent.
        bindR (str_to_bigint (ec_reserveLamports c)) (\<lambda>reserve.
          Inr (safe_int balance - safe_int fee - rent \<ge> reserve))))"

definition check_funds :: "journal \<Rightarrow> exec_lib \<Rightarrow> exec_call \<Rightarrow> built_tx \<Rightarrow> jsval \<Rightarrow> jsval \<Rightarrow> bool \<Rightarrow> pc" where
  "check_funds J L c built fee balance valid =
     (let refused = Raised (Throw (journal_title J @ '' execution would breach the protected payer reserve or its quote expired.'')) in
      if \<not> valid then refused
      else case within_reserve c built fee balance of
        Inl e \<Rightarrow> Raised e
      | Inr ok \<Rightarrow> if ok then (let (signature, bytes) = xl_sign L (ec_authority c) built in Saving built signature bytes)
                  else refused)"

definition after_proof :: "journal \<Rightarrow> bool \<Rightarrow> exec_row \<Rightarrow> jsval \<Rightarrow> pc" where
  "after_proof J initially row proof1 =
     (if \<not> truthy proof1 then unproved initially row
      else if \<not> jeq (oget proof1 ''signature'') (Str (xr_signature row)) \<or> oget proof1 ''finalized'' \<noteq> Bool True
        \<or> oget proof1 ''balanceDeltaVerified'' \<noteq> Bool True
        then Raised (Throw (journal_title J @ '' execution lacks finalized balance-change proof.''))
      else Recording initially row proof1)"

definition after_status :: "exec_row \<Rightarrow> jsval \<Rightarrow> pc" where
  "after_status row outcome1 =
     (let finalized = (oget outcome1 ''confirmationStatus'' = Str ''finalized'') in
      if finalized \<and> truthy (oget outcome1 ''err'') then Failing row
      else if finalized \<or> xr_signedTransaction row = [] then Returned (pending row)
      else CheckingBlockhash row)"

text \<open>
  From one \<open>await\<close> to the next.  On \<open>Sending\<close> the saved bytes have been handed to
  \<open>sendRawTransaction\<close>, whose answer and errors are ignored alike.
\<close>

definition rejected :: "reply \<Rightarrow> pc option" where
  "rejected answer = (case answer of Rejected e \<Rightarrow> Some (Raised e) | _ \<Rightarrow> None)"

definition resume :: "journal \<Rightarrow> exec_lib \<Rightarrow> exec_call \<Rightarrow> int \<Rightarrow> pc \<Rightarrow> reply \<Rightarrow> pc option" where
  "resume J L c now p answer =
     (case p of
        Starting \<Rightarrow> (case answer of
          Genesis g \<Rightarrow> Some (if g = DEVNET_GENESIS_HASH then Acquiring now
            else Raised (Throw (journal_title J @ '' execution requires Devnet.'')))
        | _ \<Rightarrow> rejected answer)
      | Acquiring t \<Rightarrow> rejected answer
      | Proving initially row \<Rightarrow> (case answer of Proof proof1 \<Rightarrow> Some (after_proof J initially row proof1) | _ \<Rightarrow> rejected answer)
      | Recording initially row proof1 \<Rightarrow> rejected answer
      | AskingStatus row \<Rightarrow> (case answer of Status outcome1 \<Rightarrow> Some (after_status row outcome1) | _ \<Rightarrow> rejected answer)
      | Failing row \<Rightarrow> rejected answer
      | CheckingBlockhash row \<Rightarrow> (case answer of
          BlockhashValid valid \<Rightarrow> Some (if valid then Sending row else Returned (pending row)) | _ \<Rightarrow> rejected answer)
      | Preparing row \<Rightarrow> (case answer of Built built \<Rightarrow> Some (check_built J c row built) | _ \<Rightarrow> rejected answer)
      | CheckingFunds row built \<Rightarrow> (case answer of
          Funds fee balance valid \<Rightarrow> Some (check_funds J L c built fee balance valid) | _ \<Rightarrow> rejected answer)
      | Saving built signature bytes \<Rightarrow> rejected answer
      | Saved row \<Rightarrow> (case answer of Continue \<Rightarrow> Some (Sending row) | _ \<Rightarrow> None)
      | Sending row \<Rightarrow> (case answer of Continue \<Rightarrow> Some (Proving False row) | Rejected e \<Rightarrow> Some (Proving False row) | _ \<Rightarrow> None)
      | _ \<Rightarrow> None)"

section \<open>All calls together\<close>

text \<open>
  The world: the bucket, the calls ever made, the transactions handed to the network in order, and
  those whose signature a \<open>store.update\<close> has saved.  The token of a call is its number: a random
  UUID belongs to one call only.
\<close>

record exec_process =
  ep_call :: exec_call
  ep_pc :: pc

record exec_world =
  ew_bucket :: bucket
  ew_calls :: "exec_process list"
  ew_sent :: "(string \<times> string \<times> string) list"
  ew_signed :: "(string \<times> string \<times> string) list"

definition empty_world :: exec_world where
  "empty_world = \<lparr>ew_bucket = [], ew_calls = [], ew_sent = [], ew_signed = []\<rparr>"

datatype exec_event = Called exec_call | Committed nat int | Resumed nat int reply | Died nat

definition advance :: "nat \<Rightarrow> pc \<Rightarrow> exec_world \<Rightarrow> exec_world" where
  "advance i p w = w\<lparr>ew_calls := (ew_calls w)[i := (ew_calls w ! i)\<lparr>ep_pc := p\<rparr>]\<rparr>"

definition entry_of_row :: "string \<Rightarrow> exec_row \<Rightarrow> string \<times> string \<times> string" where
  "entry_of_row key row = (key, xr_signature row, xr_signedTransaction row)"

definition entry_at :: "string \<Rightarrow> pc \<Rightarrow> (string \<times> string \<times> string) list" where
  "entry_at key p = (case p of Sending row \<Rightarrow> [entry_of_row key row] | Saved row \<Rightarrow> [entry_of_row key row] | _ \<Rightarrow> [])"

definition commit_call :: "journal \<Rightarrow> exec_lib \<Rightarrow> nat \<Rightarrow> int \<Rightarrow> exec_world \<Rightarrow> exec_world option" where
  "commit_call J L i now w =
     (let p = ew_calls w ! i; key = ec_key (ep_call p) in
      case commit J L (ep_call p) i now (ep_pc p) (ew_bucket w) of
        None \<Rightarrow> None
      | Some (q, b) \<Rightarrow> Some ((advance i q w)\<lparr>ew_bucket := b, ew_signed := ew_signed w @ entry_at key q\<rparr>))"

definition resume_call :: "journal \<Rightarrow> exec_lib \<Rightarrow> nat \<Rightarrow> int \<Rightarrow> reply \<Rightarrow> exec_world \<Rightarrow> exec_world option" where
  "resume_call J L i now answer w =
     (let p = ew_calls w ! i; key = ec_key (ep_call p) in
      case resume J L (ep_call p) now (ep_pc p) answer of
        None \<Rightarrow> None
      | Some q \<Rightarrow> Some ((advance i q w)\<lparr>ew_sent := ew_sent w @ entry_at key q\<rparr>))"

fun handle_event :: "journal \<Rightarrow> exec_lib \<Rightarrow> exec_event \<Rightarrow> exec_world \<Rightarrow> exec_world option" where
  "handle_event J L (Called c) w = Some (w\<lparr>ew_calls := ew_calls w @ [\<lparr>ep_call = c, ep_pc = start_call J c\<rparr>]\<rparr>)"
| "handle_event J L (Committed i now) w = (if i < length (ew_calls w) then commit_call J L i now w else None)"
| "handle_event J L (Resumed i now answer) w = (if i < length (ew_calls w) then resume_call J L i now answer w else None)"
| "handle_event J L (Died i) w = (if i < length (ew_calls w) then Some (advance i Crashed w) else None)"

inductive exec_step :: "journal \<Rightarrow> exec_lib \<Rightarrow> exec_world \<Rightarrow> exec_world \<Rightarrow> bool" for J L where
  Event: "handle_event J L e w = Some w' \<Longrightarrow> exec_step J L w w'"

inductive_cases exec_stepE: "exec_step J L w w'"

text \<open>The two functions: the protocol on the bucket of each.\<close>

definition executeAgencyJournal :: "exec_lib \<Rightarrow> exec_event \<Rightarrow> exec_world \<Rightarrow> exec_world option" where
  "executeAgencyJournal = handle_event AgencyJournal"

definition executeCommunityJournal :: "exec_lib \<Rightarrow> exec_event \<Rightarrow> exec_world \<Rightarrow> exec_world option" where
  "executeCommunityJournal = handle_event CommunityJournal"

fun exec_run :: "journal \<Rightarrow> exec_lib \<Rightarrow> exec_event list \<Rightarrow> exec_world \<Rightarrow> exec_world option" where
  "exec_run J L [] w = Some w"
| "exec_run J L (e # es) w = (case handle_event J L e w of None \<Rightarrow> None | Some w' \<Rightarrow> exec_run J L es w')"

lemma exec_run_steps: "exec_run J L es w = Some w' \<Longrightarrow> (exec_step J L)\<^sup>*\<^sup>* w w'"
proof (induction es arbitrary: w)
  case (Cons e es)
  then obtain w1 where "handle_event J L e w = Some w1" "exec_run J L es w1 = Some w'" by (auto split: option.splits)
  with Cons.IH show ?case by (meson Event converse_rtranclp_into_rtranclp)
qed simp

section \<open>One transaction for each key\<close>

text \<open>A row agrees with the transactions saved so far: it is unsigned and none is saved for its key,
  or it carries the saved one, or the saved one less its bytes.\<close>

definition carries :: "(string \<times> string \<times> string) list \<Rightarrow> string \<Rightarrow> exec_row \<Rightarrow> bool" where
  "carries saved key row \<longleftrightarrow>
     (\<exists>bytes. (key, xr_signature row, bytes) \<in> set saved \<and> xr_signedTransaction row \<in> {[], bytes})"

definition row_ok :: "(string \<times> string \<times> string) list \<Rightarrow> string \<Rightarrow> exec_row \<Rightarrow> bool" where
  "row_ok saved key row \<longleftrightarrow> (if xr_signature row = [] then key \<notin> fst ` set saved else carries saved key row)"

definition pc_ok :: "exec_lib \<Rightarrow> (string \<times> string \<times> string) list \<Rightarrow> exec_call \<Rightarrow> pc \<Rightarrow> bool" where
  "pc_ok L saved c p =
     (case p of
        Proving initially row \<Rightarrow> carries saved (ec_key c) row
      | Recording initially row proof1 \<Rightarrow> carries saved (ec_key c) row
      | AskingStatus row \<Rightarrow> carries saved (ec_key c) row
      | Failing row \<Rightarrow> carries saved (ec_key c) row
      | CheckingBlockhash row \<Rightarrow> entry_of_row (ec_key c) row \<in> set saved
      | Saving built signature bytes \<Rightarrow> signature \<noteq> [] \<and> bytes \<noteq> []
      | Saved row \<Rightarrow> entry_of_row (ec_key c) row \<in> set saved
      | Sending row \<Rightarrow> entry_of_row (ec_key c) row \<in> set saved
      | _ \<Rightarrow> True)"

text \<open>What is known of a saved transaction: the bucket has a row for its key, with its signature.\<close>

definition saved_ok :: "bucket \<Rightarrow> (string \<times> string \<times> string) list \<Rightarrow> bool" where
  "saved_ok b saved \<longleftrightarrow> distinct (map fst saved)
     \<and> (\<forall>(key, signature, bytes) \<in> set saved. signature \<noteq> []
          \<and> (\<exists>row. map_of b key = Some row \<and> xr_signature row = signature))"

definition bucket_ok :: "bucket \<Rightarrow> (string \<times> string \<times> string) list \<Rightarrow> bool" where
  "bucket_ok b saved \<longleftrightarrow> saved_ok b saved \<and> (\<forall>key row. map_of b key = Some row \<longrightarrow> row_ok saved key row)"

definition world_ok :: "exec_lib \<Rightarrow> exec_world \<Rightarrow> bool" where
  "world_ok L w \<longleftrightarrow> bucket_ok (ew_bucket w) (ew_signed w) \<and> set (ew_sent w) \<subseteq> set (ew_signed w)
     \<and> (\<forall>p \<in> set (ew_calls w). pc_ok L (ew_signed w) (ep_call p) (ep_pc p))"

lemma carries_mono: "carries saved key row \<Longrightarrow> set saved \<subseteq> set saved' \<Longrightarrow> carries saved' key row"
  by (auto simp: carries_def)

lemma pc_ok_mono: "pc_ok L saved c p \<Longrightarrow> set saved \<subseteq> set saved' \<Longrightarrow> pc_ok L saved' c p"
  by (auto simp: pc_ok_def intro: carries_mono split: pc.splits)

lemma saved_unique: "saved_ok b saved \<Longrightarrow> (key, x) \<in> set saved \<Longrightarrow> (key, y) \<in> set saved \<Longrightarrow> x = y"
  by (auto simp: saved_ok_def dest: eq_key_imp_eq_value)

lemma bucket_rowD: "bucket_ok b saved \<Longrightarrow> map_of b key = Some row \<Longrightarrow> row_ok saved key row"
  by (simp add: bucket_ok_def)

lemma bucket_savedD:
  "bucket_ok b saved \<Longrightarrow> (key, signature, bytes) \<in> set saved \<Longrightarrow>
     signature \<noteq> [] \<and> (\<exists>row. map_of b key = Some row \<and> xr_signature row = signature)"
  by (auto simp: bucket_ok_def saved_ok_def)

lemma unsigned_not_saved:
  assumes "bucket_ok b saved" and "case map_of b key of None \<Rightarrow> True | Some row \<Rightarrow> xr_signature row = []"
  shows "key \<notin> fst ` set saved"
  using bucket_savedD [OF assms(1), of key] assms(2) by (fastforce split: option.splits)

lemma carries_signed: "bucket_ok b saved \<Longrightarrow> carries saved key row \<Longrightarrow> xr_signature row \<noteq> []"
  by (auto simp: carries_def dest: bucket_savedD)

lemma bucket_ok_oset:
  assumes "bucket_ok b saved" and "row_ok saved key row"
  shows "bucket_ok (oset key row b) saved"
proof -
  have "xr_signature row = signature" if "(key, signature, bytes) \<in> set saved" for signature bytes
  proof -
    from that assms(2) have "carries saved key row" by (force simp: row_ok_def split: if_splits)
    then obtain bytes' where "(key, xr_signature row, bytes') \<in> set saved" by (auto simp: carries_def)
    with that saved_unique [of b saved] assms(1) show ?thesis by (fastforce simp: bucket_ok_def)
  qed
  with assms show ?thesis by (auto simp: bucket_ok_def saved_ok_def)
qed

lemma bucket_ok_save:
  assumes "bucket_ok b saved" and "map_of b key = Some active" and "xr_signature active = []"
    and "xr_signature row \<noteq> []"
  shows "bucket_ok (oset key row b) (saved @ [entry_of_row key row])"
proof -
  have fresh: "key \<notin> fst ` set saved" using unsigned_not_saved [OF assms(1), of key] assms(2,3) by simp
  then have other: "row_ok (saved @ [entry_of_row key row]) k r" if "row_ok saved k r" "k \<noteq> key" for k r
    using that by (auto simp: row_ok_def carries_def entry_of_row_def split: if_splits)
  have "saved_ok (oset key row b) (saved @ [entry_of_row key row])"
    using assms fresh by (fastforce simp: bucket_ok_def saved_ok_def entry_of_row_def)
  moreover have "row_ok (saved @ [entry_of_row key row]) key row"
    using assms(4) by (auto simp: row_ok_def carries_def entry_of_row_def)
  ultimately show ?thesis using assms(1) other by (auto simp: bucket_ok_def)
qed

subsection \<open>The updates of the store\<close>

lemma after_acquire_ok:
  "row_ok saved (ec_key c) row \<Longrightarrow> pc_ok L saved c (after_acquire J L c owned row) \<and> entry_at key (after_acquire J L c owned row) = []"
  by (auto simp: after_acquire_def row_ok_def pc_ok_def entry_at_def split: option.splits if_splits)

lemma acquire_ok:
  assumes "bucket_ok b saved" and "acquire J L c token now b = (q, b')"
  shows "bucket_ok b' saved \<and> pc_ok L saved c q \<and> entry_at key q = []"
proof -
  have own: ?thesis if "row_ok saved (ec_key c) row" "(q, b') = (after_acquire J L c True row, oset (ec_key c) row b)" for row
    using that after_acquire_ok [OF that(1)] bucket_ok_oset [OF assms(1) that(1)] by simp
  show ?thesis
  proof (cases "map_of b (ec_key c)")
    case None
    with unsigned_not_saved [OF assms(1), of "ec_key c"] have "row_ok saved (ec_key c) (new_row L c token now)"
      by (simp add: row_ok_def new_row_def)
    from own [OF this] None assms(2) show ?thesis by (simp add: acquire_def Let_def)
  next
    case (Some existing)
    note e = bucket_rowD [OF assms(1) Some]
    show ?thesis
    proof (cases "xr_signature existing = []")
      case True
      with e have "row_ok saved (ec_key c) (taken_row L c token now existing)" by (simp add: row_ok_def taken_row_def)
      with own after_acquire_ok [OF e] Some assms show ?thesis
        by (auto simp: acquire_def Let_def pc_ok_def entry_at_def split: if_splits)
    next
      case False
      with after_acquire_ok [OF e] Some assms show ?thesis
        by (auto simp: acquire_def Let_def pc_ok_def entry_at_def split: if_splits)
    qed
  qed
qed

lemma unproved_ok: "carries saved (ec_key c) row \<Longrightarrow> pc_ok L saved c (unproved initially row) \<and> entry_at key (unproved initially row) = []"
  by (simp add: unproved_def pc_ok_def entry_at_def)

lemma record_proof_ok:
  assumes "bucket_ok b saved" and "carries saved (ec_key c) row" and "record_proof L c now initially row proof1 b = (q, b')"
  shows "bucket_ok b' saved \<and> pc_ok L saved c q \<and> entry_at key q = []"
proof (cases "b' = b \<and> q = unproved initially row")
  case True
  with unproved_ok [OF assms(2)] assms(1) show ?thesis by simp
next
  case False
  with assms(3) obtain active new where new: "b' = oset (ec_key c) new b" "xr_signature new = xr_signature row"
    "xr_signedTransaction new = []" "q = Returned (Final (xr_signature row) (ec_key c) proof1)"
    by (auto simp: record_proof_def split: option.splits if_splits)
  from assms(2) new(2,3) have "carries saved (ec_key c) new" by (auto simp: carries_def)
  with carries_signed [OF assms(1) this] have "row_ok saved (ec_key c) new" by (simp add: row_ok_def)
  from bucket_ok_oset [OF assms(1) this] new show ?thesis by (simp add: pc_ok_def entry_at_def)
qed

lemma record_failure_ok:
  assumes "bucket_ok b saved" and "record_failure c now row b = (q, b')"
  shows "bucket_ok b' saved \<and> pc_ok L saved c q \<and> entry_at key q = []"
proof -
  have "row_ok saved (ec_key c) (active\<lparr>xr_status := s, xr_failedAt := t\<rparr>)" if "map_of b (ec_key c) = Some active" for active s t
    using bucket_rowD [OF assms(1) that] by (cases "xr_signature active = []") (simp_all add: row_ok_def carries_def)
  with assms bucket_ok_oset [OF assms(1)] show ?thesis
    by (auto simp: record_failure_def pc_ok_def entry_at_def split: option.splits if_splits)
qed

lemma save_signed_ok:
  assumes "bucket_ok b saved" and "signature \<noteq> []" and "save_signed L c token now built signature bytes b = (q, b')"
  shows "bucket_ok b' (saved @ entry_at (ec_key c) q) \<and> pc_ok L (saved @ entry_at (ec_key c) q) c q"
proof (cases "q = Returned (PreparationSuperseded (ec_key c)) \<and> b' = b")
  case True
  with assms(1) show ?thesis by (simp add: pc_ok_def entry_at_def)
next
  case False
  with assms(3) obtain active row where active: "map_of b (ec_key c) = Some active" "xr_signature active = []"
    and row: "q = Saved row" "b' = oset (ec_key c) row b" "xr_signature row = signature"
    by (auto simp: save_signed_def Let_def split: option.splits if_splits)
  with bucket_ok_save [OF assms(1) active, of row] assms(2) show ?thesis by (simp add: pc_ok_def entry_at_def)
qed

lemma commit_ok:
  assumes "bucket_ok b saved" and "pc_ok L saved c p" and "commit J L c token now p b = Some (q, b')"
  shows "bucket_ok b' (saved @ entry_at (ec_key c) q) \<and> pc_ok L (saved @ entry_at (ec_key c) q) c q"
proof (cases p)
  case (Acquiring t)
  with assms(3) have "acquire J L c token t b = (q, b')" by simp
  from acquire_ok [OF assms(1) this] show ?thesis by simp
next
  case (Recording initially row proof1)
  with assms(2,3) have "carries saved (ec_key c) row" "record_proof L c now initially row proof1 b = (q, b')"
    by (simp_all add: pc_ok_def)
  from record_proof_ok [OF assms(1) this] show ?thesis by simp
next
  case (Failing row)
  with assms(3) have "record_failure c now row b = (q, b')" by simp
  from record_failure_ok [OF assms(1) this] show ?thesis by simp
next
  case (Saving built signature bytes)
  with assms(2,3) have "signature \<noteq> []" "save_signed L c token now built signature bytes b = (q, b')"
    by (simp_all add: pc_ok_def)
  from save_signed_ok [OF assms(1) this] show ?thesis .
qed (use assms(3) in auto)

subsection \<open>The other steps\<close>

definition signer_ok :: "exec_lib \<Rightarrow> bool" where
  "signer_ok L \<longleftrightarrow> (\<forall>authority built. fst (xl_sign L authority built) \<noteq> [] \<and> snd (xl_sign L authority built) \<noteq> [])"

lemma resume_ok:
  assumes "signer_ok L" and "pc_ok L saved c p" and "resume J L c now p answer = Some q"
  shows "pc_ok L saved c q \<and> set (entry_at (ec_key c) q) \<subseteq> set saved"
proof -
  note defs = pc_ok_def entry_at_def
  have quiet: "pc_ok L saved c q \<and> entry_at (ec_key c) q = []" if "rejected answer = Some q"
    using that by (auto simp: rejected_def defs split: reply.splits)
  have proved: "pc_ok L saved c r \<and> entry_at (ec_key c) r = []"
    if "carries saved (ec_key c) row" "r = after_proof J initially row proof1" for r row initially proof1
    using that unproved_ok [OF that(1)] by (simp add: after_proof_def defs)
  have known: "pc_ok L saved c r \<and> entry_at (ec_key c) r = []"
    if "carries saved (ec_key c) row" "r = after_status row outcome1" for r row outcome1
    using that by (auto simp: after_status_def Let_def carries_def entry_of_row_def defs)
  have funds: "pc_ok L saved c (check_funds J L c built fee balance valid) \<and> entry_at (ec_key c) (check_funds J L c built fee balance valid) = []"
    for built fee balance valid
    using assms(1) by (auto simp: check_funds_def Let_def signer_ok_def defs split: sum.splits prod.splits) (metis fst_conv snd_conv)+
  have built: "pc_ok L saved c (check_built J c row a) \<and> entry_at (ec_key c) (check_built J c row a) = []" for row a
    by (simp add: check_built_def Let_def defs split: option.splits sum.splits)
  show ?thesis
  proof (cases p)
    case (Proving initially row)
    with assms(2) have "carries saved (ec_key c) row" by (simp add: pc_ok_def)
    from assms(3) Proving proved [OF this refl] quiet show ?thesis
      by (auto simp: resume_def split: reply.splits)
  next
    case (AskingStatus row)
    with assms(2) have "carries saved (ec_key c) row" by (simp add: pc_ok_def)
    from assms(3) AskingStatus known [OF this refl] quiet show ?thesis
      by (auto simp: resume_def split: reply.splits)
  next
    case (Sending row)
    with assms(2,3) have "carries saved (ec_key c) row" "q = Proving False row"
      by (auto simp: resume_def defs carries_def entry_of_row_def split: reply.splits)
    then show ?thesis by (simp add: defs)
  qed (use assms(2,3) quiet funds built in \<open>auto simp: resume_def defs split: reply.splits if_splits\<close>)
qed

lemma advance_ok:
  assumes "\<forall>p \<in> set (ew_calls w). pc_ok L saved (ep_call p) (ep_pc p)" and "i < length (ew_calls w)"
    and "set saved \<subseteq> set saved'" and "pc_ok L saved' (ep_call (ew_calls w ! i)) q"
  shows "\<forall>p \<in> set (ew_calls (advance i q w)). pc_ok L saved' (ep_call p) (ep_pc p)"
proof
  fix p
  assume "p \<in> set (ew_calls (advance i q w))"
  then have "p \<in> insert ((ew_calls w ! i)\<lparr>ep_pc := q\<rparr>) (set (ew_calls w))"
    using set_update_subset_insert by (fastforce simp: advance_def)
  with assms show "pc_ok L saved' (ep_call p) (ep_pc p)" by (auto intro: pc_ok_mono)
qed

lemma commit_call_ok:
  assumes "world_ok L w" and "i < length (ew_calls w)" and "commit_call J L i now w = Some w'"
  shows "world_ok L w'"
proof -
  let ?p = "ew_calls w ! i"
  have p: "pc_ok L (ew_signed w) (ep_call ?p) (ep_pc ?p)" and b: "bucket_ok (ew_bucket w) (ew_signed w)"
    using assms(1,2) by (simp_all add: world_ok_def)
  from assms(3) obtain q b' where c: "commit J L (ep_call ?p) i now (ep_pc ?p) (ew_bucket w) = Some (q, b')"
    and w': "w' = (advance i q w)\<lparr>ew_bucket := b', ew_signed := ew_signed w @ entry_at (ec_key (ep_call ?p)) q\<rparr>"
    by (auto simp: commit_call_def Let_def split: option.splits)
  from commit_ok [OF b p c] assms(1,2) advance_ok [of w L "ew_signed w" i] show ?thesis
    by (auto simp: world_ok_def w' advance_def)
qed

lemma resume_call_ok:
  assumes "signer_ok L" and "world_ok L w" and "i < length (ew_calls w)" and "resume_call J L i now answer w = Some w'"
  shows "world_ok L w'"
proof -
  let ?p = "ew_calls w ! i"
  have p: "pc_ok L (ew_signed w) (ep_call ?p) (ep_pc ?p)" using assms(2,3) by (simp add: world_ok_def)
  from assms(4) obtain q where r: "resume J L (ep_call ?p) now (ep_pc ?p) answer = Some q"
    and w': "w' = (advance i q w)\<lparr>ew_sent := ew_sent w @ entry_at (ec_key (ep_call ?p)) q\<rparr>"
    by (auto simp: resume_call_def Let_def split: option.splits)
  from resume_ok [OF assms(1) p r] assms(2,3) advance_ok [of w L "ew_signed w" i] show ?thesis
    by (auto simp: world_ok_def w' advance_def)
qed

lemma exec_step_ok:
  assumes "signer_ok L" and "world_ok L w" and "exec_step J L w w'"
  shows "world_ok L w'"
proof -
  from assms(3) obtain e where e: "handle_event J L e w = Some w'" by (rule exec_stepE)
  show ?thesis
  proof (cases e)
    case (Called c)
    have "pc_ok L saved c (start_call J c)" for saved by (simp add: start_call_def pc_ok_def split: sum.splits)
    with e Called assms(2) show ?thesis by (auto simp: world_ok_def)
  next
    case (Committed i now)
    with e commit_call_ok [OF assms(2)] show ?thesis by (simp split: if_splits)
  next
    case (Resumed i now answer)
    with e resume_call_ok [OF assms(1,2)] show ?thesis by (simp split: if_splits)
  next
    case (Died i)
    have "pc_ok L saved c Crashed" for saved c by (simp add: pc_ok_def)
    with e Died assms(2) advance_ok [of w L "ew_signed w" i "ew_signed w" Crashed] show ?thesis
      by (auto simp: world_ok_def advance_def split: if_splits)
  qed
qed

lemma empty_world_ok: "world_ok L empty_world"
  by (simp add: world_ok_def bucket_ok_def saved_ok_def empty_world_def)

interpretation exec_journal: step_invariant "\<lambda>w. signer_ok L \<and> w = empty_world" "exec_step J L" "\<lambda>w. signer_ok L \<and> world_ok L w" for J L
  by unfold_locales (blast intro: empty_world_ok exec_step_ok)+

text \<open>C40. One payment for each key: whatever the calls, their clocks, the answers of the chain and
  the crashes, all that is ever handed to the network under one key is one transaction, with one
  signature and the same bytes; and before it is sent the store holds its signature, in the row of
  its key, for ever.\<close>

theorem journal_sends_one_transaction:
  assumes "signer_ok L" and "(exec_step J L)\<^sup>*\<^sup>* empty_world w"
  shows "distinct (map fst (remdups (ew_sent w)))
    \<and> list_all (\<lambda>(key, signature, bytes). case map_of (ew_bucket w) key of
          None \<Rightarrow> False
        | Some row \<Rightarrow> xr_signature row = signature \<and> xr_signedTransaction row \<in> {[], bytes}) (ew_sent w)"
proof -
  have "signer_ok L \<and> world_ok L w"
    using assms exec_journal.reachable_inv [of L empty_world J w] by blast
  then have b: "bucket_ok (ew_bucket w) (ew_signed w)" and sub: "set (ew_sent w) \<subseteq> set (ew_signed w)"
    by (simp_all add: world_ok_def)
  then have unique: "(key, x) \<in> set (ew_sent w) \<Longrightarrow> (key, y) \<in> set (ew_sent w) \<Longrightarrow> x = y" for key x y
    using saved_unique by (fastforce simp: bucket_ok_def)
  then have "distinct (map fst (remdups (ew_sent w)))" by (force simp: distinct_map inj_on_def)
  moreover have "case map_of (ew_bucket w) key of None \<Rightarrow> False
      | Some row \<Rightarrow> xr_signature row = signature \<and> xr_signedTransaction row \<in> {[], bytes}"
    if "(key, signature, bytes) \<in> set (ew_sent w)" for key signature bytes
  proof -
    from that sub have in_saved: "(key, signature, bytes) \<in> set (ew_signed w)" by blast
    with bucket_savedD [OF b] obtain row where row: "map_of (ew_bucket w) key = Some row" "xr_signature row = signature" "signature \<noteq> []"
      by blast
    with bucket_rowD [OF b] have "carries (ew_signed w) key row" by (fastforce simp: row_ok_def)
    then obtain bytes' where "(key, signature, bytes') \<in> set (ew_signed w)" "xr_signedTransaction row \<in> {[], bytes'}"
      using row(2) by (auto simp: carries_def)
    with in_saved b saved_unique row show ?thesis by (fastforce simp: bucket_ok_def)
  qed
  ultimately show ?thesis by (auto simp: list_all_iff)
qed

text \<open>A call that crashes after its broadcast, and a second one that finds the saved row.\<close>

definition toy_exec :: exec_lib where
  "toy_exec = \<lparr>xl_sha256 = (\<lambda>t. t), xl_json = to_str, xl_sign = (\<lambda>authority built. (bt_message built @ ''5'', bt_message built @ ''8''))\<rparr>"

definition toy_call :: exec_call where
  "toy_call = \<lparr>ec_key = ''agency:'' @ replicate 32 CHR ''7'' @ '':1:0'',
     ec_intent = Obj [(''cluster'', Str ''devnet''), (''approvedHash'', Str (replicate 64 CHR ''a''))],
     ec_authority = ''A'', ec_leaseMs = 60000, ec_reserveLamports = ''3000000000''\<rparr>"

definition toy_built :: built_tx where
  "toy_built = \<lparr>bt_versioned = True, bt_lastValidBlockHeight = Num (Fin 9), bt_estimatedRentLamports = Str ''0'',
     bt_numRequiredSignatures = 1, bt_staticAccountKeys = [''A''], bt_priceSigner = None, bt_size = 900,
     bt_recentBlockhash = ''B'', bt_message = ''m'', bt_evidence = None\<rparr>"

definition toy_events :: "exec_event list" where
  "toy_events =
     [Called toy_call, Resumed 0 1000 (Genesis DEVNET_GENESIS_HASH), Committed 0 1001, Resumed 0 1002 (Built (Some toy_built)),
      Resumed 0 1003 (Funds (Num (Fin 5000)) (Num (Fin 3000005000)) True), Committed 0 1004, Resumed 0 1005 Continue, Died 0,
      Called toy_call, Resumed 1 2000 (Genesis DEVNET_GENESIS_HASH), Committed 1 2001, Resumed 1 2002 (Proof Null),
      Resumed 1 2003 (Status Undef), Resumed 1 2004 (BlockhashValid True)]"

definition toy_world :: exec_world where
  "toy_world = the (exec_run AgencyJournal toy_exec toy_events empty_world)"

theorem journal_sends_one_transaction_witness:
  "length (ew_sent toy_world) = 2 \<and> distinct (map fst (remdups (ew_sent toy_world)))"
proof -
  have "(case exec_run AgencyJournal toy_exec toy_events empty_world of None \<Rightarrow> False | Some w \<Rightarrow> length (ew_sent w) = 2)"
    by code_simp
  then have "exec_run AgencyJournal toy_exec toy_events empty_world = Some toy_world" and n: "length (ew_sent toy_world) = 2"
    unfolding toy_world_def by (simp_all split: option.splits)
  moreover have "signer_ok toy_exec" by (simp add: signer_ok_def toy_exec_def)
  ultimately show ?thesis using journal_sends_one_transaction [OF _ exec_run_steps] by blast
qed

end
