(* ===== verification/Policies.thy ===== *)
theory Policies
  imports Distribution JsDate
begin

text \<open>
  The policies of single products: service fees (\<open>service-fees.js\<close>), paid listings
  (\<open>listing-policy.js\<close>), buybacks (\<open>buyback-policy.js\<close>), pro-rata rewards (\<open>reward-policy.js\<close>),
  community airdrops (\<open>airdrop-policy.js\<close>), claims and payouts of X handles
  (\<open>sol-claim-policy.js\<close>, \<open>x-payout-policy.js\<close>), the screening of launches
  (\<open>anti-sniper-policy.js\<close>) and the rewards a creator sees (\<open>creator-reward-model.js\<close>).  The mutable
  variables of a module are arguments; \<open>other\<close> is \<open>Date.parse\<close> of text that is no ISO date, and
  \<open>now\<close> the current time as ISO text.
\<close>

section \<open>Arguments\<close>

text \<open>The default of a destructured argument, and \<open>new Date(v).toISOString()\<close>.\<close>

definition dflt :: "jsval \<Rightarrow> jsval \<Rightarrow> jsval" where
  "dflt v d = (if v = Undef then d else v)"

definition date_number :: "(string \<Rightarrow> jsnum) \<Rightarrow> jsval \<Rightarrow> jsnum" where
  "date_number other v = (case v of Str s \<Rightarrow> date_parse other v | Arr vs \<Rightarrow> date_parse other v
     | Obj kvs \<Rightarrow> date_parse other v | _ \<Rightarrow> to_number v)"

definition date_iso :: "(string \<Rightarrow> jsnum) \<Rightarrow> jsval \<Rightarrow> string res" where
  "date_iso other v = iso_of_num (date_number other v)"

definition non_negative :: "string \<Rightarrow> jsval \<Rightarrow> jsnum res" where
  "non_negative label v =
     (let n = to_number v in
      if \<not> nfinite n \<or> nless n (Fin 0) then throw (label @ '' must be a non-negative number.'') else Inr n)"

definition array_of :: "jsval \<Rightarrow> jsval list res" where
  "array_of v = (case v of Arr vs \<Rightarrow> Inr vs | _ \<Rightarrow> Inl TypeErr)"

lemma non_negative_Inr: "non_negative label v = Inr n \<Longrightarrow> nfinite n \<and> \<not> nless n (Fin 0)"
  by (auto simp: non_negative_def Let_def split: if_splits)

section \<open>service-fees.js\<close>

record service_fees =
  sf_tradeBps :: int
  sf_launchLamports :: string
  sf_proUsd :: int
  sf_premierUsd :: int
  sf_listingUsd :: int

definition DEFAULT_SERVICE_FEES :: service_fees where
  "DEFAULT_SERVICE_FEES = \<lparr>sf_tradeBps = 100, sf_launchLamports = ''20000000'', sf_proUsd = 150, sf_premierUsd = 300,
     sf_listingUsd = 300\<rparr>"

definition service_fee_keys :: "string list" where
  "service_fee_keys = [''tradeBps'', ''launchLamports'', ''proUsd'', ''premierUsd'', ''listingUsd'']"

definition own_keys :: "jsval \<Rightarrow> string list" where
  "own_keys v = (case v of Obj kvs \<Rightarrow> map fst kvs | Arr vs \<Rightarrow> map (\<lambda>i. show_dec (int i)) [0..<length vs]
     | Str s \<Rightarrow> map (\<lambda>i. show_dec (int i)) [0..<length s] | _ \<Rightarrow> [])"

definition int_between :: "int \<Rightarrow> int \<Rightarrow> jsval \<Rightarrow> bool" where
  "int_between lo hi v = (case v of Num n \<Rightarrow> is_integer n \<and> lo \<le> to_int n \<and> to_int n \<le> hi | _ \<Rightarrow> False)"

definition int_of :: "jsval \<Rightarrow> int" where
  "int_of v = (case v of Num n \<Rightarrow> to_int n | _ \<Rightarrow> 0)"

text \<open>A dash of the message is not a character of Latin-1; it is written in UTF-8.\<close>

definition en_dash :: string where "en_dash = [CHR 0xE2, CHR 0x80, CHR 0x93]"

definition service_fees_error :: string where
  "service_fees_error = ''Use trading 0'' @ en_dash @ ''500 bps, launch 0'' @ en_dash
     @ ''5 SOL in exact lamports, positive whole USD prices, and Premier above Pro.''"

definition launch_lamports_ok :: "jsval \<Rightarrow> bool" where
  "launch_lamports_ok v = (case v of Str s \<Rightarrow> canon_dec s \<and> length s \<le> 10 \<and> parse_dec s \<le> 5000000000 | _ \<Rightarrow> False)"

definition validateServiceFees :: "jsval \<Rightarrow> service_fees res" where
  "validateServiceFees input =
     (if \<not> truthy input \<or> \<not> list_all (\<lambda>k. k \<in> set service_fee_keys) (own_keys input)
        then throw ''Unknown service fee field.''
      else if \<not> int_between 0 500 (oget input ''tradeBps'') \<or> \<not> launch_lamports_ok (oget input ''launchLamports'')
        \<or> \<not> list_all (\<lambda>k. int_between 1 100000 (oget input k)) [''proUsd'', ''premierUsd'', ''listingUsd'']
        \<or> int_of (oget input ''premierUsd'') \<le> int_of (oget input ''proUsd'')
        then throw service_fees_error
      else Inr \<lparr>sf_tradeBps = int_of (oget input ''tradeBps''), sf_launchLamports = to_str (oget input ''launchLamports''),
        sf_proUsd = int_of (oget input ''proUsd''), sf_premierUsd = int_of (oget input ''premierUsd''),
        sf_listingUsd = int_of (oget input ''listingUsd'')\<rparr>)"

definition setCurrentServiceFees :: "jsval \<Rightarrow> service_fees res" where
  "setCurrentServiceFees input = validateServiceFees input"

definition serviceFeeSol :: "service_fees \<Rightarrow> jsval \<Rightarrow> jsnum" where
  "serviceFeeSol current input = ndiv (to_number (nullish input (Str (sf_launchLamports current)))) (nint 1000000000)"

lemma validateServiceFees_bounds:
  "validateServiceFees input = Inr f \<Longrightarrow> 0 \<le> sf_tradeBps f \<and> sf_tradeBps f \<le> 500
     \<and> canon_dec (sf_launchLamports f) \<and> parse_dec (sf_launchLamports f) \<le> 5000000000
     \<and> 1 \<le> sf_proUsd f \<and> sf_proUsd f < sf_premierUsd f \<and> sf_premierUsd f \<le> 100000
     \<and> 1 \<le> sf_listingUsd f \<and> sf_listingUsd f \<le> 100000"
  by (auto simp: validateServiceFees_def int_between_def int_of_def launch_lamports_ok_def split: if_splits jsval.splits)

section \<open>listing-policy.js\<close>

definition setListingPriceUsd :: "jsval \<Rightarrow> int res" where
  "setListingPriceUsd usd = (if int_between 1 100000 usd then Inr (int_of usd) else throw ''Invalid listing price.'')"

definition LISTING_MEMO_PREFIX :: string where "LISTING_MEMO_PREFIX = ''funded.vip:list:''"

definition listingMemo :: "jsval \<Rightarrow> string" where
  "listingMemo mint = LISTING_MEMO_PREFIX @ to_str mint"

definition token_price :: "jsval \<Rightarrow> jsnum res" where
  "token_price v =
     (let price = to_number v in
      if \<not> nfinite price \<or> nle price (Fin 0) then throw ''A verified $FUNDED/USD price is required.'' else Inr price)"

definition positive_safe :: "string \<Rightarrow> jsnum \<Rightarrow> int res" where
  "positive_safe message n = (if \<not> is_safe_integer n \<or> to_int n \<le> 0 then throw message else Inr (to_int n))"

definition listingBurnTokens :: "jsval \<Rightarrow> jsnum \<Rightarrow> int res" where
  "listingBurnTokens tokenPriceUsd usd =
     bindR (token_price tokenPriceUsd) (\<lambda>price.
       positive_safe ''The listing price cannot be converted to a safe token amount.'' (math_ceil (ndiv usd price)))"

definition mint_decimals :: "jsval \<Rightarrow> nat res" where
  "mint_decimals v = (if int_between 0 18 v then Inr (nat (int_of v)) else throw ''Unsupported $FUNDED mint decimals.'')"

definition listingBurnBaseUnitsForUsd :: "jsval \<Rightarrow> jsval \<Rightarrow> jsnum \<Rightarrow> int res" where
  "listingBurnBaseUnitsForUsd tokenPriceUsd decimals usd =
     bindR (mint_decimals decimals) (\<lambda>d.
     bindR (token_price tokenPriceUsd) (\<lambda>price.
       positive_safe ''The listing cannot be represented safely at this token price.''
         (math_ceil (nmul (ndiv usd price) (nint (10 ^ d))))))"

text \<open>\<open>/^listing_\d+_[0-9a-f]{16}$/\<close>.\<close>

definition listing_id :: "string \<Rightarrow> bool" where
  "listing_id s = (case split_on (CHR ''_'') s of
     [name, time, tail] \<Rightarrow> name = ''listing'' \<and> all_digits time \<and> length tail = 16 \<and> list_all is_hex_lower tail
   | _ \<Rightarrow> False)"

definition quote_fields_ok :: "jsval \<Rightarrow> jsval \<Rightarrow> bool" where
  "quote_fields_ok quote usd \<longleftrightarrow>
     (let q = oget quote; units = to_str (jor (q ''amountBaseUnits'') (Str [])) in
      jeq (q ''usd'') usd \<and> is_int_val usd \<and> 0 < int_of usd
      \<and> (case q ''amountTokens'' of Num n \<Rightarrow> nfinite n \<and> nless (Fin 0) n | _ \<Rightarrow> False)
      \<and> int_between 0 18 (q ''decimals'')
      \<and> all_digits units \<and> (case to_bigint (q ''amountBaseUnits'') of Inr n \<Rightarrow> 0 < n | Inl _ \<Rightarrow> False))"

definition listingQuoteCurrent ::
  "(string \<Rightarrow> jsnum) \<Rightarrow> jsval \<Rightarrow> jsval \<Rightarrow> jsval \<Rightarrow> jsval \<Rightarrow> jsnum \<Rightarrow> jsval \<Rightarrow> bool" where
  "listingQuoteCurrent other quote mint payer fundedMint now usd \<longleftrightarrow>
     (let q = oget quote; created = date_parse other (q ''createdAt''); expires = date_parse other (q ''expiresAt'') in
      listing_id (to_str (jor (q ''id'') (Str []))) \<and> quote_fields_ok quote usd
      \<and> (\<not> truthy mint \<or> jeq (q ''mint'') mint) \<and> (\<not> truthy payer \<or> jeq (q ''payer'') payer)
      \<and> (\<not> truthy fundedMint \<or> jeq (q ''fundedMint'') fundedMint)
      \<and> nfinite created \<and> nle created now \<and> nfinite expires \<and> nless now expires)"

definition listingBurnBaseUnits :: "jsval \<Rightarrow> jsval \<Rightarrow> int res" where
  "listingBurnBaseUnits decimals amountTokens =
     bindR (mint_decimals decimals) (\<lambda>d.
     if \<not> is_safe amountTokens \<or> safe_int amountTokens \<le> 0 then throw ''Unsupported Solana listing burn amount.''
     else
       let units = safe_int amountTokens * 10 ^ d in
       if units > 18446744073709551615 then throw ''The listing burn exceeds the SPL token amount limit.'' else Inr units)"

lemma listingBurnBaseUnits_u64: "listingBurnBaseUnits decimals tokens = Inr n \<Longrightarrow> 0 < n \<and> n < 2 ^ 64"
  by (auto simp: listingBurnBaseUnits_def bindR_Inr_iff Let_def split: if_splits)

section \<open>buyback-policy.js\<close>

text \<open>\<open>BUYBACK_POLICY\<close>, with the rates of the distribution \<open>d0\<close> in force when the module is loaded.\<close>

record buyback_policy =
  bp_percentOfFundedRevenue :: jsnum
  bp_effectivePercent :: jsnum
  bp_acceptedAssets :: "string list"
  bp_minimumBatch :: "(string \<times> int) list"
  bp_maximumSlippageBps :: int
  bp_maximumPriceImpactBps :: int
  bp_maximumLiquidityClipBps :: int
  bp_burnInstruction :: string
  bp_unspentFundsRule :: string
  bp_execution :: string

definition BUYBACK_POLICY :: "fee_distribution \<Rightarrow> buyback_policy" where
  "BUYBACK_POLICY d0 =
     \<lparr>bp_percentOfFundedRevenue = fd_buybackRate d0, bp_effectivePercent = fd_buybackEffective d0,
      bp_acceptedAssets = [''SOL''], bp_minimumBatch = [(''SOL'', 5)], bp_maximumSlippageBps = 100,
      bp_maximumPriceImpactBps = 75, bp_maximumLiquidityClipBps = 25, bp_burnInstruction = ''BurnChecked'',
      bp_unspentFundsRule = ''remain-in-dedicated-buyback-vault'', bp_execution = ''protected-swap-then-burn''\<rparr>"

definition normalizeAsset :: "jsval \<Rightarrow> string res" where
  "normalizeAsset asset =
     (let normalized = map to_upper (trim (to_str (jor asset (Str ''SOL'')))) in
      if normalized = ''SOL'' then Inr normalized else throw ''Buyback asset must be SOL.'')"

definition strings :: "string list \<Rightarrow> jsval" where "strings xs = Arr (map Str xs)"

definition int_fields :: "(string \<times> int) list \<Rightarrow> (string \<times> jsval) list" where
  "int_fields = map (\<lambda>(k, n). (k, Num (nint n)))"

definition buildBuybackPolicy :: "fee_distribution \<Rightarrow> jsval \<Rightarrow> jsval" where
  "buildBuybackPolicy d0 fundedMint =
     (let p = BUYBACK_POLICY d0 in
      Obj [(''source'', Obj (num_fields [(''percentOfFundedRevenue'', bp_percentOfFundedRevenue p),
             (''effectivePercentOfCreatorFees'', bp_effectivePercent p)]
             @ str_fields [(''basis'', ''creator-fees-actually-claimed''), (''allocationTiming'', ''at-fee-claim'')])),
        (''vault'', Obj [(''type'', Str ''dedicated-solana-pda''), (''acceptedAssets'', strings (bp_acceptedAssets p)),
           (''withdrawalRule'', Str ''no-general-withdrawal-path''), (''unspentFundsRule'', Str (bp_unspentFundsRule p))]),
        (''execution'', Obj ([(''mechanism'', Str (bp_execution p)),
             (''minimumBatch'', Obj (int_fields (bp_minimumBatch p))),
             (''triggerScope'', Str ''aggregate-verified-devnet-v3-vaults'')]
           @ int_fields [(''maximumSlippageBps'', bp_maximumSlippageBps p),
               (''maximumPriceImpactBps'', bp_maximumPriceImpactBps p),
               (''maximumLiquidityClipBps'', bp_maximumLiquidityClipBps p)]
           @ str_fields [(''routeRequirement'', ''verified-funded-market-only''), (''staleQuoteRule'', ''reject''),
               (''failureRule'', ''keep-pending-never-reroute'')])),
        (''burn'', Obj [(''mint'', jor fundedMint Null), (''instruction'', Str (bp_burnInstruction p)),
           (''destination'', Str ''supply-reduction-not-dead-wallet''), (''atomicWithSwapPreferred'', Bool True)]),
        (''accounting'', Obj [(''idempotencyKey'', Str ''fee-claim-transaction-signature''),
           (''requiredProofs'', strings [''fee-claim-signature'', ''buy-signature'', ''burn-signature'', ''supply-before'', ''supply-after''])]),
        (''productionRequirements'', strings [''audited-buyback-program'', ''dedicated-pda-vault'', ''verified-funded-mint'',
           ''protected-swap-router'', ''permissionless-keeper'', ''public-receipt-indexer'']),
        (''status'', Str (if truthy fundedMint then ''mint-configured-program-pending'' else ''awaiting-funded-mint-and-program''))])"

record buyback_accrual =
  ba_id :: string
  ba_claimSignature :: string
  ba_asset :: string
  ba_grossCreatorFees :: jsnum
  ba_fundedRevenue :: jsnum
  ba_buybackAmount :: jsnum
  ba_effectivePercent :: jsnum
  ba_claimedAt :: string
  ba_status :: string

text \<open>\<open>d\<close> is the distribution in force at the call.\<close>

definition buildBuybackAccrual ::
  "(string \<Rightarrow> jsnum) \<Rightarrow> string \<Rightarrow> fee_distribution \<Rightarrow> fee_distribution \<Rightarrow> jsval \<Rightarrow> jsval \<Rightarrow> jsval \<Rightarrow> jsval \<Rightarrow> buyback_accrual res" where
  "buildBuybackAccrual other now d0 d claimSignature grossCreatorFees asset claimedAt =
     (let signature = trim (to_str (jor claimSignature (Str []))) in
      if signature = [] then throw ''A fee-claim transaction signature is required.''
      else
        bindR (non_negative ''Gross creator fees'' grossCreatorFees) (\<lambda>gross.
        bindR (normalizeAsset (dflt asset (Str ''SOL''))) (\<lambda>asset1.
        let appRevenue = ndiv (nmul gross (nint (fd_fundedPercent d))) (nint 100);
            buybackAmount = ndiv (nmul appRevenue (bp_percentOfFundedRevenue (BUYBACK_POLICY d0))) (nint 100) in
        bindR (date_iso other (dflt claimedAt (Str now))) (\<lambda>at1.
          Inr \<lparr>ba_id = signature, ba_claimSignature = signature, ba_asset = asset1, ba_grossCreatorFees = roundAmount gross,
            ba_fundedRevenue = roundAmount appRevenue, ba_buybackAmount = roundAmount buybackAmount,
            ba_effectivePercent = bp_effectivePercent (BUYBACK_POLICY d0), ba_claimedAt = at1, ba_status = ''pending''\<rparr>))))"

definition sum_by_asset :: "jsval list \<Rightarrow> (string, jsnum) omap res" where
  "sum_by_asset records =
     foldR (\<lambda>totals record1.
       bindR (jget record1 ''asset'') (\<lambda>asset.
         let key = to_str asset;
             previous = (case map_of totals key of None \<Rightarrow> Fin 0 | Some n \<Rightarrow> if n = NaN then Fin 0 else n) in
         Inr (oset key (roundAmount (nadd previous (to_number (jor (oget record1 ''buybackAmount'') (Num (Fin 0)))))) totals)))
     [] records"

record buyback_ledger =
  bl_accruedByAsset :: "(string, jsnum) omap"
  bl_pendingByAsset :: "(string, jsnum) omap"
  bl_burnedTokens :: jsnum
  bl_feeClaimCount :: nat
  bl_executionCount :: nat

text \<open>What \<open>flatMap\<close> adds for one value.\<close>

definition flat_value :: "jsval \<Rightarrow> jsval list" where
  "flat_value v = (case v of Arr vs \<Rightarrow> vs | _ \<Rightarrow> [v])"

definition summarizeBuybackLedger :: "jsval list \<Rightarrow> jsval list \<Rightarrow> buyback_ledger res" where
  "summarizeBuybackLedger accruals receipts =
     bindR (mapR (\<lambda>receipt. bindR (jget receipt ''accrualIds'') (\<lambda>ids. Inr (flat_value (jor ids (Arr []))))) receipts) (\<lambda>idss.
     bindR (mapR (\<lambda>accrual. jget accrual ''id'') accruals) (\<lambda>_.
     let open1 = filter (\<lambda>accrual. oget accrual ''id'' \<notin> set (concat idss)) accruals in
     bindR (sum_by_asset accruals) (\<lambda>accrued.
     bindR (sum_by_asset open1) (\<lambda>pending1.
       Inr \<lparr>bl_accruedByAsset = accrued, bl_pendingByAsset = pending1,
         bl_burnedTokens = roundAmount (foldl (\<lambda>total1 receipt.
             nadd total1 (to_number (jor (oget receipt ''tokensBurned'') (Num (Fin 0))))) (Fin 0) receipts),
         bl_feeClaimCount = length accruals, bl_executionCount = length receipts\<rparr>))))"

text \<open>The answers of \<open>evaluateBuybackBatch\<close>; \<open>eligible\<close> is false for the first only, \<open>executable\<close> true for the last.\<close>

datatype buyback_batch =
    Accumulating jsnum int
  | QuoteRequired jsnum int
  | BatchRefused string
  | BatchReady jsnum jsnum jsnum

definition quoted_batch :: "fee_distribution \<Rightarrow> jsnum \<Rightarrow> jsval \<Rightarrow> buyback_batch res" where
  "quoted_batch d0 amount1 quote =
     (let p = BUYBACK_POLICY d0 in
      bindR (non_negative ''Quote age'' (oget quote ''ageSeconds'')) (\<lambda>age.
      bindR (non_negative ''Quote slippage'' (oget quote ''slippageBps'')) (\<lambda>slippage.
      bindR (non_negative ''Quote price impact'' (oget quote ''priceImpactBps'')) (\<lambda>impact.
      bindR (non_negative ''Pool liquidity'' (oget quote ''poolLiquidityAmount'')) (\<lambda>liquidity.
      let clip = ndiv (nmul liquidity (nint (bp_maximumLiquidityClipBps p))) (nint 10000);
          execution = roundAmount (nmin amount1 clip) in
      Inr (if \<not> truthy (oget quote ''routeVerified'') then BatchRefused ''unverified-funded-route''
        else if nless (nint 10) age then BatchRefused ''stale-quote''
        else if nless (nint (bp_maximumSlippageBps p)) slippage then BatchRefused ''slippage-limit''
        else if nless (nint (bp_maximumPriceImpactBps p)) impact then BatchRefused ''price-impact-limit''
        else if nle execution (Fin 0) then BatchRefused ''insufficient-verified-liquidity''
        else BatchReady execution (roundAmount (nsub amount1 execution)) (roundAmount clip)))))))"

definition evaluateBuybackBatch :: "fee_distribution \<Rightarrow> jsval \<Rightarrow> jsval \<Rightarrow> jsval \<Rightarrow> buyback_batch res" where
  "evaluateBuybackBatch d0 pendingAmount asset quote =
     bindR (normalizeAsset (dflt asset (Str ''SOL''))) (\<lambda>_.
     bindR (non_negative ''Pending buyback amount'' pendingAmount) (\<lambda>amount1.
       if nless amount1 (nint 5) then Inr (Accumulating amount1 5)
       else if \<not> truthy (dflt quote Null) then Inr (QuoteRequired amount1 5)
       else quoted_batch d0 amount1 quote))"

record buyback_receipt =
  br_id :: string
  br_accrualIds :: "string list"
  br_asset :: string
  br_inputAmount :: jsnum
  br_tokensBought :: jsnum
  br_tokensBurned :: jsnum
  br_buySignature :: string
  br_burnSignature :: string
  br_burnInstruction :: string
  br_supplyBefore :: jsnum
  br_supplyAfter :: jsnum
  br_executedAt :: string
  br_mode :: jsval

text \<open>\<open>i\<close> is the argument object.\<close>

definition buildBuybackReceipt :: "(string \<Rightarrow> jsnum) \<Rightarrow> string \<Rightarrow> jsval \<Rightarrow> buyback_receipt res" where
  "buildBuybackReceipt other now i =
     bindR (array_of (jor (oget i ''accrualIds'') (Arr []))) (\<lambda>raw.
     let ids = dedupe_list (filter (\<lambda>s. s \<noteq> []) (map to_str raw)) in
     if ids = [] then throw ''At least one accrual id is required.''
     else
       bindR (non_negative ''Buyback input amount'' (oget i ''inputAmount'')) (\<lambda>input.
       bindR (non_negative ''Purchased token amount'' (oget i ''tokensBought'')) (\<lambda>bought.
       bindR (non_negative ''Supply before burn'' (oget i ''supplyBefore'')) (\<lambda>before.
       bindR (non_negative ''Supply after burn'' (oget i ''supplyAfter'')) (\<lambda>after.
       if \<not> truthy (oget i ''buySignature'') \<or> \<not> truthy (oget i ''burnSignature'')
         then throw ''Buy and burn transaction signatures are required.''
       else if nless micro (math_abs (nsub (nsub before bought) after))
         then throw ''Supply delta must equal the purchased and burned token amount.''
       else
         bindR (normalizeAsset (dflt (oget i ''asset'') (Str ''SOL''))) (\<lambda>asset.
         bindR (date_iso other (dflt (oget i ''executedAt'') (Str now))) (\<lambda>at1.
           Inr \<lparr>br_id = to_str (oget i ''burnSignature''), br_accrualIds = ids, br_asset = asset, br_inputAmount = roundAmount input,
             br_tokensBought = roundAmount bought, br_tokensBurned = roundAmount bought, br_buySignature = to_str (oget i ''buySignature''),
             br_burnSignature = to_str (oget i ''burnSignature''), br_burnInstruction = ''BurnChecked'', br_supplyBefore = roundAmount before,
             br_supplyAfter = roundAmount after, br_executedAt = at1,
             br_mode = dflt (oget i ''mode'') (Str ''production'')\<rparr>)))))))"

section \<open>reward-policy.js\<close>

definition acceptedTransferFeeBps :: "int list" where "acceptedTransferFeeBps = [100, 300]"
definition defaultOperatingFeeBps :: int where "defaultOperatingFeeBps = 250"
definition rewardMinimumHolderUsd :: int where "rewardMinimumHolderUsd = 20"

record reward_config =
  rc_valid :: bool
  rc_transferFeeBps :: jsnum
  rc_operatingFeeBps :: jsnum
  rc_supportedRates :: "int list"

definition validateRewardConfig :: "jsval \<Rightarrow> jsval \<Rightarrow> reward_config" where
  "validateRewardConfig transferFeeBps operatingFeeBps =
     (let rate = to_number transferFeeBps; operating = to_number (dflt operatingFeeBps (Num (nint defaultOperatingFeeBps))) in
      \<lparr>rc_valid = rate \<in> set (map (\<lambda>n. nint n) acceptedTransferFeeBps) \<and> nfinite operating
         \<and> \<not> nless operating (Fin 0) \<and> nless operating (nint 10000),
       rc_transferFeeBps = rate, rc_operatingFeeBps = operating, rc_supportedRates = acceptedTransferFeeBps\<rparr>)"

record reward_pool =
  rp_withheldAmount :: jsnum
  rp_operatingAmount :: jsnum
  rp_distributableAmount :: jsnum
  rp_payoutAsset :: string

definition calculateRewardPool :: "jsval \<Rightarrow> jsval \<Rightarrow> reward_pool res" where
  "calculateRewardPool withheldAmount operatingFeeBps =
     bindR (non_negative ''Withheld amount'' withheldAmount) (\<lambda>withheld.
     bindR (non_negative ''Operating fee'' (dflt operatingFeeBps (Num (nint defaultOperatingFeeBps)))) (\<lambda>fee.
     if nle (nint 10000) fee then throw ''Operating fee must be below 100%.''
     else
       let operating = ndiv (nmul withheld fee) (nint 10000) in
       Inr \<lparr>rp_withheldAmount = to_fixed 9 withheld, rp_operatingAmount = to_fixed 9 operating,
         rp_distributableAmount = to_fixed 9 (nsub withheld operating), rp_payoutAsset = ''quote-asset''\<rparr>))"

record reward_holder =
  rh_wallet :: string
  rh_balance :: jsnum
  rh_valueUsd :: jsnum

record reward_payout =
  ro_holder :: reward_holder
  ro_share :: jsnum
  ro_amount :: jsnum

record reward_allocation =
  ra_minimumHolderUsd :: jsnum
  ra_eligibleHolders :: nat
  ra_totalEligibleBalance :: jsnum
  ra_distributableAmount :: jsnum
  ra_payouts :: "reward_payout list"

definition reward_holder_of :: "jsval \<Rightarrow> reward_holder res" where
  "reward_holder_of holder =
     bindR (jget holder ''wallet'') (\<lambda>wallet.
     bindR (non_negative ''Holder balance'' (oget holder ''balance'')) (\<lambda>balance.
     bindR (non_negative ''Holder value'' (nullish (oget holder ''valueUsd'') (Num (Fin 0)))) (\<lambda>value.
       Inr \<lparr>rh_wallet = trim (to_str (jor wallet (Str []))), rh_balance = balance, rh_valueUsd = value\<rparr>)))"

definition allocateProRataRewards :: "jsval \<Rightarrow> jsval list \<Rightarrow> jsval \<Rightarrow> reward_allocation res" where
  "allocateProRataRewards distributableAmount holders minimumHolderUsd =
     bindR (non_negative ''Distributable amount'' distributableAmount) (\<lambda>distributable.
     bindR (non_negative ''Minimum holder value'' (dflt minimumHolderUsd (Num (nint rewardMinimumHolderUsd)))) (\<lambda>minimum.
     bindR (mapR reward_holder_of holders) (\<lambda>rows.
     let eligible = filter (\<lambda>h. rh_wallet h \<noteq> [] \<and> nless (Fin 0) (rh_balance h) \<and> nle minimum (rh_valueUsd h)) rows;
         total1 = nsum (map rh_balance eligible) in
     Inr \<lparr>ra_minimumHolderUsd = minimum, ra_eligibleHolders = length eligible, ra_totalEligibleBalance = total1,
       ra_distributableAmount = distributable,
       ra_payouts = (if nless (Fin 0) total1
         then map (\<lambda>h. \<lparr>ro_holder = h, ro_share = ndiv (rh_balance h) total1,
             ro_amount = to_fixed 9 (ndiv (nmul distributable (rh_balance h)) total1)\<rparr>) eligible
         else [])\<rparr>)))"

record reward_cycle =
  ry_id :: string
  ry_tokenMint :: jsval
  ry_quoteMint :: jsval
  ry_transferFeeBps :: jsnum
  ry_pool :: reward_pool
  ry_allocation :: reward_allocation
  ry_payoutSignature :: jsval
  ry_status :: string
  ry_cycleAt :: string
  ry_idempotencyKey :: string

definition trimmed_or_null :: "jsval \<Rightarrow> jsval" where
  "trimmed_or_null v = jor (Str (trim (to_str (jor v (Str []))))) Null"

definition buildRewardCycle :: "(string \<Rightarrow> jsnum) \<Rightarrow> string \<Rightarrow> jsval \<Rightarrow> jsval list \<Rightarrow> reward_cycle res" where
  "buildRewardCycle other now i holders =
     (let config = validateRewardConfig (oget i ''transferFeeBps'') (oget i ''operatingFeeBps'');
          signature = trim (to_str (jor (oget i ''cycleSignature'') (Str []))); paid = oget i ''payoutSignature'' in
      if \<not> rc_valid config then throw ''Reward token configuration is invalid or unsupported.''
      else if signature = [] then throw ''A reward cycle signature is required.''
      else
        bindR (calculateRewardPool (oget i ''withheldAmount'') (oget i ''operatingFeeBps'')) (\<lambda>pool.
        bindR (allocateProRataRewards (Num (rp_distributableAmount pool)) holders Undef) (\<lambda>allocation.
        bindR (date_iso other (dflt (oget i ''cycleAt'') (Str now))) (\<lambda>at1.
          Inr \<lparr>ry_id = signature, ry_tokenMint = trimmed_or_null (oget i ''tokenMint''),
            ry_quoteMint = trimmed_or_null (oget i ''quoteMint''), ry_transferFeeBps = rc_transferFeeBps config,
            ry_pool = pool, ry_allocation = allocation,
            ry_payoutSignature = (if truthy paid then Str (to_str paid) else Null),
            ry_status = (if truthy paid then ''paid'' else ''ready-to-payout''), ry_cycleAt = at1,
            ry_idempotencyKey = ''reward-cycle-signature''\<rparr>))))"

section \<open>airdrop-policy.js\<close>

definition minimumSupplyPercent :: int where "minimumSupplyPercent = 3"
definition maximumSupplyPercent :: int where "maximumSupplyPercent = 50"
definition claimWindowDays :: int where "claimWindowDays = 90"

definition validateCommunityAllocation :: "jsval \<Rightarrow> bool \<times> jsnum" where
  "validateCommunityAllocation v =
     (let share = to_number v in
      (nfinite share \<and> nle (nint minimumSupplyPercent) share \<and> nle share (nint maximumSupplyPercent), share))"

text \<open>The policy less its constant fields, whose values depend on \<open>funded\<close> alone.\<close>

record airdrop_policy =
  ap_funded :: bool
  ap_allocationPercent :: jsnum
  ap_reservedTokens :: jsnum
  ap_signature :: jsval
  ap_vault :: jsval

definition buildCommunityAirdropPolicy :: "jsval \<Rightarrow> jsval \<Rightarrow> airdrop_policy res" where
  "buildCommunityAirdropPolicy allocationPercent supply =
     (let (valid, share) = validateCommunityAllocation allocationPercent; tokens = to_number supply in
      if \<not> valid then throw ''Community allocation must be between 3% and 50%.''
      else if \<not> is_safe_integer tokens \<or> to_int tokens < 1 then throw ''Airdrop supply must be a positive safe integer.''
      else Inr \<lparr>ap_funded = False, ap_allocationPercent = share,
        ap_reservedTokens = math_floor (ndiv (nmul tokens share) (nint 100)), ap_signature = Undef, ap_vault = Undef\<rparr>)"

definition reserve_value :: "airdrop_policy \<Rightarrow> jsval" where
  "reserve_value p = Obj
     (if ap_funded p
      then [(''funding'', Str ''atomic-pump-create-buy-transfer''), (''purchasePrice'', Null), (''custody'', Str ''reward-vault-pda''),
        (''creatorCanWithdraw'', Bool False), (''status'', Str ''funded''), (''signature'', ap_signature p), (''vault'', ap_vault p)]
      else [(''funding'', Str ''verified-post-launch-transfer-required''), (''purchasePrice'', Null),
        (''custody'', Str ''reward-vault-pda-after-funding''), (''creatorCanWithdraw'', Null), (''status'', Str ''funding-unverified'')])"

definition claim_value :: "airdrop_policy \<Rightarrow> jsval" where
  "claim_value p = Obj [(''mechanism'', Str ''merkle-proof-from-funded-community-vault''),
     (''windowDays'', Num (nint claimWindowDays)),
     (''status'', Str (if ap_funded p then ''requires-migration-snapshot-and-published-claims''
        else ''requires-funded-vault-and-migration-snapshot'')),
     (''doubleClaimProtection'', Str ''recipient-payment-pda''), (''expiredFunds'', Str ''app-owner-reward-authority-wallet'')]"

text \<open>The policy as the code returns it.\<close>

definition airdrop_value :: "airdrop_policy \<Rightarrow> jsval" where
  "airdrop_value p = Obj
     [(''model'', Str (if ap_funded p then ''community-allocation-funded-at-launch'' else ''community-allocation-pending-funding'')),
      (''reserve'', reserve_value p), (''allocationPercent'', Num (ap_allocationPercent p)),
      (''reservedTokens'', Num (ap_reservedTokens p)),
      (''eligibility'', Obj (str_fields [(''asset'', ''$FUNDED''), (''rule'', ''holder-balance-at-migration-snapshot''),
         (''distribution'', ''pro-rata'')])),
      (''snapshot'', Obj (str_fields [(''trigger'', ''launch-migration''), (''status'', ''pending-migration'')])),
      (''claim'', claim_value p),
      (''safeguards'', Obj [(''minimumHoldingPeriodDays'', Num (Fin 0)), (''maxWalletAllocationPercent'', Null),
         (''sybilScreening'', Str ''not-implemented''), (''publicReceipts'', Bool True)]),
      (''productionRequirements'', strings
         ((if ap_funded p then [] else [''same-launch-reserve-funding''])
          @ [''migration-time-holder-snapshot'', ''claim-proof-publisher'', ''verified-app-owner-reward-authority'']))]"

definition buildLaunchReservePlan :: "jsval \<Rightarrow> jsval \<Rightarrow> jsval \<Rightarrow> jsval res" where
  "buildLaunchReservePlan allocationPercent supply mintAddress =
     bindR (buildCommunityAirdropPolicy allocationPercent supply) (\<lambda>policy.
       Inr (Obj ([(''funding'', oget (reserve_value policy) ''funding''), (''purchasePrice'', oget (reserve_value policy) ''purchasePrice''),
           (''custody'', oget (reserve_value policy) ''custody''), (''creatorCanWithdraw'', oget (reserve_value policy) ''creatorCanWithdraw''),
           (''status'', oget (reserve_value policy) ''status'')]
         @ [(''mint'', dflt mintAddress Null), (''reservedTokens'', Num (ap_reservedTokens policy)), (''atomic'', Bool False),
            (''instructions'', Arr []), (''onChainStatus'', Str ''funding-not-in-launch-transaction'')])))"

definition fundedCommunityAirdropPolicy :: "jsval \<Rightarrow> jsval \<Rightarrow> jsval \<Rightarrow> airdrop_policy res" where
  "fundedCommunityAirdropPolicy allocationPercent supply receipt =
     bindR (buildCommunityAirdropPolicy allocationPercent supply) (\<lambda>policy.
       if \<not> truthy (oget receipt ''atomic'') \<or> \<not> truthy (oget receipt ''signature'') \<or> \<not> truthy (oget receipt ''vault'')
         \<or> \<not> jeq (oget receipt ''fundedTokens'') (Num (ap_reservedTokens policy))
         then throw ''A finalized, exact atomic community reserve receipt is required.''
       else Inr (policy\<lparr>ap_funded := True, ap_signature := oget receipt ''signature'', ap_vault := oget receipt ''vault''\<rparr>))"

definition calculateProRataClaim :: "jsval \<Rightarrow> jsval \<Rightarrow> jsval \<Rightarrow> jsnum" where
  "calculateProRataClaim walletBalance totalEligibleBalance reservedTokens =
     (let wallet = to_number walletBalance; total1 = to_number totalEligibleBalance; reserve = to_number reservedTokens in
      if \<not> list_all nfinite [wallet, total1, reserve] \<or> nless wallet (Fin 0) \<or> nle total1 (Fin 0) \<or> nless reserve (Fin 0)
        then Fin 0
      else math_floor (ndiv (nmul reserve wallet) total1))"

section \<open>sol-claim-policy.js and x-payout-policy.js\<close>

definition normalizeXHandle :: "jsval \<Rightarrow> string" where
  "normalizeXHandle v =
     (let handle = trim (to_str (jor v (Str []))) in
      if handle = [] then [] else if hd handle = CHR ''@'' then handle else CHR ''@'' # handle)"

record claim_recipient =
  cr_valid :: bool
  cr_enabled :: bool
  cr_handle :: string

definition validateSolClaimRecipient :: "jsval \<Rightarrow> jsval \<Rightarrow> claim_recipient" where
  "validateSolClaimRecipient handle share =
     (let normalized = normalizeXHandle handle; enabled = nless (Fin 0) (to_number (dflt share (Num (Fin 0)))) in
      \<lparr>cr_valid = \<not> enabled \<or> x_handle normalized, cr_enabled = enabled, cr_handle = normalized\<rparr>)"

definition text_or_null :: "jsval \<Rightarrow> jsval" where
  "text_or_null v = (if truthy v then Str (to_str v) else Null)"

definition buildSolClaimPolicy :: "jsval \<Rightarrow> jsval \<Rightarrow> jsval \<Rightarrow> jsval res" where
  "buildSolClaimPolicy handle share feeRouterAddress =
     (let recipient = validateSolClaimRecipient handle share in
      if \<not> cr_valid recipient then throw ''A valid X handle is required for SOL claims.''
      else Inr (Obj [(''mode'', Str ''x-handle-sol-claim''), (''recipient'', jor (Str (cr_handle recipient)) Null),
        (''sharePercentOfCreatorFees'', Num (num_or_0 (dflt share (Num (Fin 0))))),
        (''source'', Str ''funded-app-pump-fee-router-claim''),
        (''payoutRail'', Obj (str_fields [(''type'', ''solana''), (''asset'', ''SOL''),
           (''status'', ''claimable-after-x-identity-verification'')])),
        (''claimRequirements'', strings [''x-handle-attestation'', ''wallet-signature'', ''one-time-claim-token'']),
        (''feeRouterAddress'', text_or_null feeRouterAddress),
        (''safety'', Obj [(''noPrivateKeysInBrowser'', Bool True), (''idempotencyKey'', Str ''claim-signature-and-obligation-id'')])]))"

record claim_obligation =
  co_id :: string
  co_claimSignature :: string
  co_recipient :: string
  co_amountSol :: jsnum

text \<open>The obligation of either rail; \<open>suffix\<close> is the tail of its identifier.\<close>

definition claim_obligation_of :: "string \<Rightarrow> jsval \<Rightarrow> jsval \<Rightarrow> jsval \<Rightarrow> jsval \<Rightarrow> claim_obligation res" where
  "claim_obligation_of suffix claimSignature amountSol recipient obligationId =
     (let amount1 = to_number amountSol; r = validateSolClaimRecipient recipient (Num (Fin 1)) in
      if trim (to_str (jor claimSignature (Str []))) = [] then throw ''Claim signature is required.''
      else if \<not> nfinite amount1 \<or> nle amount1 (Fin 0) then throw ''A positive SOL amount is required.''
      else if \<not> cr_valid r then throw ''A valid X recipient is required.''
      else Inr \<lparr>co_id = to_str (jor obligationId (Str (to_str claimSignature @ suffix))), co_claimSignature = to_str claimSignature,
        co_recipient = cr_handle r, co_amountSol = to_fixed 9 amount1\<rparr>)"

definition buildSolClaimObligation :: "string \<Rightarrow> jsval \<Rightarrow> jsval \<Rightarrow> jsval \<Rightarrow> jsval \<Rightarrow> jsval res" where
  "buildSolClaimObligation now claimSignature amountSol recipient obligationId =
     bindR (claim_obligation_of '':sol-claim'' claimSignature amountSol recipient obligationId) (\<lambda>ob.
       Inr (Obj (str_fields [(''id'', co_id ob), (''claimSignature'', co_claimSignature ob), (''recipient'', co_recipient ob),
           (''asset'', ''SOL'')] @ [(''amountSol'', Num (co_amountSol ob))]
         @ str_fields [(''status'', ''claimable-after-wallet-verification''), (''createdAt'', now)])))"

definition buildXPayoutObligation :: "jsval \<Rightarrow> jsval \<Rightarrow> jsval \<Rightarrow> jsval \<Rightarrow> jsval res" where
  "buildXPayoutObligation claimSignature amountSol recipient obligationId =
     bindR (claim_obligation_of '':x-payout'' claimSignature amountSol recipient obligationId) (\<lambda>ob.
       Inr (Obj (str_fields [(''id'', co_id ob), (''claimSignature'', co_claimSignature ob), (''recipient'', co_recipient ob)]
         @ [(''amountSol'', Num (co_amountSol ob))]
         @ str_fields [(''primaryStatus'', ''pending-x-money''),
             (''fallbackStatus'', ''claimable-after-x-money-failure-or-ineligibility'')])))"

definition buildXPayoutPolicy :: "jsval \<Rightarrow> jsval \<Rightarrow> jsval \<Rightarrow> jsval res" where
  "buildXPayoutPolicy handle share feeRouterAddress =
     (if \<not> cr_valid (validateSolClaimRecipient handle share) then throw ''A valid X handle is required for X payouts.''
      else Inr (Obj [(''mode'', Str ''x-handle-payout''), (''handle'', jor (Str (normalizeXHandle handle)) Null),
        (''percent'', Num (num_or_0 (dflt share (Num (Fin 0))))), (''feeRouterAddress'', text_or_null feeRouterAddress),
        (''primaryRail'', Obj (str_fields [(''type'', ''x-money''), (''status'', ''requires-x-oauth-attestation'')])),
        (''fallbackRail'', Obj (str_fields [(''type'', ''sol-claim''), (''status'', ''requires-wallet-signature'')]))]))"

lemma claim_obligation_handle: "claim_obligation_of suffix c a r i = Inr ob \<Longrightarrow> x_handle (co_recipient ob)"
  by (auto simp: claim_obligation_of_def validateSolClaimRecipient_def dflt_def Let_def split: if_splits)

section \<open>anti-sniper-policy.js\<close>

record sniper_policy =
  sp_earlyWindowSeconds :: jsnum
  sp_sameFunderClusterThreshold :: nat
  sp_maximumCreatorEarlyBuyPercent :: jsnum

definition ANTI_SNIPER_POLICY :: sniper_policy where
  "ANTI_SNIPER_POLICY = \<lparr>sp_earlyWindowSeconds = nint 60, sp_sameFunderClusterThreshold = 3,
     sp_maximumCreatorEarlyBuyPercent = Fin (5 / 2)\<rparr>"

record launch_activity =
  la_status :: string
  la_flags :: "string list"
  la_earlyTradeCount :: nat
  la_creatorEarlyBuyPercent :: jsnum
  la_fundingClusters :: "(string \<times> int) list"
  la_burstSlots :: "(string \<times> int) list"
  la_rapidRoundTrips :: nat
  la_policy :: sniper_policy

definition trade_time :: "jsval \<Rightarrow> jsnum" where
  "trade_time t = to_number (nullish (oget t ''timestamp'') (nullish (oget t ''blockTime'') (Num (Fin 0))))"

text \<open>Counts of the keys that are not empty, in the order of their first occurrence.\<close>

definition tally :: "string list \<Rightarrow> (string, int) omap" where
  "tally keys = foldl (\<lambda>m k. if k = [] then m else oadd k 1 m) [] keys"

definition at_least :: "nat \<Rightarrow> (string, int) omap \<Rightarrow> (string \<times> int) list" where
  "at_least n m = filter (\<lambda>(k, c). int n \<le> c) m"

definition analyzeLaunchActivity :: "jsval list \<Rightarrow> jsval \<Rightarrow> jsval \<Rightarrow> sniper_policy \<Rightarrow> launch_activity" where
  "analyzeLaunchActivity trades creatorWallet launchTimestamp policy =
     (let creator = trim (to_str (jor creatorWallet (Str [])));
          launch = to_number launchTimestamp;
          early = filter (\<lambda>t. nle launch (trade_time t) \<and> nle (trade_time t) (nadd launch (sp_earlyWindowSeconds policy))) trades;
          clusters = at_least (sp_sameFunderClusterThreshold policy) (tally (map (\<lambda>t.
            trim (to_str (jor (oget t ''funder'') (jor (oget t ''sourceWallet'') (jor (oget t ''wallet'') (Str [])))))) early));
          bought = foldl (\<lambda>sum1 t. nadd sum1 (to_number (jor (oget t ''buyPercentSupply'') (Num (Fin 0))))) (Fin 0)
            (filter (\<lambda>t. trim (to_str (jor (oget t ''wallet'') (Str []))) = creator) early);
          bursts = at_least (sp_sameFunderClusterThreshold policy)
            (tally (map (\<lambda>t. to_str (nullish (oget t ''slot'') (Str []))) early));
          trips = length (filter (\<lambda>t. oget t ''roundTrip'' = Bool True
            \<or> nle (to_number (jor (oget t ''secondsToSell'') (Num PosInf))) (nint 30)) trades) in
      let flags = (if nless (sp_maximumCreatorEarlyBuyPercent policy) bought then [''creator-early-buy''] else [])
         @ (if clusters \<noteq> [] then [''funding-cluster''] else []) @ (if bursts \<noteq> [] then [''same-slot-burst''] else [])
         @ (if 0 < trips then [''rapid-round-trip''] else []) in
      \<lparr>la_status = (if flags = [] then ''clear'' else ''review''), la_flags = flags,
       la_earlyTradeCount = length early, la_creatorEarlyBuyPercent = bought, la_fundingClusters = clusters,
       la_burstSlots = bursts, la_rapidRoundTrips = trips, la_policy = policy\<rparr>)"

lemma tally_count: "k \<noteq> [] \<Longrightarrow> oget0 (tally keys) k = int (length (filter (\<lambda>x. x = k) keys))"
proof -
  have "k \<noteq> [] \<Longrightarrow> oget0 (foldl (\<lambda>m k. if k = [] then m else oadd k 1 m) m keys) k
      = oget0 m k + int (length (filter (\<lambda>x. x = k) keys))" for m
    by (induction keys arbitrary: m) (auto simp: oget0_oadd)
  then show "k \<noteq> [] \<Longrightarrow> ?thesis" by (simp add: tally_def oget0_def)
qed

section \<open>creator-reward-model.js\<close>

definition reward_units :: "jsval \<Rightarrow> int res" where
  "reward_units v = (if canon_dec (to_str v) then to_bigint v else throw ''Invalid reward amount'')"

definition verifiedV3CreatorLaunch :: "jsval \<Rightarrow> jsval \<Rightarrow> jsval \<Rightarrow> bool" where
  "verifiedV3CreatorLaunch launch wallet cluster \<longleftrightarrow>
     (let l = oget launch; route = oget launch ''pumpFeeRoute'' in
      truthy wallet \<and> l ''onchainVerified'' = Bool True \<and> jeq (l ''cluster'') cluster \<and> jeq (l ''creatorWallet'') wallet
      \<and> truthy (l ''mint'') \<and> oget route ''scope'' = Str ''per-mint-v3'' \<and> jeq (oget route ''router'') (l ''creator'')
      \<and> truthy (oget route ''programId''))"

record reward_totals =
  rt_unclaimed :: int
  rt_paid :: int
  rt_pendingSettlements :: nat

definition add_collection :: "jsval \<Rightarrow> reward_totals \<Rightarrow> jsval \<Rightarrow> reward_totals res" where
  "add_collection launch totals collection =
     bindR (jget collection ''settlement'') (\<lambda>settlement.
     if settlement \<noteq> Str ''finalized'' then Inr (totals\<lparr>rt_pendingSettlements := rt_pendingSettlements totals + 1\<rparr>)
     else
       let plan = oget collection ''allocationPlan'' in
       if oget plan ''status'' \<noteq> Str ''allocated-not-funded'' \<or> \<not> jeq (oget plan ''mint'') (oget launch ''mint'')
         \<or> \<not> jeq (oget plan ''sourceCollectionSignature'') (oget collection ''signature'')
         \<or> \<not> jeq (oget plan ''programId'') (oget (oget launch ''pumpFeeRoute'') ''programId'')
         then throw ''V3 creator allocation verification incomplete''
       else
         bindR (reward_units (oget (oget plan ''creatorDirected'') ''walletLamports'')) (\<lambda>allocated.
           Inr (if oget collection ''creatorWalletPayoutVerified'' = Bool True
                then totals\<lparr>rt_paid := rt_paid totals + allocated\<rparr>
                else totals\<lparr>rt_unclaimed := rt_unclaimed totals + allocated\<rparr>)))"

record reward_row =
  rw_mint :: jsval
  rw_name :: jsval
  rw_fullName :: jsval
  rw_overview :: jsval
  rw_totals :: reward_totals
  rw_ready :: bool
  rw_automatic :: bool
  rw_status :: string

definition reward_status :: "reward_totals \<Rightarrow> bool \<Rightarrow> bool \<Rightarrow> string" where
  "reward_status t ready automatic =
     (if ready then ''Ready for V3 payout''
      else if 0 < rt_unclaimed t then (if automatic then ''Automatic payout pending'' else ''Payout unavailable'')
      else if 0 < rt_pendingSettlements t then ''Settlement pending''
      else if 0 < rt_paid t then ''Recorded paid'' else ''No creator allocation'')"

definition short_mint :: "jsval \<Rightarrow> jsval" where
  "short_mint v = (case v of Str s \<Rightarrow> Str (take 8 s) | _ \<Rightarrow> Undef)"

definition reward_evidence_ok :: "jsval \<Rightarrow> jsval \<Rightarrow> jsval \<Rightarrow> jsval \<Rightarrow> bool" where
  "reward_evidence_ok launch activity wallet cluster \<longleftrightarrow>
     (let overview = oget activity ''overview'' in
      verifiedV3CreatorLaunch launch wallet cluster \<and> jeq (oget activity ''mint'') (oget launch ''mint'')
      \<and> jeq (oget activity ''cluster'') cluster \<and> truthy (oget overview ''available'')
      \<and> oget overview ''scope'' = Str ''per-mint-v3'' \<and> jeq (oget overview ''creatorWallet'') wallet)"

definition creatorRewardRow :: "jsval \<Rightarrow> jsval \<Rightarrow> jsval \<Rightarrow> jsval \<Rightarrow> reward_row res" where
  "creatorRewardRow launch activity wallet cluster =
     (let overview = oget activity ''overview''; l = oget launch in
      case oget overview ''collections'' of
        Arr collections \<Rightarrow>
          if \<not> reward_evidence_ok launch activity wallet cluster then throw ''Creator reward verification unavailable''
          else
            bindR (foldR (add_collection launch) \<lparr>rt_unclaimed = 0, rt_paid = 0, rt_pendingSettlements = 0\<rparr> collections) (\<lambda>t.
            let automatic = (oget overview ''automaticDisbursementEnabled'' = Bool True);
                ready = (0 < rt_unclaimed t \<and> \<not> automatic \<and> oget (oget overview ''gates'') ''creatorWalletPayout'' = Bool True) in
            Inr \<lparr>rw_mint = l ''mint'', rw_name = jor (l ''symbol'') (jor (l ''name'') (short_mint (l ''mint''))),
              rw_fullName = jor (l ''name'') (jor (l ''symbol'') (l ''mint'')), rw_overview = overview, rw_totals = t,
              rw_ready = ready, rw_automatic = automatic, rw_status = reward_status t ready automatic\<rparr>)
      | _ \<Rightarrow> throw ''Creator reward verification unavailable'')"

definition reward_shown :: "string \<Rightarrow> string \<Rightarrow> reward_row \<Rightarrow> bool" where
  "reward_shown filter1 query row \<longleftrightarrow>
     (let search = map to_lower (trim query);
          label = to_str (rw_name row) @ '' '' @ to_str (rw_fullName row) @ '' '' @ to_str (rw_mint row) in
      (filter1 = ''all'' \<or> 0 < rt_unclaimed (rw_totals row) \<or> 0 < rt_pendingSettlements (rw_totals row))
      \<and> (search = [] \<or> contains_text (map to_lower label) search))"

text \<open>\<open>locale_le a b\<close> is \<open>a.localeCompare(b) <= 0\<close>.\<close>

definition reward_before :: "(string \<Rightarrow> string \<Rightarrow> bool) \<Rightarrow> reward_row \<Rightarrow> reward_row \<Rightarrow> bool" where
  "reward_before locale_le a b \<longleftrightarrow>
     (if rw_ready a \<noteq> rw_ready b then rw_ready a
      else if rt_unclaimed (rw_totals a) = rt_unclaimed (rw_totals b) then locale_le (to_str (rw_name a)) (to_str (rw_name b))
      else rt_unclaimed (rw_totals a) > rt_unclaimed (rw_totals b))"

definition filterCreatorRewards :: "(string \<Rightarrow> string \<Rightarrow> bool) \<Rightarrow> reward_row list \<Rightarrow> string \<Rightarrow> string \<Rightarrow> reward_row list" where
  "filterCreatorRewards locale_le rows filter1 query = sort_by (reward_before locale_le) (filter (reward_shown filter1 query) rows)"

end
