(* ===== verification/DevnetMinimums.thy ===== *)
theory DevnetMinimums
  imports JsConv
begin

text \<open>
  The smaller minimums of a disposable Devnet deployment (\<open>server/devnet-qa-minimums.mjs\<close>).  The
  environment is a list of variables; one that is not set is \<open>undefined\<close>.
\<close>

type_synonym env = "(string \<times> string) list"

definition env_var :: "env \<Rightarrow> string \<Rightarrow> string" where
  "env_var env k = (case map_of env k of None \<Rightarrow> [] | Some s \<Rightarrow> s)"

definition STANDARD_BUYBACK_TRIGGER_LAMPORTS :: int where "STANDARD_BUYBACK_TRIGGER_LAMPORTS = 5000000000"
definition QA_HOLDER_POLICY :: string where "QA_HOLDER_POLICY = ''usd-qa-hourly-v1''"
definition STANDARD_FEE_COLLECTION_MINIMUM_LAMPORTS :: int where "STANDARD_FEE_COLLECTION_MINIMUM_LAMPORTS = 10000000"

text \<open>\<open>env[k] === v\<close>, where \<open>cluster\<close> is the value of a variable or \<open>None\<close> for \<open>undefined\<close>.\<close>

definition env_is :: "env \<Rightarrow> string \<Rightarrow> string \<Rightarrow> bool" where
  "env_is env k v \<longleftrightarrow> map_of env k = Some v"

definition configured_mints :: "env \<Rightarrow> string \<Rightarrow> string \<Rightarrow> string list" where
  "configured_mints env plural singular =
     filter (\<lambda>v. v \<noteq> []) (map trim (env_var env singular # split_on (CHR '','') (env_var env plural)))"

definition qa_mint_selected :: "string \<Rightarrow> string option \<Rightarrow> env \<Rightarrow> string \<Rightarrow> string \<Rightarrow> string \<Rightarrow> bool res" where
  "qa_mint_selected mint cluster env plural singular enabled =
     (let configured = configured_mints env plural singular in
      if \<not> env_is env enabled ''true'' then Inr False
      else if configured = [] then Inr False
      else if cluster \<noteq> Some ''devnet'' then throw ''Devnet QA mint selection cannot be enabled outside Devnet.''
      else if 8 < length configured \<or> \<not> list_all is_address configured
        then throw ''Devnet QA mint allowlist must contain at most eight Solana addresses.''
      else Inr (mint \<in> set configured))"

definition qaMintSelected :: "string \<Rightarrow> string option \<Rightarrow> env \<Rightarrow> bool res" where
  "qaMintSelected mint cluster env =
     qa_mint_selected mint cluster env ''FUNDED_DEVNET_QA_HOLDER_MINTS'' ''FUNDED_DEVNET_QA_HOLDER_MINT''
       ''FUNDED_DEVNET_QA_MINIMUMS_ENABLED''"

definition qaShortHolderMintSelected :: "string \<Rightarrow> string option \<Rightarrow> env \<Rightarrow> bool res" where
  "qaShortHolderMintSelected mint cluster env =
     qa_mint_selected mint cluster env ''FUNDED_QA_HOLDER_MINTS'' ''FUNDED_QA_HOLDER_MINT'' ''FUNDED_QA_SHORT_REWARD_PERIODS''"

definition feeCollectionMinimumLamports :: "string \<Rightarrow> string option \<Rightarrow> env \<Rightarrow> int res" where
  "feeCollectionMinimumLamports mint cluster env =
     bindR (qaMintSelected mint cluster env) (\<lambda>selected.
     if \<not> selected then Inr STANDARD_FEE_COLLECTION_MINIMUM_LAMPORTS
     else
       let raw = env_var env ''FUNDED_DEVNET_QA_FEE_COLLECTION_MIN_LAMPORTS''; amount = parse_dec raw in
       if \<not> pos_dec raw then throw ''A positive Devnet QA fee collection minimum is required.''
       else if amount < 100000 \<or> STANDARD_FEE_COLLECTION_MINIMUM_LAMPORTS \<le> amount
         then throw ''Devnet QA fee collection minimum must be between 0.0001 and 0.01 SOL.''
       else Inr amount)"

text \<open>\<open>/^(?:0\.\d{1,n}|[1-9]\d?(?:\.\d{1,n})?)$/\<close>.\<close>

definition small_decimal :: "nat \<Rightarrow> string \<Rightarrow> bool" where
  "small_decimal n s \<longleftrightarrow>
     (case split_on (CHR ''.'') s of
        [whole] \<Rightarrow> pos_dec whole \<and> length whole \<le> 2
      | [whole, fraction] \<Rightarrow> (whole = ''0'' \<or> pos_dec whole \<and> length whole \<le> 2)
          \<and> all_digits fraction \<and> length fraction \<le> n
      | _ \<Rightarrow> False)"

definition qa_integer :: "env \<Rightarrow> string \<Rightarrow> int \<Rightarrow> int \<Rightarrow> int res" where
  "qa_integer env key lower upper =
     (let raw = env_var env key; v = str_to_num raw in
      if \<not> pos_dec raw then throw (key @ '' must be a positive integer.'')
      else if \<not> is_safe_integer v \<or> to_int v < lower \<or> upper < to_int v
        then throw (key @ '' is outside the bounded Devnet QA range.'')
      else Inr (to_int v))"

record qa_minimums =
  qm_minimumHolderUsd :: jsnum
  qm_minimumPoolUsd :: jsnum
  qm_minimumFundingLamports :: int

text \<open>An amount in units of \<open>1 / scale\<close>: \<open>Math.round(Number(raw) * scale)\<close>, within \<open>1 .. upper\<close>.\<close>

definition qa_scaled :: "env \<Rightarrow> string \<Rightarrow> nat \<Rightarrow> string \<Rightarrow> int \<Rightarrow> int \<Rightarrow> jsnum res" where
  "qa_scaled env key places wanted scale upper =
     (let raw = env_var env key; n = math_round (nmul (str_to_num raw) (nint scale)) in
      if \<not> small_decimal places raw then throw (key @ '' must use at most '' @ wanted @ '' decimal places.'')
      else if nless n (nint 1) \<or> nless (nint upper) n then throw (key @ '' is outside the bounded Devnet QA range.'')
      else Inr n)"

definition qaHolderMinimums :: "string \<Rightarrow> string option \<Rightarrow> env \<Rightarrow> qa_minimums option res" where
  "qaHolderMinimums mint cluster env =
     bindR (qaMintSelected mint cluster env) (\<lambda>selected.
     if \<not> selected then Inr None
     else
       bindR (qa_scaled env ''FUNDED_DEVNET_QA_HOLDER_MIN_USD'' 2 ''two'' 100 1999) (\<lambda>holderCents.
       bindR (qa_scaled env ''FUNDED_DEVNET_QA_HOLDER_POOL_MIN_USD'' 3 ''three'' 1000 19999) (\<lambda>poolMillis.
       bindR (qa_integer env ''FUNDED_DEVNET_QA_HOLDER_MIN_LAMPORTS'' 10000 9999999) (\<lambda>lamports.
         Inr (Some \<lparr>qm_minimumHolderUsd = ndiv holderCents (nint 100), qm_minimumPoolUsd = ndiv poolMillis (nint 1000),
           qm_minimumFundingLamports = lamports\<rparr>)))))"

definition buybackTriggerLamports :: "string option \<Rightarrow> env \<Rightarrow> int res" where
  "buybackTriggerLamports cluster env =
     (let raw = env_var env ''FUNDED_DEVNET_QA_BUYBACK_TRIGGER_LAMPORTS''; amount = parse_dec raw in
      if \<not> env_is env ''FUNDED_DEVNET_QA_MINIMUMS_ENABLED'' ''true'' then Inr STANDARD_BUYBACK_TRIGGER_LAMPORTS
      else if cluster \<noteq> Some ''devnet'' then throw ''Devnet QA minimums cannot be enabled outside Devnet.''
      else if raw = [] then Inr STANDARD_BUYBACK_TRIGGER_LAMPORTS
      else if \<not> pos_dec raw then throw ''A positive Devnet QA buyback trigger in lamports is required.''
      else if amount < 10000 \<or> 100000000 < amount
        then throw ''Devnet QA buyback trigger must be between 0.00001 and 0.1 SOL.''
      else Inr amount)"

text \<open>Outside Devnet no smaller minimum is ever in force.\<close>

lemma qa_only_devnet: "qa_mint_selected mint cluster env p s e = Inr True \<Longrightarrow> cluster = Some ''devnet''"
  by (auto simp: qa_mint_selected_def Let_def split: if_splits)

lemma trigger_standard: "cluster \<noteq> Some ''devnet'' \<Longrightarrow> buybackTriggerLamports cluster env = Inr n \<Longrightarrow> n = STANDARD_BUYBACK_TRIGGER_LAMPORTS"
  by (auto simp: buybackTriggerLamports_def Let_def split: if_splits)

lemma collection_minimum_bounds:
  "feeCollectionMinimumLamports mint cluster env = Inr n \<Longrightarrow>
     100000 \<le> n \<and> n \<le> STANDARD_FEE_COLLECTION_MINIMUM_LAMPORTS
     \<and> (cluster \<noteq> Some ''devnet'' \<longrightarrow> n = STANDARD_FEE_COLLECTION_MINIMUM_LAMPORTS)"
  by (auto simp: feeCollectionMinimumLamports_def qaMintSelected_def bindR_Inr_iff Let_def STANDARD_FEE_COLLECTION_MINIMUM_LAMPORTS_def
      dest: qa_only_devnet split: if_splits)

end
