(* ===== verification/RewardScheduler.thy ===== *)
theory RewardScheduler
  imports Holders Merkle DevnetMinimums StepSystem
begin

text \<open>
  The scheduler of automatic rewards (\<open>server/reward-scheduler.mjs\<close>): it registers programs, records
  funded pools, prepares the cycle of a closed period (balances, pro-rata split, Merkle manifest)
  and pays its leaves.  A \<open>store.transaction\<close> is a function on the state; \<open>Date.now()\<close> and the answers
  of the quote reader and of the chain are arguments.  Program addresses, SHA-256, \<open>localeCompare\<close>,
  \<open>JSON.stringify\<close> and \<open>Date.parse\<close> of text that is no ISO date are parameters.  The selection of
  snapshots and the history of a mint are those of \<open>server/holder-history-indexer.mjs\<close>.
\<close>

section \<open>Parameters\<close>

record sched_lib =
  sl_lib :: lib
  sl_pools :: "string \<Rightarrow> string list option"
  sl_locale :: "string \<Rightarrow> string \<Rightarrow> int"
  sl_date :: "string \<Rightarrow> jsnum"
  sl_json :: "jsval \<Rightarrow> string"
  sl_env :: env

text \<open>\<open>sl_pools\<close> gives the pool and bonding-curve addresses of a mint that is an address.\<close>

definition sha_hex :: "sched_lib \<Rightarrow> string \<Rightarrow> string" where
  "sha_hex E text1 = hex_of (sha256 (sl_lib E) (utf8 text1))"

section \<open>The state\<close>

record program_config =
  pg_mint :: string
  pg_enabled :: bool
  pg_asset :: string
  pg_kind :: string
  pg_periodSeconds :: jsnum
  pg_sampleIntervalSeconds :: jsnum
  pg_payoutDelaySeconds :: jsnum
  pg_activatedAt :: jsval
  pg_firstPeriodStart :: jsval
  pg_eligibilityPolicy :: jsval
  pg_qaMinimums :: jsval
  pg_excludedWallets :: "string list"
  pg_updatedAt :: string

record pool_row =
  pl_id :: string
  pl_mint :: string
  pl_kind :: string
  pl_asset :: string
  pl_amount :: string
  pl_fundedAt :: jsnum
  pl_fundingSignature :: string
  pl_balanceDeltaVerified :: bool
  pl_status :: string
  pl_scheduleId :: string

record reward_payment =
  py_status :: string
  py_amount :: string
  py_index :: int
  py_detail :: jsval

record schedule_row =
  sd_id :: string
  sd_mint :: string
  sd_asset :: string
  sd_kind :: string
  sd_periodStart :: jsnum
  sd_cutoffAt :: jsnum
  sd_payoutAt :: jsnum
  sd_status :: string
  sd_reason :: jsval
  sd_manifest :: "reward_manifest option"
  sd_payments :: "(string, reward_payment) omap"
  sd_cycle :: jsval
  sd_cycleSignature :: jsval
  sd_sourceId :: string
  sd_eligibilityMint :: string
  sd_fundingSignature :: string
  sd_balanceDeltaVerified :: bool
  sd_remainderAmount :: string
  sd_snapshotSlots :: "jsval list"
  sd_snapshotAt :: jsval
  sd_poolIds :: "string list"
  sd_eligibility :: jsval
  sd_lastCheckedAt :: string
  sd_createdAt :: string
  sd_paidAt :: string

record snapshot_row =
  sr_slot :: jsval
  sr_at :: jsnum
  sr_finalized :: bool
  sr_accounts :: "holder_account list"

record reward_state =
  rs_programs :: "(string, program_config) omap"
  rs_schedules :: "(string, schedule_row) omap"
  rs_pools :: "(string, pool_row) omap"
  rs_snapshots :: "(string, snapshot_row list) omap"
  rs_serviceStatus :: jsval

definition empty_rewards :: reward_state where
  "empty_rewards = \<lparr>rs_programs = [], rs_schedules = [], rs_pools = [], rs_snapshots = [], rs_serviceStatus = Undef\<rparr>"

definition put_schedule :: "schedule_row \<Rightarrow> reward_state \<Rightarrow> reward_state" where
  "put_schedule row st = st\<lparr>rs_schedules := oset (sd_id row) row (rs_schedules st)\<rparr>"

section \<open>Minimums\<close>

definition is_qa :: "program_config \<Rightarrow> bool" where
  "is_qa config \<longleftrightarrow> pg_eligibilityPolicy config = Str QA_HOLDER_POLICY"

definition pricedHolderPolicy :: "program_config \<Rightarrow> bool" where
  "pricedHolderPolicy config \<longleftrightarrow> pg_eligibilityPolicy config \<in> {Str ''usd-20-hourly-v1'', Str QA_HOLDER_POLICY}"

definition holderUsdMinimum :: "program_config \<Rightarrow> jsval res" where
  "holderUsdMinimum config =
     (if is_qa config then jget (pg_qaMinimums config) ''minimumHolderUsd''
      else Inr (Num (nint (ar_minimumHolderUsd AUTOMATIC_REWARDS))))"

definition poolUsdMinimum :: "program_config \<Rightarrow> jsval res" where
  "poolUsdMinimum config =
     (if is_qa config then jget (pg_qaMinimums config) ''minimumPoolUsd''
      else Inr (Num (nint (ar_minimumPoolUsd AUTOMATIC_REWARDS))))"

definition excludedHolderWallets :: "sched_lib \<Rightarrow> string \<Rightarrow> string list \<Rightarrow> string list" where
  "excludedHolderWallets E mint configured =
     sort_by (\<lambda>a b. \<not> str_less b a)
       (dedupe_list (configured @ (case sl_pools E mint of None \<Rightarrow> [] | Some ps \<Rightarrow> ps)))"

definition requireUnits :: "string \<Rightarrow> string \<Rightarrow> string res" where
  "requireUnits v label =
     (if all_digits v \<and> 0 < parse_dec v then Inr v else throw (label @ '' must be a positive integer string.''))"

text \<open>\<open>/^(\d+)(?:\.(\d+))?(?:e([+-]?\d+))?$/i\<close>: whole digits, fraction digits and exponent.\<close>

definition decimal_parts :: "string \<Rightarrow> (string \<times> string \<times> int) option" where
  "decimal_parts s =
     (let whole = takeWhile is_digit s; r1 = dropWhile is_digit s;
          dot = (r1 \<noteq> [] \<and> hd r1 = CHR ''.'');
          fraction = (if dot then takeWhile is_digit (tl r1) else []);
          r2 = (if dot then dropWhile is_digit (tl r1) else r1) in
      if whole = [] \<or> (dot \<and> fraction = []) then None
      else if r2 = [] then Some (whole, fraction, 0)
      else if hd r2 = CHR ''e'' \<or> hd r2 = CHR ''E'' then map_option (\<lambda>e. (whole, fraction, e)) (parse_exp (tl r2))
      else None)"

definition positiveDecimalRatio :: "jsval \<Rightarrow> string \<Rightarrow> (int \<times> int) res" where
  "positiveDecimalRatio v label =
     (let numeric = to_number v in
      if \<not> nfinite numeric \<or> nle numeric (Fin 0) then throw (label @ '' is unavailable.'')
      else case decimal_parts (num_to_str numeric) of
        None \<Rightarrow> throw (label @ '' is invalid.'')
      | Some (whole, fraction, e) \<Rightarrow>
          let exponent = e - int (length fraction); digits = parse_dec (whole @ fraction) in
          if 100 < \<bar>exponent\<bar> then throw (label @ '' is outside the supported range.'')
          else if 0 \<le> exponent then Inr (digits * 10 ^ nat exponent, 1)
          else Inr (digits, 10 ^ nat (- exponent)))"

text \<open>A division of \<open>BigInt\<close> values by zero is an error of the language.\<close>

definition ceilDiv :: "int \<Rightarrow> int \<Rightarrow> int res" where
  "ceilDiv numerator denominator =
     (if denominator = 0 then Inl RangeErr else Inr ((numerator + denominator - 1) div denominator))"

definition quote_fresh :: "sched_lib \<Rightarrow> jsnum \<Rightarrow> jsval \<Rightarrow> bool" where
  "quote_fresh E nowMs quote \<longleftrightarrow>
     (let price = to_number (oget quote ''tokenPriceUsd''); decimals = to_number (oget quote ''decimals'');
          observed = date_parse (sl_date E) (oget quote ''observedAt'') in
      nfinite price \<and> nless (Fin 0) price \<and> is_integer decimals \<and> 0 \<le> to_int decimals \<and> to_int decimals \<le> 18
      \<and> nfinite observed \<and> \<not> nless (nint 300000) (math_abs (nsub nowMs observed)))"

definition holderUsdEligibility ::
  "sched_lib \<Rightarrow> jsnum \<Rightarrow> jsval \<Rightarrow> holder_account list \<Rightarrow> string list \<Rightarrow> jsval \<Rightarrow> (string list \<times> int) res" where
  "holderUsdEligibility E nowMs quote accounts excluded minimumUsd =
     (if \<not> quote_fresh E nowMs quote then throw ''A fresh verified token price is required for holder eligibility.''
      else
        bindR (positiveDecimalRatio (Num (to_number (oget quote ''tokenPriceUsd''))) ''Token price'') (\<lambda>(priceNum, priceDen).
        bindR (positiveDecimalRatio minimumUsd ''Holder USD minimum'') (\<lambda>(usdNum, usdDen).
        bindR (ceilDiv (usdNum * 10 ^ nat (to_int (to_number (oget quote ''decimals''))) * priceDen) (usdDen * priceNum)) (\<lambda>rawMinimum.
        if rawMinimum \<le> 0 \<or> 2 ^ 64 - 1 < rawMinimum
          then throw ''Token price is too small to calculate the holder minimum safely.''
        else
          bindR (mapR (\<lambda>row. if ha_wallet row \<in> set excluded then Inr []
              else bindR (to_bigint (ha_balance row)) (\<lambda>b. Inr (if rawMinimum \<le> b then [ha_wallet row] else []))) accounts) (\<lambda>rows.
          let eligible = dedupe_list (concat rows) in
          if ar_maxEligibleHolders AUTOMATIC_REWARDS < int (length eligible)
            then throw ''Eligible holder count exceeds the configured distribution limit.''
          else Inr (eligible, rawMinimum))))))"

definition cluster_of :: "sched_lib \<Rightarrow> string option" where
  "cluster_of E = map_of (sl_env E) ''SOLANA_CLUSTER''"

definition devnetQaShortWindow :: "sched_lib \<Rightarrow> program_config \<Rightarrow> bool res" where
  "devnetQaShortWindow E config =
     bindR (qaShortHolderMintSelected (pg_mint config) (cluster_of E) (sl_env E)) (\<lambda>selected.
       Inr (selected \<and> pg_periodSeconds config = nint 300))"

definition holderFundingMinimumLamports :: "sched_lib \<Rightarrow> program_config \<Rightarrow> int res" where
  "holderFundingMinimumLamports E config =
     (let standard = parse_dec (ar_minimumLamports AUTOMATIC_REWARDS) in
      if is_qa config then
        (if cluster_of E \<noteq> Some ''devnet'' then throw ''The Devnet QA holder policy cannot run outside Devnet.''
         else bindR (jget (pg_qaMinimums config) ''minimumFundingLamports'') to_bigint)
      else
        bindR (devnetQaShortWindow E config) (\<lambda>short.
        let raw = env_var (sl_env E) ''FUNDED_QA_HOLDER_MIN_LAMPORTS''; minimum = parse_dec raw in
        if \<not> short then Inr standard
        else if \<not> pos_dec raw then throw ''A numeric Solana QA holder minimum is required.''
        else if minimum < 100000 \<or> standard \<le> minimum
          then throw ''Solana QA holder minimum is outside the bounded test range.''
        else Inr minimum))"

definition holderPoolMinimumLamports :: "sched_lib \<Rightarrow> program_config \<Rightarrow> jsval \<Rightarrow> nat \<Rightarrow> int res" where
  "holderPoolMinimumLamports E config quote recipientCount =
     bindR (holderFundingMinimumLamports E config) (\<lambda>base.
     let solUsd = to_number (oget quote ''solUsd'') in
     if \<not> nfinite solUsd \<or> nle solUsd (Fin 0)
       then throw ''A fresh SOL/USD quote is required for the holder pool minimum.''
     else if ar_maxEligibleHolders AUTOMATIC_REWARDS < int recipientCount
       then throw ''Eligible holder count exceeds the configured distribution limit.''
     else
       bindR (positiveDecimalRatio (Num solUsd) ''SOL/USD quote'') (\<lambda>(solNum, solDen).
       bindR (poolUsdMinimum config) (\<lambda>poolUsd.
       bindR (num_to_bigint (math_round (nmul (to_number poolUsd) (nint 1000)))) (\<lambda>poolMillis.
       bindR (if is_qa config then Inr 0
              else num_to_bigint (math_round (nmul (ar_costReserveUsdPerHolder AUTOMATIC_REWARDS) (nint 1000)))) (\<lambda>costMillis.
       bindR (ceilDiv ((poolMillis + int recipientCount * costMillis) * 1000000000 * solDen) (1000 * solNum)) (\<lambda>converted.
         Inr (max converted base)))))))"

section \<open>Programs\<close>

definition micro :: jsnum where "micro = rnd (1 / 1000000)"

definition iterable_values :: "jsval \<Rightarrow> jsval list res" where
  "iterable_values v = (case v of Arr vs \<Rightarrow> Inr vs | _ \<Rightarrow> Inl TypeErr)"

definition iterable_strings :: "jsval \<Rightarrow> string list res" where
  "iterable_strings v = bindR (iterable_values v) (\<lambda>vs. Inr (map to_str vs))"

definition seconds_of :: "int \<Rightarrow> jsnum" where
  "seconds_of nowMs = math_floor (ndiv (nint nowMs) (nint 1000))"

definition or_number :: "jsval \<Rightarrow> jsnum \<Rightarrow> jsnum" where
  "or_number v d = to_number (jor v (Num d))"

definition text_or :: "jsval \<Rightarrow> string \<Rightarrow> string" where
  "text_or v d = to_str (jor v (Str d))"

text \<open>The checks of the persisted minimums of a Devnet program; the amounts are compared before rounding.\<close>

definition qa_config_ok :: "sched_lib \<Rightarrow> bool \<Rightarrow> jsnum \<Rightarrow> jsval \<Rightarrow> bool" where
  "qa_config_ok E qaShort periodSeconds qa \<longleftrightarrow>
     (let scaled = (\<lambda>k n. nmul (to_number (oget qa k)) (nint n));
          cents = math_round (scaled ''minimumHolderUsd'' 100); millis = math_round (scaled ''minimumPoolUsd'' 1000);
          lamports = oget qa ''minimumFundingLamports'' in
      cluster_of E = Some ''devnet''
      \<and> (periodSeconds = nint 3600 \<or> qaShort \<and> periodSeconds = nint 300)
      \<and> is_safe_integer cents \<and> \<not> nless micro (math_abs (nsub (scaled ''minimumHolderUsd'' 100) cents))
      \<and> 1 \<le> to_int cents \<and> to_int cents \<le> 1999
      \<and> is_safe_integer millis \<and> \<not> nless micro (math_abs (nsub (scaled ''minimumPoolUsd'' 1000) millis))
      \<and> 1 \<le> to_int millis \<and> to_int millis \<le> 19999
      \<and> is_safe lamports \<and> 10000 \<le> safe_int lamports \<and> safe_int lamports \<le> 9999999)"

text \<open>\<open>input\<close> is the argument, less the four fields that \<open>register\<close> takes from the program before.\<close>

definition programConfig ::
  "sched_lib \<Rightarrow> int \<Rightarrow> jsval \<Rightarrow> jsval \<Rightarrow> jsval \<Rightarrow> jsval \<Rightarrow> jsval \<Rightarrow> program_config res" where
  "programConfig E nowMs input policy qaInput activatedInput firstInput =
     (let mint = to_str (oget input ''mint'');
          period = or_number (oget input ''periodSeconds'') (nint (ar_periodSeconds AUTOMATIC_REWARDS));
          sample = or_number (oget input ''sampleIntervalSeconds'') (nint (ar_sampleIntervalSeconds AUTOMATIC_REWARDS));
          delay = to_number (nullish (oget input ''payoutDelaySeconds'') (Num (nint 3600)));
          activated = to_number (nullish activatedInput (Num (seconds_of nowMs)));
          first = to_number (nullish firstInput (Num (nmul (math_ceil (ndiv activated period)) period)));
          qa = (if policy = Str QA_HOLDER_POLICY then qaInput else Null) in
      bindR (qaShortHolderMintSelected mint (cluster_of E) (sl_env E)) (\<lambda>qaShort.
      if \<not> list_all is_safe_integer [period, sample, delay] \<or> to_int period < (if qaShort then 300 else 3600)
        \<or> to_int sample < 30 \<or> to_int period < to_int sample \<or> to_int delay < 0
        then throw ''Invalid reward schedule timing.''
      else if \<not> list_all is_safe_integer [activated, first] \<or> to_int activated < 0 \<or> to_int first < to_int activated
        \<or> to_int first mod to_int period \<noteq> 0
        then throw ''Invalid reward program activation time.''
      else if text_or (oget input ''asset'') ''SOL'' \<notin> {''SOL'', mint}
        then throw ''Holder rewards must use SOL or the launched token.''
      else if truthy qa \<and> \<not> qa_config_ok E qaShort period qa
        then throw ''The Devnet QA holder policy requires bounded persisted minimums.''
      else if \<not> truthy qa \<and> policy = Str QA_HOLDER_POLICY
        then throw ''The Devnet QA holder policy requires persisted minimums.''
      else bindR (iterable_strings (jor (oget input ''excludedWallets'') (Arr []))) (\<lambda>wallets.
        Inr \<lparr>pg_mint = mint, pg_enabled = (oget input ''enabled'' \<noteq> Bool False), pg_asset = text_or (oget input ''asset'') ''SOL'',
          pg_kind = ''holder'', pg_periodSeconds = period, pg_sampleIntervalSeconds = sample, pg_payoutDelaySeconds = delay,
          pg_activatedAt = Num activated, pg_firstPeriodStart = Num first, pg_eligibilityPolicy = jor policy Null,
          pg_qaMinimums = qa, pg_excludedWallets = excludedHolderWallets E mint wallets, pg_updatedAt = to_iso nowMs\<rparr>)))"

text \<open>A change of the period or of the policy retires the unprepared periods of the mint.\<close>

definition policy_changed :: "sched_lib \<Rightarrow> program_config \<Rightarrow> program_config \<Rightarrow> bool" where
  "policy_changed E prior config \<longleftrightarrow>
     neq_js (pg_periodSeconds prior) (pg_periodSeconds config)
     \<or> \<not> jeq (pg_eligibilityPolicy prior) (pg_eligibilityPolicy config)
     \<or> sl_json E (jor (pg_qaMinimums prior) Null) \<noteq> sl_json E (jor (pg_qaMinimums config) Null)"

definition retire_period :: "program_config \<Rightarrow> schedule_row \<Rightarrow> schedule_row" where
  "retire_period config row =
     (if sd_mint row \<noteq> pg_mint config \<or> sd_kind row \<noteq> ''holder'' \<or> sd_manifest row \<noteq> None \<or> truthy (sd_cycle row)
         \<or> sd_status row \<notin> {''indexing'', ''blocked'', ''deferred''} then row
      else if \<not> neq_js (nsub (sd_cutoffAt row) (sd_periodStart row)) (pg_periodSeconds config)
         \<and> nle (to_number (pg_firstPeriodStart config)) (sd_periodStart row)
        then row\<lparr>sd_status := ''indexing'', sd_reason := Null\<rparr>
      else row\<lparr>sd_status := ''skipped'',
        sd_reason := Str ''Holder policy replaced this unprepared period; verified funding rolls forward.''\<rparr>)"

definition map_schedules :: "(schedule_row \<Rightarrow> schedule_row) \<Rightarrow> reward_state \<Rightarrow> reward_state" where
  "map_schedules f st = st\<lparr>rs_schedules := map (\<lambda>(k, row). (k, f row)) (rs_schedules st)\<rparr>"

definition register :: "sched_lib \<Rightarrow> int \<Rightarrow> jsval \<Rightarrow> reward_state \<Rightarrow> (program_config \<times> reward_state) res" where
  "register E nowMs input st =
     (let prior = map_of (rs_programs st) (to_str (oget input ''mint''));
          field = (\<lambda>f. case prior of None \<Rightarrow> Undef | Some p \<Rightarrow> f p);
          updated = date_parse (sl_date E) (field (\<lambda>p. Str (pg_updatedAt p)));
          inferred = (if nfinite updated then Num (math_floor (ndiv updated (nint 1000))) else Undef) in
      bindR (programConfig E nowMs input
          (nullish (oget input ''eligibilityPolicy'') (field pg_eligibilityPolicy))
          (if oget input ''qaMinimums'' = Undef then field pg_qaMinimums else oget input ''qaMinimums'')
          (nullish (oget input ''activatedAt'') (nullish (field pg_activatedAt) inferred))
          (nullish (oget input ''firstPeriodStart'') (field pg_firstPeriodStart))) (\<lambda>config.
      let st1 = (case prior of None \<Rightarrow> st
                 | Some p \<Rightarrow> if policy_changed E p config then map_schedules (retire_period config) st else st) in
      Inr (config, st1\<lparr>rs_programs := oset (pg_mint config) config (rs_programs st1)\<rparr>)))"

section \<open>Funding\<close>

definition funded_fields :: "jsval \<Rightarrow> string list \<Rightarrow> bool" where
  "funded_fields input keys \<longleftrightarrow> list_all (\<lambda>k. truthy (oget input k)) keys \<and> oget input ''balanceDeltaVerified'' = Bool True"

definition same_funding :: "pool_row \<Rightarrow> pool_row \<Rightarrow> bool" where
  "same_funding p r \<longleftrightarrow> pl_id p = pl_id r \<and> pl_mint p = pl_mint r \<and> pl_kind p = pl_kind r \<and> pl_asset p = pl_asset r
     \<and> pl_amount p = pl_amount r \<and> \<not> neq_js (pl_fundedAt p) (pl_fundedAt r)
     \<and> pl_fundingSignature p = pl_fundingSignature r \<and> pl_balanceDeltaVerified p = pl_balanceDeltaVerified r"

definition recordFundedPool :: "int \<Rightarrow> jsval \<Rightarrow> reward_state \<Rightarrow> (pool_row \<times> reward_state) res" where
  "recordFundedPool nowMs input st =
     bindR (requireUnits (to_str (oget input ''amount'')) ''Pool amount'') (\<lambda>amount.
     if \<not> funded_fields input [''id'', ''mint'', ''fundingSignature'']
       then throw ''A funded pool requires an immutable ID, mint, finalized funding signature, and verified balance delta.''
     else
       let row = \<lparr>pl_id = to_str (oget input ''id''), pl_mint = to_str (oget input ''mint''), pl_kind = ''holder'',
             pl_asset = text_or (oget input ''asset'') ''SOL'', pl_amount = amount,
             pl_fundedAt = or_number (oget input ''fundedAt'') (seconds_of nowMs),
             pl_fundingSignature = to_str (oget input ''fundingSignature''), pl_balanceDeltaVerified = True,
             pl_status = ''available'', pl_scheduleId = []\<rparr> in
       case map_of (rs_pools st) (pl_id row) of
         None \<Rightarrow> Inr (row, st\<lparr>rs_pools := oset (pl_id row) row (rs_pools st)\<rparr>)
       | Some prior \<Rightarrow>
           if same_funding prior row then Inr (row, st)
           else throw ''Reward pool ID already exists with different immutable funding data.'')"

definition prepared_row :: "string \<Rightarrow> string \<Rightarrow> string \<Rightarrow> string \<Rightarrow> jsnum \<Rightarrow> jsnum \<Rightarrow> jsnum \<Rightarrow> string \<Rightarrow> int \<Rightarrow> schedule_row" where
  "prepared_row i mint asset kind periodStart cutoffAt payoutAt status nowMs =
     \<lparr>sd_id = i, sd_mint = mint, sd_asset = asset, sd_kind = kind, sd_periodStart = periodStart, sd_cutoffAt = cutoffAt,
      sd_payoutAt = payoutAt, sd_status = status, sd_reason = Undef, sd_manifest = None, sd_payments = [],
      sd_cycle = Undef, sd_cycleSignature = Undef, sd_sourceId = [], sd_eligibilityMint = [], sd_fundingSignature = [],
      sd_balanceDeltaVerified = False, sd_remainderAmount = [], sd_snapshotSlots = [], sd_snapshotAt = Undef,
      sd_poolIds = [], sd_eligibility = Undef, sd_lastCheckedAt = [], sd_createdAt = to_iso nowMs, sd_paidAt = []\<rparr>"

definition recipient_value :: "string \<Rightarrow> string \<Rightarrow> jsval" where
  "recipient_value recipient amount = Obj [(''recipient'', Str recipient), (''amount'', Str amount)]"

definition direct_kinds :: "string list" where
  "direct_kinds = [''creator'', ''x'', ''community'', ''operations'']"

definition direct_row :: "sched_lib \<Rightarrow> int \<Rightarrow> jsval \<Rightarrow> string \<Rightarrow> schedule_row res" where
  "direct_row E nowMs input amount =
     (let fundedAt = or_number (oget input ''fundedAt'') (seconds_of nowMs);
          i = ''direct:'' @ to_str (oget input ''kind'') @ '':'' @ to_str (oget input ''id'');
          asset = text_or (oget input ''asset'') ''SOL'' in
      bindR (buildRewardManifest (sl_lib E) (HVal (Str (sha_hex E (''funded-direct-cycle-v1:'' @ i)))) asset
          (Arr [recipient_value (to_str (oget input ''recipient'')) amount])) (\<lambda>manifest.
        Inr ((prepared_row i (to_str (oget input ''mint'')) asset (to_str (oget input ''kind''))
            (nsub fundedAt (nint 1)) fundedAt fundedAt ''prepared'' nowMs)
          \<lparr>sd_sourceId := to_str (oget input ''id''), sd_fundingSignature := to_str (oget input ''fundingSignature''),
           sd_balanceDeltaVerified := True, sd_manifest := Some manifest\<rparr>)))"

definition same_direct :: "schedule_row \<Rightarrow> schedule_row \<Rightarrow> bool" where
  "same_direct p r \<longleftrightarrow> map_option rm_root (sd_manifest p) = map_option rm_root (sd_manifest r) \<and> sd_mint p = sd_mint r
     \<and> sd_kind p = sd_kind r \<and> sd_asset p = sd_asset r \<and> sd_sourceId p = sd_sourceId r
     \<and> sd_fundingSignature p = sd_fundingSignature r \<and> sd_balanceDeltaVerified p"

text \<open>A row is stored once; a second request with the same immutable data returns the stored row.\<close>

definition store_once ::
  "(schedule_row \<Rightarrow> schedule_row \<Rightarrow> bool) \<Rightarrow> string \<Rightarrow> schedule_row \<Rightarrow> reward_state \<Rightarrow> (schedule_row \<times> reward_state) res" where
  "store_once same message row st =
     (case map_of (rs_schedules st) (sd_id row) of
        None \<Rightarrow> Inr (row, put_schedule row st)
      | Some prior \<Rightarrow> if same prior row then Inr (prior, st) else throw message)"

definition recordDirectFunded :: "sched_lib \<Rightarrow> int \<Rightarrow> jsval \<Rightarrow> reward_state \<Rightarrow> (schedule_row \<times> reward_state) res" where
  "recordDirectFunded E nowMs input st =
     bindR (requireUnits (to_str (oget input ''amount'')) ''Direct reward amount'') (\<lambda>amount.
     if \<not> funded_fields input [''id'', ''mint'', ''recipient'', ''fundingSignature'']
       \<or> oget input ''kind'' \<notin> set (map Str direct_kinds)
       then throw ''A direct reward requires a kind, recipient, immutable ID, finalized funding signature, and verified balance delta.''
     else
       bindR (direct_row E nowMs input amount) (\<lambda>row.
         store_once same_direct ''Direct reward ID already exists with different immutable data.'' row st))"

definition wallet_text :: "jsval \<Rightarrow> string" where
  "wallet_text v = (case v of Str s \<Rightarrow> s | _ \<Rightarrow> [])"

definition snapshot_weight :: "jsval list \<Rightarrow> jsval \<Rightarrow> holder_weight list res" where
  "snapshot_weight excluded row =
     bindR (jget row ''wallet'') (\<lambda>wallet.
     if wallet \<in> set excluded then Inr []
     else bindR (to_bigint (oget row ''balance'')) (\<lambda>b.
       Inr (if 0 < b then [\<lparr>hw_wallet = wallet_text wallet, hw_weight = Str (to_str (oget row ''balance''))\<rparr>] else [])))"

definition airdrop_row :: "sched_lib \<Rightarrow> int \<Rightarrow> jsval \<Rightarrow> holder_pool \<Rightarrow> schedule_row res" where
  "airdrop_row E nowMs input allocation =
     (let snapshot = oget input ''snapshot''; payoutAt = or_number (oget input ''fundedAt'') (seconds_of nowMs);
          i = ''airdrop:'' @ to_str (oget input ''id'');
          cycle = sha_hex E (''funded-snapshot-airdrop-v1:'' @ i @ '':'' @ to_str (oget snapshot ''slot'')) in
      bindR (buildRewardManifest (sl_lib E) (HVal (Str cycle)) (to_str (oget input ''asset''))
          (Arr (map (\<lambda>a. recipient_value (al_wallet a) (al_amount a)) (hp_allocations allocation)))) (\<lambda>manifest.
        Inr ((prepared_row i (to_str (oget input ''mint'')) (to_str (oget input ''asset'')) ''community''
            (nsub payoutAt (nint 1)) payoutAt payoutAt ''prepared'' nowMs)
          \<lparr>sd_eligibilityMint := to_str (oget input ''eligibilityMint''), sd_sourceId := to_str (oget input ''id''),
           sd_fundingSignature := to_str (oget input ''fundingSignature''), sd_balanceDeltaVerified := True,
           sd_snapshotSlots := [oget snapshot ''slot''], sd_snapshotAt := oget snapshot ''at'',
           sd_remainderAmount := hp_remainder allocation, sd_manifest := Some manifest\<rparr>)))"

definition same_airdrop :: "schedule_row \<Rightarrow> schedule_row \<Rightarrow> bool" where
  "same_airdrop p r \<longleftrightarrow> map_option rm_root (sd_manifest p) = map_option rm_root (sd_manifest r)
     \<and> sd_snapshotSlots p = sd_snapshotSlots r"

definition recordSnapshotAirdrop :: "sched_lib \<Rightarrow> int \<Rightarrow> jsval \<Rightarrow> reward_state \<Rightarrow> (schedule_row \<times> reward_state) res" where
  "recordSnapshotAirdrop E nowMs input st =
     (let snapshot = oget input ''snapshot'' in
      bindR (requireUnits (to_str (oget input ''amount'')) ''Airdrop reserve amount'') (\<lambda>amount.
      if \<not> funded_fields input [''id'', ''mint'', ''eligibilityMint'', ''fundingSignature'']
        \<or> \<not> jeq (oget input ''asset'') (oget input ''mint'')
        then throw ''A token airdrop requires the launched-token asset, eligibility mint, immutable ID, finalized funding, and a verified vault delta.''
      else if \<not> truthy (oget snapshot ''finalized'') \<or> \<not> jeq (oget snapshot ''mint'') (oget input ''eligibilityMint'')
        \<or> oget snapshot ''coverage'' \<noteq> Str ''finalized-sampled-v1''
        then throw ''A token airdrop requires a finalized snapshot of its eligibility mint.''
      else
        bindR (iterable_values (jor (oget input ''excludedWallets'') (Arr []))) (\<lambda>excluded.
        bindR (iterable_values (jor (oget snapshot ''accounts'') (Arr []))) (\<lambda>accounts.
        bindR (mapR (snapshot_weight excluded) accounts) (\<lambda>weights.
        bindR (allocateHolderPool (Str amount) (concat weights)) (\<lambda>allocation.
        if hp_allocations allocation = [] then throw ''The finalized eligibility snapshot has no eligible holders.''
        else bindR (airdrop_row E nowMs input allocation) (\<lambda>row.
          store_once same_airdrop ''Airdrop ID already exists with different immutable snapshot data.'' row st)))))))"

section \<open>Snapshots\<close>

text \<open>\<open>snapshotsForPeriod\<close>: the snapshots of a period, bounded by the ones that hold at its ends.\<close>

fun gaps_ok :: "jsnum \<Rightarrow> snapshot_row list \<Rightarrow> bool" where
  "gaps_ok maxGap (a # b # rows) = (\<not> nless maxGap (nsub (sr_at b) (sr_at a)) \<and> gaps_ok maxGap (b # rows))"
| "gaps_ok maxGap rows = True"

definition last_row :: "'a list \<Rightarrow> 'a option" where
  "last_row xs = (if xs = [] then None else Some (last xs))"

definition snapshotsForPeriod :: "snapshot_row list \<Rightarrow> jsnum \<Rightarrow> jsnum \<Rightarrow> jsnum \<Rightarrow> snapshot_row list res" where
  "snapshotsForPeriod snapshots start end1 maxGap =
     (let ordered = sort_by (\<lambda>a b. \<not> nless (Fin 0) (nsub (sr_at a) (sr_at b)))
            (filter (\<lambda>r. sr_finalized r \<and> nle (sr_at r) end1) snapshots);
          interior = filter (\<lambda>r. nless start (sr_at r) \<and> nless (sr_at r) end1) ordered in
      case (last_row (filter (\<lambda>r. nle (sr_at r) start) ordered), last_row (filter (\<lambda>r. nless (sr_at r) end1) ordered)) of
        (Some opening, Some closing) \<Rightarrow>
          let selected = opening\<lparr>sr_at := start\<rparr> # interior @ [closing\<lparr>sr_at := end1\<rparr>] in
          if nless maxGap (nsub start (sr_at opening))
            then throw ''Holder opening snapshot gap exceeds the configured sampling interval.''
          else if \<not> gaps_ok maxGap selected then throw ''Holder snapshot gap exceeds the configured sampling interval.''
          else Inr selected
      | _ \<Rightarrow> throw ''Finalized holder snapshots do not cover this reward period.'')"

text \<open>The balances of the owners, and the history of a mint (the end of \<open>capture\<close>).\<close>

definition holder_accounts :: "(string \<Rightarrow> string \<Rightarrow> int) \<Rightarrow> (string \<times> int) list \<Rightarrow> holder_account list" where
  "holder_accounts lc decoded =
     map (\<lambda>(wallet, balance). \<lparr>ha_account = ''owner:'' @ wallet, ha_wallet = wallet, ha_balance = Str (show_int balance)\<rparr>)
       (sort_by (\<lambda>a b. lc (fst a) (fst b) \<le> 0) (foldl (\<lambda>m (wallet, balance). oadd wallet balance m) [] decoded))"

definition append_snapshot :: "nat \<Rightarrow> string \<Rightarrow> snapshot_row \<Rightarrow> reward_state \<Rightarrow> reward_state res" where
  "append_snapshot maxSnapshots mint snapshot st =
     (let history = (case map_of (rs_snapshots st) mint of None \<Rightarrow> [] | Some h \<Rightarrow> h);
          store = (\<lambda>h. Inr (st\<lparr>rs_snapshots := oset mint (drop (length h - maxSnapshots) h) (rs_snapshots st)\<rparr>)) in
      case last_row history of
        None \<Rightarrow> store (history @ [snapshot])
      | Some prior \<Rightarrow>
          if nless (to_number (sr_slot snapshot)) (to_number (sr_slot prior)) \<or> nless (sr_at snapshot) (sr_at prior)
            then throw ''Holder snapshot order regressed.''
          else store (if jeq (sr_slot prior) (sr_slot snapshot) then history else history @ [snapshot]))"

section \<open>Preparing a cycle\<close>

definition periodsToEnsure :: "jsnum \<Rightarrow> jsnum \<Rightarrow> jsnum list" where
  "periodsToEnsure now periodSeconds =
     (let current = nmul (math_floor (ndiv now periodSeconds)) periodSeconds in
      [nsub current periodSeconds, current, nadd current periodSeconds])"

definition scheduleId :: "string \<Rightarrow> jsnum \<Rightarrow> string \<Rightarrow> string" where
  "scheduleId mint start asset = mint @ '':'' @ num_to_str start @ '':holder:'' @ asset"

text \<open>The mints that need a quote: enabled, priced, with a closed period and enough available funding.\<close>

definition available_lamports :: "string \<Rightarrow> reward_state \<Rightarrow> int" where
  "available_lamports mint st =
     sum_list (map (\<lambda>(_, p). if pl_mint p = mint \<and> pl_status p = ''available'' \<and> pl_asset p = ''SOL'' \<and> all_digits (pl_amount p)
       then parse_dec (pl_amount p) else 0) (rs_pools st))"

definition needs_quote :: "sched_lib \<Rightarrow> jsnum \<Rightarrow> reward_state \<Rightarrow> program_config \<Rightarrow> bool" where
  "needs_quote E now st config \<longleftrightarrow> pg_enabled config \<and> pricedHolderPolicy config
     \<and> \<not> nless now (nadd (to_number (pg_firstPeriodStart config)) (pg_periodSeconds config))
     \<and> (case holderFundingMinimumLamports E config of Inr m \<Rightarrow> m \<le> available_lamports (pg_mint config) st | Inl _ \<Rightarrow> False)"

definition quotedMints :: "sched_lib \<Rightarrow> jsnum \<Rightarrow> reward_state \<Rightarrow> string list" where
  "quotedMints E now st = dedupe_list (map pg_mint (filter (needs_quote E now st) (map snd (rs_programs st))))"

text \<open>A holder cycle that was skipped after some of its leaves were paid is blocked.\<close>

definition paid_count :: "schedule_row \<Rightarrow> nat" where
  "paid_count row = length (filter (\<lambda>(_, p). py_status p = ''paid'') (sd_payments row))"

definition leaf_count :: "schedule_row \<Rightarrow> nat" where
  "leaf_count row = (case sd_manifest row of None \<Rightarrow> 0 | Some m \<Rightarrow> length (rm_leaves m))"

definition reopen_partly_paid :: "schedule_row \<Rightarrow> schedule_row" where
  "reopen_partly_paid row =
     (if sd_kind row = ''holder'' \<and> sd_status row = ''skipped'' \<and> truthy (sd_cycle row)
         \<and> 0 < paid_count row \<and> paid_count row < leaf_count row
      then row\<lparr>sd_status := ''blocked'',
        sd_reason := Str ''Partly paid holder cycle has an immutable manifest; reconcile its unpaid leaves.''\<rparr>
      else row)"

definition activated_config :: "sched_lib \<Rightarrow> program_config \<Rightarrow> program_config" where
  "activated_config E config =
     (let activated = (if is_safe (pg_activatedAt config) then pg_activatedAt config
            else Num (math_floor (ndiv (date_parse (sl_date E) (Str (pg_updatedAt config))) (nint 1000))));
          period = pg_periodSeconds config in
      config\<lparr>pg_activatedAt := activated,
        pg_firstPeriodStart := (if is_safe (pg_firstPeriodStart config) then pg_firstPeriodStart config
          else Num (nmul (math_ceil (ndiv (to_number activated) period)) period))\<rparr>)"

text \<open>A period that began before the program did is skipped.\<close>

definition skip_early :: "sched_lib \<Rightarrow> program_config \<Rightarrow> schedule_row \<Rightarrow> schedule_row res" where
  "skip_early E config row =
     (if sd_mint row = pg_mint config \<and> sd_kind row = ''holder''
         \<and> nless (sd_periodStart row) (to_number (pg_firstPeriodStart config))
         \<and> sd_status row \<in> {''indexing'', ''blocked''} \<and> sd_manifest row = None \<and> \<not> truthy (sd_cycle row)
      then bindR (devnetQaShortWindow E config) (\<lambda>short.
        Inr (if \<not> short \<or> nle (nsub (sd_cutoffAt row) (sd_periodStart row)) (nint 300)
          then row\<lparr>sd_status := ''skipped'',
            sd_reason := Str ''Reward program activated after this period began; rewards roll into the first fully indexed period.''\<rparr>
          else row))
      else Inr row)"

definition replaceable :: "program_config \<Rightarrow> schedule_row \<Rightarrow> bool" where
  "replaceable config row \<longleftrightarrow> sd_status row = ''skipped''
     \<and> neq_js (nsub (sd_cutoffAt row) (sd_periodStart row)) (pg_periodSeconds config)
     \<and> sd_manifest row = None \<and> \<not> truthy (sd_cycle row) \<and> sd_payments row = []"

definition ensure_period :: "int \<Rightarrow> program_config \<Rightarrow> reward_state \<Rightarrow> jsnum \<Rightarrow> reward_state" where
  "ensure_period nowMs config st start =
     (let i = scheduleId (pg_mint config) start (pg_asset config); cutoff = nadd start (pg_periodSeconds config) in
      if nless start (to_number (pg_firstPeriodStart config)) then st
      else if (case map_of (rs_schedules st) i of None \<Rightarrow> True | Some row \<Rightarrow> replaceable config row)
        then put_schedule (prepared_row i (pg_mint config) (pg_asset config) (pg_kind config) start cutoff
               (nadd cutoff (pg_payoutDelaySeconds config)) ''indexing'' nowMs) st
      else st)"

definition ensure_config :: "sched_lib \<Rightarrow> jsnum \<Rightarrow> int \<Rightarrow> reward_state \<Rightarrow> string \<Rightarrow> reward_state res" where
  "ensure_config E now nowMs st mint =
     (case map_of (rs_programs st) mint of
        None \<Rightarrow> Inr st
      | Some config0 \<Rightarrow>
          if \<not> pg_enabled config0 then Inr st
          else
            let config = activated_config E config0 in
            bindR (mapR (\<lambda>(k, row). bindR (skip_early E config row) (\<lambda>row1. Inr (k, row1))) (rs_schedules st)) (\<lambda>schedules.
              Inr (foldl (ensure_period nowMs config)
                (st\<lparr>rs_programs := oset mint config (rs_programs st), rs_schedules := schedules\<rparr>)
                (periodsToEnsure now (pg_periodSeconds config)))))"

text \<open>The pools a schedule may draw on.\<close>

definition pool_matches :: "program_config \<Rightarrow> schedule_row \<Rightarrow> pool_row \<Rightarrow> bool" where
  "pool_matches config row p \<longleftrightarrow> pl_status p = ''available'' \<and> pl_mint p = sd_mint row \<and> pl_asset p = sd_asset row
     \<and> nle (to_number (pg_activatedAt config)) (pl_fundedAt p) \<and> nless (pl_fundedAt p) (sd_cutoffAt row)
     \<and> pl_balanceDeltaVerified p"

definition matching_pools :: "program_config \<Rightarrow> schedule_row \<Rightarrow> reward_state \<Rightarrow> pool_row list" where
  "matching_pools config row st = filter (pool_matches config row) (map snd (rs_pools st))"

text \<open>The weights of a period: deferred with a reason, or the snapshots, the weights and the evidence
  of eligibility.\<close>

datatype period_weights = Defer string | Weights "snapshot_row list" "holder_weight list" jsval

definition eligibility_value :: "program_config \<Rightarrow> jsval \<Rightarrow> int \<Rightarrow> jsval \<Rightarrow> jsval \<Rightarrow> nat \<Rightarrow> int \<Rightarrow> jsval" where
  "eligibility_value config quote minimumTokenUnits holderUsd poolUsd count1 minimum =
     Obj [(''policy'', pg_eligibilityPolicy config), (''quoteSource'', oget quote ''source''),
       (''quoteObservedAt'', oget quote ''observedAt''), (''tokenPriceUsd'', oget quote ''tokenPriceUsd''),
       (''solUsd'', oget quote ''solUsd''), (''minimumTokenUnits'', Str (show_int minimumTokenUnits)),
       (''minimumHolderUsd'', holderUsd), (''minimumPoolUsd'', poolUsd), (''eligibleCount'', Num (nint (int count1))),
       (''minimumPoolLamports'', Str (show_int minimum))]"

definition priced_weights ::
  "sched_lib \<Rightarrow> int \<Rightarrow> program_config \<Rightarrow> jsval \<Rightarrow> string list \<Rightarrow> int \<Rightarrow> snapshot_row list \<Rightarrow> holder_weight list \<Rightarrow> period_weights res" where
  "priced_weights E nowMs config quote excluded total1 snapshots weights =
     bindR (holderUsdMinimum config) (\<lambda>holderUsd.
     bindR (holderUsdEligibility E (nint nowMs) quote (sr_accounts (last snapshots)) excluded holderUsd) (\<lambda>(eligible, units1).
     let kept = filter (\<lambda>w. hw_wallet w \<in> set eligible) weights in
     if kept = [] then throw (''No holder meets the $'' @ to_str holderUsd @ ''-equivalent closing balance minimum.'')
     else
       bindR (holderPoolMinimumLamports E config quote (length kept)) (\<lambda>minimum.
       bindR (poolUsdMinimum config) (\<lambda>poolUsd.
       Inr (if total1 < minimum
         then Defer (''Verified holder funding is below the $'' @ to_str poolUsd
           @ ''-equivalent pool and distribution-cost threshold; it carries forward.'')
         else Weights snapshots kept (eligibility_value config quote units1 holderUsd poolUsd (length kept) minimum))))))"

definition period_weights ::
  "sched_lib \<Rightarrow> int \<Rightarrow> program_config \<Rightarrow> jsval \<Rightarrow> schedule_row \<Rightarrow> int \<Rightarrow> reward_state \<Rightarrow> period_weights res" where
  "period_weights E nowMs config quote row total1 st =
     bindR (if 0 < total1 \<and> sd_asset row = ''SOL'' then holderFundingMinimumLamports E config else Inr 0) (\<lambda>minimum.
     if total1 \<le> 0
       then Inr (Defer ''No balance-verified reward pool was available at cutoff; later funding remains available for a future period.'')
     else if sd_asset row = ''SOL'' \<and> total1 < minimum
       then Inr (Defer ''Verified SOL reward funding is below the distribution minimum and carries forward to a future period.'')
     else
       let history = (case map_of (rs_snapshots st) (sd_mint row) of None \<Rightarrow> [] | Some h \<Rightarrow> h);
           excluded = excludedHolderWallets E (sd_mint row) (pg_excludedWallets config) in
       bindR (snapshotsForPeriod history (sd_periodStart row) (sd_cutoffAt row)
           (nmul (pg_sampleIntervalSeconds config) (nint 2))) (\<lambda>snapshots.
       bindR (holdingWeights (sl_locale E) (sd_periodStart row) (sd_cutoffAt row)
           (map (\<lambda>r. \<lparr>sn_at = sr_at r, sn_accounts = sr_accounts r\<rparr>) snapshots) excluded ''finalized-sampled-v1'') (\<lambda>weights.
       if pricedHolderPolicy config then priced_weights E nowMs config quote excluded total1 snapshots weights
       else Inr (Weights snapshots weights (sd_eligibility row)))))"

text \<open>The manifest of a cycle, and the remainder of the split.\<close>

definition cycle_manifest ::
  "sched_lib \<Rightarrow> schedule_row \<Rightarrow> int \<Rightarrow> holder_weight list \<Rightarrow> (reward_manifest \<times> string) res" where
  "cycle_manifest E row total1 weights =
     bindR (allocateHolderPool (Str (show_int total1)) weights) (\<lambda>allocation.
     if hp_allocations allocation = [] then throw ''No eligible holders had positive time-weighted balances.''
     else
       bindR (createRewardCycleId (sl_lib E) (Str (sd_mint row)) (Str (sd_kind row)) (Str (sd_asset row))
           (Num (sd_periodStart row)) (Num (sd_cutoffAt row))) (\<lambda>cycleId.
       bindR (buildRewardManifest (sl_lib E) (HVal (Str cycleId)) (sd_asset row)
           (Arr (map (\<lambda>a. recipient_value (al_wallet a) (al_amount a)) (hp_allocations allocation)))) (\<lambda>manifest.
         Inr (manifest, hp_remainder allocation))))"

definition error_message :: "(js_error \<Rightarrow> string) \<Rightarrow> js_error \<Rightarrow> string" where
  "error_message engine e = (case e of Throw m \<Rightarrow> m | _ \<Rightarrow> engine e)"

definition assign_pools :: "(pool_row \<Rightarrow> bool) \<Rightarrow> string \<Rightarrow> reward_state \<Rightarrow> reward_state" where
  "assign_pools P i st = st\<lparr>rs_pools := map (\<lambda>(k, p). (k, if P p then p\<lparr>pl_status := ''assigned'', pl_scheduleId := i\<rparr> else p)) (rs_pools st)\<rparr>"

text \<open>\<open>engine\<close> is the message of an error that the language raises.\<close>

definition prepare_schedule ::
  "(js_error \<Rightarrow> string) \<Rightarrow> sched_lib \<Rightarrow> jsnum \<Rightarrow> int \<Rightarrow> (string \<Rightarrow> jsval) \<Rightarrow> program_config \<Rightarrow> schedule_row \<Rightarrow> reward_state
    \<Rightarrow> schedule_row \<times> bool" where
  "prepare_schedule engine E now nowMs quotes config row st =
     (let checked = row\<lparr>sd_lastCheckedAt := to_iso nowMs\<rparr>;
          blocked = (\<lambda>r e. (r\<lparr>sd_status := ''blocked'', sd_reason := Str (error_message engine e), sd_lastCheckedAt := to_iso nowMs\<rparr>, False));
          pools = matching_pools config row st in
      case sumR (\<lambda>p. str_to_bigint (pl_amount p)) 0 pools of
        Inl e \<Rightarrow> blocked row e
      | Inr total1 \<Rightarrow>
          (case period_weights E nowMs config (quotes (sd_mint row)) row total1 st of
             Inl e \<Rightarrow> blocked row e
           | Inr (Defer reason) \<Rightarrow> (checked\<lparr>sd_status := ''deferred'', sd_reason := Str reason\<rparr>, False)
           | Inr (Weights snapshots weights eligibility) \<Rightarrow>
               (case cycle_manifest E row total1 weights of
                  Inl e \<Rightarrow> blocked (row\<lparr>sd_eligibility := eligibility\<rparr>) e
                | Inr (manifest, remainder) \<Rightarrow>
                    (row\<lparr>sd_eligibility := eligibility, sd_manifest := Some manifest, sd_remainderAmount := remainder,
                       sd_snapshotSlots := map sr_slot snapshots,
                       sd_poolIds := sort_by (\<lambda>a b. \<not> str_less b a) (map pl_id pools),
                       sd_status := (if nle (sd_payoutAt row) now then ''prepared'' else ''calculating''), sd_reason := Null\<rparr>, True))))"

definition due :: "jsnum \<Rightarrow> schedule_row \<Rightarrow> bool" where
  "due now row \<longleftrightarrow> sd_status row \<in> {''indexing'', ''blocked''} \<and> \<not> nless now (sd_cutoffAt row)
     \<and> sd_manifest row = None \<and> \<not> truthy (sd_cycle row)"

definition prepare_one ::
  "(js_error \<Rightarrow> string) \<Rightarrow> sched_lib \<Rightarrow> jsnum \<Rightarrow> int \<Rightarrow> (string \<Rightarrow> jsval) \<Rightarrow> reward_state \<times> schedule_row list \<Rightarrow> string
    \<Rightarrow> reward_state \<times> schedule_row list" where
  "prepare_one engine E now nowMs quotes = (\<lambda>(st, prepared) i.
     case map_of (rs_schedules st) i of
       None \<Rightarrow> (st, prepared)
     | Some row \<Rightarrow>
         (case map_of (rs_programs st) (sd_mint row) of
            None \<Rightarrow> (st, prepared)
          | Some config \<Rightarrow>
              if \<not> due now row \<or> \<not> pg_enabled config then (st, prepared)
              else
                let (row1, done) = prepare_schedule engine E now nowMs quotes config row st in
                if done then (assign_pools (pool_matches config row) (sd_id row) (put_schedule row1 st), prepared @ [row1])
                else (put_schedule row1 st, prepared)))"

text \<open>\<open>quotes\<close> holds what the reader answered, \<open>undefined\<close> for a mint that was not asked for.\<close>

definition prepare_cycles ::
  "(js_error \<Rightarrow> string) \<Rightarrow> sched_lib \<Rightarrow> jsnum \<Rightarrow> int \<Rightarrow> (string \<Rightarrow> jsval) \<Rightarrow> reward_state \<Rightarrow> (reward_state \<times> schedule_row list) res" where
  "prepare_cycles engine E now nowMs quotes st0 =
     (let st = map_schedules reopen_partly_paid st0 in
      bindR (foldR (ensure_config E now nowMs) st (map fst (rs_programs st))) (\<lambda>st1.
        Inr (foldl (prepare_one engine E now nowMs quotes) (st1, []) (map fst (rs_schedules st1)))))"

text \<open>The quotes are read for the mints of an earlier state; \<open>answer\<close> is what the reader returns, \<open>null\<close> on failure.\<close>

definition prepare ::
  "(js_error \<Rightarrow> string) \<Rightarrow> sched_lib \<Rightarrow> jsnum \<Rightarrow> int \<Rightarrow> (string \<Rightarrow> jsval) \<Rightarrow> reward_state \<Rightarrow> reward_state
    \<Rightarrow> (reward_state \<times> schedule_row list) res" where
  "prepare engine E now nowMs answer earlier st =
     prepare_cycles engine E now nowMs (\<lambda>m. if m \<in> set (quotedMints E now earlier) then answer m else Undef) st"

section \<open>Executing the prepared cycles\<close>

text \<open>The transactions of \<open>execute\<close>, in the order in which it runs them.\<close>

definition update_row :: "string \<Rightarrow> (schedule_row \<Rightarrow> schedule_row) \<Rightarrow> reward_state \<Rightarrow> reward_state res" where
  "update_row i f st =
     (case map_of (rs_schedules st) i of
        None \<Rightarrow> Inl TypeErr
      | Some row \<Rightarrow> Inr (st\<lparr>rs_schedules := oset i (f row) (rs_schedules st)\<rparr>))"

definition unavailable_reason :: "jsval \<Rightarrow> string" where
  "unavailable_reason reasons =
     ''On-chain automatic payout is unavailable: '' @ join '', '' (map to_str (case jor reasons (Arr []) of Arr vs \<Rightarrow> vs | _ \<Rightarrow> []))"

definition record_readiness :: "int \<Rightarrow> jsval \<Rightarrow> reward_state \<Rightarrow> reward_state" where
  "record_readiness nowMs ready st =
     st\<lparr>rs_serviceStatus := Obj [(''constrainedPayouts'', Bool (oget ready ''constrainedPayouts'' = Bool True)),
       (''reasons'', jor (oget ready ''reasons'') (Arr [])),
       (''reason'', if truthy (oget ready ''constrainedPayouts'') then Null else Str (unavailable_reason (oget ready ''reasons''))),
       (''checkedAt'', Str (to_iso nowMs))]\<rparr>"

definition payable :: "jsnum \<Rightarrow> string list option \<Rightarrow> schedule_row \<Rightarrow> bool" where
  "payable now onlyIds row \<longleftrightarrow> sd_status row \<in> {''prepared'', ''distributing''} \<and> nle (sd_payoutAt row) now
     \<and> (case onlyIds of None \<Rightarrow> True | Some ids \<Rightarrow> sd_id row \<in> set ids)"

definition plans_of :: "jsnum \<Rightarrow> string list option \<Rightarrow> reward_state \<Rightarrow> schedule_row list" where
  "plans_of now onlyIds st = filter (payable now onlyIds) (map snd (rs_schedules st))"

definition plan_leaves :: "schedule_row \<Rightarrow> reward_leaf list" where
  "plan_leaves plan = (case sd_manifest plan of None \<Rightarrow> [] | Some m \<Rightarrow> rm_leaves m)"

definition pays_excluded :: "sched_lib \<Rightarrow> reward_state \<Rightarrow> schedule_row \<Rightarrow> bool" where
  "pays_excluded E st plan \<longleftrightarrow>
     (let configured = (case map_of (rs_programs st) (sd_mint plan) of None \<Rightarrow> [] | Some c \<Rightarrow> pg_excludedWallets c) in
      sd_kind plan = ''holder''
      \<and> list_ex (\<lambda>leaf. lf_recipient leaf \<in> set (excludedHolderWallets E (sd_mint plan) configured)) (plan_leaves plan))"

definition block_plan :: "schedule_row \<Rightarrow> schedule_row" where
  "block_plan row = row\<lparr>sd_status := ''blocked'',
     sd_reason := Str ''Holder manifest contains a protocol-owned vault or PumpSwap liquidity pool; reconcile before payout.''\<rparr>"

definition start_cycle :: "jsval \<Rightarrow> jsval \<Rightarrow> schedule_row \<Rightarrow> schedule_row" where
  "start_cycle address signature row = row\<lparr>sd_cycle := address,
     sd_cycleSignature := jor (sd_cycleSignature row) (jor signature Null), sd_status := ''distributing''\<rparr>"

definition leaf_paid :: "string \<Rightarrow> schedule_row \<Rightarrow> bool" where
  "leaf_paid recipient row \<longleftrightarrow>
     (case map_of (sd_payments row) recipient of None \<Rightarrow> False | Some p \<Rightarrow> py_status p = ''paid'')"

definition paid_payment :: "int \<Rightarrow> reward_leaf \<Rightarrow> jsval \<Rightarrow> reward_payment" where
  "paid_payment nowMs leaf result =
     \<lparr>py_status = ''paid'', py_amount = lf_amount leaf, py_index = lf_index leaf,
      py_detail = Obj [(''amountReceived'', oget result ''amountReceived''), (''signature'', oget result ''signature''),
        (''payment'', oget result ''payment''), (''finalized'', Bool True), (''balanceDeltaVerified'', Bool True),
        (''paidAt'', Str (to_iso nowMs))]\<rparr>"

text \<open>A recipient below the rent of an account waits for its own funding
  (\<open>nativeRecipientFundingPending\<close> of \<open>server/native-reward-recipient.mjs\<close>).\<close>

definition nativeRecipientFundingPending :: "jsval \<Rightarrow> (string \<times> jsval \<times> jsval) option" where
  "nativeRecipientFundingPending error =
     (if oget error ''code'' = Str ''RECIPIENT_RENT_REQUIRED''
        \<and> all_digits (to_str (jor (oget error ''minimumFundingLamports'') (Str [])))
      then Some (''awaiting-recipient-funding'', oget error ''message'', oget error ''minimumFundingLamports'') else None)"

definition pending_payment :: "int \<Rightarrow> reward_leaf \<Rightarrow> jsval \<Rightarrow> reward_payment" where
  "pending_payment nowMs leaf error =
     (let (status, reason, minimum) = (case nativeRecipientFundingPending error of
            Some p \<Rightarrow> p
          | None \<Rightarrow> (''verification-pending'', Str (to_str (jor (oget error ''message'') error)), Undef)) in
      \<lparr>py_status = status, py_amount = lf_amount leaf, py_index = lf_index leaf,
       py_detail = Obj [(''reason'', reason), (''minimumFundingLamports'', minimum), (''checkedAt'', Str (to_iso nowMs))]\<rparr>)"

definition record_payment :: "string \<Rightarrow> reward_payment \<Rightarrow> schedule_row \<Rightarrow> schedule_row" where
  "record_payment recipient p row = row\<lparr>sd_payments := oset recipient p (sd_payments row)\<rparr>"

definition finish_plan :: "int \<Rightarrow> schedule_row \<Rightarrow> schedule_row" where
  "finish_plan nowMs row =
     (if length (sd_payments row) = leaf_count row \<and> list_all (\<lambda>(_, p). py_status p = ''paid'') (sd_payments row)
      then row\<lparr>sd_status := ''paid'', sd_paidAt := to_iso nowMs\<rparr> else row)"

text \<open>What the chain answers: the address and signature of a cycle, and the result or the error of a payment.\<close>

record reward_chain =
  ch_readiness :: jsval
  ch_ensureCycle :: "schedule_row \<Rightarrow> (jsval \<times> jsval) res"
  ch_submitLeaf :: "schedule_row \<Rightarrow> reward_leaf \<Rightarrow> jsval + jsval"

definition leaf_payment :: "reward_chain \<Rightarrow> int \<Rightarrow> schedule_row \<Rightarrow> reward_leaf \<Rightarrow> reward_payment \<times> nat" where
  "leaf_payment chain nowMs plan leaf =
     (case ch_submitLeaf chain plan leaf of
        Inl error \<Rightarrow> (pending_payment nowMs leaf error, 0)
      | Inr result \<Rightarrow>
          if truthy (oget result ''finalized'') \<and> truthy (oget result ''balanceDeltaVerified'')
            then (paid_payment nowMs leaf result, if truthy (oget result ''alreadyPaid'') then 0 else 1)
          else (pending_payment nowMs leaf
            (Obj [(''message'', Str ''Payout lacks finalized state and balance-delta evidence.'')]), 0))"

text \<open>An error ends the execution; what its transactions have stored stays.\<close>

definition stored :: "reward_state \<Rightarrow> reward_state res \<Rightarrow> (reward_state \<Rightarrow> nat res \<times> reward_state) \<Rightarrow> nat res \<times> reward_state" where
  "stored st r k = (case r of Inl e \<Rightarrow> (Inl e, st) | Inr st1 \<Rightarrow> k st1)"

fun pay_leaves :: "reward_chain \<Rightarrow> int \<Rightarrow> schedule_row \<Rightarrow> reward_leaf list \<Rightarrow> nat \<Rightarrow> reward_state \<Rightarrow> nat res \<times> reward_state" where
  "pay_leaves chain nowMs plan [] n st = (Inr n, st)"
| "pay_leaves chain nowMs plan (leaf # leaves) n st =
     (case map_of (rs_schedules st) (sd_id plan) of
        None \<Rightarrow> (Inl TypeErr, st)
      | Some row \<Rightarrow>
          if leaf_paid (lf_recipient leaf) row then pay_leaves chain nowMs plan leaves n st
          else
            let (p, k) = leaf_payment chain nowMs plan leaf in
            stored st (update_row (sd_id plan) (record_payment (lf_recipient leaf) p) st)
              (pay_leaves chain nowMs plan leaves (n + k)))"

definition execute_plan :: "sched_lib \<Rightarrow> reward_chain \<Rightarrow> int \<Rightarrow> schedule_row \<Rightarrow> nat \<Rightarrow> reward_state \<Rightarrow> nat res \<times> reward_state" where
  "execute_plan E chain nowMs plan n st =
     (if pays_excluded E st plan then stored st (update_row (sd_id plan) block_plan st) (\<lambda>st1. (Inr n, st1))
      else case ch_ensureCycle chain plan of
        Inl e \<Rightarrow> (Inl e, st)
      | Inr (address, signature) \<Rightarrow>
          stored st (update_row (sd_id plan) (start_cycle address signature) st) (\<lambda>st1.
            case pay_leaves chain nowMs plan (plan_leaves plan) n st1 of
              (Inl e, st2) \<Rightarrow> (Inl e, st2)
            | (Inr m, st2) \<Rightarrow> stored st2 (update_row (sd_id plan) (finish_plan nowMs) st2) (\<lambda>st3. (Inr m, st3))))"

fun execute_plans :: "sched_lib \<Rightarrow> reward_chain \<Rightarrow> int \<Rightarrow> schedule_row list \<Rightarrow> nat \<Rightarrow> reward_state \<Rightarrow> nat res \<times> reward_state" where
  "execute_plans E chain nowMs [] n st = (Inr n, st)"
| "execute_plans E chain nowMs (plan # plans) n st =
     (case execute_plan E chain nowMs plan n st of
        (Inl e, st1) \<Rightarrow> (Inl e, st1)
      | (Inr m, st1) \<Rightarrow> execute_plans E chain nowMs plans m st1)"

record execution =
  ex_status :: string
  ex_reasons :: jsval
  ex_submitted :: nat

definition execute :: "sched_lib \<Rightarrow> reward_chain \<Rightarrow> jsnum \<Rightarrow> int \<Rightarrow> string list option \<Rightarrow> reward_state \<Rightarrow> execution res \<times> reward_state" where
  "execute E chain now nowMs onlyIds st =
     (let ready = ch_readiness chain; st1 = record_readiness nowMs ready st; plans = plans_of now onlyIds st1 in
      if \<not> truthy (oget ready ''constrainedPayouts'')
        then (Inr \<lparr>ex_status = ''unavailable'', ex_reasons = oget ready ''reasons'', ex_submitted = 0\<rparr>, st1)
      else case execute_plans E chain nowMs plans 0 st1 of
        (Inl e, st2) \<Rightarrow> (Inl e, st2)
      | (Inr n, st2) \<Rightarrow>
          (Inr \<lparr>ex_status = (if plans = [] then ''idle'' else ''processed''), ex_reasons = Undef, ex_submitted = n\<rparr>, st2))"

text \<open>A mint is sampled when its last snapshot is older than its interval (\<open>captureDue\<close>), and the rows
  \<open>status\<close> lists.\<close>

definition capture_due :: "jsnum \<Rightarrow> program_config \<Rightarrow> reward_state \<Rightarrow> bool" where
  "capture_due now config st =
     (case map_of (rs_snapshots st) (pg_mint config) of
        None \<Rightarrow> True
      | Some h \<Rightarrow> (case last_row h of None \<Rightarrow> True | Some r \<Rightarrow> nle (pg_sampleIntervalSeconds config) (nsub now (sr_at r))))"

definition publicSchedule :: "schedule_row \<Rightarrow> jsval" where
  "publicSchedule row =
     Obj [(''id'', Str (sd_id row)), (''mint'', Str (sd_mint row)), (''asset'', Str (sd_asset row)), (''kind'', Str (sd_kind row)),
       (''periodStart'', Num (sd_periodStart row)), (''cutoffAt'', Num (sd_cutoffAt row)), (''payoutAt'', Num (sd_payoutAt row)),
       (''status'', Str (sd_status row)), (''reason'', jor (sd_reason row) Null),
       (''recipientCount'', Num (nint (int (leaf_count row)))),
       (''totalAmount'', case sd_manifest row of None \<Rightarrow> Null | Some m \<Rightarrow> Str (rm_totalAmount m)),
       (''cycle'', jor (sd_cycle row) Null), (''paidCount'', Num (nint (int (paid_count row))))]"

definition listed_schedules :: "reward_state \<Rightarrow> jsval list" where
  "listed_schedules st = map publicSchedule (take 20
     (sort_by (\<lambda>a b. \<not> nless (Fin 0) (nsub (sd_periodStart b) (sd_periodStart a))) (map snd (rs_schedules st))))"

text \<open>\<open>captureDue\<close> and \<open>tick\<close>; \<open>answer\<close> is the snapshot that the indexer takes of a mint, or its error.\<close>

definition capture_one ::
  "(string \<Rightarrow> snapshot_row res) \<Rightarrow> nat \<Rightarrow> jsnum \<Rightarrow> (string list \<times> string list) \<times> reward_state \<Rightarrow> program_config
    \<Rightarrow> (string list \<times> string list) \<times> reward_state" where
  "capture_one answer maxSnapshots now = (\<lambda>((captured, failures), st) config.
     if \<not> capture_due now config st then ((captured, failures), st)
     else case bindR (answer (pg_mint config)) (\<lambda>snapshot. append_snapshot maxSnapshots (pg_mint config) snapshot st) of
       Inl e \<Rightarrow> ((captured, failures @ [pg_mint config]), st)
     | Inr st1 \<Rightarrow> ((captured @ [pg_mint config], failures), st1))"

definition captureDue ::
  "(string \<Rightarrow> snapshot_row res) \<Rightarrow> nat \<Rightarrow> jsnum \<Rightarrow> reward_state \<Rightarrow> (string list \<times> string list) \<times> reward_state" where
  "captureDue answer maxSnapshots now st =
     foldl (capture_one answer maxSnapshots now) (([], []), st) (filter pg_enabled (map snd (rs_programs st)))"

definition paused_status :: "int \<Rightarrow> string list \<Rightarrow> jsval" where
  "paused_status nowMs reasons =
     Obj [(''constrainedPayouts'', Bool False), (''reasons'', Arr (map Str reasons)),
       (''reason'', Str ''Automatic distributions are paused because complete finalized holder indexing is unavailable.''),
       (''checkedAt'', Str (to_iso nowMs))]"

definition tick ::
  "(js_error \<Rightarrow> string) \<Rightarrow> sched_lib \<Rightarrow> reward_chain \<Rightarrow> (string \<Rightarrow> snapshot_row res) \<Rightarrow> nat \<Rightarrow> (string \<Rightarrow> jsval) \<Rightarrow> jsnum \<Rightarrow> int
    \<Rightarrow> reward_state \<Rightarrow> (execution \<times> nat) res \<times> reward_state" where
  "tick engine E chain snapshots maxSnapshots quote now nowMs st =
     (let ((captured, failures), st1) = captureDue snapshots maxSnapshots now st in
      case prepare engine E now nowMs quote st1 st1 of
        Inl e \<Rightarrow> (Inl e, st1)
      | Inr (st2, _) \<Rightarrow>
          (case execute E chain now nowMs None st2 of
             (Inl e, st3) \<Rightarrow> (Inl e, st3)
           | (Inr result, st3) \<Rightarrow>
               let reasons = map (\<lambda>m. ''finalized-holder-indexing-unavailable:'' @ m) failures in
               if failures = [] then (Inr (result, length captured), st3)
               else (Inr (result\<lparr>ex_status := ''unavailable'', ex_reasons := Arr (map Str reasons)\<rparr>, length captured),
                 st3\<lparr>rs_serviceStatus := paused_status nowMs reasons\<rparr>)))"

section \<open>All operations\<close>

text \<open>
  The world of the scheduler: the stored state and the identifiers of the plans that executions have
  read so far.  An execution is split at its transactions, so that other operations may run between
  them, on any clock; \<open>engine\<close>, \<open>answer\<close>, \<open>earlier\<close> and the chain are arbitrary.
\<close>

record sched_world =
  sw_state :: reward_state
  sw_running :: "string list"

definition first_world :: sched_world where
  "first_world = \<lparr>sw_state = empty_rewards, sw_running = []\<rparr>"

datatype plan_update = Block | Start jsval jsval | Pay reward_chain int schedule_row reward_leaf | Finish int

fun apply_update :: "plan_update \<Rightarrow> schedule_row \<Rightarrow> schedule_row" where
  "apply_update Block = block_plan"
| "apply_update (Start address signature) = start_cycle address signature"
| "apply_update (Pay chain nowMs plan leaf) = record_payment (lf_recipient leaf) (fst (leaf_payment chain nowMs plan leaf))"
| "apply_update (Finish nowMs) = finish_plan nowMs"

inductive sched_op :: "sched_lib \<Rightarrow> sched_world \<Rightarrow> sched_world \<Rightarrow> bool" for E where
  Register: "register E nowMs input (sw_state w) = Inr (config, st) \<Longrightarrow> sched_op E w (w\<lparr>sw_state := st\<rparr>)"
| Fund: "recordFundedPool nowMs input (sw_state w) = Inr (row, st) \<Longrightarrow> sched_op E w (w\<lparr>sw_state := st\<rparr>)"
| Direct: "recordDirectFunded E nowMs input (sw_state w) = Inr (row, st) \<Longrightarrow> sched_op E w (w\<lparr>sw_state := st\<rparr>)"
| Airdrop: "recordSnapshotAirdrop E nowMs input (sw_state w) = Inr (row, st) \<Longrightarrow> sched_op E w (w\<lparr>sw_state := st\<rparr>)"
| Sample: "append_snapshot n mint snapshot (sw_state w) = Inr st \<Longrightarrow> sched_op E w (w\<lparr>sw_state := st\<rparr>)"
| Prepare: "prepare engine E now nowMs answer earlier (sw_state w) = Inr (st, rows) \<Longrightarrow> sched_op E w (w\<lparr>sw_state := st\<rparr>)"
| Pause: "sched_op E w (w\<lparr>sw_state := (sw_state w)\<lparr>rs_serviceStatus := paused_status nowMs reasons\<rparr>\<rparr>)"
| Plan: "sched_op E w (w\<lparr>sw_state := record_readiness nowMs ready (sw_state w),
    sw_running := sw_running w @ map sd_id (plans_of now onlyIds (sw_state w))\<rparr>)"
| Update: "i \<in> set (sw_running w) \<Longrightarrow> update_row i (apply_update u) (sw_state w) = Inr st \<Longrightarrow> sched_op E w (w\<lparr>sw_state := st\<rparr>)"

inductive_cases sched_opE: "sched_op E w w'"

section \<open>Conservation of the funding\<close>

definition pool_units :: "pool_row \<Rightarrow> int" where "pool_units p = parse_dec (pl_amount p)"

definition assigned_units :: "string \<Rightarrow> pool_row \<Rightarrow> int" where
  "assigned_units i p = (if pl_status p = ''assigned'' \<and> pl_scheduleId p = i then pool_units p else 0)"

text \<open>What the pools assigned to a cycle hold, and what the cycle divides.\<close>

definition drawn :: "string \<Rightarrow> (string, pool_row) omap \<Rightarrow> int" where
  "drawn i pools = sum_list (map (\<lambda>(_, p). assigned_units i p) pools)"

definition cycle_units :: "schedule_row \<Rightarrow> int" where
  "cycle_units row =
     (if sd_kind row \<noteq> ''holder'' then 0
      else case sd_manifest row of
        None \<Rightarrow> 0
      | Some m \<Rightarrow> sum_list (map (\<lambda>l. parse_dec (lf_amount l)) (rm_leaves m)) + parse_dec (sd_remainderAmount row))"

definition schedule_ok :: "(string, pool_row) omap \<Rightarrow> string \<times> schedule_row \<Rightarrow> bool" where
  "schedule_ok pools = (\<lambda>(i, row). sd_id row = i \<and> (sd_kind row \<noteq> ''holder'' \<longrightarrow> sd_manifest row \<noteq> None)
     \<and> drawn i pools = cycle_units row)"

definition pool_ok :: "string \<times> pool_row \<Rightarrow> bool" where
  "pool_ok = (\<lambda>(_, p). all_digits (pl_amount p) \<and> 0 < pool_units p \<and> pl_status p \<in> {''available'', ''assigned''})"

definition rewards_ok :: "reward_state \<Rightarrow> bool" where
  "rewards_ok st \<longleftrightarrow> distinct (map fst (rs_schedules st)) \<and> list_all pool_ok (rs_pools st)
     \<and> list_all (schedule_ok (rs_pools st)) (rs_schedules st)
     \<and> (\<forall>i. i \<notin> fst ` set (rs_schedules st) \<longrightarrow> drawn i (rs_pools st) = 0)
     \<and> list_all (\<lambda>(_, c). pg_kind c = ''holder'') (rs_programs st)"

text \<open>A row keeps what the conservation reads.\<close>

definition same_cycle :: "schedule_row \<Rightarrow> schedule_row \<Rightarrow> bool" where
  "same_cycle a b \<longleftrightarrow> sd_id a = sd_id b \<and> sd_kind a = sd_kind b \<and> sd_manifest a = sd_manifest b
     \<and> sd_remainderAmount a = sd_remainderAmount b"

lemma same_cycle_ok: "same_cycle a b \<Longrightarrow> schedule_ok pools (i, b) \<longleftrightarrow> schedule_ok pools (i, a)"
  by (auto simp: same_cycle_def schedule_ok_def cycle_units_def split: option.splits)

lemma same_cycles:
  "same_cycle row (retire_period config row)" "same_cycle row (reopen_partly_paid row)"
  "same_cycle row (apply_update u row)" "skip_early E config row = Inr row1 \<Longrightarrow> same_cycle row row1"
proof -
  show "same_cycle row (apply_update u row)"
    by (cases u) (simp_all add: same_cycle_def block_plan_def start_cycle_def record_payment_def finish_plan_def)
qed (auto simp: same_cycle_def retire_period_def reopen_partly_paid_def skip_early_def bindR_Inr_iff split: if_splits)

lemma list_all_oset: "list_all P m \<Longrightarrow> P (k, v) \<Longrightarrow> list_all P (oset k v m)"
  using set_oset [of k v m] by (auto simp: list_all_iff)

lemma rows_ok_mapped:
  assumes "rewards_ok st" and "map fst schedules = map fst (rs_schedules st)"
    and "list_all2 (\<lambda>a b. same_cycle (snd a) (snd b)) (rs_schedules st) schedules"
  shows "rewards_ok (st\<lparr>rs_schedules := schedules\<rparr>)"
proof -
  have "list_all (schedule_ok (rs_pools st)) schedules"
  proof (unfold list_all_length, intro allI impI)
    fix n assume n: "n < length schedules"
    then have len: "n < length (rs_schedules st)" using assms(2) by (metis length_map)
    have "fst (schedules ! n) = fst (rs_schedules st ! n)" using assms(2) n len by (metis nth_map)
    moreover have "same_cycle (snd (rs_schedules st ! n)) (snd (schedules ! n))"
      using assms(3) len by (simp add: list_all2_conv_all_nth)
    moreover have "schedule_ok (rs_pools st) (rs_schedules st ! n)"
      using assms(1) len by (simp add: rewards_ok_def list_all_length)
    ultimately show "schedule_ok (rs_pools st) (schedules ! n)"
      using same_cycle_ok by (metis prod.collapse)
  qed
  moreover have "fst ` set schedules = fst ` set (rs_schedules st)" using assms(2) by (metis list.set_map)
  ultimately show ?thesis using assms(1,2) by (simp add: rewards_ok_def)
qed

text \<open>The amounts of the allocations are the amounts of the leaves.\<close>

lemma reward_leaves_amounts:
  "reward_leaves L cyc asset (map (\<lambda>a. recipient_value (al_wallet a) (al_amount a)) as) n seen = Inr rows \<Longrightarrow>
    map (\<lambda>(_, a, _). a) rows = map al_amount as"
proof (induction as arbitrary: n seen rows)
  case (Cons a as)
  have amount: "to_str (nullish (nullish (oget (recipient_value w t) ''amount'') (oget (recipient_value w t) ''amountLamports'')) (Str [])) = t" for w t
    by (simp add: recipient_value_def nullish_def)
  from Cons.prems obtain r h k rest where "rows = (r, al_amount a, h) # rest"
    "reward_leaves L cyc asset (map (\<lambda>a. recipient_value (al_wallet a) (al_amount a)) as) (Suc n) (r # seen) = Inr rest"
    by (auto simp: Let_def amount bindR_Inr_iff split: option.splits if_splits)
  with Cons.IH show ?case by simp
qed simp

lemma cycle_manifest_conserves:
  assumes "cycle_manifest E row total1 weights = Inr (m, rest)" and "0 \<le> total1"
  shows "sum_list (map (\<lambda>l. parse_dec (lf_amount l)) (rm_leaves m)) + parse_dec rest = total1"
proof -
  from assms(1) obtain allocation cycleId where a: "allocateHolderPool (Str (show_int total1)) weights = Inr allocation"
    and b: "buildRewardManifest (sl_lib E) (HVal (Str cycleId)) (sd_asset row)
      (Arr (map (\<lambda>a. recipient_value (al_wallet a) (al_amount a)) (hp_allocations allocation))) = Inr m"
    and rest: "rest = hp_remainder allocation"
    by (auto simp: cycle_manifest_def bindR_Inr_iff split: if_splits)
  from b obtain rows where rows: "rm_leaves m = manifest_leaves (pairHash (sl_lib E)) rows"
    and "reward_leaves (sl_lib E) (HVal (Str cycleId)) (sd_asset row)
      (map (\<lambda>a. recipient_value (al_wallet a) (al_amount a)) (hp_allocations allocation)) 0 [] = Inr rows"
    by (auto simp: buildRewardManifest_def bindR_Inr_iff split: list.splits simp del: reward_leaves.simps)
  from this(2) have "map (\<lambda>(_, a, _). a) rows = map al_amount (hp_allocations allocation)" by (rule reward_leaves_amounts)
  then have "map lf_amount (rm_leaves m) = map al_amount (hp_allocations allocation)"
    by (simp add: rows map_manifest_leaves)
  then have "map (\<lambda>l. parse_dec (lf_amount l)) (rm_leaves m) = map (\<lambda>a. parse_dec (al_amount a)) (hp_allocations allocation)"
    by (metis (no_types, lifting) comp_def map_eq_conv map_map)
  moreover have "units_val (Str (show_int total1)) = total1" using assms(2) by (simp add: units_val_def)
  ultimately show ?thesis using pool_parts(1) [OF a] rest by simp
qed

text \<open>Assigning the available pools that match raises what the cycle has drawn by their sum.\<close>

lemma drawn_assign:
  assumes "\<And>p. P p \<Longrightarrow> pl_status p = ''available''"
  shows "drawn j (rs_pools (assign_pools P i st)) =
    drawn j (rs_pools st) + (if j = i then sum_list (map pool_units (filter P (map snd (rs_pools st)))) else 0)"
proof -
  have "drawn j (map (\<lambda>(k, p). (k, if P p then p\<lparr>pl_status := ''assigned'', pl_scheduleId := i\<rparr> else p)) ps) =
    drawn j ps + (if j = i then sum_list (map pool_units (filter P (map snd ps))) else 0)" for ps
    by (induction ps) (auto simp: drawn_def assigned_units_def pool_units_def comp_def split_def dest!: assms)
  then show ?thesis by (simp add: assign_pools_def)
qed

lemma drawn_oset_fresh:
  "i \<notin> fst ` set pools \<Longrightarrow> pl_status p = ''available'' \<Longrightarrow> drawn j (oset i p pools) = drawn j pools"
  by (simp add: oset_fresh drawn_def assigned_units_def)

lemma sumR_pools:
  assumes "sumR (\<lambda>p. str_to_bigint (pl_amount p)) 0 ps = Inr n" and "\<forall>p \<in> set ps. all_digits (pl_amount p)"
  shows "n = sum_list (map pool_units ps)"
proof -
  have "sumR (\<lambda>p. str_to_bigint (pl_amount p)) a ps = Inr (a + sum_list (map pool_units ps))" for a
    using assms(2) by (induction ps arbitrary: a) (auto simp: str_to_bigint_digits pool_units_def add.assoc)
  with assms(1) show ?thesis by simp
qed

text \<open>Replacing the row of a cycle, or adding one.\<close>

lemma drawn_absent: "rewards_ok st \<Longrightarrow> map_of (rs_schedules st) i = None \<Longrightarrow> drawn i (rs_pools st) = 0"
  by (simp add: rewards_ok_def map_of_eq_None_iff)

lemma stored_ok: "rewards_ok st \<Longrightarrow> map_of (rs_schedules st) i = Some row \<Longrightarrow> schedule_ok (rs_pools st) (i, row)"
  by (auto simp: rewards_ok_def list_all_iff dest: map_of_SomeD)

lemma put_ok:
  assumes "rewards_ok st" and "schedule_ok (rs_pools st) (sd_id row, row)"
  shows "rewards_ok (put_schedule row st)"
  using assms by (auto simp: rewards_ok_def put_schedule_def intro!: list_all_oset)

lemma update_ok:
  assumes "rewards_ok st" and "map_of (rs_schedules st) i = Some row" and "same_cycle row row1"
  shows "rewards_ok (st\<lparr>rs_schedules := oset i row1 (rs_schedules st)\<rparr>)"
proof -
  have ok: "schedule_ok (rs_pools st) (i, row1)" using stored_ok [OF assms(1,2)] assms(3) same_cycle_ok by blast
  then have "sd_id row1 = i" by (simp add: schedule_ok_def)
  with put_ok [OF assms(1), of row1] ok show ?thesis by (simp add: put_schedule_def)
qed

lemma map_schedules_ok: "rewards_ok st \<Longrightarrow> (\<And>row. same_cycle row (f row)) \<Longrightarrow> rewards_ok (map_schedules f st)"
  unfolding map_schedules_def
  by (rule rows_ok_mapped) (auto simp: list_all2_conv_all_nth split_def)

lemma set_program_ok: "rewards_ok st \<Longrightarrow> pg_kind c = ''holder'' \<Longrightarrow> rewards_ok (st\<lparr>rs_programs := oset m c (rs_programs st)\<rparr>)"
  by (auto simp: rewards_ok_def intro!: list_all_oset)

text \<open>An unprepared row has drawn nothing.\<close>

lemma unprepared_drawn:
  "rewards_ok st \<Longrightarrow> map_of (rs_schedules st) i = Some row \<Longrightarrow> sd_manifest row = None
    \<Longrightarrow> drawn i (rs_pools st) = 0 \<and> sd_kind row = ''holder'' \<and> sd_id row = i"
  using stored_ok [of st i row] by (auto simp: schedule_ok_def cycle_units_def)

lemma fresh_ok:
  "drawn (sd_id row) pools = 0 \<Longrightarrow> sd_manifest row = None \<Longrightarrow> sd_kind row = ''holder'' \<Longrightarrow> schedule_ok pools (sd_id row, row)"
  by (simp add: schedule_ok_def cycle_units_def)

lemma ensure_period_ok:
  assumes "rewards_ok st" and "pg_kind config = ''holder''"
  shows "rewards_ok (ensure_period nowMs config st start)"
proof -
  have "drawn i (rs_pools st) = 0"
    if "case map_of (rs_schedules st) i of None \<Rightarrow> True | Some row \<Rightarrow> replaceable config row" for i
    using that assms(1) drawn_absent unprepared_drawn [of st i] by (auto simp: replaceable_def split: option.splits)
  then show ?thesis using assms
    by (auto simp: ensure_period_def Let_def prepared_row_def intro!: put_ok fresh_ok)
qed

lemma ensure_config_cases:
  assumes "ensure_config E now nowMs st mint = Inr st1" and "st1 \<noteq> st"
  obtains config0 config schedules where "map_of (rs_programs st) mint = Some config0" "config = activated_config E config0"
    "list_all2 (\<lambda>a b. fst a = fst b \<and> skip_early E config (snd a) = Inr (snd b)) (rs_schedules st) schedules"
    "st1 = foldl (ensure_period nowMs config) (st\<lparr>rs_programs := oset mint config (rs_programs st), rs_schedules := schedules\<rparr>)
      (periodsToEnsure now (pg_periodSeconds config))"
proof (cases "map_of (rs_programs st) mint")
  case (Some config0)
  let ?c = "activated_config E config0"
  have enabled: "pg_enabled config0" using assms Some by (simp add: ensure_config_def split: if_split_asm)
  from assms(1) Some enabled obtain schedules where
    m: "mapR (\<lambda>(k, row). bindR (skip_early E ?c row) (\<lambda>row1. Inr (k, row1))) (rs_schedules st) = Inr schedules"
    and st1: "st1 = foldl (ensure_period nowMs ?c) (st\<lparr>rs_programs := oset mint ?c (rs_programs st), rs_schedules := schedules\<rparr>)
      (periodsToEnsure now (pg_periodSeconds ?c))"
    by (auto simp: ensure_config_def Let_def bindR_Inr_iff)
  have "list_all2 (\<lambda>a b. fst a = fst b \<and> skip_early E ?c (snd a) = Inr (snd b)) (rs_schedules st) schedules"
    using m unfolding mapR_Inr_list_all2 by (rule list_all2_mono) (auto simp: bindR_Inr_iff split_def)
  with that [OF Some refl] st1 show thesis by blast
qed (use assms in \<open>simp add: ensure_config_def\<close>)

lemma ensure_config_ok:
  assumes "rewards_ok st" and "ensure_config E now nowMs st mint = Inr st1"
  shows "rewards_ok st1"
proof (cases "st1 = st")
  case False
  with assms(2) show ?thesis
  proof (rule ensure_config_cases)
    fix config0 config schedules
    assume c: "map_of (rs_programs st) mint = Some config0" "config = activated_config E config0"
      and m: "list_all2 (\<lambda>a b. fst a = fst b \<and> skip_early E config (snd a) = Inr (snd b)) (rs_schedules st) schedules"
      and st1: "st1 = foldl (ensure_period nowMs config) (st\<lparr>rs_programs := oset mint config (rs_programs st), rs_schedules := schedules\<rparr>)
        (periodsToEnsure now (pg_periodSeconds config))"
    have kind: "pg_kind config = ''holder''"
      using assms(1) c by (auto simp: rewards_ok_def list_all_iff activated_config_def Let_def dest!: map_of_SomeD)
    have rel: "list_all2 (\<lambda>a b. fst a = fst b \<and> same_cycle (snd a) (snd b)) (rs_schedules st) schedules"
      using m by (rule list_all2_mono) (auto dest: same_cycles(4))
    then have keys: "map fst schedules = map fst (rs_schedules st)"
      by (simp add: list_all2_conv_all_nth list_eq_iff_nth_eq)
    have "rewards_ok (st\<lparr>rs_schedules := schedules\<rparr>)"
      by (rule rows_ok_mapped [OF assms(1) keys]) (rule list_all2_mono [OF rel], simp)
    from set_program_ok [OF this kind, of mint]
    have "rewards_ok (st\<lparr>rs_programs := oset mint config (rs_programs st), rs_schedules := schedules\<rparr>)"
      by (simp add: rewards_ok_def)
    then have "rewards_ok (foldl (ensure_period nowMs config)
        (st\<lparr>rs_programs := oset mint config (rs_programs st), rs_schedules := schedules\<rparr>) ps)" for ps
      by (induction ps rule: rev_induct) (auto intro: ensure_period_ok kind)
    then show "rewards_ok st1" by (simp add: st1)
  qed
qed (use assms in simp)

text \<open>Preparing one cycle.\<close>

lemma prepare_schedule_cases:
  assumes "prepare_schedule engine E now nowMs quotes config row st = (row1, done)"
  shows "\<not> done \<Longrightarrow> same_cycle row row1"
    and "done \<Longrightarrow> \<exists>total1 weights m. sumR (\<lambda>p. str_to_bigint (pl_amount p)) 0 (matching_pools config row st) = Inr total1
      \<and> cycle_manifest E row total1 weights = Inr (m, sd_remainderAmount row1) \<and> sd_manifest row1 = Some m
      \<and> sd_id row1 = sd_id row \<and> sd_kind row1 = sd_kind row"
  using assms
  by (auto simp: prepare_schedule_def Let_def same_cycle_def split: sum.splits period_weights.splits prod.splits)

lemma matching_sum:
  assumes "rewards_ok st" and "sumR (\<lambda>p. str_to_bigint (pl_amount p)) 0 (matching_pools config row st) = Inr total1"
  shows "total1 = sum_list (map pool_units (filter (pool_matches config row) (map snd (rs_pools st))))" and "0 \<le> total1"
proof -
  have ok: "\<forall>p \<in> set (matching_pools config row st). all_digits (pl_amount p) \<and> 0 \<le> pool_units p"
    using assms(1) by (auto simp: rewards_ok_def matching_pools_def list_all_iff pool_ok_def)
  with sumR_pools [OF assms(2)] have sum: "total1 = sum_list (map pool_units (matching_pools config row st))" by simp
  then show "total1 = sum_list (map pool_units (filter (pool_matches config row) (map snd (rs_pools st))))"
    by (simp add: matching_pools_def)
  from sum show "0 \<le> total1" using ok by (auto intro!: sum_list_nonneg_int)
qed

lemma prepared_cycle_ok:
  assumes ok: "rewards_ok st" and row: "map_of (rs_schedules st) i = Some row" and due: "sd_manifest row = None"
    and prep: "prepare_schedule engine E now nowMs quotes config row st = (row1, True)"
  shows "rewards_ok (assign_pools (pool_matches config row) (sd_id row) (put_schedule row1 st))"
proof -
  let ?P = "pool_matches config row" let ?st = "assign_pools ?P (sd_id row) (put_schedule row1 st)"
  from unprepared_drawn [OF ok row due] have z: "drawn i (rs_pools st) = 0" "sd_kind row = ''holder''" "sd_id row = i" by auto
  from prepare_schedule_cases(2) [OF prep] obtain total1 weights m where
    m: "sumR (\<lambda>p. str_to_bigint (pl_amount p)) 0 (matching_pools config row st) = Inr total1"
      "cycle_manifest E row total1 weights = Inr (m, sd_remainderAmount row1)" "sd_manifest row1 = Some m"
      "sd_id row1 = i" "sd_kind row1 = ''holder''"
    using z by auto
  note total = matching_sum [OF ok m(1)]
  have drawn: "drawn j (rs_pools ?st) = (if j = i then total1 else drawn j (rs_pools st))" for j
    using drawn_assign [of ?P j "sd_id row" "put_schedule row1 st"] z total(1)
    by (simp add: pool_matches_def put_schedule_def)
  have "cycle_units row1 = total1" using cycle_manifest_conserves [OF m(2) total(2)] m by (simp add: cycle_units_def)
  then have new: "schedule_ok (rs_pools ?st) (i, row1)" using drawn m by (simp add: schedule_ok_def)
  have "list_all (\<lambda>(j, r). j \<noteq> i \<longrightarrow> schedule_ok (rs_pools ?st) (j, r)) (rs_schedules st)"
    using ok drawn by (auto simp: rewards_ok_def list_all_iff schedule_ok_def)
  then have "list_all (\<lambda>(j, r). j \<noteq> i \<longrightarrow> schedule_ok (rs_pools ?st) (j, r)) (oset i row1 (rs_schedules st))"
    by (rule list_all_oset) simp
  moreover have "distinct (map fst (oset i row1 (rs_schedules st)))" using ok by (simp add: rewards_ok_def)
  then have "\<forall>r. (i, r) \<in> set (oset i row1 (rs_schedules st)) \<longrightarrow> r = row1"
    by (metis map_of_eq_Some_iff map_of_oset fun_upd_same option.inject)
  ultimately have all: "list_all (schedule_ok (rs_pools ?st)) (oset i row1 (rs_schedules st))"
    using new by (auto simp: list_all_iff)
  have "pool_ok (k, p) \<Longrightarrow> pool_ok (k, if ?P p then p\<lparr>pl_status := ''assigned'', pl_scheduleId := sd_id row\<rparr> else p)" for k p
    by (simp add: pool_ok_def pool_units_def)
  then have pools: "list_all pool_ok (rs_pools ?st)"
    using ok by (auto simp: rewards_ok_def assign_pools_def put_schedule_def list_all_iff)
  have other: "\<forall>j. j \<notin> fst ` set (oset i row1 (rs_schedules st)) \<longrightarrow> drawn j (rs_pools ?st) = 0"
    using ok drawn by (simp add: rewards_ok_def)
  have parts: "rs_schedules ?st = oset i row1 (rs_schedules st)" "rs_programs ?st = rs_programs st"
    using m(4) by (simp_all add: assign_pools_def put_schedule_def)
  show ?thesis using ok all pools other by (simp add: rewards_ok_def [of ?st] parts) (simp add: rewards_ok_def)
qed

lemma prepare_one_ok:
  assumes "rewards_ok (fst s)"
  shows "rewards_ok (fst (prepare_one engine E now nowMs quotes s i))"
proof -
  obtain st rows where s: "s = (st, rows)" by (cases s)
  have "rewards_ok (fst (prepare_one engine E now nowMs quotes (st, rows) i))"
    if ok: "rewards_ok st" and r: "map_of (rs_schedules st) i = Some row" and c: "map_of (rs_programs st) (sd_mint row) = Some config"
      and d: "due now row" "pg_enabled config" for row config
  proof (cases "prepare_schedule engine E now nowMs quotes config row st")
    case (Pair row1 ready)
    show ?thesis
    proof (cases ready)
      case True
      then show ?thesis using prepared_cycle_ok [OF ok r] d Pair by (simp add: prepare_one_def r c due_def)
    next
      case False
      from prepare_schedule_cases(1) [OF Pair] False have same: "same_cycle row row1" by simp
      have "sd_id row1 = i" using stored_ok [OF ok r] same by (simp add: schedule_ok_def same_cycle_def)
      then show ?thesis using update_ok [OF ok r same] d Pair False by (simp add: prepare_one_def r c put_schedule_def)
    qed
  qed
  with assms s show ?thesis by (auto simp: prepare_one_def Let_def split: option.splits)
qed

lemma prepare_ok:
  assumes "rewards_ok st" and "prepare engine E now nowMs answer earlier st = Inr (st1, rows)"
  shows "rewards_ok st1"
proof -
  let ?q = "\<lambda>m. if m \<in> set (quotedMints E now earlier) then answer m else Undef"
  from assms(2) obtain s where
    f: "foldR (ensure_config E now nowMs) (map_schedules reopen_partly_paid st) (map fst (rs_programs (map_schedules reopen_partly_paid st))) = Inr s"
    and r: "(st1, rows) = foldl (prepare_one engine E now nowMs ?q) (s, []) (map fst (rs_schedules s))"
    by (auto simp: prepare_def prepare_cycles_def Let_def bindR_Inr_iff)
  have start: "rewards_ok (map_schedules reopen_partly_paid st)" using assms(1) same_cycles(2) by (rule map_schedules_ok)
  have "rewards_ok s"
    by (rule foldR_invariant [where P = rewards_ok, OF f start]) (rule ensure_config_ok)
  then have "rewards_ok (fst (foldl (prepare_one engine E now nowMs ?q) (s, []) xs))" for xs
    by (induction xs rule: rev_induct) (auto intro: prepare_one_ok)
  with r show ?thesis by (metis fst_conv)
qed

text \<open>The other operations.\<close>

lemma if_throw_Inr: "(if b then Inl e else r) = Inr y \<longleftrightarrow> \<not> b \<and> r = Inr y"
  by simp

lemma programConfig_kind: "programConfig E nowMs input policy qa activated first = Inr c \<Longrightarrow> pg_kind c = ''holder''"
  unfolding programConfig_def Let_def bindR_Inr_iff if_throw_Inr sum.inject
  by (elim exE conjE) (drule sym, simp only: program_config.simps)

lemma register_cases:
  assumes "register E nowMs input st = Inr (config, st1)"
  obtains st0 where "st0 = st \<or> st0 = map_schedules (retire_period config) st"
    "st1 = st0\<lparr>rs_programs := oset (pg_mint config) config (rs_programs st0)\<rparr>" "pg_kind config = ''holder''"
  using assms by (auto simp: register_def Let_def bindR_Inr_iff dest: programConfig_kind split: option.splits if_splits)

lemma register_ok:
  assumes "rewards_ok st" and "register E nowMs input st = Inr (config, st1)"
  shows "rewards_ok st1"
  using map_schedules_ok [OF assms(1) same_cycles(1)] assms
  by (elim register_cases) (auto intro: set_program_ok)

lemma fund_ok:
  assumes "rewards_ok st" and "recordFundedPool nowMs input st = Inr (row, st1)"
  shows "rewards_ok st1"
proof (cases "st1 = st")
  case False
  with assms(2) have p: "all_digits (pl_amount row)" "0 < pool_units row" "pl_status row = ''available''"
      "map_of (rs_pools st) (pl_id row) = None" "st1 = st\<lparr>rs_pools := oset (pl_id row) row (rs_pools st)\<rparr>"
    by (auto simp: recordFundedPool_def requireUnits_def Let_def bindR_Inr_iff pool_units_def split: option.splits if_splits)
  have same: "drawn j (oset (pl_id row) row (rs_pools st)) = drawn j (rs_pools st)" for j
    using p by (auto simp: map_of_eq_None_iff intro: drawn_oset_fresh)
  have "list_all pool_ok (oset (pl_id row) row (rs_pools st))"
    using assms(1) p by (auto simp: rewards_ok_def pool_ok_def intro!: list_all_oset)
  moreover have "schedule_ok (oset (pl_id row) row (rs_pools st)) = schedule_ok (rs_pools st)"
    by (auto simp: schedule_ok_def same)
  ultimately show ?thesis using assms(1) by (simp add: rewards_ok_def p(5) same)
qed (use assms in simp)

lemma store_once_ok:
  assumes "rewards_ok st" and "store_once same message row st = Inr (r, st1)"
    and "sd_kind row \<noteq> ''holder''" and "sd_manifest row \<noteq> None"
  shows "rewards_ok st1"
proof (cases "map_of (rs_schedules st) (sd_id row)")
  case None
  then have "schedule_ok (rs_pools st) (sd_id row, row)"
    using assms drawn_absent [OF assms(1) None] by (simp add: schedule_ok_def cycle_units_def)
  then show ?thesis using assms None put_ok by (auto simp: store_once_def)
qed (use assms in \<open>auto simp: store_once_def split: if_splits\<close>)

lemma direct_ok:
  assumes "rewards_ok st" and "recordDirectFunded E nowMs input st = Inr (r, st1)"
  shows "rewards_ok st1"
proof -
  from assms(2) obtain amount row where k: "oget input ''kind'' \<in> set (map Str direct_kinds)"
    and row: "direct_row E nowMs input amount = Inr row"
    and st: "store_once same_direct ''Direct reward ID already exists with different immutable data.'' row st = Inr (r, st1)"
    by (auto simp: recordDirectFunded_def bindR_Inr_iff split: if_splits)
  have "sd_kind row \<noteq> ''holder''" "sd_manifest row \<noteq> None"
    using row k by (auto simp: direct_row_def Let_def bindR_Inr_iff prepared_row_def direct_kinds_def)
  then show ?thesis by (rule store_once_ok [OF assms(1) st])
qed

lemma airdrop_ok:
  assumes "rewards_ok st" and "recordSnapshotAirdrop E nowMs input st = Inr (r, st1)"
  shows "rewards_ok st1"
proof -
  from assms(2) obtain allocation row where row: "airdrop_row E nowMs input allocation = Inr row"
    and st: "store_once same_airdrop ''Airdrop ID already exists with different immutable snapshot data.'' row st = Inr (r, st1)"
    by (auto simp: recordSnapshotAirdrop_def Let_def bindR_Inr_iff split: if_splits)
  have "sd_kind row \<noteq> ''holder''" "sd_manifest row \<noteq> None"
    using row by (auto simp: airdrop_row_def Let_def bindR_Inr_iff prepared_row_def)
  then show ?thesis by (rule store_once_ok [OF assms(1) st])
qed

lemma snapshot_ok: "rewards_ok st \<Longrightarrow> append_snapshot n mint snapshot st = Inr st1 \<Longrightarrow> rewards_ok st1"
  by (auto simp: append_snapshot_def Let_def rewards_ok_def split: option.splits if_splits)

lemma update_row_ok:
  assumes "rewards_ok st" and "update_row i (apply_update u) st = Inr st1"
  shows "rewards_ok st1"
  using assms update_ok [OF assms(1) _ same_cycles(3)] by (auto simp: update_row_def split: option.splits)

text \<open>Any operation keeps the conservation.\<close>

interpretation reward_run: step_invariant "\<lambda>w. w = first_world" "sched_op E" "\<lambda>w. rewards_ok (sw_state w)" for E
proof unfold_locales
  show "w = first_world \<Longrightarrow> rewards_ok (sw_state w)" for w
    by (simp add: first_world_def empty_rewards_def rewards_ok_def drawn_def)
  show "rewards_ok (sw_state w1)" if ok: "rewards_ok (sw_state w)" and "sched_op E w w1" for w w1
    using that(2)
  proof (cases rule: sched_op.cases)
    case (Plan nowMs ready now onlyIds)
    then show ?thesis using ok by (simp add: record_readiness_def rewards_ok_def)
  next
    case (Pause nowMs reasons)
    then show ?thesis using ok by (simp add: rewards_ok_def)
  qed (use ok in \<open>auto intro: register_ok fund_ok direct_ok airdrop_ok snapshot_ok prepare_ok update_row_ok\<close>)
qed

section \<open>What all cycles together have drawn\<close>

definition funded_units :: "reward_state \<Rightarrow> int" where
  "funded_units st = sum_list (map (\<lambda>(_, p). pool_units p) (rs_pools st))"

definition available_units :: "reward_state \<Rightarrow> int" where
  "available_units st = sum_list (map (\<lambda>(_, p). if pl_status p = ''available'' then pool_units p else 0) (rs_pools st))"

lemma sum_drawn:
  assumes "distinct ids"
  shows "sum_list (map (\<lambda>i. drawn i pools) ids) =
    sum_list (map (\<lambda>(_, p). if pl_status p = ''assigned'' \<and> pl_scheduleId p \<in> set ids then pool_units p else 0) pools)"
  using assms
proof (induction ids)
  case Nil
  show ?case by (induction pools) auto
next
  case (Cons i ids)
  have "drawn i ps + sum_list (map (\<lambda>(_, p). if pl_status p = ''assigned'' \<and> pl_scheduleId p \<in> set ids then pool_units p else 0) ps)
    = sum_list (map (\<lambda>(_, p). if pl_status p = ''assigned'' \<and> pl_scheduleId p \<in> set (i # ids) then pool_units p else 0) ps)" for ps
    using Cons.prems by (induction ps) (auto simp: drawn_def assigned_units_def)
  with Cons show ?case by simp
qed

lemma drawn_pos:
  assumes "list_all pool_ok pools" and "(k, p) \<in> set pools" and "pl_status p = ''assigned''"
  shows "0 < drawn (pl_scheduleId p) pools"
proof -
  have nonneg: "0 \<le> drawn i ps" if "list_all pool_ok ps" for i ps
    using that by (induction ps) (auto simp: drawn_def assigned_units_def pool_ok_def)
  show ?thesis using assms(1,2)
  proof (induction pools)
    case (Cons a ps)
    then show ?case using nonneg [of ps "pl_scheduleId p"] assms(3)
      by (auto simp: drawn_def assigned_units_def pool_ok_def split: prod.splits)
  qed simp
qed

lemma rewards_total:
  assumes "rewards_ok st"
  shows "funded_units st = available_units st + sum_list (map (\<lambda>(_, row). cycle_units row) (rs_schedules st))"
proof -
  let ?ids = "map fst (rs_schedules st)"
  have known: "pl_scheduleId p \<in> set ?ids" if "(k, p) \<in> set (rs_pools st)" "pl_status p = ''assigned''" for k p
    using drawn_pos [of "rs_pools st" k p] that assms by (auto simp: rewards_ok_def)
  have "map (\<lambda>(_, row). cycle_units row) (rs_schedules st) = map (\<lambda>i. drawn i (rs_pools st)) ?ids"
    using assms by (auto simp: rewards_ok_def list_all_iff schedule_ok_def)
  moreover have "distinct ?ids" using assms by (simp add: rewards_ok_def)
  ultimately have cycles: "sum_list (map (\<lambda>(_, row). cycle_units row) (rs_schedules st)) =
    sum_list (map (\<lambda>(_, p). if pl_status p = ''assigned'' \<and> pl_scheduleId p \<in> set ?ids then pool_units p else 0) (rs_pools st))"
    by (simp only: sum_drawn)
  have status: "pl_status p = ''available'' \<or> pl_status p = ''assigned''" if "(k, p) \<in> set (rs_pools st)" for k p
    using assms that by (auto simp: rewards_ok_def list_all_iff pool_ok_def)
  have "funded_units st = sum_list (map (\<lambda>(k, p). (if pl_status p = ''available'' then pool_units p else 0)
      + (if pl_status p = ''assigned'' \<and> pl_scheduleId p \<in> set ?ids then pool_units p else 0)) (rs_pools st))"
    unfolding funded_units_def using known status by (intro arg_cong [where f = sum_list] map_cong) force+
  then show ?thesis using cycles by (simp add: available_units_def sum_list_addf split_def)
qed

section \<open>A cycle prepared before its payout time\<close>

text \<open>A plan that an execution has read has a manifest, and is not \<open>calculating\<close>.\<close>

definition running_row :: "schedule_row \<Rightarrow> bool" where
  "running_row row \<longleftrightarrow> sd_manifest row \<noteq> None \<and> sd_status row \<noteq> ''calculating''"

definition status_row :: "schedule_row \<Rightarrow> bool" where
  "status_row row \<longleftrightarrow> (sd_status row \<in> {''prepared'', ''distributing''} \<longrightarrow> sd_manifest row \<noteq> None)"

definition prepared_ok :: "reward_state \<Rightarrow> string list \<Rightarrow> bool" where
  "prepared_ok st running \<longleftrightarrow> (\<forall>i row. map_of (rs_schedules st) i = Some row \<longrightarrow> status_row row)
     \<and> (\<forall>i \<in> set running. \<exists>row. map_of (rs_schedules st) i = Some row \<and> running_row row)"

text \<open>What an operation does to a row: it keeps it, or it changes one that is not \<open>calculating\<close>.\<close>

definition row_step :: "schedule_row \<Rightarrow> schedule_row \<Rightarrow> bool" where
  "row_step a b \<longleftrightarrow> a = b \<or> sd_status a \<noteq> ''calculating''
     \<and> (status_row a \<longrightarrow> status_row b) \<and> (running_row a \<longrightarrow> running_row b)"

definition rows_step :: "reward_state \<Rightarrow> reward_state \<Rightarrow> bool" where
  "rows_step st st1 \<longleftrightarrow> (\<forall>i. case map_of (rs_schedules st) i of
       None \<Rightarrow> pred_option status_row (map_of (rs_schedules st1) i)
     | Some a \<Rightarrow> (\<exists>b. map_of (rs_schedules st1) i = Some b \<and> row_step a b))"

lemma row_step_unprepared:
  "sd_manifest a = None \<Longrightarrow> sd_status a \<noteq> ''calculating'' \<Longrightarrow> sd_status b \<notin> {''prepared'', ''distributing''} \<Longrightarrow> row_step a b"
  by (simp add: row_step_def status_row_def running_row_def)

lemma row_step_retire: "row_step row (retire_period config row)"
proof (cases "retire_period config row = row")
  case False
  then have "sd_manifest row = None" "sd_status row \<noteq> ''calculating''"
    "sd_status (retire_period config row) \<in> {''indexing'', ''skipped''}"
    unfolding retire_period_def by (auto split: if_split_asm)
  then show ?thesis by (intro row_step_unprepared) auto
qed (simp add: row_step_def)

lemma row_step_reopen: "row_step row (reopen_partly_paid row)"
  by (simp add: reopen_partly_paid_def row_step_def status_row_def running_row_def)

lemma row_step_early:
  assumes "skip_early E config row = Inr row1"
  shows "row_step row row1"
proof (cases "row1 = row")
  case False
  with assms have "sd_manifest row = None" "sd_status row \<noteq> ''calculating''" "sd_status row1 = ''skipped''"
    by (auto simp: skip_early_def bindR_Inr_iff split: if_split_asm)
  then show ?thesis by (intro row_step_unprepared) simp_all
qed (simp add: row_step_def)

lemma row_step_update: "running_row row \<Longrightarrow> row_step row (apply_update u row)"
  by (cases u) (auto simp: row_step_def status_row_def running_row_def block_plan_def start_cycle_def record_payment_def finish_plan_def)

lemma row_step_prepare:
  assumes "prepare_schedule engine E now nowMs quotes config row st = (row1, ready)" and "due now row"
  shows "row_step row row1"
proof -
  have "sd_manifest row = None" "sd_status row \<in> {''indexing'', ''blocked''}" using assms(2) by (simp_all add: due_def)
  moreover have "status_row row1"
    using assms(1) by (auto simp: prepare_schedule_def Let_def status_row_def split: sum.splits period_weights.splits prod.splits)
  ultimately show ?thesis by (auto simp: row_step_def running_row_def)
qed

lemma row_step_trans: "row_step a b \<Longrightarrow> row_step b c \<Longrightarrow> row_step a c"
  unfolding row_step_def by metis

lemma row_step_status: "row_step a b \<Longrightarrow> status_row a \<Longrightarrow> status_row b"
  by (auto simp: row_step_def)

lemma rows_step_same: "rs_schedules st1 = rs_schedules st \<Longrightarrow> rows_step st st1"
  by (simp add: rows_step_def row_step_def split: option.splits)

lemma rows_step_trans:
  assumes "rows_step st st1" and "rows_step st1 st2"
  shows "rows_step st st2"
  unfolding rows_step_def
proof
  fix i
  show "case map_of (rs_schedules st) i of None \<Rightarrow> pred_option status_row (map_of (rs_schedules st2) i)
     | Some a \<Rightarrow> (\<exists>b. map_of (rs_schedules st2) i = Some b \<and> row_step a b)"
    using assms [unfolded rows_step_def, THEN spec [of _ i]]
    by (auto split: option.splits intro: row_step_trans row_step_status)
qed

lemma rows_step_put:
  "(case map_of (rs_schedules st) i of None \<Rightarrow> status_row row | Some a \<Rightarrow> row_step a row)
    \<Longrightarrow> rows_step st (st\<lparr>rs_schedules := oset i row (rs_schedules st)\<rparr>)"
  by (auto simp: rows_step_def row_step_def split: option.splits)

lemma rows_step_mapped:
  assumes "list_all2 (\<lambda>a b. fst a = fst b \<and> row_step (snd a) (snd b)) (rs_schedules st) (rs_schedules st1)"
  shows "rows_step st st1"
proof -
  have "case map_of ss i of None \<Rightarrow> map_of ss1 i = None | Some a \<Rightarrow> (\<exists>b. map_of ss1 i = Some b \<and> row_step a b)"
    if "list_all2 (\<lambda>a b. fst a = fst b \<and> row_step (snd a) (snd b)) ss ss1" for ss ss1 i
    using that by (induction rule: list_all2_induct) (auto split: prod.splits option.splits)
  from this [OF assms] show ?thesis unfolding rows_step_def by (smt (verit) option.case_eq_if option.pred_inject(1))
qed

lemma rows_step_map_schedules: "(\<And>row. row_step row (f row)) \<Longrightarrow> rows_step st (map_schedules f st)"
  by (rule rows_step_mapped) (simp add: map_schedules_def list_all2_conv_all_nth split_def)

lemma rows_step_ensure_period: "rows_step st (ensure_period nowMs config st start)"
proof -
  let ?i = "scheduleId (pg_mint config) start (pg_asset config)"
  let ?row = "prepared_row ?i (pg_mint config) (pg_asset config) (pg_kind config) start (nadd start (pg_periodSeconds config))
    (nadd (nadd start (pg_periodSeconds config)) (pg_payoutDelaySeconds config)) ''indexing'' nowMs"
  have "rows_step st (st\<lparr>rs_schedules := oset ?i ?row (rs_schedules st)\<rparr>)"
    if "case map_of (rs_schedules st) ?i of None \<Rightarrow> True | Some row \<Rightarrow> replaceable config row"
    using that by (intro rows_step_put)
      (auto simp: replaceable_def prepared_row_def row_step_def status_row_def running_row_def split: option.splits)
  then show ?thesis by (simp add: ensure_period_def Let_def put_schedule_def prepared_row_def rows_step_same)
qed

lemma rows_step_ensure_config:
  assumes "ensure_config E now nowMs st mint = Inr st1"
  shows "rows_step st st1"
proof (cases "st1 = st")
  case False
  with assms show ?thesis
  proof (rule ensure_config_cases)
    fix config0 config schedules
    assume m: "list_all2 (\<lambda>a b. fst a = fst b \<and> skip_early E config (snd a) = Inr (snd b)) (rs_schedules st) schedules"
      and st1: "st1 = foldl (ensure_period nowMs config) (st\<lparr>rs_programs := oset mint config (rs_programs st), rs_schedules := schedules\<rparr>)
        (periodsToEnsure now (pg_periodSeconds config))"
    have "rows_step st (st\<lparr>rs_programs := oset mint config (rs_programs st), rs_schedules := schedules\<rparr>)"
    proof (rule rows_step_mapped)
      have "list_all2 (\<lambda>a b. fst a = fst b \<and> row_step (snd a) (snd b)) (rs_schedules st) schedules"
        using m by (rule list_all2_mono) (auto dest: row_step_early)
      then show "list_all2 (\<lambda>a b. fst a = fst b \<and> row_step (snd a) (snd b)) (rs_schedules st)
          (rs_schedules (st\<lparr>rs_programs := oset mint config (rs_programs st), rs_schedules := schedules\<rparr>))" by simp
    qed
    then have "rows_step st (foldl (ensure_period nowMs config)
        (st\<lparr>rs_programs := oset mint config (rs_programs st), rs_schedules := schedules\<rparr>) ps)" for ps
      by (induction ps rule: rev_induct) (auto intro: rows_step_trans rows_step_ensure_period)
    then show "rows_step st st1" by (simp add: st1)
  qed
qed (simp add: rows_step_same)

lemma rows_step_prepare_one:
  assumes "rewards_ok (fst s)"
  shows "rows_step (fst s) (fst (prepare_one engine E now nowMs quotes s i))"
proof -
  obtain st rows where s: "s = (st, rows)" by (cases s)
  have "rows_step st (put_schedule row1 st) \<and> rows_step st (assign_pools P j (put_schedule row1 st))"
    if r: "map_of (rs_schedules st) i = Some row" and d: "due now row"
      and p: "prepare_schedule engine E now nowMs quotes config row st = (row1, ready)" for row row1 config ready P j
  proof -
    have "sd_id row1 = i"
      using stored_ok [OF _ r] assms s prepare_schedule_cases [OF p] by (cases ready) (auto simp: schedule_ok_def same_cycle_def)
    then have put: "rows_step st (put_schedule row1 st)"
      using row_step_prepare [OF p d] r by (auto simp: put_schedule_def intro: rows_step_put)
    moreover have "rows_step (put_schedule row1 st) (assign_pools P j (put_schedule row1 st))"
      by (rule rows_step_same) (simp add: assign_pools_def)
    ultimately show ?thesis using rows_step_trans by blast
  qed
  then show ?thesis
    by (auto simp: s prepare_one_def Let_def rows_step_same split: option.splits prod.splits)
qed

lemma rows_step_prepare:
  assumes ok: "rewards_ok st" and "prepare engine E now nowMs answer earlier st = Inr (st1, rows)"
  shows "rows_step st st1"
proof -
  let ?q = "\<lambda>m. if m \<in> set (quotedMints E now earlier) then answer m else Undef" and ?st = "map_schedules reopen_partly_paid st"
  from assms(2) obtain s where f: "foldR (ensure_config E now nowMs) ?st (map fst (rs_programs ?st)) = Inr s"
    and r: "(st1, rows) = foldl (prepare_one engine E now nowMs ?q) (s, []) (map fst (rs_schedules s))"
    by (auto simp: prepare_def prepare_cycles_def Let_def bindR_Inr_iff)
  have start: "rewards_ok ?st \<and> rows_step st ?st"
    using map_schedules_ok [OF ok same_cycles(2)] rows_step_map_schedules [OF row_step_reopen] by blast
  have "rewards_ok s \<and> rows_step st s"
    by (rule foldR_invariant [where P = "\<lambda>s. rewards_ok s \<and> rows_step st s", OF f start])
      (blast intro: ensure_config_ok rows_step_trans rows_step_ensure_config)
  then have "rewards_ok (fst (foldl (prepare_one engine E now nowMs ?q) (s, []) xs))
      \<and> rows_step st (fst (foldl (prepare_one engine E now nowMs ?q) (s, []) xs))" for xs
    by (induction xs rule: rev_induct) (auto intro: prepare_one_ok rows_step_trans rows_step_prepare_one)
  with r show ?thesis by (metis fst_conv)
qed

lemma rows_step_store:
  "store_once same message row st = Inr (r, st1) \<Longrightarrow> status_row row \<Longrightarrow> rows_step st st1"
  by (auto simp: store_once_def put_schedule_def rows_step_same intro!: rows_step_put split: option.splits if_splits)

lemma rows_step_register:
  assumes "register E nowMs input st = Inr (config, st1)"
  shows "rows_step st st1"
proof (rule register_cases [OF assms])
  fix st0
  assume st0: "st0 = st \<or> st0 = map_schedules (retire_period config) st"
    and st1: "st1 = st0\<lparr>rs_programs := oset (pg_mint config) config (rs_programs st0)\<rparr>"
  have "rows_step st st0"
    using st0 rows_step_map_schedules [of "retire_period config", OF row_step_retire] rows_step_same by blast
  moreover have "rows_step st0 st1" by (rule rows_step_same) (simp add: st1)
  ultimately show ?thesis by (rule rows_step_trans)
qed

lemma rows_step_direct: "recordDirectFunded E nowMs input st = Inr (r, st1) \<Longrightarrow> rows_step st st1"
  by (auto simp: recordDirectFunded_def direct_row_def Let_def bindR_Inr_iff status_row_def elim!: rows_step_store split: if_splits)

lemma rows_step_airdrop: "recordSnapshotAirdrop E nowMs input st = Inr (r, st1) \<Longrightarrow> rows_step st st1"
  by (auto simp: recordSnapshotAirdrop_def airdrop_row_def Let_def bindR_Inr_iff status_row_def elim!: rows_step_store split: if_splits)

lemma rows_step_op:
  assumes "sched_op E w w1" and "rewards_ok (sw_state w)" and "prepared_ok (sw_state w) (sw_running w)"
  shows "rows_step (sw_state w) (sw_state w1)"
  using assms(1)
proof (cases rule: sched_op.cases)
  case (Fund nowMs input row st)
  then show ?thesis
    by (auto simp: recordFundedPool_def Let_def bindR_Inr_iff intro!: rows_step_same split: option.splits if_splits)
next
  case (Sample n mint snapshot st)
  then show ?thesis by (auto simp: append_snapshot_def Let_def intro!: rows_step_same split: option.splits if_splits)
next
  case (Update i u st)
  then obtain row where "map_of (rs_schedules (sw_state w)) i = Some row" "running_row row"
    using assms(3) by (auto simp: prepared_ok_def)
  with Update show ?thesis using row_step_update by (auto simp: update_row_def intro: rows_step_put)
qed (use assms(2) in \<open>auto simp: record_readiness_def intro: rows_step_register rows_step_direct rows_step_airdrop
  rows_step_prepare rows_step_same\<close>)

lemma prepared_step:
  assumes "rows_step st st1" and "prepared_ok st running"
  shows "prepared_ok st1 running"
proof -
  have step: "case map_of (rs_schedules st) i of None \<Rightarrow> pred_option status_row (map_of (rs_schedules st1) i)
     | Some a \<Rightarrow> (\<exists>b. map_of (rs_schedules st1) i = Some b \<and> row_step a b)" for i
    using assms(1) by (simp add: rows_step_def)
  have "status_row row" if "map_of (rs_schedules st1) i = Some row" for i row
    using step [of i] that assms(2) by (auto simp: prepared_ok_def split: option.splits intro: row_step_status)
  moreover have "\<exists>row. map_of (rs_schedules st1) i = Some row \<and> running_row row" if "i \<in> set running" for i
    using step [of i] that assms(2) by (auto simp: prepared_ok_def row_step_def split: option.splits)
  ultimately show ?thesis by (simp add: prepared_ok_def)
qed

lemma plans_ok:
  assumes "rewards_ok st" and "prepared_ok st running" and "plan \<in> set (plans_of now onlyIds st)"
  shows "\<exists>row. map_of (rs_schedules st) (sd_id plan) = Some row \<and> running_row row"
proof -
  from assms(3) obtain k where k: "(k, plan) \<in> set (rs_schedules st)" "payable now onlyIds plan" by (auto simp: plans_of_def)
  then have m: "map_of (rs_schedules st) k = Some plan" using assms(1) by (simp add: rewards_ok_def)
  then have "sd_id plan = k" using stored_ok [OF assms(1) m] by (simp add: schedule_ok_def)
  moreover have "running_row plan"
    using m k(2) assms(2) by (fastforce simp: prepared_ok_def running_row_def status_row_def payable_def)
  ultimately show ?thesis using m by simp
qed

definition world_ok :: "sched_world \<Rightarrow> bool" where
  "world_ok w \<longleftrightarrow> rewards_ok (sw_state w) \<and> prepared_ok (sw_state w) (sw_running w)"

lemma world_step:
  assumes "world_ok w" and "sched_op E w w1"
  shows "prepared_ok (sw_state w1) (sw_running w1)"
proof -
  have step: "prepared_ok (sw_state w1) (sw_running w)"
    using rows_step_op [OF assms(2)] assms(1) prepared_step by (auto simp: world_ok_def)
  from assms(2) show ?thesis
  proof (cases rule: sched_op.cases)
    case (Plan nowMs ready now onlyIds)
    then show ?thesis using step plans_ok [of "sw_state w" "sw_running w"] assms(1)
      by (auto simp: world_ok_def prepared_ok_def record_readiness_def)
  qed (use step in auto)
qed

interpretation prepared_run: step_invariant "\<lambda>w. w = first_world" "sched_op E" world_ok for E
proof unfold_locales
  show "w = first_world \<Longrightarrow> world_ok w" for w
    using reward_run.start_inv [of w] by (simp add: world_ok_def prepared_ok_def first_world_def empty_rewards_def)
  show "world_ok w \<Longrightarrow> sched_op E w w1 \<Longrightarrow> world_ok w1" for w w1
    using reward_run.step_inv [of w E w1] world_step [of w E w1] by (simp add: world_ok_def)
qed

lemma calculating_kept:
  assumes "world_ok w" and "sched_op E w w1"
    and "map_of (rs_schedules (sw_state w)) i = Some row" and "sd_status row = ''calculating''"
  shows "map_of (rs_schedules (sw_state w1)) i = Some row"
proof -
  have "rows_step (sw_state w) (sw_state w1)" using rows_step_op [OF assms(2)] assms(1) by (simp add: world_ok_def)
  from this [unfolded rows_step_def, THEN spec [of _ i]] show ?thesis using assms(3,4) by (simp add: row_step_def)
qed

text \<open>What one call of \<open>prepare\<close> leaves in a row: no manifest, the row as it was, or a fresh manifest with the status by
  the payout time.\<close>

definition fresh_status :: "jsnum \<Rightarrow> schedule_row \<Rightarrow> string" where
  "fresh_status now row = (if nle (sd_payoutAt row) now then ''prepared'' else ''calculating'')"

lemma nless_not_nle: "nless x y \<Longrightarrow> \<not> nle y x"
  by (cases x; cases y) (auto simp: nle_def neq_js_def)

definition prep_step :: "jsnum \<Rightarrow> reward_state \<Rightarrow> reward_state \<Rightarrow> bool" where
  "prep_step now st st1 \<longleftrightarrow> (\<forall>i row. map_of (rs_schedules st1) i = Some row \<longrightarrow>
     sd_manifest row = None \<or> map_of (rs_schedules st) i = Some row \<or> sd_status row = fresh_status now row)"

lemma prep_step_trans: "prep_step now st st1 \<Longrightarrow> prep_step now st1 st2 \<Longrightarrow> prep_step now st st2"
  unfolding prep_step_def by metis

lemma prep_step_same: "rs_schedules st1 = rs_schedules st \<Longrightarrow> prep_step now st st1"
  by (simp add: prep_step_def)

lemma prep_step_put:
  "sd_manifest row = None \<or> map_of (rs_schedules st) i = Some row \<or> sd_status row = fresh_status now row \<Longrightarrow>
   prep_step now st (st\<lparr>rs_schedules := oset i row (rs_schedules st)\<rparr>)"
  by (auto simp: prep_step_def)

lemma prep_step_mapped:
  assumes "list_all2 (\<lambda>a b. fst a = fst b \<and> (snd b = snd a \<or> sd_manifest (snd b) = None)) (rs_schedules st) (rs_schedules st1)"
  shows "prep_step now st st1"
proof -
  have "sd_manifest b = None \<or> map_of ss i = Some b"
    if "list_all2 (\<lambda>a b. fst a = fst b \<and> (snd b = snd a \<or> sd_manifest (snd b) = None)) ss ss1" "map_of ss1 i = Some b" for ss ss1 i b
    using that by (induction rule: list_all2_induct) (auto split: prod.splits if_split_asm)
  from this [OF assms] show ?thesis unfolding prep_step_def by blast
qed

lemma prep_step_ensure_period: "prep_step now st (ensure_period nowMs config st start)"
  by (auto simp: ensure_period_def Let_def put_schedule_def prepared_row_def intro: prep_step_same prep_step_put split: option.splits)

lemma prep_step_ensure_config:
  assumes "ensure_config E t nowMs st mint = Inr st1"
  shows "prep_step now st st1"
proof (cases "st1 = st")
  case False
  with assms show ?thesis
  proof (rule ensure_config_cases)
    fix config0 config schedules
    assume m: "list_all2 (\<lambda>a b. fst a = fst b \<and> skip_early E config (snd a) = Inr (snd b)) (rs_schedules st) schedules"
      and st1: "st1 = foldl (ensure_period nowMs config) (st\<lparr>rs_programs := oset mint config (rs_programs st), rs_schedules := schedules\<rparr>)
        (periodsToEnsure t (pg_periodSeconds config))"
    have "prep_step now st (st\<lparr>rs_programs := oset mint config (rs_programs st), rs_schedules := schedules\<rparr>)"
    proof (rule prep_step_mapped)
      have early: "b = a \<or> sd_manifest b = None" if "skip_early E config a = Inr b" for a b
        using that by (auto simp: skip_early_def bindR_Inr_iff split: if_split_asm)
      have "list_all2 (\<lambda>a b. fst a = fst b \<and> (snd b = snd a \<or> sd_manifest (snd b) = None)) (rs_schedules st) schedules"
        by (rule list_all2_mono [OF m]) (auto dest: early)
      then show "list_all2 (\<lambda>a b. fst a = fst b \<and> (snd b = snd a \<or> sd_manifest (snd b) = None)) (rs_schedules st)
          (rs_schedules (st\<lparr>rs_programs := oset mint config (rs_programs st), rs_schedules := schedules\<rparr>))" by simp
    qed
    then have "prep_step now st (foldl (ensure_period nowMs config)
        (st\<lparr>rs_programs := oset mint config (rs_programs st), rs_schedules := schedules\<rparr>) ps)" for ps
      by (induction ps rule: rev_induct) (auto intro: prep_step_trans prep_step_ensure_period)
    then show "prep_step now st st1" by (simp add: st1)
  qed
qed (simp add: prep_step_same)

lemma prep_step_prepare_one: "prep_step now (fst s) (fst (prepare_one engine E now nowMs quotes s i))"
proof -
  obtain st rows where s: "s = (st, rows)" by (cases s)
  have "prep_step now st (put_schedule row1 st) \<and> prep_step now st (assign_pools P j (put_schedule row1 st))"
    if "due now row" and p: "prepare_schedule engine E now nowMs quotes config row st = (row1, ready)" for row row1 config ready P j
  proof -
    have "sd_manifest row1 = None \<or> sd_status row1 = fresh_status now row1"
      using p \<open>due now row\<close>
      by (auto simp: prepare_schedule_def Let_def due_def fresh_status_def split: sum.splits period_weights.splits prod.splits)
    then have put: "prep_step now st (put_schedule row1 st)" by (auto simp: put_schedule_def intro: prep_step_put)
    moreover have "prep_step now (put_schedule row1 st) (assign_pools P j (put_schedule row1 st))"
      by (rule prep_step_same) (simp add: assign_pools_def)
    ultimately show ?thesis using prep_step_trans by blast
  qed
  then show ?thesis
    by (auto simp: s prepare_one_def Let_def prep_step_same split: option.splits prod.splits)
qed

text \<open>A manifest that was not there before the call has the status by the payout time.\<close>

lemma prepare_fresh_status:
  assumes "prepare engine E now nowMs answer earlier st = Inr (st1, rows)" and "map_of (rs_schedules st1) i = Some row"
    and "sd_manifest row \<noteq> None" and "\<forall>old. map_of (rs_schedules st) i = Some old \<longrightarrow> sd_manifest old = None"
  shows "sd_status row = fresh_status now row"
proof -
  let ?q = "\<lambda>m. if m \<in> set (quotedMints E now earlier) then answer m else Undef" and ?st = "map_schedules reopen_partly_paid st"
  from assms(1) obtain s where f: "foldR (ensure_config E now nowMs) ?st (map fst (rs_programs ?st)) = Inr s"
    and r: "(st1, rows) = foldl (prepare_one engine E now nowMs ?q) (s, []) (map fst (rs_schedules s))"
    by (auto simp: prepare_def prepare_cycles_def Let_def bindR_Inr_iff)
  have "prep_step now ?st s"
    by (rule foldR_invariant [where P = "prep_step now ?st", OF f])
      (auto intro: prep_step_same prep_step_trans prep_step_ensure_config)
  then have "prep_step now ?st (fst (foldl (prepare_one engine E now nowMs ?q) (s, []) xs))" for xs
    by (induction xs rule: rev_induct) (auto intro: prep_step_trans prep_step_prepare_one)
  then have "prep_step now ?st st1" using r by (metis fst_conv)
  moreover have "map_of (rs_schedules ?st) i \<noteq> Some row"
  proof
    assume "map_of (rs_schedules ?st) i = Some row"
    then obtain old where "map_of (rs_schedules st) i = Some old" "row = reopen_partly_paid old"
      by (auto simp: map_schedules_def split_def map_of_map_snd)
    moreover from this(1) have "sd_manifest old = None" using assms(4) by blast
    ultimately show False using assms(3) by (simp add: reopen_partly_paid_def split: if_split_asm)
  qed
  ultimately show ?thesis using assms(2,3) unfolding prep_step_def by metis
qed

section \<open>Properties\<close>

text \<open>
  C25.  The funding of the holder rewards is conserved by every run of the scheduler, whatever the
  order in which registrations, fundings, samples, preparations and the transactions of executions
  interleave.  The pools assigned to a cycle hold exactly what its leaves and its remainder add up to
  (nothing for a period that is not prepared), and all pools together hold what is still available plus
  what all cycles divide: no pool is drawn twice, and none is lost.
\<close>

theorem reward_cycles_conserve:
  assumes "(sched_op E)\<^sup>*\<^sup>* first_world w"
  shows "list_all (\<lambda>(i, row). drawn i (rs_pools (sw_state w)) = cycle_units row) (rs_schedules (sw_state w))
    \<and> funded_units (sw_state w) =
        available_units (sw_state w) + sum_list (map (\<lambda>(_, row). cycle_units row) (rs_schedules (sw_state w)))"
proof -
  have ok: "rewards_ok (sw_state w)" using reward_run.reachable_inv [OF refl assms] .
  then show ?thesis using rewards_total [OF ok] by (auto simp: rewards_ok_def schedule_ok_def list_all_iff)
qed

text \<open>
  C24.  A cycle that a call of \<open>prepare\<close> divides before its payout time gets the status \<open>calculating\<close>, and no
  later operation of the scheduler, in any order, changes its row again or reads it for an execution: it is
  never paid, although its pools stay assigned to it.
\<close>

theorem calculating_never_paid:
  assumes "(sched_op E)\<^sup>*\<^sup>* first_world w"
    and "prepare engine E now nowMs answer earlier (sw_state w) = Inr (st, rows)"
    and "map_of (rs_schedules st) i = Some row" and "sd_manifest row \<noteq> None"
    and "\<forall>old. map_of (rs_schedules (sw_state w)) i = Some old \<longrightarrow> sd_manifest old = None"
    and "nless now (sd_payoutAt row)" and "(sched_op E)\<^sup>*\<^sup>* (w\<lparr>sw_state := st\<rparr>) w1"
  shows "sd_status row = ''calculating'' \<and> map_of (rs_schedules (sw_state w1)) i = Some row
    \<and> i \<notin> set (sw_running w1) \<and> drawn i (rs_pools (sw_state w1)) = cycle_units row"
proof -
  have status: "sd_status row = ''calculating''"
    using prepare_fresh_status [OF assms(2-5)] assms(6) by (simp add: fresh_status_def nless_not_nle)
  have w: "(sched_op E)\<^sup>*\<^sup>* first_world (w\<lparr>sw_state := st\<rparr>)"
    using assms(1) sched_op.Prepare [OF assms(2)] by (rule rtranclp.rtrancl_into_rtrancl)
  have row: "map_of (rs_schedules (sw_state w1)) i = Some row"
    using assms(7)
  proof (induction rule: rtranclp_induct)
    case (step a b)
    have "world_ok a" using prepared_run.reachable_inv [OF refl rtranclp_trans [OF w step(1)]] .
    with step status show ?case by (blast intro: calculating_kept)
  qed (simp add: assms(3))
  have ok: "world_ok w1" using prepared_run.reachable_inv [OF refl rtranclp_trans [OF w assms(7)]] .
  then have "i \<notin> set (sw_running w1)" using row status by (fastforce simp: world_ok_def prepared_ok_def running_row_def)
  moreover have "drawn i (rs_pools (sw_state w1)) = cycle_units row"
    using stored_ok [OF _ row] ok by (simp add: world_ok_def schedule_ok_def)
  ultimately show ?thesis using status row by simp
qed

section \<open>A run\<close>

definition sample_env :: sched_lib where
  "sample_env = \<lparr>sl_lib = toy_lib, sl_pools = (\<lambda>_. None), sl_locale = (\<lambda>a b. if str_less a b then -1 else 1),
     sl_date = (\<lambda>_. NaN), sl_json = (\<lambda>_. []), sl_env = []\<rparr>"

definition sample_program :: jsval where
  "sample_program = Obj [(''mint'', Str (toy_key CHR ''e'')), (''activatedAt'', Num (nint 0)), (''firstPeriodStart'', Num (nint 0)),
     (''sampleIntervalSeconds'', Num (nint 1800))]"

definition sample_funding :: jsval where
  "sample_funding = Obj [(''id'', Str ''p1''), (''mint'', Str (toy_key CHR ''e'')), (''amount'', Str ''20000000''),
     (''fundedAt'', Num (nint 100)), (''fundingSignature'', Str ''s1''), (''balanceDeltaVerified'', Bool True)]"

definition sample_holders :: snapshot_row where
  "sample_holders = \<lparr>sr_slot = Num (nint 7), sr_at = nint 0, sr_finalized = True,
     sr_accounts = holder_accounts (sl_locale sample_env) [(toy_key CHR ''b'', 2), (toy_key CHR ''a'', 1)]\<rparr>"

text \<open>A program is registered, its pool funded, its holders sampled, and its first period prepared as it closes.\<close>

definition run1 :: reward_state where
  "run1 = snd (projr (register sample_env 0 sample_program empty_rewards))"

definition run2 :: reward_state where
  "run2 = snd (projr (recordFundedPool 0 sample_funding run1))"

definition run3 :: reward_state where
  "run3 = projr (append_snapshot 100 (toy_key CHR ''e'') sample_holders run2)"

definition run4 :: reward_state where
  "run4 = fst (projr (prepare (\<lambda>_. []) sample_env (nint 3600) 3600000 (\<lambda>_. Undef) run3 run3))"

definition run5 :: reward_state where
  "run5 = fst (projr (prepare (\<lambda>_. []) sample_env (nint 7300) 7300000 (\<lambda>_. Undef) run4 run4))"

definition run_world :: "reward_state \<Rightarrow> sched_world" where
  "run_world st = \<lparr>sw_state = st, sw_running = []\<rparr>"

lemma run_ops:
  "\<not> isl (register sample_env 0 sample_program empty_rewards)"
  "\<not> isl (recordFundedPool 0 sample_funding run1)"
  "\<not> isl (append_snapshot 100 (toy_key CHR ''e'') sample_holders run2)"
  "\<not> isl (prepare (\<lambda>_. []) sample_env (nint 3600) 3600000 (\<lambda>_. Undef) run3 run3)"
  "\<not> isl (prepare (\<lambda>_. []) sample_env (nint 7300) 7300000 (\<lambda>_. Undef) run4 run4)"
  by code_simp+

lemma op_steps:
  "\<not> isl (register E n i st) \<Longrightarrow> sched_op E (run_world st) (run_world (snd (projr (register E n i st))))"
  "\<not> isl (recordFundedPool n i st) \<Longrightarrow> sched_op E (run_world st) (run_world (snd (projr (recordFundedPool n i st))))"
  "\<not> isl (append_snapshot k mint s st) \<Longrightarrow> sched_op E (run_world st) (run_world (projr (append_snapshot k mint s st)))"
  "\<not> isl (prepare engine E t n answer earlier st)
    \<Longrightarrow> sched_op E (run_world st) (run_world (fst (projr (prepare engine E t n answer earlier st))))"
  using sched_op.Register [of E n i "run_world st"] sched_op.Fund [of n i "run_world st" _ _ E]
    sched_op.Sample [of k mint s "run_world st" _ E] sched_op.Prepare [of engine E t n answer earlier "run_world st"]
  by (cases "register E n i st"; cases "recordFundedPool n i st"; cases "append_snapshot k mint s st";
      cases "prepare engine E t n answer earlier st"; fastforce simp: run_world_def)+

lemma run_steps:
  "sched_op sample_env first_world (run_world run1)" "sched_op sample_env (run_world run1) (run_world run2)"
  "sched_op sample_env (run_world run2) (run_world run3)" "sched_op sample_env (run_world run3) (run_world run4)"
  "sched_op sample_env (run_world run4) (run_world run5)"
  using run_ops(1) [THEN op_steps(1)] run_ops(2) [THEN op_steps(2)] run_ops(3) [THEN op_steps(3)]
    run_ops(4) [THEN op_steps(4)] run_ops(5) [THEN op_steps(4)]
  by (simp_all add: run1_def run2_def run3_def run4_def run5_def first_world_def run_world_def)

lemma run_reached:
  "(sched_op sample_env)\<^sup>*\<^sup>* first_world (run_world run4)" "(sched_op sample_env)\<^sup>*\<^sup>* (run_world run4) (run_world run5)"
  "(sched_op sample_env)\<^sup>*\<^sup>* first_world (run_world run3)"
proof -
  show r3: "(sched_op sample_env)\<^sup>*\<^sup>* first_world (run_world run3)"
    using run_steps(1-3) by (meson rtranclp.rtrancl_into_rtrancl r_into_rtranclp)
  show "(sched_op sample_env)\<^sup>*\<^sup>* first_world (run_world run4)" using r3 run_steps(4) by (rule rtranclp.rtrancl_into_rtrancl)
  show "(sched_op sample_env)\<^sup>*\<^sup>* (run_world run4) (run_world run5)" using run_steps(5) by (rule r_into_rtranclp)
qed

definition first_cycle :: string where
  "first_cycle = scheduleId (toy_key CHR ''e'') (nint 0) ''SOL''"

definition first_row :: schedule_row where
  "first_row = the (map_of (rs_schedules run4) first_cycle)"

lemma first_row_stored:
  "map_of (rs_schedules run4) first_cycle \<noteq> None" "sd_manifest first_row \<noteq> None" "nless (nint 3600) (sd_payoutAt first_row)"
  "(case map_of (rs_schedules run3) first_cycle of None \<Rightarrow> True | Some old \<Rightarrow> sd_manifest old = None)"
  by code_simp+

theorem reward_cycles_conserve_witness:
  "list_all (\<lambda>(i, row). drawn i (rs_pools run4) = cycle_units row) (rs_schedules run4)
    \<and> funded_units run4 = available_units run4 + sum_list (map (\<lambda>(_, row). cycle_units row) (rs_schedules run4))"
  using reward_cycles_conserve [OF run_reached(1)] by (simp add: run_world_def)

theorem calculating_never_paid_witness:
  "sd_status first_row = ''calculating'' \<and> map_of (rs_schedules run5) first_cycle = Some first_row
    \<and> drawn first_cycle (rs_pools run5) = cycle_units first_row"
proof -
  obtain rows where p: "prepare (\<lambda>_. []) sample_env (nint 3600) 3600000 (\<lambda>_. Undef) run3 (sw_state (run_world run3)) = Inr (run4, rows)"
    using run_ops(4) by (cases "prepare (\<lambda>_. []) sample_env (nint 3600) 3600000 (\<lambda>_. Undef) run3 run3")
      (auto simp: run4_def run_world_def)
  have "(run_world run3)\<lparr>sw_state := run4\<rparr> = run_world run4" by (simp add: run_world_def)
  then have "(sched_op sample_env)\<^sup>*\<^sup>* ((run_world run3)\<lparr>sw_state := run4\<rparr>) (run_world run5)" using run_reached(2) by simp
  moreover have "map_of (rs_schedules run4) first_cycle = Some first_row"
    using first_row_stored(1) by (auto simp: first_row_def)
  moreover have "\<forall>old. map_of (rs_schedules (sw_state (run_world run3))) first_cycle = Some old \<longrightarrow> sd_manifest old = None"
    using first_row_stored(4) by (auto simp: run_world_def split: option.splits)
  ultimately have "sd_status first_row = ''calculating'' \<and> map_of (rs_schedules (sw_state (run_world run5))) first_cycle = Some first_row
      \<and> first_cycle \<notin> set (sw_running (run_world run5)) \<and> drawn first_cycle (rs_pools (sw_state (run_world run5))) = cycle_units first_row"
    by (intro calculating_never_paid [OF run_reached(3) p _ first_row_stored(2) _ first_row_stored(3)])
  then show ?thesis by (simp add: run_world_def)
qed

end
