(* ===== verification/ClaimLedger.thy ===== *)
theory ClaimLedger
  imports JsonText JsDate StepSystem
begin

text \<open>
  The ledger of claims: claims of X accounts (\<open>server/claim-state.mjs\<close>), referral claims
  (\<open>server/referral-claim-state.mjs\<close>), and the updates of the file store that commit them
  (\<open>updateClaimState\<close> and \<open>updateReferralClaimState\<close> of \<open>server/store.mjs\<close>).  A mutator changes the object
  it is given in place, so what it leaves behind is an arbitrary object; the checks decide whether
  that object is committed.  Updates of one store run one after the other.
\<close>

section \<open>The store\<close>

type_synonym jsobj = "(string, jsval) omap"

record claim_store =
  cs_claims :: jsobj
  cs_obligations :: jsobj
  cs_collections :: jsobj
  cs_launches :: jsobj
  cs_payouts :: jsobj
  cs_referralClaims :: jsobj

definition field :: "jsobj \<Rightarrow> jsval \<Rightarrow> jsval" where
  "field m key = oget (Obj m) (to_str key)"

definition id_char :: "char \<Rightarrow> bool" where
  "id_char c \<longleftrightarrow> is_word_char c \<or> c = CHR '':'' \<or> c = CHR ''-''"

definition validClaimId :: "jsval \<Rightarrow> unit res" where
  "validClaimId v =
     (case v of
        Str s \<Rightarrow>
          if s = [] \<or> 256 < length s \<or> \<not> list_all id_char s \<or> s \<in> {''__proto__'', ''constructor'', ''prototype''}
            then throw ''Invalid claim ID.'' else Inr ()
      | _ \<Rightarrow> throw ''Invalid claim ID.'')"

text \<open>\<open>if (v) result[key] = v\<close>, and the payouts of a claim.\<close>

definition keep_if :: "string \<Rightarrow> jsval \<Rightarrow> jsobj" where
  "keep_if key v = (if truthy v then [(key, v)] else [])"

definition payouts_where :: "(string \<Rightarrow> jsval \<Rightarrow> bool) \<Rightarrow> jsobj \<Rightarrow> jsobj res" where
  "payouts_where P payouts =
     bindR (mapR (\<lambda>(key, row). bindR (jget row ''claimId'') (\<lambda>claim. Inr (if P key claim then [(key, row)] else []))) payouts)
       (\<lambda>rows. Inr (concat rows))"

section \<open>Claims of X accounts\<close>

definition scopedClaimState :: "claim_store \<Rightarrow> string \<Rightarrow> jsobj res" where
  "scopedClaimState st i =
     bindR (validClaimId (Str i)) (\<lambda>_.
     let claim = field (cs_claims st) (Str i);
         obligationId = jor (oget claim ''obligationId'') (Str i);
         obligation = field (cs_obligations st) obligationId;
         collectionId = oget obligation ''claimSignature''; mint = oget obligation ''mint'' in
     bindR (payouts_where (\<lambda>_ owner. jeq owner (Str i)) (cs_payouts st)) (\<lambda>payouts.
       Inr [(''claims'', Obj (keep_if i claim)),
         (''obligations'', Obj (keep_if (to_str obligationId) obligation)),
         (''collections'', Obj (if truthy obligation then keep_if (to_str collectionId) (field (cs_collections st) collectionId) else [])),
         (''launches'', Obj (if truthy obligation then keep_if (to_str mint) (field (cs_launches st) mint) else [])),
         (''payouts'', Obj payouts)]))"

text \<open>\<open>Object.keys(state).sort().join()\<close>, and what a claim transition may not change.\<close>

definition key_text :: "jsobj \<Rightarrow> string" where
  "key_text m = join '','' (sort_by (\<lambda>a b. \<not> str_less b a) (map fst m))"

definition immutable_part :: "string \<Rightarrow> jsobj \<Rightarrow> jsval" where
  "immutable_part payoutKey m =
     (let get = oget (Obj m) in
      Obj [(''obligations'', get ''obligations''), (''collections'', get ''collections''), (''launches'', get ''launches''),
        (''payouts'', Obj (filter (\<lambda>(key, _). key \<noteq> payoutKey) (obj_entries (jor (get ''payouts'') (Obj [])))))])"

definition claim_entitlement :: "string list" where
  "claim_entitlement = [''id'', ''xUserId'', ''obligationId'', ''recipient'']"

definition fields_differ :: "string list \<Rightarrow> jsval \<Rightarrow> jsval \<Rightarrow> bool" where
  "fields_differ keys a b \<longleftrightarrow> list_ex (\<lambda>k. \<not> jeq (oget a k) (oget b k)) keys"

definition is_paid :: "jsval \<Rightarrow> bool" where
  "is_paid claim \<longleftrightarrow> oget claim ''status'' = Str ''paid''"

text \<open>\<open>cond && JSON.stringify(a) !== JSON.stringify(b)\<close>.\<close>

definition changed_if :: "bool \<Rightarrow> jsval \<Rightarrow> jsval \<Rightarrow> bool res" where
  "changed_if c a b = (if c then json_differs a b else Inr False)"

definition claim_scope_ok :: "string \<Rightarrow> string \<Rightarrow> jsobj \<Rightarrow> jsobj \<Rightarrow> bool res" where
  "claim_scope_ok i payoutKey scoped left =
     (if key_text left \<noteq> key_text scoped then Inr False
      else bindR (json_differs (immutable_part payoutKey left) (immutable_part payoutKey scoped)) (\<lambda>differs.
        let claims = oget (Obj left) ''claims'' in
        Inr (\<not> differs \<and> truthy claims \<and> list_all (\<lambda>(key, _). key = i) (obj_entries claims)
          \<and> truthy (oget (Obj left) ''payouts''))))"

definition mutateClaimState :: "string \<Rightarrow> jsobj \<Rightarrow> jsobj \<Rightarrow> unit res" where
  "mutateClaimState i scoped left =
     (let payoutKey = ''x:'' @ i;
          prior = oget (oget (Obj scoped) ''claims'') i; claim = oget (oget (Obj left) ''claims'') i;
          recorded = oget (oget (Obj scoped) ''payouts'') payoutKey; payout = oget (oget (Obj left) ''payouts'') payoutKey in
      bindR (claim_scope_ok i payoutKey scoped left) (\<lambda>ok.
      bindR (guards [(\<not> ok, ''Claim writes may only change this claim and its canonical payout.''),
        (truthy prior \<and> \<not> truthy claim, ''Claims cannot be deleted by a claim transition.''),
        (truthy claim \<and> \<not> jeq (oget claim ''id'') (Str i), ''Claim identity cannot change.''),
        (truthy prior \<and> fields_differ claim_entitlement prior claim, ''Original claim entitlement cannot change.''),
        (truthy (oget prior ''publicKey'') \<and> \<not> jeq (oget prior ''publicKey'') (oget claim ''publicKey''),
          ''Original destination wallet cannot change.'')]) (\<lambda>_.
      bindR (changed_if (is_paid prior) prior claim) (\<lambda>changed.
      bindR (guards [(changed, ''Paid claims are immutable.''),
        (truthy payout \<and> (\<not> jeq (oget payout ''id'') (Str payoutKey) \<or> \<not> jeq (oget payout ''claimId'') (Str i)),
          ''Payout does not belong to this claim.''),
        (truthy payout \<and> \<not> truthy recorded \<and> \<not> is_paid claim, ''Payout and paid status must commit together.''),
        (is_paid claim \<and> \<not> is_paid prior \<and> \<not> truthy payout, ''Paid status requires its canonical payout record.'')]) (\<lambda>_.
      bindR (changed_if (truthy recorded) recorded payout) (\<lambda>changed.
        guards [(changed, ''Recorded payouts are immutable.'')]))))))"

definition assertObservedClaim :: "(string \<Rightarrow> jsnum) \<Rightarrow> jsnum \<Rightarrow> jsval \<Rightarrow> jsval \<Rightarrow> bool \<Rightarrow> unit res" where
  "assertObservedClaim other now current observed allowExpired =
     guards [(\<not> truthy current \<or> fields_differ [''id'', ''nonce'', ''xUserId'', ''obligationId'', ''recipient'', ''expiresAt''] current observed,
        ''Claim changed. Refresh it before signing again.''),
       (\<not> allowExpired \<and> truthy (oget current ''expiresAt'') \<and> nless (date_parse other (oget current ''expiresAt'')) now,
        ''Claim has expired.'')]"

definition put_if :: "string \<Rightarrow> jsval \<Rightarrow> jsobj \<Rightarrow> jsobj" where
  "put_if key v m = (if truthy v then oset key v m else m)"

definition updateClaimState :: "string \<Rightarrow> jsobj \<Rightarrow> claim_store \<Rightarrow> claim_store res" where
  "updateClaimState i left st =
     bindR (scopedClaimState st i) (\<lambda>scoped.
     bindR (mutateClaimState i scoped left) (\<lambda>_.
       Inr (st\<lparr>cs_claims := put_if i (oget (oget (Obj left) ''claims'') i) (cs_claims st),
         cs_payouts := put_if (''x:'' @ i) (oget (oget (Obj left) ''payouts'') (''x:'' @ i)) (cs_payouts st)\<rparr>)))"

section \<open>Referral claims\<close>

definition scopedReferralClaimState :: "claim_store \<Rightarrow> string \<Rightarrow> jsobj res" where
  "scopedReferralClaimState st i =
     bindR (validClaimId (Str i)) (\<lambda>_.
     bindR (payouts_where (\<lambda>key owner. jeq owner (Str i) \<or> key = ''referral:'' @ i) (cs_payouts st)) (\<lambda>payouts.
       Inr [(''referralClaims'', Obj (keep_if i (field (cs_referralClaims st) (Str i)))), (''payouts'', Obj payouts)]))"

definition referral_entitlement :: "string list" where
  "referral_entitlement =
     [''id'', ''settlementSignature'', ''level'', ''recipientWallet'', ''amount'', ''asset'', ''nonce'', ''expiresAt'', ''createdAt'']"

definition referral_transitions :: "string \<Rightarrow> string list" where
  "referral_transitions s =
     (case map_of
        [(''awaiting-wallet-signature'', [''awaiting-wallet-signature'', ''wallet-verified'']),
         (''wallet-verified'', [''wallet-verified'', ''executing'']),
         (''executing'', [''executing'', ''wallet-verified'', ''paid'', ''verification-pending'']),
         (''verification-pending'', [''verification-pending'', ''paid'']), (''failed'', [''failed'']), (''paid'', [''paid''])] s of
        None \<Rightarrow> [] | Some ss \<Rightarrow> ss)"

definition set_changes :: "string \<Rightarrow> jsval \<Rightarrow> jsval \<Rightarrow> bool" where
  "set_changes k prior claim \<longleftrightarrow> truthy (oget prior k) \<and> \<not> jeq (oget claim k) (oget prior k)"

definition neq_num :: "jsval \<Rightarrow> jsval \<Rightarrow> bool" where
  "neq_num a b \<longleftrightarrow> neq_js (to_number a) (to_number b)"

text \<open>\<open>Math.round(Number(claim.amount) * 1_000_000_000)\<close>.\<close>

definition claim_lamports :: "jsval \<Rightarrow> jsval" where
  "claim_lamports claim = Num (math_round (nmul (to_number (oget claim ''amount'')) (nint 1000000000)))"

text \<open>A payout that the transition adds.\<close>

definition payout_matches :: "string \<Rightarrow> jsval \<Rightarrow> jsval \<Rightarrow> bool" where
  "payout_matches i claim row \<longleftrightarrow>
     (let canonical = Str (''referral:'' @ i); g = oget row; c = oget claim; sol = to_number (g ''amountSol'') in
      jeq (g ''id'') canonical \<and> jeq (g ''claimId'') (Str i) \<and> is_paid row \<and> is_paid claim
      \<and> jeq (c ''payoutId'') canonical \<and> jeq (c ''payoutSignature'') (g ''signature'')
      \<and> (case g ''signature'' of Str s \<Rightarrow> s \<noteq> [] | _ \<Rightarrow> False)
      \<and> jeq (g ''to'') (c ''recipientWallet'') \<and> nfinite sol \<and> \<not> nle sol (Fin 0)
      \<and> \<not> neq_num (g ''amountSol'') (c ''amount'') \<and> jeq (c ''asset'') (Str ''SOL'') \<and> jeq (g ''paidAt'') (c ''paidAt'')
      \<and> jeq (c ''pendingSignature'') (g ''signature'') \<and> (truthy (c ''pendingFrom'') \<longrightarrow> jeq (g ''from'') (c ''pendingFrom''))
      \<and> jeq (g ''finalized'') (Bool True) \<and> jeq (g ''amountLamports'') (claim_lamports claim)
      \<and> jeq (g ''recipientDeltaLamports'') (g ''amountLamports''))"

definition payout_bad :: "string \<Rightarrow> jsval \<Rightarrow> string \<times> jsval \<Rightarrow> bool res" where
  "payout_bad i claim = (\<lambda>(key, row).
     if key \<noteq> ''referral:'' @ i then Inr True
     else bindR (jget row ''id'') (\<lambda>_. Inr (\<not> payout_matches i claim row)))"

fun anyR :: "('a \<Rightarrow> bool res) \<Rightarrow> 'a list \<Rightarrow> bool res" where
  "anyR f [] = Inr False"
| "anyR f (x # xs) = bindR (f x) (\<lambda>b. if b then Inr True else anyR f xs)"

definition mutateReferralClaimState :: "string \<Rightarrow> jsobj \<Rightarrow> jsobj \<Rightarrow> unit res" where
  "mutateReferralClaimState i scoped left =
     (let claims = oget (Obj left) ''referralClaims''; payouts = oget (Obj left) ''payouts'';
          prior = oget (oget (Obj scoped) ''referralClaims'') i; claim = oget claims i;
          before1 = obj_entries (oget (Obj scoped) ''payouts''); canonical = ''referral:'' @ i;
          p = oget prior; c = oget claim in
      bindR (validClaimId (Str i)) (\<lambda>_.
      bindR (guards [(key_text left \<noteq> ''payouts,referralClaims'' \<or> \<not> truthy claims \<or> \<not> truthy payouts
          \<or> list_ex (\<lambda>(key, _). key \<noteq> i) (obj_entries claims), ''Referral transitions may only change this claim and its payout.''),
        (\<not> truthy prior \<or> \<not> truthy claim \<or> \<not> jeq (c ''id'') (Str i), ''Referral transitions cannot create, delete or rename claims.''),
        (fields_differ referral_entitlement claim prior, ''Original referral entitlement cannot change.''),
        (set_changes ''publicKey'' prior claim, ''Original referral wallet cannot change.''),
        (set_changes ''pendingSignature'' prior claim, ''Signed referral transfer cannot change.''),
        (set_changes ''pendingFrom'' prior claim, ''Signed referral payer cannot change.''),
        (truthy (c ''publicKey'') \<and> \<not> jeq (c ''publicKey'') (c ''recipientWallet''), ''Referral destination must match the entitled wallet.''),
        (c ''status'' \<in> {Str ''wallet-verified'', Str ''executing'', Str ''paid''} \<and> \<not> truthy (c ''publicKey''),
          ''Referral wallet verification is required.''),
        (c ''status'' \<notin> set (map Str (referral_transitions (to_str (p ''status'')))), ''Referral transition requires reconciliation.'')]) (\<lambda>_.
      bindR (changed_if (is_paid prior) prior claim) (\<lambda>changed.
      bindR (guards [(changed, ''Paid referral claims are immutable.''),
        (p ''status'' = Str ''executing'' \<and> c ''status'' = Str ''wallet-verified''
          \<and> (truthy (p ''pendingSignature'') \<or> truthy (c ''pendingSignature'')), ''A signed referral transfer requires reconciliation.'')]) (\<lambda>_.
      bindR (anyR (\<lambda>(key, row). json_differs (oget payouts key) row) before1) (\<lambda>changed.
      bindR (guards [(changed, ''Recorded referral payouts are immutable.'')]) (\<lambda>_.
      bindR (anyR (payout_bad i claim) (filter (\<lambda>(key, _). key \<notin> set (map fst before1)) (obj_entries payouts))) (\<lambda>bad.
        guards [(bad, ''Referral payout must exactly match its paid claim.''),
          (\<not> is_paid prior \<and> is_paid claim \<and> (\<not> truthy (oget payouts canonical) \<or> before1 \<noteq> []),
            ''Paid referral status needs a new atomic payout and no previous payout.''),
          (\<not> is_paid claim \<and> (\<not> jeq (c ''payoutId'') (p ''payoutId'') \<or> \<not> jeq (c ''payoutSignature'') (p ''payoutSignature'')),
            ''Unpaid referral claims cannot acquire payout receipts.'')]))))))))"

definition updateReferralClaimState :: "string \<Rightarrow> jsobj \<Rightarrow> claim_store \<Rightarrow> claim_store res" where
  "updateReferralClaimState i left st =
     bindR (scopedReferralClaimState st i) (\<lambda>scoped.
     bindR (mutateReferralClaimState i scoped left) (\<lambda>_.
       Inr (st\<lparr>cs_referralClaims := oset i (oget (oget (Obj left) ''referralClaims'') i) (cs_referralClaims st),
         cs_payouts := put_if (''referral:'' @ i) (oget (oget (Obj left) ''payouts'') (''referral:'' @ i)) (cs_payouts st)\<rparr>)))"

text \<open>The transitions that the wallet signature and a failed transfer make.\<close>

definition verifyReferralClaim :: "(string \<Rightarrow> jsnum) \<Rightarrow> int \<Rightarrow> jsval \<Rightarrow> jsval \<Rightarrow> jsval \<Rightarrow> jsval res" where
  "verifyReferralClaim other nowMs current observed publicKey =
     (if \<not> truthy current \<or> fields_differ [''id'', ''nonce'', ''recipientWallet'', ''amount'', ''asset'', ''expiresAt''] current observed
        then throw ''Referral claim changed. Refresh before signing again.''
      else if oget current ''status'' \<in> {Str ''paid'', Str ''wallet-verified''} then Inr current
      else if oget current ''status'' \<in> {Str ''executing'', Str ''verification-pending'', Str ''failed''}
        then throw ''The previous payout needs reconciliation before another attempt.''
      else if truthy (oget current ''expiresAt'') \<and> nless (date_parse other (oget current ''expiresAt'')) (nint nowMs)
        then throw ''Referral claim has expired.''
      else if \<not> jeq (oget current ''recipientWallet'') publicKey then throw ''Referral recipient wallet does not match.''
      else Inr (spread current [(''publicKey'', publicKey), (''status'', Str ''wallet-verified''), (''verifiedAt'', Str (to_iso nowMs))]))"

definition pendingReferralClaim :: "int \<Rightarrow> jsval \<Rightarrow> jsval \<Rightarrow> jsval res" where
  "pendingReferralClaim nowMs current error =
     (if oget current ''status'' \<noteq> Str ''executing'' then Inr current
      else bindR (jget error ''message'') (\<lambda>message.
        Inr (spread current [(''status'', Str ''verification-pending''),
          (''pendingSignature'', jor (oget current ''pendingSignature'') (oget error ''pendingSignature'')),
          (''failureReason'', Str (to_str (jor message error))), (''lastAttemptAt'', Str (to_iso nowMs))])))"

section \<open>All updates\<close>

text \<open>Any updates, of any claims, with whatever the mutators leave behind.\<close>

inductive claim_op :: "claim_store \<Rightarrow> claim_store \<Rightarrow> bool" where
  Claim: "updateClaimState i left st = Inr st1 \<Longrightarrow> claim_op st st1"
| Referral: "updateReferralClaimState i left st = Inr st1 \<Longrightarrow> claim_op st st1"

inductive_cases claim_opE: "claim_op st st1"

text \<open>A payout under the key of a claim belongs to the claim.\<close>

definition payouts_named :: "claim_store \<Rightarrow> bool" where
  "payouts_named st \<longleftrightarrow> distinct (map fst (cs_payouts st))
     \<and> (\<forall>i row. map_of (cs_payouts st) (''x:'' @ i) = Some row \<longrightarrow> truthy row \<and> oget row ''claimId'' = Str i)"

definition payouts_kept :: "claim_store \<Rightarrow> claim_store \<Rightarrow> bool" where
  "payouts_kept st st1 \<longleftrightarrow> (\<forall>key row. map_of (cs_payouts st) key = Some row \<longrightarrow>
     (\<exists>row1. map_of (cs_payouts st1) key = Some row1 \<and> json row1 = json row))"

section \<open>Lemmas\<close>

lemma anyR_False: "anyR f xs = Inr False \<longleftrightarrow> (\<forall>x \<in> set xs. f x = Inr False)"
  by (induction xs) (auto simp: bindR_Inr_iff split: if_splits)

lemma map_of_filter_keys:
  "distinct (map fst m) \<Longrightarrow> map_of (filter (\<lambda>(k, v). P k v) m) k =
    (case map_of m k of Some v \<Rightarrow> if P k v then Some v else None | None \<Rightarrow> None)"
  by (induction m) (auto split: option.splits simp: map_of_eq_None_iff image_iff)

lemma payouts_where_filter:
  assumes "payouts_where P m = Inr rows"
  shows "rows = filter (\<lambda>(key, row). P key (oget row ''claimId'')) m"
proof -
  from assms obtain parts where "list_all2 (\<lambda>x y. (case x of (key, row) \<Rightarrow> bindR (jget row ''claimId'')
      (\<lambda>claim. Inr (if P key claim then [(key, row)] else []))) = Inr y) m parts" "rows = concat parts"
    by (auto simp: payouts_where_def bindR_Inr_iff mapR_Inr_list_all2)
  then show ?thesis
    by (induction arbitrary: rows rule: list_all2_induct) (auto simp: jget_def bindR_Inr_iff split: if_splits)
qed

lemma keep_if_map [simp]: "map_of (keep_if i v) i = (if truthy v then Some v else None)"
  by (simp add: keep_if_def)

lemma keep_if_get: "oget (Obj (keep_if i v)) i = (if truthy v then v else Undef)"
  by (simp add: keep_if_def)

lemma field_stored: "map_of m i = Some v \<Longrightarrow> field m (Str i) = v"
  by (simp add: field_def)

lemma field_truthy: "truthy (field m (Str i)) \<Longrightarrow> map_of m i = Some (field m (Str i))"
  by (auto simp: field_def split: option.splits)

lemma put_if_stored:
  "map_of (put_if key v m) k = (if k = key \<and> truthy v then Some v else map_of m k)"
  by (simp add: put_if_def)

lemma fields_same: "\<not> fields_differ keys a b \<Longrightarrow> k \<in> set keys \<Longrightarrow> oget a k = oget b k"
  by (auto simp: fields_differ_def list_ex_iff jeq_def)

lemma changed_if_False: "changed_if c a b = Inr False \<Longrightarrow> c \<Longrightarrow> json b = json a"
  by (simp add: changed_if_def json_same)

lemma payouts_kept_refl: "payouts_kept st st"
  by (simp add: payouts_kept_def)

lemma payouts_kept_trans: "payouts_kept st st1 \<Longrightarrow> payouts_kept st1 st2 \<Longrightarrow> payouts_kept st st2"
  unfolding payouts_kept_def by metis

lemma payouts_kept_put:
  assumes "cs_payouts st1 = put_if key v (cs_payouts st)"
    and "\<And>row. map_of (cs_payouts st) key = Some row \<Longrightarrow> truthy v \<Longrightarrow> json v = json row"
  shows "payouts_kept st st1"
  using assms by (simp add: payouts_kept_def put_if_stored)

section \<open>What an accepted update of a referral claim does\<close>

lemma obj_entries_get:
  "truthy (oget v k) \<Longrightarrow> k \<noteq> ''length'' \<Longrightarrow> (k, oget v k) \<in> set (obj_entries v)"
  by (cases v) (auto simp: obj_entries_def dest: map_of_SomeD split: option.splits)

lemma referral_scope:
  assumes "scopedReferralClaimState st i = Inr scoped"
  shows "oget (oget (Obj scoped) ''referralClaims'') i =
      (if truthy (field (cs_referralClaims st) (Str i)) then field (cs_referralClaims st) (Str i) else Undef)"
    and "obj_entries (oget (Obj scoped) ''payouts'') =
      filter (\<lambda>(key, row). jeq (oget row ''claimId'') (Str i) \<or> key = ''referral:'' @ i) (cs_payouts st)"
  using assms
  by (auto simp: scopedReferralClaimState_def bindR_Inr_iff keep_if_get obj_entries_def dest!: payouts_where_filter)

lemma referral_update:
  assumes "updateReferralClaimState i left st = Inr st1" and "payouts_named st"
  obtains prior claim where
    "map_of (cs_referralClaims st) i = Some prior" "cs_referralClaims st1 = oset i claim (cs_referralClaims st)"
    "cs_claims st1 = cs_claims st" "\<forall>k \<in> set referral_entitlement. oget claim k = oget prior k"
    "is_paid prior \<Longrightarrow> is_paid claim \<and> json claim = json prior"
    "\<And>key row. map_of (cs_payouts st1) key = Some row \<Longrightarrow> map_of (cs_payouts st) key = Some row \<or> key = ''referral:'' @ i"
    "payouts_kept st st1" "distinct (map fst (cs_payouts st1))"
    "\<not> is_paid prior \<Longrightarrow> is_paid claim \<Longrightarrow> map_of (cs_payouts st) (''referral:'' @ i) = None
      \<and> (\<exists>row. map_of (cs_payouts st1) (''referral:'' @ i) = Some row \<and> payout_matches i claim row)"
proof -
  let ?key = "''referral:'' @ i"
  from assms(1) obtain scoped where sc: "scopedReferralClaimState st i = Inr scoped"
    and mu: "mutateReferralClaimState i scoped left = Inr ()"
    and st1: "st1 = st\<lparr>cs_referralClaims := oset i (oget (oget (Obj left) ''referralClaims'') i) (cs_referralClaims st),
      cs_payouts := put_if ?key (oget (oget (Obj left) ''payouts'') ?key) (cs_payouts st)\<rparr>"
    by (auto simp: updateReferralClaimState_def bindR_Inr_iff)
  define prior where "prior = oget (oget (Obj scoped) ''referralClaims'') i"
  define claim where "claim = oget (oget (Obj left) ''referralClaims'') i"
  define payouts where "payouts = oget (Obj left) ''payouts''"
  define before1 where "before1 = obj_entries (oget (Obj scoped) ''payouts'')"
  have ok: "truthy prior" "\<not> fields_differ referral_entitlement claim prior"
      "oget claim ''status'' \<in> set (map Str (referral_transitions (to_str (oget prior ''status''))))"
      "changed_if (is_paid prior) prior claim = Inr False"
      "anyR (\<lambda>(key, row). json_differs (oget payouts key) row) before1 = Inr False"
      "anyR (payout_bad i claim) (filter (\<lambda>(key, _). key \<notin> set (map fst before1)) (obj_entries payouts)) = Inr False"
      "\<not> (\<not> is_paid prior \<and> is_paid claim \<and> (\<not> truthy (oget payouts ?key) \<or> before1 \<noteq> []))"
    using mu
    unfolding mutateReferralClaimState_def Let_def prior_def [symmetric] claim_def [symmetric] payouts_def [symmetric]
      before1_def [symmetric]
    by (simp_all only: bindR_Inr_iff [where f = "\<lambda>_. _"] flag_run guards_run simp_thms) blast+
  note scope = referral_scope [OF sc, folded prior_def before1_def]
  have p: "map_of (cs_referralClaims st) i = Some prior" using ok(1) scope(1) field_truthy by (auto split: if_splits)
  have before2: "map_of before1 ?key = map_of (cs_payouts st) ?key"
    using assms(2) unfolding scope(2) by (subst map_of_filter_keys) (auto simp: payouts_named_def split: option.splits)
  have kept: "json (oget payouts ?key) = json row" if "map_of (cs_payouts st) ?key = Some row" for row
  proof -
    have "(?key, row) \<in> set before1" using that before2 map_of_SomeD by metis
    then have "json_differs (oget payouts ?key) row = Inr False" using ok(5) unfolding anyR_False by (metis case_prod_conv)
    then show ?thesis by (simp add: json_same)
  qed
  have fresh: "map_of (cs_payouts st) ?key = None \<and> payout_matches i claim (oget payouts ?key) \<and> truthy (oget payouts ?key)"
    if "\<not> is_paid prior" "is_paid claim"
  proof -
    have t: "truthy (oget payouts ?key)" and e: "before1 = []" using ok(7) that by auto
    have "(?key, oget payouts ?key) \<in> set (obj_entries payouts)" using t by (rule obj_entries_get) simp
    then have "payout_bad i claim (?key, oget payouts ?key) = Inr False" using ok(6) e by (auto simp: anyR_False)
    then show ?thesis using t e before2 by (auto simp: payout_bad_def bindR_Inr_iff)
  qed
  show thesis
  proof (rule that [OF p])
    show "cs_referralClaims st1 = oset i claim (cs_referralClaims st)" "cs_claims st1 = cs_claims st"
      by (simp_all add: st1 claim_def)
    show "\<forall>k \<in> set referral_entitlement. oget claim k = oget prior k" using fields_same [OF ok(2)] by blast
    show "is_paid claim \<and> json claim = json prior" if "is_paid prior"
      using ok(3) changed_if_False [OF ok(4) that] that by (auto simp: is_paid_def referral_transitions_def)
    have "cs_payouts st1 = put_if ?key (oget payouts ?key) (cs_payouts st)" by (simp add: st1 payouts_def)
    then show "payouts_kept st st1" using kept by (rule payouts_kept_put)
    show "distinct (map fst (cs_payouts st1))" using assms(2) by (simp add: st1 put_if_def payouts_named_def)
    show "map_of (cs_payouts st) key = Some row \<or> key = ?key" if "map_of (cs_payouts st1) key = Some row" for key row
      using that by (auto simp: st1 put_if_stored split: if_splits)
    show "map_of (cs_payouts st) ?key = None \<and> (\<exists>row. map_of (cs_payouts st1) ?key = Some row \<and> payout_matches i claim row)"
      if "\<not> is_paid prior" "is_paid claim"
      using fresh [OF that] by (simp add: st1 put_if_stored payouts_def)
  qed
qed

section \<open>What an accepted update of a claim of an X account does\<close>

lemma claim_scope:
  assumes "scopedClaimState st i = Inr scoped"
  shows "oget (oget (Obj scoped) ''claims'') i =
      (if truthy (field (cs_claims st) (Str i)) then field (cs_claims st) (Str i) else Undef)"
    and "oget (Obj scoped) ''payouts'' = Obj (filter (\<lambda>(key, row). jeq (oget row ''claimId'') (Str i)) (cs_payouts st))"
  using assms
  by (auto simp: scopedClaimState_def Let_def bindR_Inr_iff keep_if_get dest!: payouts_where_filter)

lemma claim_update:
  assumes "updateClaimState i left st = Inr st1" and named: "payouts_named st"
  obtains claim payout where
    "cs_claims st1 = put_if i claim (cs_claims st)" "cs_payouts st1 = put_if (''x:'' @ i) payout (cs_payouts st)"
    "cs_referralClaims st1 = cs_referralClaims st"
    "\<And>c. map_of (cs_claims st) i = Some c \<Longrightarrow> truthy c \<Longrightarrow> truthy claim
      \<and> (\<forall>k \<in> set claim_entitlement. oget claim k = oget c k)
      \<and> (truthy (oget c ''publicKey'') \<longrightarrow> oget claim ''publicKey'' = oget c ''publicKey'')
      \<and> (is_paid c \<longrightarrow> json claim = json c)
      \<and> (is_paid claim \<longrightarrow> is_paid c \<or> truthy payout)"
    "truthy payout \<Longrightarrow> oget payout ''claimId'' = Str i"
    "payouts_kept st st1"
proof -
  let ?key = "''x:'' @ i"
  from assms(1) obtain scoped where sc: "scopedClaimState st i = Inr scoped"
    and mu: "mutateClaimState i scoped left = Inr ()"
    and st1: "st1 = st\<lparr>cs_claims := put_if i (oget (oget (Obj left) ''claims'') i) (cs_claims st),
      cs_payouts := put_if ?key (oget (oget (Obj left) ''payouts'') ?key) (cs_payouts st)\<rparr>"
    by (auto simp: updateClaimState_def bindR_Inr_iff)
  define prior where "prior = oget (oget (Obj scoped) ''claims'') i"
  define claim where "claim = oget (oget (Obj left) ''claims'') i"
  define payout where "payout = oget (oget (Obj left) ''payouts'') ?key"
  define recorded where "recorded = oget (oget (Obj scoped) ''payouts'') ?key"
  have ok: "\<not> (truthy prior \<and> \<not> truthy claim)" "\<not> (truthy prior \<and> fields_differ claim_entitlement prior claim)"
      "\<not> (truthy (oget prior ''publicKey'') \<and> \<not> jeq (oget prior ''publicKey'') (oget claim ''publicKey''))"
      "changed_if (is_paid prior) prior claim = Inr False"
      "\<not> (truthy payout \<and> (\<not> jeq (oget payout ''id'') (Str ?key) \<or> \<not> jeq (oget payout ''claimId'') (Str i)))"
      "\<not> (is_paid claim \<and> \<not> is_paid prior \<and> \<not> truthy payout)"
      "changed_if (truthy recorded) recorded payout = Inr False"
    using mu
    unfolding mutateClaimState_def Let_def prior_def [symmetric] claim_def [symmetric] payout_def [symmetric]
      recorded_def [symmetric]
    by (simp_all only: bindR_Inr_iff [where r = "claim_scope_ok _ _ _ _"] flag_run guards_run simp_thms) blast+
  note scope = claim_scope [OF sc, folded prior_def]
  have recorded: "recorded = row \<and> truthy row" if "map_of (cs_payouts st) ?key = Some row" for row
  proof -
    have "truthy row" "oget row ''claimId'' = Str i" "distinct (map fst (cs_payouts st))"
      using that named by (auto simp: payouts_named_def)
    then show ?thesis unfolding recorded_def scope(2) using that by (simp add: map_of_filter_keys jeq_def)
  qed
  show thesis
  proof (rule that)
    show "cs_claims st1 = put_if i claim (cs_claims st)" "cs_referralClaims st1 = cs_referralClaims st"
      by (simp_all add: st1 claim_def)
    show payouts: "cs_payouts st1 = put_if ?key payout (cs_payouts st)" by (simp add: st1 payout_def)
    show "oget payout ''claimId'' = Str i" if "truthy payout" using ok(5) that by (simp add: jeq_def)
    show "payouts_kept st st1"
      using payouts
    proof (rule payouts_kept_put)
      show "json payout = json row" if "map_of (cs_payouts st) ?key = Some row" for row
        using recorded [OF that] changed_if_False [OF ok(7)] by simp
    qed
    fix c assume c: "map_of (cs_claims st) i = Some c" "truthy c"
    then have "prior = c" by (simp add: scope(1) field_stored)
    then show "truthy claim \<and> (\<forall>k \<in> set claim_entitlement. oget claim k = oget c k)
      \<and> (truthy (oget c ''publicKey'') \<longrightarrow> oget claim ''publicKey'' = oget c ''publicKey'')
      \<and> (is_paid c \<longrightarrow> json claim = json c) \<and> (is_paid claim \<longrightarrow> is_paid c \<or> truthy payout)"
      using ok c fields_same [of claim_entitlement c claim] changed_if_False [OF ok(4)] by (auto simp: jeq_def)
  qed
qed

section \<open>Runs of updates\<close>

definition claim_kept :: "string \<Rightarrow> claim_store \<Rightarrow> claim_store \<Rightarrow> bool" where
  "claim_kept i st st1 \<longleftrightarrow> (\<forall>c. map_of (cs_claims st) i = Some c \<longrightarrow> truthy c \<longrightarrow>
     (\<exists>c1. map_of (cs_claims st1) i = Some c1 \<and> truthy c1 \<and> (\<forall>k \<in> set claim_entitlement. oget c1 k = oget c k)
       \<and> (truthy (oget c ''publicKey'') \<longrightarrow> oget c1 ''publicKey'' = oget c ''publicKey'')))"

definition referral_kept :: "string \<Rightarrow> claim_store \<Rightarrow> claim_store \<Rightarrow> bool" where
  "referral_kept i st st1 \<longleftrightarrow> (\<forall>c. map_of (cs_referralClaims st) i = Some c \<longrightarrow>
     (\<exists>c1. map_of (cs_referralClaims st1) i = Some c1 \<and> (\<forall>k \<in> set referral_entitlement. oget c1 k = oget c k)
       \<and> (is_paid c \<longrightarrow> is_paid c1 \<and> json c1 = json c)
       \<and> (is_paid c1 \<longrightarrow> is_paid c \<or> map_of (cs_payouts st) (''referral:'' @ i) = None
           \<and> (\<exists>row row1. map_of (cs_payouts st1) (''referral:'' @ i) = Some row1 \<and> json row1 = json row
               \<and> oget row ''to'' = oget c ''recipientWallet'' \<and> oget row ''amountLamports'' = claim_lamports c
               \<and> oget row ''recipientDeltaLamports'' = claim_lamports c \<and> oget row ''finalized'' = Bool True))))"

definition ledger_kept :: "claim_store \<Rightarrow> claim_store \<Rightarrow> bool" where
  "ledger_kept st st1 \<longleftrightarrow> payouts_named st1 \<and> payouts_kept st st1 \<and> (\<forall>i. claim_kept i st st1 \<and> referral_kept i st st1)"

lemma kept_missing: "payouts_kept st st1 \<Longrightarrow> map_of (cs_payouts st1) key = None \<Longrightarrow> map_of (cs_payouts st) key = None"
  unfolding payouts_kept_def by (metis not_None_eq)

lemma claim_kept_trans: "claim_kept i st st1 \<Longrightarrow> claim_kept i st1 st2 \<Longrightarrow> claim_kept i st st2"
  unfolding claim_kept_def by (smt (verit))

lemma claim_lamports_cong: "oget c ''amount'' = oget d ''amount'' \<Longrightarrow> claim_lamports c = claim_lamports d"
  by (simp add: claim_lamports_def)

lemma referral_kept_trans:
  assumes "referral_kept i st st1" and "referral_kept i st1 st2" and "payouts_kept st st1" and "payouts_kept st1 st2"
  shows "referral_kept i st st2"
  unfolding referral_kept_def
proof (intro allI impI)
  let ?key = "''referral:'' @ i"
  fix c assume "map_of (cs_referralClaims st) i = Some c"
  with assms(1) obtain c1 where c1: "map_of (cs_referralClaims st1) i = Some c1" "\<forall>k \<in> set referral_entitlement. oget c1 k = oget c k"
    "is_paid c \<Longrightarrow> is_paid c1 \<and> json c1 = json c"
    "is_paid c1 \<Longrightarrow> is_paid c \<or> map_of (cs_payouts st) ?key = None
      \<and> (\<exists>row row1. map_of (cs_payouts st1) ?key = Some row1 \<and> json row1 = json row
          \<and> oget row ''to'' = oget c ''recipientWallet'' \<and> oget row ''amountLamports'' = claim_lamports c
          \<and> oget row ''recipientDeltaLamports'' = claim_lamports c \<and> oget row ''finalized'' = Bool True)"
    unfolding referral_kept_def by blast
  with assms(2) obtain c2 where c2: "map_of (cs_referralClaims st2) i = Some c2" "\<forall>k \<in> set referral_entitlement. oget c2 k = oget c1 k"
    "is_paid c1 \<Longrightarrow> is_paid c2 \<and> json c2 = json c1"
    "is_paid c2 \<Longrightarrow> is_paid c1 \<or> map_of (cs_payouts st1) ?key = None
      \<and> (\<exists>row row1. map_of (cs_payouts st2) ?key = Some row1 \<and> json row1 = json row
          \<and> oget row ''to'' = oget c1 ''recipientWallet'' \<and> oget row ''amountLamports'' = claim_lamports c1
          \<and> oget row ''recipientDeltaLamports'' = claim_lamports c1 \<and> oget row ''finalized'' = Bool True)"
    unfolding referral_kept_def by blast
  have same: "oget c1 ''recipientWallet'' = oget c ''recipientWallet''" "claim_lamports c1 = claim_lamports c"
    using c1(2) by (auto simp: referral_entitlement_def intro: claim_lamports_cong)
  have "is_paid c \<or> map_of (cs_payouts st) ?key = None
      \<and> (\<exists>row row1. map_of (cs_payouts st2) ?key = Some row1 \<and> json row1 = json row
          \<and> oget row ''to'' = oget c ''recipientWallet'' \<and> oget row ''amountLamports'' = claim_lamports c
          \<and> oget row ''recipientDeltaLamports'' = claim_lamports c \<and> oget row ''finalized'' = Bool True)" if paid: "is_paid c2"
  proof (cases "is_paid c1")
    case True
    with c1(4) show ?thesis using assms(4) [unfolded payouts_kept_def, THEN spec [of _ ?key]] by metis
  next
    case False
    with c2(4) [OF paid] same kept_missing [OF assms(3), of ?key] show ?thesis by metis
  qed
  then show "\<exists>c1. map_of (cs_referralClaims st2) i = Some c1 \<and> (\<forall>k \<in> set referral_entitlement. oget c1 k = oget c k)
      \<and> (is_paid c \<longrightarrow> is_paid c1 \<and> json c1 = json c)
      \<and> (is_paid c1 \<longrightarrow> is_paid c \<or> map_of (cs_payouts st) ?key = None
        \<and> (\<exists>row row1. map_of (cs_payouts st2) ?key = Some row1 \<and> json row1 = json row
          \<and> oget row ''to'' = oget c ''recipientWallet'' \<and> oget row ''amountLamports'' = claim_lamports c
          \<and> oget row ''recipientDeltaLamports'' = claim_lamports c \<and> oget row ''finalized'' = Bool True))"
    using c1 c2 by (intro exI [of _ c2]) auto
qed

lemma claim_kept_same: "cs_claims st1 = cs_claims st \<Longrightarrow> claim_kept i st st1"
  by (simp add: claim_kept_def)

lemma referral_kept_same: "cs_referralClaims st1 = cs_referralClaims st \<Longrightarrow> referral_kept i st st1"
  by (simp add: referral_kept_def)

lemma matched_payout:
  assumes "payout_matches i claim row" and "oget claim ''recipientWallet'' = oget c ''recipientWallet''"
    and "oget claim ''amount'' = oget c ''amount''"
  shows "oget row ''to'' = oget c ''recipientWallet'' \<and> oget row ''amountLamports'' = claim_lamports c
    \<and> oget row ''recipientDeltaLamports'' = claim_lamports c \<and> oget row ''finalized'' = Bool True"
  using assms claim_lamports_cong [OF assms(3)] by (simp add: payout_matches_def Let_def jeq_def)

lemma referral_op_kept:
  assumes "updateReferralClaimState i left st = Inr st1" and "payouts_named st"
  shows "ledger_kept st st1"
  using assms
proof (rule referral_update)
  fix prior claim
  assume r: "map_of (cs_referralClaims st) i = Some prior" "cs_referralClaims st1 = oset i claim (cs_referralClaims st)"
    "cs_claims st1 = cs_claims st" "\<forall>k \<in> set referral_entitlement. oget claim k = oget prior k"
    "is_paid prior \<Longrightarrow> is_paid claim \<and> json claim = json prior"
    "\<And>key row. map_of (cs_payouts st1) key = Some row \<Longrightarrow> map_of (cs_payouts st) key = Some row \<or> key = ''referral:'' @ i"
    "payouts_kept st st1" "distinct (map fst (cs_payouts st1))"
    "\<not> is_paid prior \<Longrightarrow> is_paid claim \<Longrightarrow> map_of (cs_payouts st) (''referral:'' @ i) = None
      \<and> (\<exists>row. map_of (cs_payouts st1) (''referral:'' @ i) = Some row \<and> payout_matches i claim row)"
  have named: "payouts_named st1"
    unfolding payouts_named_def
  proof (intro conjI allI impI)
    fix j row assume "map_of (cs_payouts st1) (''x:'' @ j) = Some row"
    with r(6) [of "''x:'' @ j" row] have "map_of (cs_payouts st) (''x:'' @ j) = Some row" by simp
    then show "truthy row" "oget row ''claimId'' = Str j" using assms(2) by (simp_all add: payouts_named_def)
  qed (rule r(8))
  have "referral_kept j st st1" for j
  proof (cases "j = i")
    case True
    have "oget claim ''recipientWallet'' = oget prior ''recipientWallet''" "oget claim ''amount'' = oget prior ''amount''"
      using r(4) by (simp_all add: referral_entitlement_def)
    from matched_payout [OF _ this] show ?thesis
      using True r by (simp add: referral_kept_def) blast
  qed (simp add: referral_kept_def r(2))
  then show ?thesis using named r(7) claim_kept_same [OF r(3)] by (simp add: ledger_kept_def)
qed

lemma claim_op_kept:
  assumes "updateClaimState i left st = Inr st1" and "payouts_named st"
  shows "ledger_kept st st1"
  using assms
proof (rule claim_update)
  fix claim payout
  assume r: "cs_claims st1 = put_if i claim (cs_claims st)" "cs_payouts st1 = put_if (''x:'' @ i) payout (cs_payouts st)"
    "cs_referralClaims st1 = cs_referralClaims st"
    "\<And>c. map_of (cs_claims st) i = Some c \<Longrightarrow> truthy c \<Longrightarrow> truthy claim
      \<and> (\<forall>k \<in> set claim_entitlement. oget claim k = oget c k)
      \<and> (truthy (oget c ''publicKey'') \<longrightarrow> oget claim ''publicKey'' = oget c ''publicKey'')
      \<and> (is_paid c \<longrightarrow> json claim = json c)
      \<and> (is_paid claim \<longrightarrow> is_paid c \<or> truthy payout)"
    "truthy payout \<Longrightarrow> oget payout ''claimId'' = Str i" "payouts_kept st st1"
  have "truthy row \<and> oget row ''claimId'' = Str j" if "map_of (cs_payouts st1) (''x:'' @ j) = Some row" for j row
    using that assms(2) r(5) by (auto simp: r(2) put_if_stored payouts_named_def split: if_splits)
  moreover have "distinct (map fst (cs_payouts st1))" using assms(2) by (simp add: r(2) put_if_def payouts_named_def)
  ultimately have "payouts_named st1" unfolding payouts_named_def by blast
  moreover have "claim_kept j st st1" for j
    using r(4) by (auto simp: claim_kept_def r(1) put_if_stored)
  ultimately show ?thesis using r(6) referral_kept_same [OF r(3)] by (simp add: ledger_kept_def)
qed

text \<open>Any run of updates keeps what was in the ledger when it began.\<close>

interpretation claim_run: step_invariant "\<lambda>st. st = st0 \<and> payouts_named st0" claim_op "ledger_kept st0" for st0
proof unfold_locales
  show "st = st0 \<and> payouts_named st0 \<Longrightarrow> ledger_kept st0 st" for st
    by (simp add: ledger_kept_def payouts_kept_refl claim_kept_same referral_kept_same)
  show "ledger_kept st0 st2" if "ledger_kept st0 st1" "claim_op st1 st2" for st1 st2
  proof -
    have "ledger_kept st1 st2"
      using that by (auto elim!: claim_opE simp: ledger_kept_def [of st0] intro: claim_op_kept referral_op_kept)
    with that(1) show ?thesis
      unfolding ledger_kept_def using payouts_kept_trans claim_kept_trans referral_kept_trans by metis
  qed
qed

section \<open>Properties\<close>

text \<open>
  C4.  Claims settle once, whatever the updates of the ledger try to write and in whatever order they
  come.  A recorded payout keeps its text.  A referral claim keeps its entitlement (wallet, amount,
  level and the rest), a paid one keeps its text, and one that becomes paid had no payout before and has
  one payout then, finalized, to the entitled wallet and of exactly the lamports of its amount.  A claim
  of an X account keeps its identity, obligation and recipient, and its wallet once it has one.
\<close>

theorem claims_settle_once:
  assumes "claim_op\<^sup>*\<^sup>* st st1" and "payouts_named st"
  shows "payouts_kept st st1 \<and> referral_kept i st st1 \<and> claim_kept j st st1"
  using claim_run.reachable_inv [of st st st1] assms by (simp add: ledger_kept_def)

definition sample_referral :: "(string \<times> jsval) list \<Rightarrow> jsval" where
  "sample_referral rest = Obj ([(''id'', Str ''r1''), (''settlementSignature'', Str ''s''), (''level'', Num (nint 1)),
     (''recipientWallet'', Str ''w''), (''amount'', Num (nint 2)), (''asset'', Str ''SOL''), (''nonce'', Str ''n''),
     (''expiresAt'', Str ''e''), (''createdAt'', Str ''c''), (''publicKey'', Str ''w''), (''pendingSignature'', Str ''t'')] @ rest)"

definition sample_ledger :: claim_store where
  "sample_ledger = \<lparr>cs_claims = [], cs_obligations = [], cs_collections = [], cs_launches = [],
     cs_payouts = [(''x:c1'', Obj [(''claimId'', Str ''c1'')])],
     cs_referralClaims = [(''r1'', sample_referral [(''status'', Str ''executing'')])]\<rparr>"

definition sample_settled :: jsobj where
  "sample_settled =
     [(''referralClaims'', Obj [(''r1'', sample_referral [(''status'', Str ''paid''), (''payoutId'', Str ''referral:r1''),
         (''payoutSignature'', Str ''t''), (''paidAt'', Str ''d'')])]),
      (''payouts'', Obj [(''referral:r1'', Obj [(''id'', Str ''referral:r1''), (''claimId'', Str ''r1''), (''status'', Str ''paid''),
         (''signature'', Str ''t''), (''to'', Str ''w''), (''amountSol'', Num (nint 2)), (''paidAt'', Str ''d''),
         (''finalized'', Bool True), (''amountLamports'', Num (nint 2000000000)),
         (''recipientDeltaLamports'', Num (nint 2000000000))])])]"

definition settled_ledger :: claim_store where
  "settled_ledger = projr (updateReferralClaimState ''r1'' sample_settled sample_ledger)"

lemma sample_settles: "\<not> isl (updateReferralClaimState ''r1'' sample_settled sample_ledger)"
  by code_simp

theorem claims_settle_once_witness:
  "payouts_kept sample_ledger settled_ledger \<and> referral_kept ''r1'' sample_ledger settled_ledger
    \<and> claim_kept ''c1'' sample_ledger settled_ledger \<and> map fst (cs_payouts settled_ledger) = [''x:c1'', ''referral:r1'']"
proof -
  have "claim_op sample_ledger settled_ledger"
    using sample_settles by (intro claim_op.Referral [of "''r1''" sample_settled]) (simp add: settled_ledger_def)
  moreover have "payouts_named sample_ledger"
    by (auto simp: payouts_named_def sample_ledger_def)
  moreover have "map fst (cs_payouts settled_ledger) = [''x:c1'', ''referral:r1'']" by code_simp
  ultimately show ?thesis using claims_settle_once [of sample_ledger settled_ledger "''r1''" "''c1''"] by blast
qed

end
