(* ===== verification/Payouts.thy ===== *)
theory Payouts
  imports JsConv
begin

text \<open>
  Coverage of recorded payouts by verified receipts (\<open>server/payout-coverage.mjs\<close>).  A receipt is known
  under a transaction and under a payment account; receipts that share a name are the same payout.  The
  code joins the names in a forest of parents with path compression.  Its recursive lookup is a partial
  function, and that it returns is proved.
\<close>

section \<open>The forest\<close>

type_synonym parents = "(string, string) omap"

partial_function (option) root :: "string \<Rightarrow> parents \<Rightarrow> (string \<times> parents) option" where
  "root key m =
     (let m1 = (if map_of m key = None then oset key key m else m); p = the (map_of m1 key) in
      if p = key then Some (key, m1)
      else Option.bind (root p m1) (\<lambda>(r, m2). Some (r, oset key r m2)))"

text \<open>\<open>parents.set(root(key), root(first))\<close>.\<close>

definition link :: "string \<Rightarrow> string \<Rightarrow> parents \<Rightarrow> parents option" where
  "link key first m =
     Option.bind (root key m) (\<lambda>(a, m1). Option.bind (root first m1) (\<lambda>(b, m2). Some (oset a b m2)))"

fun link_all :: "string \<Rightarrow> string list \<Rightarrow> parents \<Rightarrow> parents option" where
  "link_all first [] m = Some m"
| "link_all first (key # keys) m = Option.bind (link key first m) (link_all first keys)"

fun link_rows :: "string list list \<Rightarrow> parents \<Rightarrow> parents option" where
  "link_rows [] m = Some m"
| "link_rows (keys # rows) m = Option.bind (link_all (hd keys) keys m) (link_rows rows)"

section \<open>Receipts\<close>

text \<open>The names of a receipt; a receipt without a recipient has none.\<close>

definition aliases :: "jsval \<Rightarrow> string list res" where
  "aliases row =
     bindR (jget row ''to'') (\<lambda>to.
     let recipient = to_str (jor to (oget row ''recipient''));
         named = (\<lambda>P prefix k. if P (to_str (jor (oget row k) (Str []))) then [prefix @ to_str (oget row k) @ '':'' @ recipient] else []) in
     Inr (if \<not> is_address (to_str (jor (jor to (oget row ''recipient'')) (Str []))) then []
       else named is_signature ''tx:'' ''signature'' @ named is_address ''account:'' ''paymentAccount''))"

definition PAYOUT_COVERAGE_SCOPE :: string where
  "PAYOUT_COVERAGE_SCOPE = ''v3-sol-recipient-receipts''"

record coverage =
  cov_scope :: string
  cov_status :: string
  cov_recorded :: "int option"
  cov_verified :: "int option"
  cov_reason :: "string option"
  cov_total :: "string option"

text \<open>\<open>new Set(...)\<close> of the roots of the recorded receipts.\<close>

fun root_set :: "string list list \<Rightarrow> string list \<Rightarrow> parents \<Rightarrow> (string list \<times> parents) option" where
  "root_set [] seen m = Some (seen, m)"
| "root_set (keys # rows) seen m =
     (if keys = [] then root_set rows seen m
      else Option.bind (root (hd keys) m) (\<lambda>(r, m1). root_set rows (if r \<in> set seen then seen else seen @ [r]) m1))"

text \<open>The loop over the verified receipts: \<open>reason\<close>, \<open>totalValid\<close> and \<open>amounts\<close>.\<close>

definition reason_or :: "string option \<Rightarrow> bool \<Rightarrow> string \<Rightarrow> string option" where
  "reason_or reason c message = (case reason of Some r \<Rightarrow> Some r | None \<Rightarrow> if c then Some message else None)"

fun tally_rows ::
  "string list \<Rightarrow> (string list \<times> string) list \<Rightarrow> string option \<Rightarrow> bool \<Rightarrow> (string, string) omap \<Rightarrow> parents
    \<Rightarrow> (string option \<times> bool \<times> (string, string) omap) option" where
  "tally_rows recordedKeys [] reason valid amounts m = Some (reason, valid, amounts)"
| "tally_rows recordedKeys ((keys, amount) # rows) reason valid amounts m =
     (if keys = [] then tally_rows recordedKeys rows reason False amounts m
      else Option.bind (root (hd keys) m) (\<lambda>(i, m1).
        let reason1 = reason_or reason (i \<notin> set recordedKeys) ''A verified receipt is outside the recorded payout scope.'';
            bad = (\<not> canon_dec amount \<or> (case map_of amounts i of None \<Rightarrow> False | Some a \<Rightarrow> a \<noteq> amount)) in
        tally_rows recordedKeys rows
          (reason_or reason1 bad ''Duplicate receipt evidence has conflicting or unavailable amounts.'')
          (valid \<and> \<not> bad) (oset i amount amounts) m1))"

definition coverage_of :: "string list \<Rightarrow> string option \<Rightarrow> bool \<Rightarrow> (string, string) omap \<Rightarrow> coverage" where
  "coverage_of recordedKeys reason valid amounts =
     \<lparr>cov_scope = PAYOUT_COVERAGE_SCOPE,
      cov_status = (if reason \<noteq> None then ''unavailable''
        else if length amounts = length recordedKeys then ''verified'' else ''partial''),
      cov_recorded = (if reason \<noteq> None then None else Some (int (length recordedKeys))),
      cov_verified = (if reason \<noteq> None then None else Some (int (length amounts))), cov_reason = reason,
      cov_total = (if valid then Some (show_int (sum_list (map (\<lambda>(_, a). parse_dec a) amounts))) else None)\<rparr>"

definition payout_rows :: "string list list \<Rightarrow> (string list \<times> string) list \<Rightarrow> coverage option" where
  "payout_rows recorded verified =
     (let inputs = recorded @ map fst verified;
          reason = (if [] \<in> set inputs then Some ''A recorded or verified receipt has no stable payout identity.'' else None) in
      Option.bind (link_rows inputs []) (\<lambda>m.
      Option.bind (root_set recorded [] m) (\<lambda>(recordedKeys, m1).
      Option.bind (tally_rows recordedKeys verified reason True [] m1) (\<lambda>(reason1, valid, amounts).
        Some (coverage_of recordedKeys reason1 valid amounts)))))"

definition payoutCoverage :: "jsval list \<Rightarrow> jsval list \<Rightarrow> coverage option res" where
  "payoutCoverage recorded verified =
     bindR (mapR aliases recorded) (\<lambda>recordedNames.
     bindR (mapR aliases verified) (\<lambda>verifiedNames.
       Inr (payout_rows recordedNames (zip verifiedNames (map (\<lambda>row. to_str (oget row ''amountLamports'')) verified)))))"

section \<open>The lookup returns\<close>

text \<open>
  A forest: \<open>f\<close> gives the root of a name and \<open>n\<close> decreases towards it.  A name not seen is its own root.
\<close>

definition edge :: "(string \<Rightarrow> string) \<Rightarrow> (string \<Rightarrow> nat) \<Rightarrow> parents \<Rightarrow> string \<Rightarrow> string \<Rightarrow> bool" where
  "edge f n m k p \<longleftrightarrow> map_of m p \<noteq> None \<and> f p = f k \<and> (p = k \<longrightarrow> f k = k) \<and> (p \<noteq> k \<longrightarrow> n p < n k)
     \<and> (f k \<noteq> k \<longrightarrow> n (f k) < n k) \<and> map_of m (f k) = Some (f k)"

definition forest :: "(string \<Rightarrow> string) \<Rightarrow> (string \<Rightarrow> nat) \<Rightarrow> parents \<Rightarrow> bool" where
  "forest f n m \<longleftrightarrow>
     (\<forall>k. map_of m k = None \<longrightarrow> f k = k) \<and> (\<forall>k p. map_of m k = Some p \<longrightarrow> edge f n m k p)"

definition names :: "parents \<Rightarrow> string set" where
  "names m = dom (map_of m)"

lemma forest_unseen: "forest f n m \<Longrightarrow> map_of m k = None \<Longrightarrow> f k = k"
  and forest_edge: "forest f n m \<Longrightarrow> map_of m k = Some p \<Longrightarrow> edge f n m k p"
  by (auto simp: forest_def)

lemma forestI:
  "(\<And>k. map_of m k = None \<Longrightarrow> f k = k) \<Longrightarrow> (\<And>k p. map_of m k = Some p \<Longrightarrow> edge f n m k p) \<Longrightarrow> forest f n m"
  by (simp add: forest_def)

lemma forest_root:
  assumes "forest f n m" "map_of m k = Some p"
  shows "map_of m (f k) = Some (f k)" and "f (f k) = f k"
proof -
  show r: "map_of m (f k) = Some (f k)" using forest_edge [OF assms] by (simp add: edge_def)
  show "f (f k) = f k" using forest_edge [OF assms(1) r] by (simp add: edge_def)
qed

lemma forest_idem: "forest f n m \<Longrightarrow> f (f k) = f k"
  by (cases "map_of m k") (simp_all add: forest_unseen forest_root)

lemma forest_add:
  assumes f: "forest f n m" and k: "map_of m k = None"
  shows "forest f n (oset k k m)"
proof (rule forestI)
  fix j assume "map_of (oset k k m) j = None"
  then show "f j = j" using forest_unseen [OF f, of j] by (simp split: if_splits)
next
  fix j p assume p: "map_of (oset k k m) j = Some p"
  show "edge f n (oset k k m) j p"
  proof (cases "j = k")
    case True
    with p k show ?thesis using forest_unseen [OF f k] by (simp add: edge_def)
  next
    case False
    with p have e: "edge f n m j p" by (simp add: forest_edge [OF f])
    then show ?thesis using k by (auto simp: edge_def)
  qed
qed

lemma forest_compress:
  assumes f: "forest f n m" and k: "map_of m k = Some p"
  shows "forest f n (oset k (f k) m)"
proof (rule forestI)
  fix j assume "map_of (oset k (f k) m) j = None"
  then show "f j = j" using forest_unseen [OF f, of j] by (simp split: if_splits)
next
  fix j q assume q: "map_of (oset k (f k) m) j = Some q"
  have ek: "edge f n m k p" by (rule forest_edge [OF f k])
  show "edge f n (oset k (f k) m) j q"
  proof (cases "j = k")
    case True
    with q ek show ?thesis using forest_root [OF f k] by (auto simp: edge_def)
  next
    case False
    with q have e: "edge f n m j q" by (simp add: forest_edge [OF f])
    have "f j = k \<Longrightarrow> f k = k" using forest_idem [OF f, of j] by simp
    with e show ?thesis by (auto simp: edge_def)
  qed
qed

lemma root_step:
  assumes "m1 = (if map_of m k = None then oset k k m else m)"
  shows "map_of m1 k = Some k \<Longrightarrow> root k m = Some (k, m1)"
    and "map_of m1 k = Some p \<Longrightarrow> p \<noteq> k \<Longrightarrow> root p m1 = Some (r, m2) \<Longrightarrow> root k m = Some (r, oset k r m2)"
  unfolding root.simps [of k m] assms [symmetric] by (simp_all add: Let_def)

lemma root_returns:
  assumes "forest f n m"
  shows "\<exists>m1. root k m = Some (f k, m1) \<and> forest f n m1 \<and> names m1 = insert k (names m)"
  using assms
proof (induction "n k" arbitrary: k m rule: less_induct)
  case less
  define m' where m': "m' = (if map_of m k = None then oset k k m else m)"
  have f': "forest f n m'" using less.prems forest_add by (simp add: m')
  have names: "names m' = insert k (names m)" by (auto simp: m' names_def)
  then obtain p where p: "map_of m' k = Some p" by (auto simp: names_def dom_def)
  have e: "edge f n m' k p" by (rule forest_edge [OF f' p])
  show ?case
  proof (cases "p = k")
    case True
    with e have "f k = k" by (simp add: edge_def)
    with True p show ?thesis using root_step(1) [OF m'] f' names by simp
  next
    case False
    with e have lt: "n p < n k" and fp: "f p = f k" by (simp_all add: edge_def)
    obtain m2 where m2: "root p m' = Some (f k, m2)" "forest f n m2" "names m2 = insert p (names m')"
      using less.hyps [OF lt f'] fp by auto
    from m2(3) p obtain q where q: "map_of m2 k = Some q" unfolding names_def by blast
    have "root k m = Some (f k, oset k (f k) m2)" by (rule root_step(2) [OF m' p False m2(1)])
    moreover have "names (oset k (f k) m2) = insert k (names m)"
      using m2(3) e names by (auto simp: names_def edge_def)
    ultimately show ?thesis using forest_compress [OF m2(2) q] by simp
  qed
qed

section \<open>Names joined by receipts\<close>

text \<open>What a run of links has to establish: names that were joined stay joined, the pairs linked are joined,
  and nothing else is, for any equivalence \<open>R\<close> that has those.\<close>

definition joins :: "(string \<times> string) set \<Rightarrow> (string \<Rightarrow> string) \<Rightarrow> (string \<Rightarrow> string) \<Rightarrow> bool" where
  "joins links f f' \<longleftrightarrow>
     (\<forall>j k. f j = f k \<longrightarrow> f' j = f' k) \<and> (\<forall>(j, k) \<in> links. f' j = f' k)
     \<and> (\<forall>R. equivp R \<longrightarrow> (\<forall>j k. f j = f k \<longrightarrow> R j k) \<longrightarrow> (\<forall>(j, k) \<in> links. R j k) \<longrightarrow> (\<forall>j k. f' j = f' k \<longrightarrow> R j k))"

lemma joins_keeps: "joins L f g \<Longrightarrow> f j = f k \<Longrightarrow> g j = g k"
  by (drule iffD1 [OF joins_def, THEN conjunct1]) blast

lemma joins_links: "joins L f g \<Longrightarrow> (j, k) \<in> L \<Longrightarrow> g j = g k"
  by (drule iffD1 [OF joins_def, THEN conjunct2, THEN conjunct1]) blast

lemma joins_least:
  assumes "joins L f g" and "equivp R" and "\<forall>j k. f j = f k \<longrightarrow> R j k" and "\<forall>(j, k) \<in> L. R j k" and "g j = g k"
  shows "R j k"
  using iffD1 [OF joins_def assms(1), THEN conjunct2, THEN conjunct2, rule_format, OF assms(2) _ _ assms(5)] assms(3,4)
  by blast

lemma joins_refl: "joins {} f f"
  by (simp add: joins_def)

lemma joins_trans:
  assumes "joins A f g" and "joins B g h"
  shows "joins (A \<union> B) f h"
  unfolding joins_def
proof (intro conjI allI impI)
  fix R j k
  assume R: "equivp R" "\<forall>j k. f j = f k \<longrightarrow> R j k" "\<forall>(j, k) \<in> A \<union> B. R j k" and h: "h j = h k"
  from R(3) have "\<forall>(j, k) \<in> A. R j k" "\<forall>(j, k) \<in> B. R j k" by blast+
  with joins_least [OF assms(1) R(1,2)] joins_least [OF assms(2) R(1) _ _ h] show "R j k" by blast
next
  fix j k assume "f j = f k"
  then show "h j = h k" by (rule joins_keeps [OF assms(2) joins_keeps [OF assms(1)]])
next
  show "\<forall>(j, k) \<in> A \<union> B. h j = h k"
  proof clarify
    fix j k assume "(j, k) \<in> A \<union> B"
    then show "h j = h k" using joins_links [OF assms(1)] joins_links [OF assms(2)] joins_keeps [OF assms(2)] by blast
  qed
qed

lemma joins_link:
  assumes idem: "\<And>k. f (f k) = f k" and f': "f' = (\<lambda>j. if f j = f key then f first else f j)"
  shows "joins {(key, first)} f f'"
  unfolding joins_def
proof (intro conjI allI impI)
  fix R j k
  assume R: "equivp R" and Rf: "\<forall>j k. f j = f k \<longrightarrow> R j k" and "\<forall>(j, k) \<in> {(key, first)}. R j k" and "f' j = f' k"
  then have key: "R key first" by simp
  have first: "R j first" if "f j = f key" for j
    by (rule equivp_transp [OF R _ key]) (use Rf that in blast)
  have "R j k" if "f' j = f' k" "f j = f key" for j k
  proof (cases "f k = f key")
    case True
    with Rf that show ?thesis by simp
  next
    case False
    with that f' have "f first = f k" by simp
    with Rf have "R first k" by blast
    with first [OF that(2)] R show ?thesis by (blast intro: equivp_transp)
  qed note left = this
  show "R j k"
  proof (cases "f j = f key \<or> f k = f key")
    case True
    then show ?thesis using left [of j k] left [of k j] \<open>f' j = f' k\<close> by (auto intro: equivp_symp [OF R])
  next
    case False
    with \<open>f' j = f' k\<close> f' Rf show ?thesis by simp
  qed
qed (simp_all add: f')

lemma forest_link:
  assumes f: "forest f n m" and a: "a \<in> names m" and b: "b \<in> names m"
    and f': "f' = (\<lambda>j. if f j = f a then f b else f j)"
    and n': "n' = (\<lambda>j. if f j = f a \<and> f a \<noteq> f b then n j + n (f b) + 1 else n j)"
  shows "forest f' n' (oset (f a) (f b) m)"
proof -
  have ra: "map_of m (f a) = Some (f a)" "f (f a) = f a" and rb: "map_of m (f b) = Some (f b)" "f (f b) = f b"
    using a b forest_root [OF f] by (auto simp: names_def)
  show ?thesis
  proof (rule forestI)
    fix k assume "map_of (oset (f a) (f b) m) k = None"
    then have "f k = k" "k \<noteq> f a" using forest_unseen [OF f, of k] by (simp_all split: if_splits)
    then show "f' k = k" by (simp add: f')
  next
    fix j q assume q: "map_of (oset (f a) (f b) m) j = Some q"
    show "edge f' n' (oset (f a) (f b) m) j q"
    proof (cases "j = f a")
      case True
      with q ra rb show ?thesis by (auto simp: edge_def f' n')
    next
      case False
      with q have e: "edge f n m j q" by (simp add: forest_edge [OF f])
      with False ra rb forest_idem [OF f, of j] show ?thesis by (auto simp: edge_def f' n')
    qed
  qed
qed

lemma link_joins:
  assumes f: "forest f n m"
  shows "\<exists>f' n' m'. link key first m = Some m' \<and> forest f' n' m' \<and> joins {(key, first)} f f'"
proof -
  obtain m1 where m1: "root key m = Some (f key, m1)" "forest f n m1" "key \<in> names m1"
    using root_returns [OF f] by blast
  obtain m2 where m2: "root first m1 = Some (f first, m2)" "forest f n m2" "names m2 = insert first (names m1)"
    using root_returns [OF m1(2)] by blast
  have "link key first m = Some (oset (f key) (f first) m2)" by (simp add: link_def m1(1) m2(1))
  moreover have "key \<in> names m2" "first \<in> names m2" using m1(3) m2(3) by auto
  ultimately show ?thesis
    using forest_link [OF m2(2) _ _ refl refl] joins_link [OF forest_idem [OF f] refl] by blast
qed

lemma link_all_joins:
  "forest f n m \<Longrightarrow> \<exists>f' n' m'. link_all first keys m = Some m' \<and> forest f' n' m' \<and> joins (set keys \<times> {first}) f f'"
proof (induction keys arbitrary: f n m)
  case Nil
  then show ?case using joins_refl by fastforce
next
  case (Cons key keys)
  obtain f1 n1 m1 where 1: "link key first m = Some m1" "forest f1 n1 m1" "joins {(key, first)} f f1"
    using link_joins [OF Cons.prems] by blast
  obtain f2 n2 m2 where 2: "link_all first keys m1 = Some m2" "forest f2 n2 m2" "joins (set keys \<times> {first}) f1 f2"
    using Cons.IH [OF 1(2)] by blast
  have "joins (set (key # keys) \<times> {first}) f f2"
    using joins_trans [OF 1(3) 2(3)] by (simp add: insert_Times_insert [of key "set keys" first "{}"])
  then show ?case using 1(1) 2(1,2) by auto
qed

text \<open>The pairs of names that one receipt gives.\<close>

definition receipt_links :: "string list list \<Rightarrow> (string \<times> string) set" where
  "receipt_links inputs = (\<Union>keys \<in> set inputs. set keys \<times> {hd keys})"

lemma receipt_links_Cons: "receipt_links (keys # rows) = (set keys \<times> {hd keys}) \<union> receipt_links rows"
  by (simp add: receipt_links_def)

lemma link_rows_joins:
  "forest f n m \<Longrightarrow> \<exists>f' n' m'. link_rows inputs m = Some m' \<and> forest f' n' m' \<and> joins (receipt_links inputs) f f'"
proof (induction inputs arbitrary: f n m)
  case Nil
  then show ?case using joins_refl by (fastforce simp: receipt_links_def)
next
  case (Cons keys rows)
  obtain f1 n1 m1 where 1: "link_all (hd keys) keys m = Some m1" "forest f1 n1 m1" "joins (set keys \<times> {hd keys}) f f1"
    using link_all_joins [OF Cons.prems] by blast
  obtain f2 n2 m2 where 2: "link_rows rows m1 = Some m2" "forest f2 n2 m2" "joins (receipt_links rows) f1 f2"
    using Cons.IH [OF 1(2)] by blast
  show ?case using 1(1) 2(1,2) joins_trans [OF 1(3) 2(3)] by (auto simp: receipt_links_Cons)
qed

text \<open>Two names are the same payout when a chain of receipts, each sharing a name with the next, joins them.\<close>

definition same_payout :: "string list list \<Rightarrow> string \<Rightarrow> string \<Rightarrow> bool" where
  "same_payout inputs = (\<lambda>j k. \<exists>keys \<in> set inputs. j \<in> set keys \<and> k \<in> set keys)\<^sup>*\<^sup>*"

lemma same_payout_equivp: "equivp (same_payout inputs)"
proof (rule equivpI)
  show "reflp (same_payout inputs)" by (simp add: same_payout_def reflp_def)
  show "symp (same_payout inputs)" unfolding same_payout_def by (rule sympI, rule symp_rtranclp [THEN sympD]) (auto intro: sympI)
  show "transp (same_payout inputs)" by (auto simp: same_payout_def transp_def)
qed

lemma forest_same_payout:
  "\<exists>f n m. link_rows inputs [] = Some m \<and> forest f n m \<and> (\<forall>j k. f j = f k \<longleftrightarrow> same_payout inputs j k)"
proof -
  have "forest (\<lambda>k. k) (\<lambda>_. 0) []" by (simp add: forest_def)
  from link_rows_joins [OF this, of inputs] obtain f n m where 
    m: "link_rows inputs [] = Some m" "forest f n m" and j: "joins (receipt_links inputs) (\<lambda>k. k) f" by blast
  have "same_payout inputs j k" if "f j = f k" for j k
  proof -
    have "\<forall>(j, k) \<in> receipt_links inputs. same_payout inputs j k"
    proof (clarsimp simp: receipt_links_def)
      fix keys a assume "keys \<in> set inputs" "a \<in> set keys"
      moreover from this have "hd keys \<in> set keys" by (metis empty_iff empty_set hd_in_set)
      ultimately show "same_payout inputs a (hd keys)"
        unfolding same_payout_def by (intro r_into_rtranclp bexI [of _ keys]) auto
    qed
    moreover have "\<forall>j k. j = k \<longrightarrow> same_payout inputs j k" by (simp add: same_payout_def)
    ultimately show ?thesis using joins_least [OF j same_payout_equivp _ _ that] by blast
  qed
  moreover have "f j = f k" if "same_payout inputs j k" for j k
    using that unfolding same_payout_def
  proof (induction rule: rtranclp_induct)
    case (step y z)
    then obtain keys where "keys \<in> set inputs" "y \<in> set keys" "z \<in> set keys" by blast
    then have "(y, hd keys) \<in> receipt_links inputs" "(z, hd keys) \<in> receipt_links inputs"
      by (auto simp: receipt_links_def)
    then have "f y = f (hd keys)" "f z = f (hd keys)" by (simp_all add: joins_links [OF j])
    with step show ?case by simp
  qed simp
  ultimately show ?thesis using m by blast
qed

section \<open>What the coverage counts\<close>

text \<open>The payout a receipt belongs to: every name joined to its first one.\<close>

definition payout :: "string list list \<Rightarrow> string list \<Rightarrow> string set" where
  "payout inputs keys = {k. same_payout inputs (hd keys) k}"

definition payouts :: "string list list \<Rightarrow> string list list \<Rightarrow> string set set" where
  "payouts inputs rows = payout inputs ` set rows"

lemma payout_eq:
  assumes "\<And>j k. f j = f k \<longleftrightarrow> same_payout inputs j k"
  shows "payout inputs a = payout inputs b \<longleftrightarrow> f (hd a) = f (hd b)"
proof
  assume "payout inputs a = payout inputs b"
  moreover have "hd b \<in> payout inputs b" using assms [of "hd b" "hd b"] by (simp add: payout_def)
  ultimately have "hd b \<in> payout inputs a" by simp
  then show "f (hd a) = f (hd b)" by (simp add: payout_def assms)
next
  assume "f (hd a) = f (hd b)"
  then show "payout inputs a = payout inputs b" by (simp add: payout_def assms [symmetric])
qed

text \<open>Counting roots is counting payouts.\<close>

lemma payout_roots:
  assumes "\<And>j k. f j = f k \<longleftrightarrow> same_payout inputs j k"
  shows "\<exists>g. inj_on g (range f) \<and> (\<forall>keys. g (f (hd keys)) = payout inputs keys)"
proof (intro exI conjI allI)
  let ?g = "\<lambda>r. {k. f k = r}"
  show "inj_on ?g (range f)" by (auto simp: inj_on_def)
  show "?g (f (hd keys)) = payout inputs keys" for keys
    by (auto simp: payout_def assms [symmetric])
qed

lemma root_set_roots:
  "forest f n m \<Longrightarrow> [] \<notin> set rows \<Longrightarrow> \<exists>seen' m'. root_set rows seen m = Some (seen', m') \<and> forest f n m'
     \<and> set seen' = set seen \<union> (\<lambda>keys. f (hd keys)) ` set rows \<and> (distinct seen \<longrightarrow> distinct seen')"
proof (induction rows arbitrary: seen m)
  case (Cons keys rows)
  obtain m1 where m1: "root (hd keys) m = Some (f (hd keys), m1)" "forest f n m1"
    using root_returns [OF Cons.prems(1)] by blast
  let ?seen = "if f (hd keys) \<in> set seen then seen else seen @ [f (hd keys)]"
  have "[] \<notin> set rows" and "keys \<noteq> []" using Cons.prems(2) by auto
  with Cons.IH [OF m1(2), of ?seen] obtain seen' m' where
    r: "root_set rows ?seen m1 = Some (seen', m')" "forest f n m'"
      "set seen' = set ?seen \<union> (\<lambda>keys. f (hd keys)) ` set rows" "distinct ?seen \<longrightarrow> distinct seen'" by blast
  have "root_set (keys # rows) seen m = Some (seen', m')" using \<open>keys \<noteq> []\<close> m1 r(1) by simp
  moreover have "distinct seen \<longrightarrow> distinct seen'" using r(4) by simp
  ultimately show ?case using r(2,3) by auto
qed simp

text \<open>The verified receipts carry amounts, and receipts of one root carry the same one.\<close>

definition agreeing :: "(string list \<Rightarrow> 'p) \<Rightarrow> (string list \<times> string) list \<Rightarrow> bool" where
  "agreeing id_of rows \<longleftrightarrow> (\<forall>(keys, x) \<in> set rows. canon_dec x)
     \<and> (\<forall>(keys, x) \<in> set rows. \<forall>(keys', x') \<in> set rows. id_of keys = id_of keys' \<longrightarrow> x = x')"

definition fits :: "(string list \<Rightarrow> string) \<Rightarrow> (string, string) omap \<Rightarrow> (string list \<times> string) list \<Rightarrow> bool" where
  "fits id_of amounts rows \<longleftrightarrow> agreeing id_of rows
     \<and> (\<forall>(keys, x) \<in> set rows. map_of amounts (id_of keys) = None \<or> map_of amounts (id_of keys) = Some x)"

lemma fits_Cons:
  "fits id_of amounts ((keys, x) # rows) \<longleftrightarrow>
     \<not> (\<not> canon_dec x \<or> (case map_of amounts (id_of keys) of None \<Rightarrow> False | Some a \<Rightarrow> a \<noteq> x))
     \<and> fits id_of (oset (id_of keys) x amounts) rows"
proof -
  have A: "agreeing id_of ((keys, x) # rows) \<longleftrightarrow> canon_dec x \<and> agreeing id_of rows
      \<and> (\<forall>(keys', x') \<in> set rows. id_of keys = id_of keys' \<longrightarrow> x = x')"
    unfolding agreeing_def by fastforce
  have B: "(\<forall>(keys', x') \<in> set rows. id_of keys = id_of keys' \<longrightarrow> x = x')
      \<and> (\<forall>(keys', x') \<in> set rows. map_of amounts (id_of keys') = None \<or> map_of amounts (id_of keys') = Some x')
    \<longleftrightarrow> (\<forall>(keys', x') \<in> set rows. map_of (oset (id_of keys) x amounts) (id_of keys') = None
          \<or> map_of (oset (id_of keys) x amounts) (id_of keys') = Some x')"
    if c: "map_of amounts (id_of keys) = None \<or> map_of amounts (id_of keys) = Some x"
  proof -
    have "(map_of (oset (id_of keys) x amounts) (id_of a) = None \<or> map_of (oset (id_of keys) x amounts) (id_of a) = Some b)
      \<longleftrightarrow> (id_of keys = id_of a \<longrightarrow> x = b) \<and> (map_of amounts (id_of a) = None \<or> map_of amounts (id_of a) = Some b)" for a b
      using c by (cases "id_of a = id_of keys") auto
    then show ?thesis by (simp only: case_prod_beta' ball_conj_distrib)
  qed
  have C: "(case map_of amounts (id_of keys) of None \<Rightarrow> False | Some a \<Rightarrow> a \<noteq> x)
      \<longleftrightarrow> \<not> (map_of amounts (id_of keys) = None \<or> map_of amounts (id_of keys) = Some x)"
    by (cases "map_of amounts (id_of keys)") simp_all
  show ?thesis
  proof (cases "map_of amounts (id_of keys) = None \<or> map_of amounts (id_of keys) = Some x")
    case True
    then show ?thesis using B [OF True] unfolding fits_def A C list.set ball_simps prod.case by satx
  next
    case False
    then show ?thesis unfolding fits_def C list.set ball_simps prod.case by satx
  qed
qed

lemma tally_rows_spec:
  "forest f n m \<Longrightarrow> [] \<notin> fst ` set rows \<Longrightarrow> id_of = (\<lambda>keys. f (hd keys)) \<Longrightarrow>
   \<exists>reason' valid' amounts'. tally_rows recordedKeys rows reason valid amounts m = Some (reason', valid', amounts')
     \<and> (valid' \<longleftrightarrow> valid \<and> fits id_of amounts rows)
     \<and> (reason' = None \<longleftrightarrow> reason = None \<and> fits id_of amounts rows \<and> id_of ` fst ` set rows \<subseteq> set recordedKeys)
     \<and> fst ` set amounts' = fst ` set amounts \<union> id_of ` fst ` set rows
     \<and> (distinct (map fst amounts) \<longrightarrow> distinct (map fst amounts'))
     \<and> (fits id_of amounts rows \<longrightarrow> map_of amounts \<subseteq>\<^sub>m map_of amounts'
         \<and> (\<forall>(keys, x) \<in> set rows. map_of amounts' (id_of keys) = Some x))"
proof (induction rows arbitrary: reason valid amounts m)
  case Nil
  then show ?case by (simp add: fits_def agreeing_def)
next
  case (Cons row rows)
  obtain keys x where row: "row = (keys, x)" by (cases row)
  obtain m1 where m1: "root (hd keys) m = Some (id_of keys, m1)" "forest f n m1"
    using root_returns [OF Cons.prems(1)] Cons.prems(3) by blast
  define bad where bad: "bad = (\<not> canon_dec x \<or> (case map_of amounts (id_of keys) of None \<Rightarrow> False | Some a \<Rightarrow> a \<noteq> x))"
  have names: "keys \<noteq> []" "[] \<notin> fst ` set rows" using Cons.prems(2) row by auto
  let ?amounts = "oset (id_of keys) x amounts"
  have fits: "fits id_of amounts (row # rows) \<longleftrightarrow> \<not> bad \<and> fits id_of ?amounts rows"
    by (simp only: row fits_Cons bad)
  obtain reason1 valid' amounts' where
    t: "tally_rows recordedKeys rows (reason_or (reason_or reason (id_of keys \<notin> set recordedKeys)
          ''A verified receipt is outside the recorded payout scope.'') bad
          ''Duplicate receipt evidence has conflicting or unavailable amounts.'') (valid \<and> \<not> bad) ?amounts m1
        = Some (reason1, valid', amounts')"
    and v: "valid' \<longleftrightarrow> (valid \<and> \<not> bad) \<and> fits id_of ?amounts rows"
    and r: "reason1 = None \<longleftrightarrow> reason_or (reason_or reason (id_of keys \<notin> set recordedKeys)
          ''A verified receipt is outside the recorded payout scope.'') bad
          ''Duplicate receipt evidence has conflicting or unavailable amounts.'' = None
        \<and> fits id_of ?amounts rows \<and> id_of ` fst ` set rows \<subseteq> set recordedKeys"
    and k: "fst ` set amounts' = fst ` set ?amounts \<union> id_of ` fst ` set rows"
    and d: "distinct (map fst ?amounts) \<longrightarrow> distinct (map fst amounts')"
    and a: "fits id_of ?amounts rows \<longrightarrow> map_of ?amounts \<subseteq>\<^sub>m map_of amounts'
         \<and> (\<forall>(keys, x) \<in> set rows. map_of amounts' (id_of keys) = Some x)"
    using Cons.IH [OF m1(2) names(2) Cons.prems(3), where valid = "valid \<and> \<not> bad" and amounts = ?amounts
      and reason = "reason_or (reason_or reason (id_of keys \<notin> set recordedKeys)
          ''A verified receipt is outside the recorded payout scope.'') bad
          ''Duplicate receipt evidence has conflicting or unavailable amounts.''"]
    by (elim exE conjE) (rule that, assumption+)
  have "tally_rows recordedKeys (row # rows) reason valid amounts m = Some (reason1, valid', amounts')"
    using names(1) m1(1) t by (simp add: row bad Let_def)
  moreover have "valid' \<longleftrightarrow> valid \<and> fits id_of amounts (row # rows)" using v fits by blast
  moreover have "reason1 = None \<longleftrightarrow> reason = None \<and> fits id_of amounts (row # rows)
      \<and> id_of ` fst ` set (row # rows) \<subseteq> set recordedKeys"
    unfolding r fits by (auto simp: reason_or_def row split: option.splits)
  moreover have "fst ` set amounts' = fst ` set amounts \<union> id_of ` fst ` set (row # rows)"
    using k by (simp add: row)
  moreover have "distinct (map fst amounts) \<longrightarrow> distinct (map fst amounts')" using d by simp
  moreover have "map_of amounts \<subseteq>\<^sub>m map_of amounts'
      \<and> (\<forall>(keys, x) \<in> set (row # rows). map_of amounts' (id_of keys) = Some x)"
    if "fits id_of amounts (row # rows)"
  proof -
    from that fits a have nb: "\<not> bad" and le: "map_of ?amounts \<subseteq>\<^sub>m map_of amounts'"
      and all: "\<forall>(keys, x) \<in> set rows. map_of amounts' (id_of keys) = Some x" by blast+
    from le have "map_of amounts' (id_of keys) = Some x" by (auto simp: map_le_def)
    moreover from nb have "map_of amounts \<subseteq>\<^sub>m map_of ?amounts"
      by (auto simp: bad map_le_def split: option.splits)
    ultimately show ?thesis using le all row by (auto intro: map_le_trans)
  qed
  ultimately show ?case by blast
qed

text \<open>The lamports a payout's receipts carry.\<close>

definition payout_amount :: "(string list \<times> string) list \<Rightarrow> string set \<Rightarrow> int" where
  "payout_amount rows p = parse_dec (snd (hd (filter (\<lambda>(keys, x). hd keys \<in> p) rows)))"

lemma payout_amount:
  assumes f: "\<And>j k. f j = f k \<longleftrightarrow> same_payout inputs j k" and "(keys, x) \<in> set rows" and "agreeing (payout inputs) rows"
  shows "payout_amount rows (payout inputs keys) = parse_dec x"
proof -
  let ?rows = "filter (\<lambda>(keys', x). hd keys' \<in> payout inputs keys) rows"
  have "(keys, x) \<in> set ?rows" using assms(2) f [of "hd keys" "hd keys"] by (auto simp: payout_def)
  then have "?rows \<noteq> []" by (metis empty_iff empty_set)
  then have hd: "hd ?rows \<in> set ?rows" by (rule hd_in_set)
  obtain keys' x' where row: "hd ?rows = (keys', x')" by (cases "hd ?rows")
  with hd have "(keys', x') \<in> set rows" "hd keys' \<in> payout inputs keys" by auto
  moreover from this have "payout inputs keys' = payout inputs keys"
    by (subst payout_eq [of f, OF f]) (simp add: payout_def flip: f)
  ultimately have "x' = x" using assms(2,3) unfolding agreeing_def by fastforce
  then show ?thesis by (simp add: payout_amount_def row)
qed

lemma sum_amounts:
  assumes "distinct (map fst amounts)"
  shows "sum_list (map (\<lambda>(_, a). parse_dec a) amounts) = (\<Sum>k \<in> fst ` set amounts. parse_dec (the (map_of amounts k)))"
proof -
  have "(\<Sum>k \<in> fst ` set amounts. parse_dec (the (map_of amounts k))) = (\<Sum>kv \<in> set amounts. parse_dec (the (map_of amounts (fst kv))))"
    using assms by (intro sum.reindex_cong [of fst]) (auto simp: distinct_map)
  also have "\<dots> = (\<Sum>(_, a) \<in> set amounts. parse_dec a)"
    using assms by (intro sum.cong) auto
  also have "\<dots> = sum_list (map (\<lambda>(_, a). parse_dec a) amounts)"
    using assms by (simp add: sum_list_distinct_conv_sum_set distinct_map)
  finally show ?thesis by simp
qed

lemma image_le_inj:
  assumes inj: "inj_on g S" and sub: "A \<subseteq> S" "B \<subseteq> S"
  shows "g ` A \<subseteq> g ` B \<longleftrightarrow> A \<subseteq> B"
proof
  assume le: "g ` A \<subseteq> g ` B"
  show "A \<subseteq> B"
  proof
    fix x assume x: "x \<in> A"
    with le obtain y where y: "y \<in> B" "g x = g y" by blast
    with x sub have "x = y" by (blast intro: inj_onD [OF inj])
    with y show "x \<in> B" by simp
  qed
qed auto

text \<open>The verdict of a run, given the receipts that have names.\<close>

definition covered :: "string list list \<Rightarrow> (string list \<times> string) list \<Rightarrow> bool" where
  "covered recorded verified =
     (let inputs = recorded @ map fst verified in
      [] \<notin> set inputs \<and> agreeing (payout inputs) verified
      \<and> payouts inputs (map fst verified) \<subseteq> payouts inputs recorded)"

lemma payout_rows_covered:
  assumes inputs: "inputs = recorded @ map fst verified" and named: "[] \<notin> set inputs"
  shows "\<exists>cov. payout_rows recorded verified = Some cov
     \<and> (cov_reason cov = None \<longleftrightarrow> covered recorded verified)
     \<and> (cov_total cov = (if agreeing (payout inputs) verified
          then Some (show_int (\<Sum>p \<in> payouts inputs (map fst verified). payout_amount verified p)) else None))
     \<and> (cov_reason cov = None \<longrightarrow> cov_recorded cov = Some (int (card (payouts inputs recorded)))
         \<and> cov_verified cov = Some (int (card (payouts inputs (map fst verified)))))"
proof -
  obtain f n m where m: "link_rows inputs [] = Some m" "forest f n m" and "\<forall>j k. f j = f k \<longleftrightarrow> same_payout inputs j k"
    using forest_same_payout [of inputs] by (elim exE conjE)
  then have f: "f j = f k \<longleftrightarrow> same_payout inputs j k" for j k by blast
  obtain g where inj: "inj_on g (range f)" and "\<forall>keys. g (f (hd keys)) = payout inputs keys"
    using payout_roots [of f inputs, OF f] by (elim exE conjE)
  then have g: "g (f (hd keys)) = payout inputs keys" for keys by blast
  define id_of where id_of: "id_of = (\<lambda>keys :: string list. f (hd keys))"
  have named': "[] \<notin> set recorded" "[] \<notin> fst ` set verified" using named inputs by auto
  obtain rk m1 where rk: "root_set recorded [] m = Some (rk, m1)" "forest f n m1"
      "set rk = id_of ` set recorded" "distinct rk"
    using root_set_roots [OF m(2) named'(1), of "[]"] id_of by auto
  obtain r v a where t: "tally_rows rk verified None True [] m1 = Some (r, v, a)"
    and v0: "v \<longleftrightarrow> True \<and> fits id_of [] verified"
    and r0: "r = None \<longleftrightarrow> (None :: string option) = None \<and> fits id_of [] verified \<and> id_of ` fst ` set verified \<subseteq> set rk"
    and k0: "fst ` set a = fst ` set ([] :: (string, string) omap) \<union> id_of ` fst ` set verified"
    and d0: "distinct (map fst ([] :: (string, string) omap)) \<longrightarrow> distinct (map fst a)"
    and a0: "fits id_of [] verified \<longrightarrow> map_of [] \<subseteq>\<^sub>m map_of a \<and> (\<forall>(keys, x) \<in> set verified. map_of a (id_of keys) = Some x)"
    using tally_rows_spec [OF rk(2) named'(2) id_of, of rk None True "[]"]
    by (elim exE conjE) (rule that, assumption+)
  have v: "v \<longleftrightarrow> fits id_of [] verified" and d: "distinct (map fst a)" and k: "fst ` set a = id_of ` fst ` set verified"
    and r: "r = None \<longleftrightarrow> fits id_of [] verified \<and> id_of ` fst ` set verified \<subseteq> set rk"
    using v0 r0 k0 d0 by simp_all
  have a: "map_of a (id_of keys) = Some x" if "fits id_of [] verified" "(keys, x) \<in> set verified" for keys x
    using a0 that by blast
  have run: "payout_rows recorded verified = Some (coverage_of rk r v a)"
    using m(1) rk(1) t named by (simp add: payout_rows_def inputs Let_def)
  have agree: "fits id_of [] verified \<longleftrightarrow> agreeing (payout inputs) verified"
    by (simp add: fits_def agreeing_def payout_eq [of f, OF f] id_of)
  have payouts: "payouts inputs rows = g ` id_of ` set rows" for rows
    by (simp add: payouts_def id_of image_image g)
  have range: "id_of ` X \<subseteq> range f" for X by (auto simp: id_of)
  have cards: "card (payouts inputs rows) = card (id_of ` set rows)" for rows
    unfolding payouts by (rule card_image) (rule inj_on_subset [OF inj range])
  have sub: "payouts inputs (map fst verified) \<subseteq> payouts inputs recorded \<longleftrightarrow> id_of ` fst ` set verified \<subseteq> set rk"
    unfolding payouts rk(3) set_map by (rule image_le_inj [OF inj range range])
  have total: "sum_list (map (\<lambda>(_, a). parse_dec a) a) = (\<Sum>p \<in> payouts inputs (map fst verified). payout_amount verified p)"
    if ok: "agreeing (payout inputs) verified"
  proof -
    have "payout_amount verified (g (id_of keys)) = parse_dec (the (map_of a (id_of keys)))" if "(keys, x) \<in> set verified" for keys x
      using payout_amount [OF f that ok] a [OF _ that] agree ok by (simp add: id_of g)
    then have "(\<Sum>p \<in> g ` id_of ` fst ` set verified. payout_amount verified p)
        = (\<Sum>i \<in> id_of ` fst ` set verified. parse_dec (the (map_of a i)))"
      by (intro sum.reindex_cong [of g]) (auto intro: inj_on_subset [OF inj range])
    then show ?thesis by (simp add: sum_amounts [OF d] k payouts)
  qed
  have len: "length a = card (id_of ` fst ` set verified)"
    using distinct_card [OF d] k by simp
  have rec: "cov_reason (coverage_of rk r v a) = r" by (simp add: coverage_of_def)
  show ?thesis
  proof (intro exI conjI)
    show "payout_rows recorded verified = Some (coverage_of rk r v a)" by (rule run)
    show "cov_reason (coverage_of rk r v a) = None \<longleftrightarrow> covered recorded verified"
      using named by (simp add: rec r covered_def agree sub flip: inputs)
    show "cov_total (coverage_of rk r v a) = (if agreeing (payout inputs) verified
          then Some (show_int (\<Sum>p \<in> payouts inputs (map fst verified). payout_amount verified p)) else None)"
      using total by (simp add: coverage_of_def v agree)
    show "cov_reason (coverage_of rk r v a) = None \<longrightarrow>
         cov_recorded (coverage_of rk r v a) = Some (int (card (payouts inputs recorded)))
         \<and> cov_verified (coverage_of rk r v a) = Some (int (card (payouts inputs (map fst verified))))"
      by (simp add: coverage_of_def cards len flip: rk(3)) (simp add: distinct_card [OF rk(4)])
  qed
qed

text \<open>With a receipt that has no name the run still returns, and says so.\<close>

lemma root_set_returns:
  "forest f n m \<Longrightarrow> \<exists>seen' m'. root_set rows seen m = Some (seen', m') \<and> forest f n m'"
proof (induction rows arbitrary: seen m)
  case (Cons keys rows)
  obtain m1 where m1: "root (hd keys) m = Some (f (hd keys), m1)" "forest f n m1"
    using root_returns [OF Cons.prems] by blast
  show ?case using Cons.IH [OF Cons.prems] Cons.IH [OF m1(2)] m1(1) by (cases "keys = []") simp_all
qed simp

lemma tally_rows_returns:
  "forest f n m \<Longrightarrow> \<exists>valid' amounts'. tally_rows recordedKeys rows (Some r) valid amounts m = Some (Some r, valid', amounts')"
proof (induction rows arbitrary: valid amounts m)
  case (Cons row rows)
  obtain keys x where row: "row = (keys, x)" by (cases row)
  obtain m1 where m1: "root (hd keys) m = Some (f (hd keys), m1)" "forest f n m1"
    using root_returns [OF Cons.prems] by blast
  have "reason_or (Some r) c message = Some r" for c message by (simp add: reason_or_def)
  then show ?case using Cons.IH [OF Cons.prems] Cons.IH [OF m1(2)] m1(1) row
    by (cases "keys = []") (simp_all add: Let_def)
qed simp

lemma payout_rows_unnamed:
  assumes "[] \<in> set (recorded @ map fst verified)"
  shows "\<exists>cov. payout_rows recorded verified = Some cov \<and> cov_reason cov \<noteq> None"
proof -
  let ?inputs = "recorded @ map fst verified"
  obtain f n m where m: "link_rows ?inputs [] = Some m" "forest f n m" using forest_same_payout [of ?inputs] by blast
  obtain rk m1 where rk: "root_set recorded [] m = Some (rk, m1)" "forest f n m1"
    using root_set_returns [OF m(2)] by blast
  let ?r = "''A recorded or verified receipt has no stable payout identity.''"
  obtain v a where "tally_rows rk verified (Some ?r) True [] m1 = Some (Some ?r, v, a)"
    using tally_rows_returns [OF rk(2), of rk verified ?r True "[]"] by blast
  then have "payout_rows recorded verified = Some (coverage_of rk (Some ?r) v a)"
    using m(1) rk(1) assms unfolding payout_rows_def Let_def by (simp del: link_rows.simps)
  then show ?thesis by (simp add: coverage_of_def)
qed

definition receipt_rows :: "string list list \<Rightarrow> jsval list \<Rightarrow> (string list \<times> string) list" where
  "receipt_rows keys rows = zip keys (map (\<lambda>row. to_str (oget row ''amountLamports'')) rows)"

text \<open>C12. The coverage of payouts always returns, and it gives no reason exactly when every receipt has
  a name, every verified payout is a recorded one, and the verified receipts carry exact amounts that agree
  within a payout.  Then it counts the payouts, two receipts being one payout exactly when a chain of
  shared names joins them, and its total is the sum of one amount for each verified payout.\<close>

theorem payoutCoverage_counts:
  assumes "mapR aliases recorded = Inr rn" and "mapR aliases verified = Inr vn"
  shows "\<exists>cov. payoutCoverage recorded verified = Inr (Some cov)
    \<and> (cov_reason cov = None \<longleftrightarrow> covered rn (receipt_rows vn verified))
    \<and> (cov_reason cov = None \<longrightarrow>
        cov_recorded cov = Some (int (card (payouts (rn @ vn) rn)))
        \<and> cov_verified cov = Some (int (card (payouts (rn @ vn) vn)))
        \<and> cov_total cov = Some (show_int (\<Sum>p \<in> payouts (rn @ vn) vn. payout_amount (receipt_rows vn verified) p)))"
proof -
  let ?rows = "receipt_rows vn verified"
  have fst: "map fst ?rows = vn" using mapR_length [OF assms(2)] by (simp add: receipt_rows_def)
  have run: "payoutCoverage recorded verified = Inr (payout_rows rn ?rows)"
    by (simp add: payoutCoverage_def assms receipt_rows_def)
  show ?thesis
  proof (cases "[] \<in> set (rn @ vn)")
    case True
    then have "\<not> covered rn ?rows" by (simp add: covered_def fst)
    moreover obtain cov where "payout_rows rn ?rows = Some cov" "cov_reason cov \<noteq> None"
      using payout_rows_unnamed [of rn ?rows] True fst by auto
    ultimately show ?thesis by (intro exI [of _ cov]) (auto simp: run)
  next
    case False
    from payout_rows_covered [of "rn @ vn" rn ?rows, unfolded fst, OF refl False] obtain cov where
      cov: "payout_rows rn ?rows = Some cov" "cov_reason cov = None \<longleftrightarrow> covered rn ?rows"
        "cov_total cov = (if agreeing (payout (rn @ vn)) ?rows
          then Some (show_int (\<Sum>p \<in> payouts (rn @ vn) vn. payout_amount ?rows p)) else None)"
        "cov_reason cov = None \<longrightarrow> cov_recorded cov = Some (int (card (payouts (rn @ vn) rn)))
          \<and> cov_verified cov = Some (int (card (payouts (rn @ vn) vn)))"
      by (elim exE conjE) (rule that, assumption+)
    have run': "payoutCoverage recorded verified = Inr (Some cov)" by (simp only: run cov(1))
    have "cov_total cov = Some (show_int (\<Sum>p \<in> payouts (rn @ vn) vn. payout_amount ?rows p))"
      if "cov_reason cov = None"
    proof -
      from that cov(2) have "covered rn ?rows" by (rule iffD1 [rotated])
      then have "agreeing (payout (rn @ vn)) ?rows" by (simp add: covered_def Let_def fst)
      then show ?thesis by (simp only: cov(3) if_True)
    qed
    then show ?thesis
      by (intro exI [of _ cov] conjI run' cov(2) impI) (use cov(4) in simp_all)
  qed
qed

definition sample_receipt :: jsval where
  "sample_receipt = Obj [(''to'', Str (replicate 32 (CHR ''A''))), (''paymentAccount'', Str (replicate 40 (CHR ''B''))),
     (''amountLamports'', Str ''250'')]"

lemma sample_names:
  "aliases sample_receipt = Inr [''account:'' @ replicate 40 (CHR ''B'') @ '':'' @ replicate 32 (CHR ''A'')]"
  by code_simp

theorem payoutCoverage_counts_witness:
  "\<exists>cov. payoutCoverage [sample_receipt, sample_receipt] [sample_receipt] = Inr (Some cov)
    \<and> cov_recorded cov = Some 1 \<and> cov_verified cov = Some 1 \<and> cov_total cov = Some ''250''"
proof -
  obtain k where k: "aliases sample_receipt = Inr [k]" using sample_names by blast
  have sample: "mapR aliases [sample_receipt, sample_receipt] = Inr [[k], [k]]" "mapR aliases [sample_receipt] = Inr [[k]]"
    by (simp_all add: k)
  have rows: "receipt_rows [[k]] [sample_receipt] = [([k], ''250'')]"
    by (simp add: receipt_rows_def sample_receipt_def)
  have decimal: "canon_dec ''250''" "parse_dec ''250'' = 250" "show_int 250 = ''250''" by code_simp+
  have amount: "payout_amount [([k], ''250'')] (payout inputs [k]) = 250" for inputs
    by (simp add: payout_amount_def payout_def same_payout_def decimal)
  have "covered [[k], [k]] [([k], ''250'')]"
    by (simp add: covered_def agreeing_def payouts_def decimal)
  then show ?thesis
    using payoutCoverage_counts [OF sample] unfolding rows by (auto simp: payouts_def amount decimal)
qed

end
