(* ===== verification/BoundedMap.thy ===== *)
theory BoundedMap
  imports JsVal StepSystem
begin

text \<open>
  The bounded concurrent map of the server (\<open>server/bounded-map.mjs\<close>).  \<open>mapBounded\<close> starts
  \<open>min(limit, items.length)\<close> workers that share the variable \<open>next\<close>.  A worker runs without interruption
  up to its \<open>await\<close>, so a step of the machine is one answer of the mapper and what its worker does until
  it waits again.  The mapper is a parameter: \<open>f x i\<close> is what its call on item \<open>x\<close> at index \<open>i\<close> ends with.
\<close>

section \<open>The machine\<close>

text \<open>A worker waits for the call at an index, has left its loop, or was rejected.\<close>

datatype worker = Busy nat | Finished | Broken

text \<open>The promise of \<open>Promise.all\<close>.\<close>

datatype 'b outcome = Pending | Resolved "'b option list" | Rejected js_error

text \<open>\<open>pl_calls\<close> lists the indices the mapper was called with; it is not part of the code's state.\<close>

record 'b map_pool =
  mp_next :: nat
  mp_workers :: "worker list"
  mp_results :: "'b option list"
  mp_outcome :: "'b outcome"
  mp_calls :: "nat list"

text \<open>The head of the loop in worker \<open>w\<close>.\<close>

definition take_next :: "nat \<Rightarrow> nat \<Rightarrow> 'b map_pool \<Rightarrow> 'b map_pool" where
  "take_next n w st =
     (if mp_next st < n
      then st\<lparr>mp_next := Suc (mp_next st), mp_workers := (mp_workers st)[w := Busy (mp_next st)],
              mp_calls := mp_calls st @ [mp_next st]\<rparr>
      else st\<lparr>mp_workers := (mp_workers st)[w := Finished]\<rparr>)"

definition settle_all :: "'b map_pool \<Rightarrow> 'b map_pool" where
  "settle_all st =
     (if mp_outcome st = Pending \<and> list_all (\<lambda>w. w = Finished) (mp_workers st)
      then st\<lparr>mp_outcome := Resolved (mp_results st)\<rparr> else st)"

text \<open>The call.  \<open>items\<close> is none when it is no array.\<close>

definition mapBounded :: "'a list option \<Rightarrow> jsval \<Rightarrow> bool \<Rightarrow> 'b map_pool res" where
  "mapBounded items limit is_function =
     (case items of
        None \<Rightarrow> Inl TypeErr
      | Some xs \<Rightarrow>
          if \<not> is_safe limit \<or> safe_int limit < 1 \<or> \<not> is_function then Inl TypeErr
          else let n = length xs; k = min (nat (safe_int limit)) n in
            Inr (settle_all (foldl (\<lambda>st w. take_next n w st)
              \<lparr>mp_next = 0, mp_workers = replicate k Finished, mp_results = replicate n None,
               mp_outcome = Pending, mp_calls = []\<rparr> [0..<k])))"

inductive pool_step :: "('a \<Rightarrow> nat \<Rightarrow> 'b res) \<Rightarrow> 'a list \<Rightarrow> 'b map_pool \<Rightarrow> 'b map_pool \<Rightarrow> bool" for f xs where
  Answer: "w < length (mp_workers st) \<Longrightarrow> mp_workers st ! w = Busy i \<Longrightarrow> f (xs ! i) i = Inr v \<Longrightarrow>
     pool_step f xs st (settle_all (take_next (length xs) w (st\<lparr>mp_results := (mp_results st)[i := Some v]\<rparr>)))"
| Failure: "w < length (mp_workers st) \<Longrightarrow> mp_workers st ! w = Busy i \<Longrightarrow> f (xs ! i) i = Inl e \<Longrightarrow>
     pool_step f xs st (st\<lparr>mp_workers := (mp_workers st)[w := Broken],
       mp_outcome := (if mp_outcome st = Pending then Rejected e else mp_outcome st)\<rparr>)"

section \<open>Every reachable pool\<close>

text \<open>The calls so far: each index below \<open>next\<close> is waited for, has its result, or failed.\<close>

definition settled_or_busy :: "('a \<Rightarrow> nat \<Rightarrow> 'b res) \<Rightarrow> 'a list \<Rightarrow> 'b map_pool \<Rightarrow> nat \<Rightarrow> bool" where
  "settled_or_busy f xs st i \<longleftrightarrow> Busy i \<in> set (mp_workers st)
     \<or> (\<exists>v. mp_results st ! i = Some v \<and> f (xs ! i) i = Inr v) \<or> Broken \<in> set (mp_workers st)"

definition outcome_ok :: "('a \<Rightarrow> nat \<Rightarrow> 'b res) \<Rightarrow> 'a list \<Rightarrow> 'b map_pool \<Rightarrow> bool" where
  "outcome_ok f xs st \<longleftrightarrow>
     (case mp_outcome st of
        Pending \<Rightarrow> Broken \<notin> set (mp_workers st) \<and> (\<exists>i. Busy i \<in> set (mp_workers st))
      | Resolved rs \<Rightarrow> length rs = length xs \<and> (\<forall>i < length xs. \<exists>v. rs ! i = Some v \<and> f (xs ! i) i = Inr v)
          \<and> set (mp_workers st) \<subseteq> {Finished}
      | Rejected e \<Rightarrow> \<exists>i < length xs. f (xs ! i) i = Inl e)"

definition pool_ok :: "nat \<Rightarrow> ('a \<Rightarrow> nat \<Rightarrow> 'b res) \<Rightarrow> 'a list \<Rightarrow> 'b map_pool \<Rightarrow> bool" where
  "pool_ok k f xs st \<longleftrightarrow>
     mp_next st \<le> length xs \<and> length (mp_workers st) = k \<and> length (mp_results st) = length xs
     \<and> mp_calls st = [0..<mp_next st]
     \<and> (\<forall>i. Busy i \<in> set (mp_workers st) \<longrightarrow> i < mp_next st)
     \<and> (\<forall>i < mp_next st. settled_or_busy f xs st i)
     \<and> (Finished \<in> set (mp_workers st) \<longrightarrow> mp_next st = length xs)"

lemma in_update: "y \<in> set ws \<Longrightarrow> ws ! w \<noteq> y \<Longrightarrow> y \<in> set (ws[w := x])"
  by (metis in_set_conv_nth length_list_update nth_list_update_neq)

lemma in_updateD: "y \<in> set (ws[w := x]) \<Longrightarrow> y = x \<or> y \<in> set ws"
  using set_update_subset_insert by fastforce

lemma settled_take_next:
  assumes i: "settled_or_busy f xs st j" and w: "mp_workers st ! w = Busy i"
    and v: "mp_results st ! i = Some v" "f (xs ! i) i = Inr v"
  shows "settled_or_busy f xs (take_next n w st) j"
  using assms by (cases "j = i") (auto simp: settled_or_busy_def take_next_def intro: in_update)

lemma take_next_ok:
  assumes ok: "pool_ok k f xs st" and w: "w < k" "mp_workers st ! w = Busy i"
    and v: "mp_results st ! i = Some v" "f (xs ! i) i = Inr v"
  shows "pool_ok k f xs (take_next (length xs) w st)"
proof -
  let ?st = "take_next (length xs) w st"
  note ok' = ok [unfolded pool_ok_def]
  have len: "w < length (mp_workers st)" using ok' w(1) by simp
  have settled: "settled_or_busy f xs ?st j" if "j < mp_next ?st" for j
  proof (cases "j < mp_next st")
    case True
    then show ?thesis using ok' by (intro settled_take_next [where i = i and v = v] w(2) v) blast
  next
    case False
    with that have "j = mp_next st" "mp_next st < length xs" by (auto simp: take_next_def split: if_splits)
    then show ?thesis using len by (simp add: settled_or_busy_def take_next_def set_update_memI)
  qed
  have busy: "j < mp_next ?st" if "Busy j \<in> set (mp_workers ?st)" for j
    using that ok' by (fastforce simp: take_next_def split: if_splits dest!: in_updateD)
  have fin: "mp_next ?st = length xs" if "Finished \<in> set (mp_workers ?st)"
    using that ok' by (fastforce simp: take_next_def split: if_splits dest!: in_updateD)
  have "mp_next ?st \<le> length xs" "length (mp_workers ?st) = k" "length (mp_results ?st) = length xs"
    "mp_calls ?st = [0..<mp_next ?st]"
    using ok' by (simp_all add: take_next_def)
  with settled busy fin show ?thesis unfolding pool_ok_def by blast
qed

lemma settle_all_pool_ok: "pool_ok k f xs st \<Longrightarrow> pool_ok k f xs (settle_all st)"
  by (simp add: settle_all_def pool_ok_def settled_or_busy_def)

text \<open>Setting a pending promise when the last worker leaves gives a full result.\<close>

lemma settle_all_outcome:
  assumes ok: "pool_ok k f xs st" and k: "xs \<noteq> [] \<longrightarrow> 0 < k"
    and out: "mp_outcome st = Pending \<Longrightarrow> Broken \<notin> set (mp_workers st)"
    and other: "mp_outcome st \<noteq> Pending \<Longrightarrow> outcome_ok f xs st"
  shows "outcome_ok f xs (settle_all st)"
proof (cases "mp_outcome st = Pending")
  case True
  show ?thesis
  proof (cases "list_all (\<lambda>w. w = Finished) (mp_workers st)")
    case all: True
    have "\<exists>v. mp_results st ! i = Some v \<and> f (xs ! i) i = Inr v" if "i < length xs" for i
    proof -
      from that k ok have "mp_workers st \<noteq> []" unfolding pool_ok_def by auto
      with all have "Finished \<in> set (mp_workers st)" by (cases "mp_workers st") auto
      with ok that have "settled_or_busy f xs st i" unfolding pool_ok_def by simp
      with all show ?thesis by (auto simp: settled_or_busy_def list_all_iff)
    qed
    with True all ok show ?thesis by (auto simp: settle_all_def outcome_ok_def pool_ok_def list_all_iff)
  next
    case False
    then obtain w where "w \<in> set (mp_workers st)" "w \<noteq> Finished" by (auto simp: list_all_iff)
    with out True have "\<exists>i. Busy i \<in> set (mp_workers st)" by (cases w) auto
    with True False out show ?thesis by (auto simp: settle_all_def outcome_ok_def)
  qed
next
  case False
  then show ?thesis using other by (simp add: settle_all_def)
qed

definition pool_inv :: "nat \<Rightarrow> ('a \<Rightarrow> nat \<Rightarrow> 'b res) \<Rightarrow> 'a list \<Rightarrow> 'b map_pool \<Rightarrow> bool" where
  "pool_inv k f xs st \<longleftrightarrow> pool_ok k f xs st \<and> outcome_ok f xs st \<and> (xs \<noteq> [] \<longrightarrow> 0 < k)"

lemma pool_step_inv:
  assumes inv: "pool_inv k f xs st" and step: "pool_step f xs st st'"
  shows "pool_inv k f xs st'"
  using step
proof cases
  case 1: (Answer w i v)
  let ?st = "st\<lparr>mp_results := (mp_results st)[i := Some v]\<rparr>"
  have ok: "pool_ok k f xs st" and out: "outcome_ok f xs st" and k: "xs \<noteq> [] \<longrightarrow> 0 < k"
    using inv by (simp_all add: pool_inv_def)
  have w: "w < k" and i: "i < length xs"
    using ok 1 nth_mem [of w "mp_workers st"] unfolding pool_ok_def by auto
  have "settled_or_busy f xs ?st j" if "settled_or_busy f xs st j" for j
    using that 1 i ok by (cases "j = i") (auto simp: settled_or_busy_def pool_ok_def)
  with ok have ok1: "pool_ok k f xs ?st" by (auto simp: pool_ok_def)
  have ok2: "pool_ok k f xs (take_next (length xs) w ?st)"
    using 1 i ok by (intro take_next_ok [OF ok1 w, of i v]) (auto simp: pool_ok_def)
  have same: "mp_outcome (take_next (length xs) w ?st) = mp_outcome st" by (simp add: take_next_def)
  have "outcome_ok f xs (settle_all (take_next (length xs) w ?st))"
  proof (rule settle_all_outcome [OF ok2 k])
    assume "mp_outcome (take_next (length xs) w ?st) = Pending"
    with same out have "Broken \<notin> set (mp_workers st)" by (simp add: outcome_ok_def)
    then show "Broken \<notin> set (mp_workers (take_next (length xs) w ?st))"
      by (auto simp: take_next_def dest!: in_updateD)
  next
    assume p: "mp_outcome (take_next (length xs) w ?st) \<noteq> Pending"
    have "Busy i \<in> set (mp_workers st)" using 1 nth_mem by metis
    then show "outcome_ok f xs (take_next (length xs) w ?st)"
      using p out unfolding outcome_ok_def same by (auto split: outcome.splits)
  qed
  with settle_all_pool_ok [OF ok2] k 1 show ?thesis by (simp add: pool_inv_def)
next
  case 2: (Failure w i e)
  have ok: "pool_ok k f xs st" and out: "outcome_ok f xs st" and k: "xs \<noteq> [] \<longrightarrow> 0 < k"
    using inv by (simp_all add: pool_inv_def)
  have busy: "Busy i \<in> set (mp_workers st)" using 2 nth_mem by metis
  then have i: "i < length xs" using ok unfolding pool_ok_def by fastforce
  have "Broken \<in> set ((mp_workers st)[w := Broken])" using 2 by (simp add: set_update_memI)
  then have "pool_ok k f xs st'"
    using ok 2 by (auto simp: pool_ok_def settled_or_busy_def dest!: in_updateD)
  moreover have "outcome_ok f xs st'"
    using out busy i 2 by (auto simp: outcome_ok_def split: outcome.splits)
  ultimately show ?thesis using k by (simp add: pool_inv_def)
qed

lemma start_workers:
  assumes "j \<le> k" and "k \<le> n"
  shows "foldl (\<lambda>st w. take_next n w st)
      \<lparr>mp_next = 0, mp_workers = replicate k Finished, mp_results = rs, mp_outcome = Pending, mp_calls = []\<rparr> [0..<j]
    = \<lparr>mp_next = j, mp_workers = map Busy [0..<j] @ replicate (k - j) Finished, mp_results = rs,
       mp_outcome = Pending, mp_calls = [0..<j]\<rparr>"
  using assms(1)
proof (induction j)
  case (Suc j)
  then obtain d where d: "k - j = Suc d" "k - Suc j = d" by (metis Suc_diff_Suc Suc_le_eq)
  show ?case using Suc assms(2) by (simp add: d take_next_def list_update_append)
qed simp

lemma mapBounded_start:
  fixes f :: "'a \<Rightarrow> nat \<Rightarrow> 'b res"
  assumes "mapBounded (Some xs) limit is_function = Inr st"
  shows "pool_inv (min (nat (safe_int limit)) (length xs)) f xs st \<and> length (mp_calls st) = length (mp_workers st)
    \<and> mp_next st = length (mp_workers st)"
proof -
  let ?k = "min (nat (safe_int limit)) (length xs)"
  let ?st = "\<lparr>mp_next = ?k, mp_workers = map Busy [0..<?k], mp_results = replicate (length xs) None,
       mp_outcome = Pending, mp_calls = [0..<?k]\<rparr>"
  have limit: "1 \<le> safe_int limit" using assms by (auto simp: mapBounded_def split: if_splits)
  have st: "st = settle_all ?st"
    using assms start_workers [of ?k ?k "length xs" "replicate (length xs) (None :: 'b option)"]
    by (auto simp: mapBounded_def Let_def split: if_splits)
  have ok: "pool_ok ?k f xs ?st" by (auto simp: pool_ok_def settled_or_busy_def)
  have k: "xs \<noteq> [] \<longrightarrow> 0 < ?k" using limit by auto
  have "outcome_ok f xs st" unfolding st by (rule settle_all_outcome [OF ok k]) auto
  with settle_all_pool_ok [OF ok] k st show ?thesis by (auto simp: pool_inv_def settle_all_def)
qed

interpretation bounded_map: step_invariant
  "\<lambda>st. mapBounded (Some xs) limit is_function = Inr st" "pool_step f xs"
  "pool_inv (min (nat (safe_int limit)) (length xs)) f xs" for xs limit is_function f
  using mapBounded_start pool_step_inv by unfold_locales blast+

section \<open>Runs end\<close>

fun waiting :: "worker \<Rightarrow> nat" where
  "waiting (Busy i) = 1"
| "waiting Finished = 0"
| "waiting Broken = 0"

definition busy_count :: "'b map_pool \<Rightarrow> nat" where
  "busy_count st = sum_list (map waiting (mp_workers st))"

definition todo :: "'a list \<Rightarrow> 'b map_pool \<Rightarrow> nat" where
  "todo xs st = (length xs - mp_next st) + busy_count st"

lemma busy_count_update:
  assumes "w < length (mp_workers st)" and "mp_workers st ! w = Busy i"
  shows "0 < busy_count st"
    and "busy_count (st\<lparr>mp_workers := (mp_workers st)[w := Busy j]\<rparr>) = busy_count st"
    and "x \<in> {Finished, Broken} \<Longrightarrow> busy_count (st\<lparr>mp_workers := (mp_workers st)[w := x]\<rparr>) = busy_count st - 1"
proof -
  have "waiting (Busy i) \<in> set (map waiting (mp_workers st))" using assms by (metis image_eqI list.set_map nth_mem)
  then have "waiting (Busy i) \<le> busy_count st" unfolding busy_count_def by (rule member_le_sum_list) simp
  then show "0 < busy_count st" by simp
  have upd: "sum_list (map waiting ((mp_workers st)[w := y])) = sum_list (map waiting (mp_workers st)) + waiting y - 1" for y
    using assms by (simp add: map_update sum_list_update)
  show "busy_count (st\<lparr>mp_workers := (mp_workers st)[w := Busy j]\<rparr>) = busy_count st"
    "x \<in> {Finished, Broken} \<Longrightarrow> busy_count (st\<lparr>mp_workers := (mp_workers st)[w := x]\<rparr>) = busy_count st - 1"
    by (auto simp: busy_count_def upd)
qed

lemma busy_le_workers: "busy_count st \<le> length (mp_workers st)"
proof -
  have "waiting w \<le> 1" for w by (cases w) simp_all
  then have "sum_list (map waiting ws) \<le> length ws" for ws
    by (induction ws) (simp_all, metis One_nat_def add_le_mono plus_1_eq_Suc)
  then show ?thesis by (simp add: busy_count_def)
qed

lemma busy_settle_all [simp]: "busy_count (settle_all st) = busy_count st" "mp_next (settle_all st) = mp_next st"
  by (simp_all add: settle_all_def busy_count_def)

lemma todo_step:
  assumes inv: "pool_inv k f xs st" and step: "pool_step f xs st st'"
  shows "todo xs st' < todo xs st"
  using step
proof cases
  case 1: (Answer w i v)
  let ?st = "st\<lparr>mp_results := (mp_results st)[i := Some v]\<rparr>"
  have w: "w < length (mp_workers ?st)" "mp_workers ?st ! w = Busy i" using 1 by simp_all
  have same: "busy_count ?st = busy_count st" by (simp add: busy_count_def)
  show ?thesis
  proof (cases "mp_next st < length xs")
    case True
    then have "busy_count (take_next (length xs) w ?st) = busy_count st"
      using busy_count_update(2) [OF w, of "mp_next st"] same by (simp add: take_next_def busy_count_def)
    with True 1 show ?thesis by (simp add: todo_def take_next_def)
  next
    case False
    then have "busy_count (take_next (length xs) w ?st) = busy_count st - 1"
      using busy_count_update(3) [OF w, of Finished] same by (simp add: take_next_def busy_count_def)
    with False 1 busy_count_update(1) [OF w] same show ?thesis by (simp add: todo_def take_next_def)
  qed
next
  case 2: (Failure w i e)
  have "busy_count st' = busy_count st - 1"
    using busy_count_update(3) [OF 2(2,3), of Broken] 2(1) by (simp add: busy_count_def)
  with busy_count_update(1) [OF 2(2,3)] 2(1) show ?thesis by (simp add: todo_def)
qed

lemma run_length:
  assumes start: "mapBounded (Some xs) limit is_function = Inr st0" and run: "(pool_step f xs ^^ t) st0 st"
  shows "t + todo xs st \<le> length xs"
  using run
proof (induction t arbitrary: st)
  case 0
  have "mp_next st0 = length (mp_workers st0)" "mp_next st0 \<le> length xs"
    using mapBounded_start [OF start] by (auto simp: pool_inv_def pool_ok_def)
  with 0 busy_le_workers [of st0] show ?case by (simp add: todo_def)
next
  case (Suc t)
  then obtain st1 where 1: "(pool_step f xs ^^ t) st0 st1" "pool_step f xs st1 st" by auto
  have "pool_inv (min (nat (safe_int limit)) (length xs)) f xs st1"
    using bounded_map.reachable_inv [OF start relpowp_imp_rtranclp [OF 1(1)]] .
  from todo_step [OF this 1(2)] Suc.IH [OF 1(1)] show ?case by simp
qed

lemma busy_progress:
  assumes "pool_inv k f xs st" and "Busy i \<in> set (mp_workers st)"
  shows "\<exists>st'. pool_step f xs st st'"
proof -
  obtain w where "w < length (mp_workers st)" "mp_workers st ! w = Busy i" using assms(2) by (metis in_set_conv_nth)
  then show ?thesis by (cases "f (xs ! i) i") (blast intro: pool_step.intros)+
qed

text \<open>The sequential map with the index.\<close>

definition map_sequential :: "('a \<Rightarrow> nat \<Rightarrow> 'b res) \<Rightarrow> 'a list \<Rightarrow> 'b list res" where
  "map_sequential f xs = mapR (\<lambda>i. f (xs ! i) i) [0..<length xs]"

lemma map_sequential_Inr:
  assumes "length ys = length xs" and "\<And>i. i < length xs \<Longrightarrow> f (xs ! i) i = Inr (ys ! i)"
  shows "map_sequential f xs = Inr ys"
  unfolding map_sequential_def mapR_Inr_list_all2 using assms by (simp add: list_all2_conv_all_nth)

text \<open>C15. A bounded map is the sequential map, whatever the order of the answers: a run has at most one
  answer for each item and never waits for more calls than the limit; the mapper is called for the items
  in order, each once; while the promise is pending an answer is outstanding; what it resolves to is what
  the sequential map gives; and it is rejected only with an error of the mapper.\<close>

theorem mapBounded_maps:
  assumes start: "mapBounded (Some xs) limit True = Inr st0" and run: "(pool_step f xs ^^ t) st0 st"
  shows "t \<le> length xs \<and> int (busy_count st) \<le> safe_int limit
    \<and> mp_calls st = [0..<mp_next st] \<and> mp_next st \<le> length xs
    \<and> (case mp_outcome st of
         Pending \<Rightarrow> \<exists>st'. pool_step f xs st st'
       | Resolved rs \<Rightarrow> map_sequential f xs = Inr (map the rs) \<and> None \<notin> set rs
       | Rejected e \<Rightarrow> \<exists>i < length xs. f (xs ! i) i = Inl e)"
proof -
  have inv: "pool_inv (min (nat (safe_int limit)) (length xs)) f xs st"
    using bounded_map.reachable_inv [OF start relpowp_imp_rtranclp [OF run]] .
  then have ok: "pool_ok (min (nat (safe_int limit)) (length xs)) f xs st" and out: "outcome_ok f xs st"
    by (simp_all add: pool_inv_def)
  have limit: "1 \<le> safe_int limit" using start by (auto simp: mapBounded_def split: if_splits)
  have busy: "int (busy_count st) \<le> safe_int limit"
    using busy_le_workers [of st] ok limit unfolding pool_ok_def by linarith
  have outcome: "case mp_outcome st of
         Pending \<Rightarrow> \<exists>st'. pool_step f xs st st'
       | Resolved rs \<Rightarrow> map_sequential f xs = Inr (map the rs) \<and> None \<notin> set rs
       | Rejected e \<Rightarrow> \<exists>i < length xs. f (xs ! i) i = Inl e"
  proof (cases "mp_outcome st")
    case Pending
    with out inv show ?thesis using busy_progress by (auto simp: outcome_ok_def)
  next
    case (Resolved rs)
    with out have rs: "length rs = length xs" "\<forall>i < length xs. \<exists>v. rs ! i = Some v \<and> f (xs ! i) i = Inr v"
      by (simp_all add: outcome_ok_def)
    then have "map_sequential f xs = Inr (map the rs)" by (intro map_sequential_Inr) fastforce+
    moreover have "None \<notin> set rs" using rs by (metis in_set_conv_nth option.distinct(1))
    ultimately show ?thesis using Resolved by simp
  next
    case (Rejected e)
    with out show ?thesis by (simp add: outcome_ok_def)
  qed
  show ?thesis using run_length [OF start run] busy outcome ok by (simp add: pool_ok_def)
qed

text \<open>Two items with one worker, answered in two steps.\<close>

definition sample_pool :: "int map_pool" where
  "sample_pool = \<lparr>mp_next = 1, mp_workers = [Busy 0], mp_results = [None, None], mp_outcome = Pending, mp_calls = [0]\<rparr>"

theorem mapBounded_maps_witness:
  "map_sequential (\<lambda>x i. Inr (x + int i)) [5, 7] = Inr [5, 8]"
proof -
  let ?f = "\<lambda>x i. Inr (x + int i) :: int res"
  have start: "mapBounded (Some [5, 7 :: int]) (Num (nint 1)) True = Inr sample_pool" by code_simp
  let ?mid = "\<lparr>mp_next = 2, mp_workers = [Busy 1], mp_results = [Some 5, None], mp_outcome = Pending, mp_calls = [0, 1]\<rparr>"
  let ?final = "\<lparr>mp_next = 2, mp_workers = [Finished], mp_results = [Some 5, Some 8], mp_outcome = Resolved [Some 5, Some 8], mp_calls = [0, 1]\<rparr>"
  have "pool_step ?f [5, 7] sample_pool ?mid"
    using pool_step.Answer [of 0 sample_pool 0 ?f "[5, 7]" 5]
    by (simp add: sample_pool_def take_next_def settle_all_def numeral_2_eq_2)
  moreover have "pool_step ?f [5, 7] ?mid ?final"
    using pool_step.Answer [of 0 ?mid 1 ?f "[5, 7]" 8]
    by (simp add: take_next_def settle_all_def numeral_2_eq_2)
  ultimately have "(pool_step ?f [5, 7] ^^ 2) sample_pool ?final" by (auto simp: numeral_2_eq_2)
  from mapBounded_maps [OF start this] show ?thesis by simp
qed

end
