(* ===== verification/Boosts.thy ===== *)
theory Boosts
  imports JsDate JsonText
begin

text \<open>
  Promotion boosts (\<open>boost-offer.js\<close>): the packages on offer, the price in lamports, and the boosts in force
  for a mint.  \<open>Date.parse\<close> of text that is no ISO date is the parameter \<open>other\<close>.
\<close>

section \<open>Packages\<close>

record boost_package =
  bp_id :: string
  bp_multiplier :: int
  bp_hours :: int
  bp_usd :: jsnum

definition BOOST_PACKAGES :: "boost_package list" where
  "BOOST_PACKAGES =
     [\<lparr>bp_id = ''10x'', bp_multiplier = 10, bp_hours = 12, bp_usd = Fin (99 / 2)\<rparr>,
      \<lparr>bp_id = ''30x'', bp_multiplier = 30, bp_hours = 12, bp_usd = Fin (249 / 2)\<rparr>,
      \<lparr>bp_id = ''50x'', bp_multiplier = 50, bp_hours = 12, bp_usd = Fin (399 / 2)\<rparr>,
      \<lparr>bp_id = ''100x'', bp_multiplier = 100, bp_hours = 24, bp_usd = Fin (899 / 2)\<rparr>,
      \<lparr>bp_id = ''500x'', bp_multiplier = 500, bp_hours = 24, bp_usd = Fin (3999 / 2)\<rparr>]"

definition boostPackage :: "jsval \<Rightarrow> boost_package option" where
  "boostPackage i = find (\<lambda>item. i = Str (bp_id item)) BOOST_PACKAGES"

text \<open>\<open>Number.isFinite(v) && v > 0\<close>, and the number.\<close>

definition positive_finite :: "jsval \<Rightarrow> bool" where
  "positive_finite v = (case v of Num n \<Rightarrow> nfinite n \<and> nless (Fin 0) n | _ \<Rightarrow> False)"

definition boostLamports :: "jsval \<Rightarrow> jsval \<Rightarrow> jsnum res" where
  "boostLamports usd solUsd =
     (if \<not> positive_finite solUsd \<or> \<not> positive_finite usd then throw ''A live SOL/USD quote is required.''
      else let lamports = math_ceil (nmul (ndiv (to_number usd) (to_number solUsd)) (nint 1000000000)) in
        if \<not> is_safe_integer lamports \<or> nle lamports (Fin 0) then throw ''Boost amount is outside the supported range.''
        else Inr lamports)"

definition boostMemo :: "jsval \<Rightarrow> string" where
  "boostMemo i = ''funded.vip:boost:devnet:'' @ to_str i"

section \<open>Boosts in force\<close>

definition in_force :: "(string \<Rightarrow> jsnum) \<Rightarrow> jsnum \<Rightarrow> jsval \<Rightarrow> bool" where
  "in_force other now row \<longleftrightarrow>
     (let starts = date_parse other (oget row ''startsAt''); expires = date_parse other (oget row ''expiresAt'') in
      nfinite starts \<and> nle starts now \<and> nfinite expires \<and> nless now expires)"

text \<open>\<open>pack.multiplier === row.multiplier\<close>.\<close>

definition package_matches :: "jsval \<Rightarrow> bool" where
  "package_matches row =
     (case boostPackage (oget row ''packageId'') of
        None \<Rightarrow> False | Some pack \<Rightarrow> jeq (Num (nint (bp_multiplier pack))) (oget row ''multiplier''))"

text \<open>The comparator of both sorts: the larger multiplier first, then the earlier expiry.\<close>

definition larger_first :: "(string \<Rightarrow> jsnum) \<Rightarrow> jsval \<Rightarrow> jsval \<Rightarrow> bool" where
  "larger_first other a b =
     (let d = nsub (to_number (oget b ''multiplier'')) (to_number (oget a ''multiplier'')) in
      \<not> nless (Fin 0) (if truthy (Num d) then d
        else nsub (date_parse other (oget a ''expiresAt'')) (date_parse other (oget b ''expiresAt''))))"

definition activeBoostPackages :: "(string \<Rightarrow> jsnum) \<Rightarrow> jsval \<Rightarrow> jsnum \<Rightarrow> jsval list" where
  "activeBoostPackages other boost now =
     (case oget boost ''packages'' of
        Arr rows \<Rightarrow> sort_by (larger_first other) (filter (\<lambda>row. package_matches row \<and> in_force other now row) rows)
      | _ \<Rightarrow> [])"

definition activeBoostMultiplier :: "(string \<Rightarrow> jsnum) \<Rightarrow> jsval \<Rightarrow> jsnum \<Rightarrow> jsnum" where
  "activeBoostMultiplier other boost now =
     (case oget boost ''packages'' of
        Arr _ \<Rightarrow> foldl (\<lambda>total row. nadd total (to_number (oget row ''multiplier''))) (Fin 0) (activeBoostPackages other boost now)
      | _ \<Rightarrow>
        (let multiplier = to_number (oget boost ''multiplier'');
             expiresAt = date_parse other (oget boost ''expiresAt'');
             nextExpiry = date_parse other (jor (oget boost ''nextExpiry'') (oget boost ''expiresAt'')) in
         if is_safe_integer multiplier \<and> nless (Fin 0) multiplier \<and> nfinite expiresAt \<and> nless now expiresAt
           \<and> nfinite nextExpiry \<and> nless now nextExpiry
         then multiplier else Fin 0))"

record boost_item =
  bi_mint :: jsval
  bi_multiplier :: jsnum
  bi_count :: int
  bi_golden :: bool
  bi_expiresAt :: jsval
  bi_nextExpiry :: jsval
  bi_packages :: "jsval list"

text \<open>The receipts that count.  An unknown package without a multiplier passes the comparison of the code,
  \<open>undefined === undefined\<close>.\<close>

definition receipt_in_force :: "(string \<Rightarrow> jsnum) \<Rightarrow> jsnum \<Rightarrow> jsval \<Rightarrow> bool" where
  "receipt_in_force other now row \<longleftrightarrow>
     oget row ''cluster'' = Str ''devnet'' \<and> oget row ''status'' = Str ''finalized''
     \<and> (case boostPackage (oget row ''packageId'') of
          None \<Rightarrow> oget row ''multiplier'' = Undef
        | Some pack \<Rightarrow> jeq (Num (nint (bp_multiplier pack))) (oget row ''multiplier''))
     \<and> in_force other now row"

definition package_entry :: "jsval \<Rightarrow> jsval" where
  "package_entry row = Obj [(''packageId'', oget row ''packageId''), (''multiplier'', oget row ''multiplier''),
     (''startsAt'', oget row ''startsAt''), (''expiresAt'', oget row ''expiresAt'')]"

definition add_boost :: "(string \<Rightarrow> jsnum) \<Rightarrow> jsval \<Rightarrow> (string, boost_item) omap \<Rightarrow> (string, boost_item) omap" where
  "add_boost other row byMint =
     (let key = to_str (oget row ''mint'');
          item = (case map_of byMint key of Some i \<Rightarrow> i
            | None \<Rightarrow> \<lparr>bi_mint = oget row ''mint'', bi_multiplier = Fin 0, bi_count = 0, bi_golden = False,
                bi_expiresAt = oget row ''expiresAt'', bi_nextExpiry = oget row ''expiresAt'', bi_packages = []\<rparr>);
          multiplier = nadd (bi_multiplier item) (to_number (oget row ''multiplier''));
          expires = date_parse other (oget row ''expiresAt'') in
      oset key (item\<lparr>bi_multiplier := multiplier, bi_count := bi_count item + 1,
         bi_packages := bi_packages item @ [package_entry row], bi_golden := nle (nint 500) multiplier,
         bi_expiresAt := (if nless (date_parse other (bi_expiresAt item)) expires then oget row ''expiresAt'' else bi_expiresAt item),
         bi_nextExpiry := (if nless expires (date_parse other (bi_nextExpiry item)) then oget row ''expiresAt'' else bi_nextExpiry item)\<rparr>)
       byMint)"

definition activeBoosts :: "(string \<Rightarrow> jsnum) \<Rightarrow> jsval \<Rightarrow> jsnum \<Rightarrow> (string, boost_item) omap" where
  "activeBoosts other receipts now =
     map (\<lambda>(key, item). (key, item\<lparr>bi_packages := sort_by (larger_first other) (bi_packages item)\<rparr>))
       (foldl (\<lambda>byMint row. add_boost other row byMint) []
         (filter (receipt_in_force other now) (map snd (obj_entries (jor receipts (Obj []))))))"

text \<open>An item as the pages receive it.\<close>

definition item_value :: "boost_item \<Rightarrow> jsval" where
  "item_value i = Obj [(''mint'', bi_mint i), (''multiplier'', Num (bi_multiplier i)), (''count'', Num (nint (bi_count i))),
     (''golden'', Bool (bi_golden i)), (''expiresAt'', bi_expiresAt i), (''nextExpiry'', bi_nextExpiry i),
     (''packages'', Arr (bi_packages i))]"

section \<open>An item agrees with what the pages recompute from it\<close>

lemma boostPackage_cases:
  "boostPackage i = Some p \<Longrightarrow> bp_multiplier p \<in> {10, 30, 50, 100, 500}"
  by (auto simp: boostPackage_def BOOST_PACKAGES_def split: if_splits)

text \<open>The multiplier of a package, as an integer.\<close>

definition weight :: "jsval \<Rightarrow> int" where
  "weight row = (case boostPackage (oget row ''packageId'') of None \<Rightarrow> 0 | Some p \<Rightarrow> bp_multiplier p)"

lemma weight_range: "0 \<le> weight row" "weight row \<le> 500"
  using boostPackage_cases by (fastforce simp: weight_def split: option.splits)+

lemma package_multiplier: "package_matches row \<Longrightarrow> to_number (oget row ''multiplier'') = nint (weight row)"
  by (auto simp: package_matches_def weight_def jeq_def split: option.splits dest!: sym [of "Num _"])

lemma entry_same [simp]:
  "package_matches (package_entry row) = package_matches row" "in_force other now (package_entry row) = in_force other now row"
  "weight (package_entry row) = weight row"
  by (auto simp: package_matches_def in_force_def package_entry_def weight_def split: option.splits)

lemma foldl_nadd_weights:
  assumes "\<forall>row \<in> set rows. package_matches row" and "0 \<le> a" and "a + sum_list (map weight rows) \<le> max_safe"
  shows "foldl (\<lambda>total row. nadd total (to_number (oget row ''multiplier''))) (nint a) rows = nint (a + sum_list (map weight rows))"
  using assms
proof (induction rows arbitrary: a)
  case (Cons row rows)
  have "0 \<le> sum_list (map weight rows)" by (intro sum_list_nonneg) (auto simp: weight_range)
  with Cons.prems weight_range [of row] have "\<bar>a + weight row\<bar> \<le> max_safe" by simp
  then have "nadd (nint a) (to_number (oget row ''multiplier'')) = nint (a + weight row)"
    using Cons.prems(1) by (simp only: package_multiplier nadd_int list.set_intros)
  moreover have "foldl (\<lambda>total row. nadd total (to_number (oget row ''multiplier''))) (nint (a + weight row)) rows
      = nint (a + weight row + sum_list (map weight rows))"
    using Cons.prems weight_range [of row] by (intro Cons.IH) auto
  ultimately show ?case by (simp only: foldl_Cons list.map sum_list.Cons add.assoc)
qed simp

definition item_ok :: "(string \<Rightarrow> jsnum) \<Rightarrow> jsnum \<Rightarrow> nat \<Rightarrow> boost_item \<Rightarrow> bool" where
  "item_ok other now n i \<longleftrightarrow>
     (\<forall>row \<in> set (bi_packages i). package_matches row \<and> in_force other now row)
     \<and> bi_multiplier i = nint (sum_list (map weight (bi_packages i)))
     \<and> bi_count i = int (length (bi_packages i)) \<and> length (bi_packages i) \<le> n
     \<and> (bi_golden i \<longleftrightarrow> 500 \<le> sum_list (map weight (bi_packages i)))"

lemma weights_bound: "sum_list (map weight rows) \<le> 500 * int (length rows)" "0 \<le> sum_list (map weight rows)"
proof -
  show "sum_list (map weight rows) \<le> 500 * int (length rows)"
    by (induction rows) (use weight_range(2) in \<open>auto intro: add_mono\<close>)
  show "0 \<le> sum_list (map weight rows)" by (intro sum_list_nonneg) (auto simp: weight_range)
qed

lemma in_bound:
  fixes s w l n m :: int
  shows "s \<le> 500 * l \<Longrightarrow> 0 \<le> s \<Longrightarrow> 0 \<le> w \<Longrightarrow> w \<le> 500 \<Longrightarrow> l \<le> n \<Longrightarrow> 500 * (n + 1) \<le> m \<Longrightarrow> \<bar>s + w\<bar> \<le> m"
  by (simp add: distrib_left)

lemma in_bound0:
  fixes l n m :: int
  shows "l \<le> n \<Longrightarrow> 500 * n \<le> m \<Longrightarrow> 500 * (0 + l) \<le> m"
  by simp

lemma add_boost_ok:
  assumes ok: "\<forall>(k, i) \<in> set byMint. item_ok other now n i" and row: "package_matches row" "in_force other now row"
    and n: "500 * (int n + 1) \<le> max_safe"
  shows "\<forall>(k, i) \<in> set (add_boost other row byMint). item_ok other now (Suc n) i"
proof -
  let ?key = "to_str (oget row ''mint'')"
  let ?new = "\<lparr>bi_mint = oget row ''mint'', bi_multiplier = Fin 0, bi_count = 0, bi_golden = False,
                bi_expiresAt = oget row ''expiresAt'', bi_nextExpiry = oget row ''expiresAt'', bi_packages = []\<rparr>"
  define item where item: "item = (case map_of byMint ?key of Some i \<Rightarrow> i | None \<Rightarrow> ?new)"
  have new: "item_ok other now n item \<or> item = ?new"
    using ok map_of_SomeD [of byMint ?key] by (auto simp: item split: option.splits)
  let ?sum = "sum_list (map weight (bi_packages item))"
  have sum: "bi_multiplier item = nint ?sum" and len: "length (bi_packages item) \<le> n" "bi_count item = int (length (bi_packages item))"
    and rows: "\<forall>row \<in> set (bi_packages item). package_matches row \<and> in_force other now row"
    using new by (auto simp: item_ok_def)
  have "\<bar>?sum + weight row\<bar> \<le> max_safe"
    by (rule in_bound [OF weights_bound weight_range of_nat_mono [OF len(1)] n])
  then have mult: "nadd (bi_multiplier item) (to_number (oget row ''multiplier'')) = nint (?sum + weight row)"
    by (simp only: sum package_multiplier [OF row(1)] nadd_int)
  have "item_ok other now n i \<Longrightarrow> item_ok other now (Suc n) i" for i by (auto simp: item_ok_def)
  moreover have "\<exists>i. add_boost other row byMint = oset ?key i byMint \<and> item_ok other now (Suc n) i"
    unfolding add_boost_def Let_def item [symmetric] mult
    by (rule exI, rule conjI, rule refl, use rows len row in \<open>auto simp: item_ok_def\<close>)
  ultimately show ?thesis using ok set_oset by fastforce
qed

lemma boosts_ok:
  assumes "\<forall>row \<in> set rows. package_matches row \<and> in_force other now row"
    and "500 * (int n + int (length rows)) \<le> max_safe" and "\<forall>(k, i) \<in> set byMint. item_ok other now n i"
  shows "\<forall>(k, i) \<in> set (foldl (\<lambda>byMint row. add_boost other row byMint) byMint rows). item_ok other now (n + length rows) i"
  using assms
proof (induction rows arbitrary: n byMint)
  case (Cons row rows)
  have "\<forall>(k, i) \<in> set (add_boost other row byMint). item_ok other now (Suc n) i"
    using Cons.prems by (intro add_boost_ok) auto
  from Cons.IH [OF _ _ this] Cons.prems show ?case by simp
qed simp

text \<open>What the server reports for a mint is what a page recomputes from the packages of the report, as long
  as the receipts in force are of packages on offer.\<close>

lemma activeBoosts_recomputed:
  assumes item: "(key, item) \<in> set (activeBoosts other receipts now)"
    and known: "\<forall>row \<in> set (filter (receipt_in_force other now) (map snd (obj_entries (jor receipts (Obj []))))).
      boostPackage (oget row ''packageId'') \<noteq> None"
    and few: "500 * int (length (obj_entries (jor receipts (Obj [])))) \<le> max_safe"
  shows "activeBoostMultiplier other (item_value item) now = bi_multiplier item
    \<and> mset (activeBoostPackages other (item_value item) now) = mset (bi_packages item)
    \<and> bi_count item = int (length (bi_packages item))
    \<and> (bi_golden item \<longleftrightarrow> 500 \<le> sum_list (map weight (bi_packages item)))"
proof -
  let ?rows = "filter (receipt_in_force other now) (map snd (obj_entries (jor receipts (Obj []))))"
  have rows: "\<forall>row \<in> set ?rows. package_matches row \<and> in_force other now row"
    using known by (auto simp: receipt_in_force_def package_matches_def split: option.splits)
  have "length ?rows \<le> length (obj_entries (jor receipts (Obj [])))" by (metis length_filter_le length_map)
  from of_nat_mono [OF this, where 'a = int] have len: "500 * (int 0 + int (length ?rows)) \<le> max_safe"
    using in_bound0 [OF _ few] by simp
  obtain i where i: "(key, i) \<in> set (foldl (\<lambda>byMint row. add_boost other row byMint) [] ?rows)"
    and it: "item = i\<lparr>bi_packages := sort_by (larger_first other) (bi_packages i)\<rparr>"
    using item by (auto simp: activeBoosts_def)
  have ok: "item_ok other now (length ?rows) i"
    using boosts_ok [OF rows len, of "[]"] i by fastforce
  let ?p = "bi_packages i"
  have pkgs: "activeBoostPackages other (item_value item) now = sort_by (larger_first other) (sort_by (larger_first other) ?p)"
    using ok by (simp add: activeBoostPackages_def item_value_def it item_ok_def filter_id_conv)
  have "sum_list (map weight ?p) \<le> max_safe"
    using ok weights_bound(1) [of ?p] len by (simp add: item_ok_def)
  then have "activeBoostMultiplier other (item_value item) now = bi_multiplier item"
    using foldl_nadd_weights [of "sort_by (larger_first other) (sort_by (larger_first other) ?p)" 0] ok pkgs
    by (simp add: activeBoostMultiplier_def item_ok_def it item_value_def)
  then show ?thesis using ok pkgs by (simp add: it item_ok_def)
qed

end
