(* ===== verification/Recovery.thy ===== *)
theory Recovery
  imports Boosts
begin

text \<open>
  Recovery records in browser storage: before a signed payment is sent, it is saved under a key, and the
  record is kept until the payment is verified (\<open>listing-recovery.js\<close>, \<open>community-funding-recovery.js\<close>,
  \<open>boost-checkout-recovery.js\<close>).  Storage is a parameter, since every access may throw; so are \<open>JSON.parse\<close>
  and the number of bytes \<open>bs58.decode\<close> gives, which is none where it throws.
\<close>

section \<open>Storage\<close>

record 's web_storage =
  ws_available :: "'s \<Rightarrow> bool"
  ws_get :: "string \<Rightarrow> 's \<Rightarrow> string option res"
  ws_set :: "string \<Rightarrow> string \<Rightarrow> 's \<Rightarrow> unit res \<times> 's"
  ws_remove :: "string \<Rightarrow> 's \<Rightarrow> unit res \<times> 's"

text \<open>What the interface of Web Storage documents: a write changes no other key, leaves its own key as it was
  or with the text written, and reading changes nothing.\<close>

definition storage_law :: "'s web_storage \<Rightarrow> bool" where
  "storage_law W \<longleftrightarrow>
     (\<forall>k v s. ws_get W k (snd (ws_set W k v s)) \<in> {ws_get W k s, Inr (Some v)}
        \<and> ws_available W (snd (ws_set W k v s)) = ws_available W s
        \<and> ws_available W (snd (ws_remove W k s)) = ws_available W s
        \<and> (\<forall>k'. k' \<noteq> k \<longrightarrow> ws_get W k' (snd (ws_set W k v s)) = ws_get W k' s
              \<and> ws_get W k' (snd (ws_remove W k s)) = ws_get W k' s))"

lemma storage_lawD:
  assumes "storage_law W"
  shows "ws_set W k v s = (r, s') \<Longrightarrow> ws_get W k s' = ws_get W k s \<or> ws_get W k s' = Inr (Some v)"
    and "ws_set W k v s = (r, s') \<Longrightarrow> ws_available W s' = ws_available W s"
    and "ws_set W k v s = (r, s') \<Longrightarrow> k' \<noteq> k \<Longrightarrow> ws_get W k' s' = ws_get W k' s"
    and "ws_remove W k s = (r, s') \<Longrightarrow> ws_available W s' = ws_available W s"
    and "ws_remove W k s = (r, s') \<Longrightarrow> k' \<noteq> k \<Longrightarrow> ws_get W k' s' = ws_get W k' s"
  using assms unfolding storage_law_def by (metis empty_iff insert_iff snd_conv)+

text \<open>Effects on storage that may throw: the state is kept.\<close>

definition then_do :: "'a res \<times> 's \<Rightarrow> ('a \<Rightarrow> 's \<Rightarrow> 'b res \<times> 's) \<Rightarrow> 'b res \<times> 's" where
  "then_do rs k = (case rs of (Inl e, s) \<Rightarrow> (Inl e, s) | (Inr x, s) \<Rightarrow> k x s)"

lemma then_do_simps [simp]: "then_do (Inl e, s) k = (Inl e, s)" "then_do (Inr x, s) k = k x s"
  by (simp_all add: then_do_def)

text \<open>\<open>try \<dots> catch (throw new Error(message))\<close>.\<close>

definition rethrow :: "string \<Rightarrow> 'a res \<Rightarrow> 'a res" where
  "rethrow message r = (case r of Inl _ \<Rightarrow> throw message | Inr x \<Rightarrow> Inr x)"

lemma rethrow_Inr [simp]: "rethrow m r = Inr x \<longleftrightarrow> r = Inr x" "rethrow m (Inr x) = Inr x"
  by (auto simp: rethrow_def split: sum.splits)

text \<open>\<open>JSON.stringify(one) === JSON.stringify(two)\<close>, where \<open>one\<close> may be \<open>null\<close>.\<close>

definition same_json :: "jsval option \<Rightarrow> jsval \<Rightarrow> bool res" where
  "same_json one two = bindR (json_differs (case one of None \<Rightarrow> Null | Some v \<Rightarrow> v) two) (\<lambda>d. Inr (\<not> d))"

definition is_object :: "jsval \<Rightarrow> bool" where
  "is_object v = (case v of Obj _ \<Rightarrow> True | _ \<Rightarrow> False)"

definition str_of :: "jsval \<Rightarrow> string" where
  "str_of v = (case v of Str s \<Rightarrow> s | _ \<Rightarrow> [])"

definition is_str :: "jsval \<Rightarrow> bool" where
  "is_str v = (case v of Str _ \<Rightarrow> True | _ \<Rightarrow> False)"

text \<open>\<open>/^prefix_\d+_[0-9a-f]{16}$/\<close>.\<close>

definition quote_id :: "string \<Rightarrow> string \<Rightarrow> bool" where
  "quote_id prefix s =
     (case split_on (CHR ''_'') s of
        [p, d, h] \<Rightarrow> p = prefix \<and> all_digits d \<and> length h = 16 \<and> list_all is_hex_lower h
      | _ \<Rightarrow> False)"

section \<open>The contract\<close>

text \<open>
  A store that holds at most one record: no permitted operation replaces it by another, and only one that
  clears this very record removes it.
\<close>

locale recovery_store =
  fixes current :: "'s \<Rightarrow> 'r option" and perform :: "'op \<Rightarrow> 's \<Rightarrow> 's"
    and permitted :: "'op \<Rightarrow> bool" and clears :: "'op \<Rightarrow> 'r \<Rightarrow> bool" and same :: "'r \<Rightarrow> 'r \<Rightarrow> bool"
  assumes keeps: "current s = Some e \<Longrightarrow> permitted op \<Longrightarrow> \<not> clears op e \<Longrightarrow>
      \<exists>e'. current (perform op s) = Some e' \<and> same e e'"
    and same_refl: "same e e"
    and same_trans: "same e e' \<Longrightarrow> same e' e'' \<Longrightarrow> same e e''"
    and clears_same: "same e e' \<Longrightarrow> clears op e' \<Longrightarrow> clears op e"
begin

lemma run_keeps:
  "current s = Some e \<Longrightarrow> \<forall>op \<in> set ops. permitted op \<and> \<not> clears op e \<Longrightarrow>
   \<exists>e'. current (fold perform ops s) = Some e' \<and> same e e'"
proof (induction ops arbitrary: s e)
  case Nil
  then show ?case using same_refl by auto
next
  case (Cons op ops)
  obtain e1 where 1: "current (perform op s) = Some e1" "same e e1"
    using keeps [OF Cons.prems(1)] Cons.prems(2) by auto
  have "\<forall>op \<in> set ops. permitted op \<and> \<not> clears op e1" using Cons.prems(2) clears_same [OF 1(2)] by auto
  from Cons.IH [OF 1(1) this] 1(2) show ?case using same_trans by auto
qed

end

section \<open>Listing burns\<close>

definition LISTING_PENDING_KEY :: string where
  "LISTING_PENDING_KEY = ''funded.vip.pending-listing-burn.v1''"

text \<open>\<open>decode\<close> is the length of \<open>bs58.decode(value)\<close>.\<close>

definition encodedBytes :: "(string \<Rightarrow> nat option) \<Rightarrow> jsval \<Rightarrow> nat \<Rightarrow> bool" where
  "encodedBytes decode v bytes =
     (case v of Str s \<Rightarrow> length s \<le> bytes * 2 \<and> decode s = Some bytes | _ \<Rightarrow> False)"

definition listing_invalid :: "(string \<Rightarrow> nat option) \<Rightarrow> jsval \<Rightarrow> bool" where
  "listing_invalid decode v \<longleftrightarrow>
     (let g = oget v; name = str_of (g ''name''); symbol = str_of (g ''symbol'') in
      \<not> is_object v \<or> \<not> encodedBytes decode (g ''mint'') 32 \<or> \<not> encodedBytes decode (g ''wallet'') 32
        \<or> \<not> encodedBytes decode (g ''signature'') 64
        \<or> (nullish (g ''quoteId'') Null \<noteq> Null \<and> \<not> quote_id ''listing'' (to_str (g ''quoteId'')))
        \<or> (nullish (g ''cluster'') Null \<noteq> Null \<and> g ''cluster'' \<noteq> Str ''devnet'')
        \<or> \<not> is_str (g ''name'') \<or> trim name = [] \<or> 256 < length name
        \<or> \<not> is_str (g ''symbol'') \<or> trim symbol = [] \<or> 64 < length symbol)"

definition validatePendingListing :: "(string \<Rightarrow> nat option) \<Rightarrow> jsval \<Rightarrow> jsval res" where
  "validatePendingListing decode v =
     (let g = oget v in
      if listing_invalid decode v
      then throw ''Saved listing recovery details are invalid. Keep this tab and its data; do not submit another burn.''
      else Inr (Obj ([(''mint'', g ''mint''), (''name'', g ''name''), (''symbol'', g ''symbol''), (''wallet'', g ''wallet''),
          (''signature'', g ''signature'')]
        @ (if truthy (g ''quoteId'') then [(''quoteId'', g ''quoteId'')] else []) @ [(''cluster'', Str ''devnet'')])))"

text \<open>What every operation needs of its surroundings.\<close>

record 's recovery_env =
  re_storage :: "'s web_storage"
  re_decode :: "string \<Rightarrow> nat option"
  re_parse :: "string \<Rightarrow> jsval res"

definition readPendingListing :: "'s recovery_env \<Rightarrow> 's \<Rightarrow> jsval option res" where
  "readPendingListing E s =
     bindR (rethrow ''Listing recovery storage cannot be read. Payment is paused; restore browser storage access before continuing.''
        (if ws_available (re_storage E) s then ws_get (re_storage E) LISTING_PENDING_KEY s else Inl LibErr)) (\<lambda>raw.
     case raw of None \<Rightarrow> Inr None
     | Some text \<Rightarrow>
         bindR (rethrow ''Saved listing recovery details are unreadable. Keep this tab and its data; do not submit another burn.''
           (re_parse E text)) (\<lambda>v.
         bindR (validatePendingListing (re_decode E) v) (\<lambda>p. Inr (Some p))))"

text \<open>Reading inside an operation, with the state that it leaves alone.\<close>

definition pure_do :: "'a res \<Rightarrow> 's \<Rightarrow> ('a \<Rightarrow> 's \<Rightarrow> 'b res \<times> 's) \<Rightarrow> 'b res \<times> 's" where
  "pure_do r s k = then_do (r, s) k"

lemma pure_do_simps [simp]: "pure_do (Inl e) s k = (Inl e, s)" "pure_do (Inr x) s k = k x s"
  by (simp_all add: pure_do_def)

text \<open>The steps that the listing and the reserve records share; the messages are those of the code.\<close>

record recovery_messages =
  rm_other :: string
  rm_not_saved :: string
  rm_not_confirmed :: string
  rm_different :: string
  rm_not_cleared :: string
  rm_remains :: string

definition text_of :: "string option \<Rightarrow> string" where
  "text_of t = (case t of None \<Rightarrow> ''undefined'' | Some s \<Rightarrow> s)"

definition save_record ::
  "recovery_messages \<Rightarrow> string \<Rightarrow> 's web_storage \<Rightarrow> ('s \<Rightarrow> jsval option res) \<Rightarrow> jsval \<Rightarrow> 's \<Rightarrow> jsval res \<times> 's" where
  "save_record M key W read pending s =
     pure_do (read s) s (\<lambda>existing s.
     pure_do (case existing of None \<Rightarrow> Inr True | Some e \<Rightarrow> same_json (Some e) pending) s (\<lambda>same s.
     if \<not> same then (throw (rm_other M), s)
     else then_do (case json pending of
            Inl _ \<Rightarrow> (throw (rm_not_saved M), s)
          | Inr t \<Rightarrow> (let (r, s1) = ws_set W key (text_of t) s in (rethrow (rm_not_saved M) r, s1))) (\<lambda>_ s.
     pure_do (bindR (read s) (\<lambda>back. same_json back pending)) s (\<lambda>confirmed s.
     if \<not> confirmed then (throw (rm_not_confirmed M), s) else (Inr pending, s)))))"

definition clear_record ::
  "recovery_messages \<Rightarrow> string \<Rightarrow> 's web_storage \<Rightarrow> ('s \<Rightarrow> jsval option res) \<Rightarrow> jsval \<Rightarrow> 's \<Rightarrow> unit res \<times> 's" where
  "clear_record M key W read pending s =
     pure_do (read s) s (\<lambda>existing s.
     case existing of
       None \<Rightarrow> (Inr (), s)
     | Some e \<Rightarrow>
         pure_do (same_json (Some e) pending) s (\<lambda>same s.
         if \<not> same then (throw (rm_different M), s)
         else then_do (let (r, s1) = ws_remove W key s in (rethrow (rm_not_cleared M) r, s1)) (\<lambda>_ s.
         pure_do (read s) s (\<lambda>left s.
         if left \<noteq> None then (throw (rm_remains M), s) else (Inr (), s)))))"

definition listing_messages :: recovery_messages where
  "listing_messages = \<lparr>rm_other = ''Another signed listing burn needs verification before a new payment.'',
     rm_not_saved = ''Signed burn recovery could not be saved. No transaction was sent.'',
     rm_not_confirmed = ''Signed burn recovery could not be confirmed. No transaction was sent.'',
     rm_different = ''A different signed listing burn is saved. Its recovery record was kept.'',
     rm_not_cleared = ''The verified result could not clear its recovery record. Keep this tab and retry verification after restoring storage access.'',
     rm_remains = ''The listing recovery record remains saved. Do not submit another burn.''\<rparr>"

definition savePendingListing :: "'s recovery_env \<Rightarrow> jsval \<Rightarrow> 's \<Rightarrow> jsval res \<times> 's" where
  "savePendingListing E v s =
     (if \<not> ws_available (re_storage E) s then (throw ''Listing recovery storage is unavailable. No transaction was sent.'', s)
      else pure_do (validatePendingListing (re_decode E) v) s
        (save_record listing_messages LISTING_PENDING_KEY (re_storage E) (readPendingListing E)))"

definition clearPendingListing :: "'s recovery_env \<Rightarrow> jsval \<Rightarrow> 's \<Rightarrow> unit res \<times> 's" where
  "clearPendingListing E v s =
     (if \<not> ws_available (re_storage E) s
      then (throw ''Listing recovery storage is unavailable. The signed receipt must be retained.'', s)
      else pure_do (validatePendingListing (re_decode E) v) s
        (clear_record listing_messages LISTING_PENDING_KEY (re_storage E) (readPendingListing E)))"

section \<open>Reserve funding\<close>

definition COMMUNITY_FUNDING_PENDING_KEY :: string where
  "COMMUNITY_FUNDING_PENDING_KEY = ''funded.vip.pending-community-funding.v1''"

definition publicBytes :: "(string \<Rightarrow> nat option) \<Rightarrow> jsval \<Rightarrow> nat \<Rightarrow> bool" where
  "publicBytes decode v bytes =
     (case v of Str s \<Rightarrow> length s \<le> 128 \<and> decode s = Some bytes | _ \<Rightarrow> False)"

definition validatePendingCommunityFunding :: "(string \<Rightarrow> nat option) \<Rightarrow> jsval \<Rightarrow> jsval res" where
  "validatePendingCommunityFunding decode v =
     (let g = oget v in
      if \<not> is_object v \<or> \<not> publicBytes decode (g ''mint'') 32 \<or> \<not> publicBytes decode (g ''wallet'') 32
        \<or> \<not> publicBytes decode (g ''signature'') 64 \<or> g ''cluster'' \<noteq> Str ''devnet''
      then throw ''Saved reserve funding details are invalid. Keep the original receipt; do not sign another transfer.''
      else Inr (Obj [(''mint'', g ''mint''), (''wallet'', g ''wallet''), (''signature'', g ''signature''), (''cluster'', Str ''devnet'')]))"

text \<open>The storage is the argument's default, read before the body runs.\<close>

definition readPendingCommunityFunding :: "'s recovery_env \<Rightarrow> 's \<Rightarrow> jsval option res" where
  "readPendingCommunityFunding E s =
     (if \<not> ws_available (re_storage E) s then Inl LibErr
      else bindR (rethrow ''Reserve funding recovery storage is unavailable. Do not sign another transfer.''
        (ws_get (re_storage E) COMMUNITY_FUNDING_PENDING_KEY s)) (\<lambda>raw.
      case raw of None \<Rightarrow> Inr None
      | Some text \<Rightarrow> rethrow ''Saved reserve funding details cannot be read. Do not sign another transfer.''
          (bindR (re_parse E text) (\<lambda>v. bindR (validatePendingCommunityFunding (re_decode E) v) (\<lambda>p. Inr (Some p))))))"

definition funding_messages :: recovery_messages where
  "funding_messages = \<lparr>rm_other = ''Another signed reserve transfer needs verification before a new one.'',
     rm_not_saved = ''Signed reserve transfer recovery could not be saved. No transfer was sent.'',
     rm_not_confirmed = ''Signed reserve transfer recovery could not be confirmed. No transfer was sent.'',
     rm_different = ''A different reserve transfer is saved. Its recovery record was kept.'',
     rm_not_cleared = ''Reserve funding recovery could not be cleared. Verify the original receipt before another transfer.'',
     rm_remains = ''Reserve funding recovery remains saved. Do not sign another transfer.''\<rparr>"

definition savePendingCommunityFunding :: "'s recovery_env \<Rightarrow> jsval \<Rightarrow> 's \<Rightarrow> jsval res \<times> 's" where
  "savePendingCommunityFunding E v s =
     (if \<not> ws_available (re_storage E) s then (Inl LibErr, s)
      else pure_do (validatePendingCommunityFunding (re_decode E) v) s
        (save_record funding_messages COMMUNITY_FUNDING_PENDING_KEY (re_storage E) (readPendingCommunityFunding E)))"

definition clearPendingCommunityFunding :: "'s recovery_env \<Rightarrow> jsval \<Rightarrow> 's \<Rightarrow> unit res \<times> 's" where
  "clearPendingCommunityFunding E v s =
     (if \<not> ws_available (re_storage E) s then (Inl LibErr, s)
      else pure_do (validatePendingCommunityFunding (re_decode E) v) s
        (clear_record funding_messages COMMUNITY_FUNDING_PENDING_KEY (re_storage E) (readPendingCommunityFunding E)))"

section \<open>Listing burns and reserve funding keep the contract\<close>

datatype recovery_op = Save jsval | Clear jsval

definition perform_listing :: "'s recovery_env \<Rightarrow> recovery_op \<Rightarrow> 's \<Rightarrow> 's" where
  "perform_listing E op s = (case op of Save v \<Rightarrow> snd (savePendingListing E v s) | Clear v \<Rightarrow> snd (clearPendingListing E v s))"

definition perform_funding :: "'s recovery_env \<Rightarrow> recovery_op \<Rightarrow> 's \<Rightarrow> 's" where
  "perform_funding E op s =
     (case op of Save v \<Rightarrow> snd (savePendingCommunityFunding E v s) | Clear v \<Rightarrow> snd (clearPendingCommunityFunding E v s))"

definition current_of :: "('s \<Rightarrow> jsval option res) \<Rightarrow> 's \<Rightarrow> jsval option" where
  "current_of read s = (case read s of Inr (Some e) \<Rightarrow> Some e | _ \<Rightarrow> None)"

lemma current_of_Some [simp]: "current_of read s = Some e \<longleftrightarrow> read s = Inr (Some e)"
  by (auto simp: current_of_def split: sum.splits option.splits)

text \<open>Storage behaves, and a record that is saved is what \<open>JSON.parse\<close> gives for its text.\<close>

definition reads_back :: "'s recovery_env \<Rightarrow> (jsval \<Rightarrow> jsval res) \<Rightarrow> recovery_op \<Rightarrow> bool" where
  "reads_back E validate op \<longleftrightarrow> storage_law (re_storage E)
     \<and> (case op of Clear _ \<Rightarrow> True
        | Save v \<Rightarrow> (case validate v of Inl _ \<Rightarrow> True
            | Inr p \<Rightarrow> (case json p of Inr (Some t) \<Rightarrow> re_parse E t = Inr p | _ \<Rightarrow> False)))"

definition clears_record :: "(jsval \<Rightarrow> jsval res) \<Rightarrow> recovery_op \<Rightarrow> jsval \<Rightarrow> bool" where
  "clears_record validate op e = (case op of Save _ \<Rightarrow> False
     | Clear v \<Rightarrow> (case validate v of Inl _ \<Rightarrow> False | Inr p \<Rightarrow> json p = json e))"

definition same_record :: "jsval \<Rightarrow> jsval \<Rightarrow> bool" where
  "same_record a b \<longleftrightarrow> json a = json b"

lemma same_json_True: "same_json (Some e) p = Inr True \<Longrightarrow> json p = json e"
  by (auto simp: same_json_def bindR_Inr_iff dest: json_same)

text \<open>Reading depends on the text under the key alone.\<close>

definition reads_key :: "'s web_storage \<Rightarrow> string \<Rightarrow> ('s \<Rightarrow> jsval option res) \<Rightarrow> bool" where
  "reads_key W key read \<longleftrightarrow>
     (\<forall>s s'. ws_available W s' = ws_available W s \<longrightarrow> ws_get W key s' = ws_get W key s \<longrightarrow> read s' = read s)"

lemma save_record_keeps:
  assumes law: "storage_law W" and key: "reads_key W key read" and e: "read s = Inr (Some e)"
    and rereads: "\<And>s' t. json pending = Inr (Some t) \<Longrightarrow> ws_available W s' = ws_available W s
      \<Longrightarrow> ws_get W key s' = Inr (Some t) \<Longrightarrow> read s' = Inr (Some pending)"
    and stringified: "\<exists>t. json pending = Inr (Some t)"
  shows "\<exists>e'. read (snd (save_record M key W read pending s)) = Inr (Some e') \<and> same_record e e'"
proof (cases "same_json (Some e) pending")
  case (Inl err)
  with e show ?thesis by (simp add: save_record_def same_record_def)
next
  case (Inr same)
  show ?thesis
  proof (cases same)
    case False
    with Inr e show ?thesis by (simp add: save_record_def same_record_def)
  next
    case True
    then have json: "json pending = json e" using Inr same_json_True by simp
    obtain t where t: "json pending = Inr (Some t)" using stringified by blast
    obtain r s1 where w: "ws_set W key t s = (r, s1)" by (cases "ws_set W key t s")
    have s1: "read s1 = Inr (Some e) \<or> read s1 = Inr (Some pending)"
      using storage_lawD(1,2) [OF law w] rereads [OF t, of s1] key e unfolding reads_key_def by metis
    have "snd (save_record M key W read pending s) = s1"
      using Inr True e t w s1
      by (cases r) (auto simp: save_record_def text_of_def Let_def rethrow_def pure_do_def then_do_def split: sum.splits)
    with s1 json show ?thesis by (auto simp: same_record_def)
  qed
qed

lemma clear_record_keeps:
  assumes e: "read s = Inr (Some e)" and other: "json pending \<noteq> json e"
  shows "snd (clear_record M key W read pending s) = s"
proof (cases "same_json (Some e) pending")
  case (Inr same)
  then have "\<not> same" using other same_json_True [of e pending] by (cases same) auto
  with Inr e show ?thesis by (simp add: clear_record_def)
qed (use e in \<open>simp add: clear_record_def\<close>)

lemma validatePendingListing_again:
  assumes "validatePendingListing d v = Inr p"
  shows "validatePendingListing d p = Inr p"
proof -
  have ok: "\<not> listing_invalid d v" and p: "p = Obj ([(''mint'', oget v ''mint''), (''name'', oget v ''name''),
      (''symbol'', oget v ''symbol''), (''wallet'', oget v ''wallet''), (''signature'', oget v ''signature'')]
    @ (if truthy (oget v ''quoteId'') then [(''quoteId'', oget v ''quoteId'')] else []) @ [(''cluster'', Str ''devnet'')])"
    using assms by (simp_all add: validatePendingListing_def Let_def split: if_split_asm)
  have fields: "oget p ''mint'' = oget v ''mint''" "oget p ''name'' = oget v ''name''" "oget p ''symbol'' = oget v ''symbol''"
    "oget p ''wallet'' = oget v ''wallet''" "oget p ''signature'' = oget v ''signature''" "oget p ''cluster'' = Str ''devnet''"
    "oget p ''quoteId'' = (if truthy (oget v ''quoteId'') then oget v ''quoteId'' else Undef)" "is_object p"
    by (simp_all add: p is_object_def)
  have "nullish (oget p ''quoteId'') Null \<noteq> Null \<Longrightarrow>
      nullish (oget v ''quoteId'') Null \<noteq> Null \<and> oget p ''quoteId'' = oget v ''quoteId''"
    by (simp add: fields nullish_def split: if_split_asm)
  then have "\<not> listing_invalid d p"
    using ok unfolding listing_invalid_def Let_def fields(1-6) by (auto simp: fields(8) nullish_def)
  moreover have "truthy (oget p ''quoteId'') \<longleftrightarrow> truthy (oget v ''quoteId'')" by (simp add: fields)
  ultimately show ?thesis by (simp add: validatePendingListing_def Let_def fields) (simp add: p)
qed

lemma validatePendingCommunityFunding_again:
  "validatePendingCommunityFunding d v = Inr p \<Longrightarrow> validatePendingCommunityFunding d p = Inr p"
  by (auto simp: validatePendingCommunityFunding_def Let_def is_object_def split: if_splits)

lemma listing_reads_key: "reads_key (re_storage E) LISTING_PENDING_KEY (readPendingListing E)"
  by (simp add: reads_key_def readPendingListing_def)

lemma funding_reads_key: "reads_key (re_storage E) COMMUNITY_FUNDING_PENDING_KEY (readPendingCommunityFunding E)"
  by (simp add: reads_key_def readPendingCommunityFunding_def)

lemma perform_listing_keeps:
  assumes e: "readPendingListing E s = Inr (Some e)" and ok: "reads_back E (validatePendingListing (re_decode E)) op"
    and not: "\<not> clears_record (validatePendingListing (re_decode E)) op e"
  shows "\<exists>e'. readPendingListing E (perform_listing E op s) = Inr (Some e') \<and> same_record e e'"
proof (cases op)
  case (Save v)
  have avail: "ws_available (re_storage E) s"
    using e by (auto simp: readPendingListing_def bindR_Inr_iff split: if_splits)
  show ?thesis
  proof (cases "validatePendingListing (re_decode E) v")
    case (Inl err)
    then show ?thesis using e Save avail by (simp add: perform_listing_def savePendingListing_def same_record_def)
  next
    case (Inr p)
    then obtain t where t: "json p = Inr (Some t)" "re_parse E t = Inr p" and law: "storage_law (re_storage E)"
      using ok Save by (auto simp: reads_back_def split: sum.splits option.splits)
    have "\<exists>e'. readPendingListing E (snd (save_record listing_messages LISTING_PENDING_KEY (re_storage E) (readPendingListing E) p s))
        = Inr (Some e') \<and> same_record e e'"
      using t avail validatePendingListing_again [OF Inr]
      by (intro save_record_keeps [OF law listing_reads_key e]) (auto simp: readPendingListing_def)
    then show ?thesis using Save Inr avail by (simp add: perform_listing_def savePendingListing_def)
  qed
next
  case (Clear v)
  then have "perform_listing E op s = s"
    using not e clear_record_keeps [of "readPendingListing E" s e]
    by (auto simp: perform_listing_def clearPendingListing_def clears_record_def pure_do_def then_do_def split: sum.splits)
  with e show ?thesis by (simp add: same_record_def)
qed

lemma perform_funding_keeps:
  assumes e: "readPendingCommunityFunding E s = Inr (Some e)"
    and ok: "reads_back E (validatePendingCommunityFunding (re_decode E)) op"
    and not: "\<not> clears_record (validatePendingCommunityFunding (re_decode E)) op e"
  shows "\<exists>e'. readPendingCommunityFunding E (perform_funding E op s) = Inr (Some e') \<and> same_record e e'"
proof (cases op)
  case (Save v)
  have avail: "ws_available (re_storage E) s"
    using e by (auto simp: readPendingCommunityFunding_def split: if_splits)
  show ?thesis
  proof (cases "validatePendingCommunityFunding (re_decode E) v")
    case (Inl err)
    then show ?thesis using e Save avail by (simp add: perform_funding_def savePendingCommunityFunding_def same_record_def)
  next
    case (Inr p)
    then obtain t where t: "json p = Inr (Some t)" "re_parse E t = Inr p" and law: "storage_law (re_storage E)"
      using ok Save by (auto simp: reads_back_def split: sum.splits option.splits)
    have "\<exists>e'. readPendingCommunityFunding E (snd (save_record funding_messages COMMUNITY_FUNDING_PENDING_KEY
        (re_storage E) (readPendingCommunityFunding E) p s)) = Inr (Some e') \<and> same_record e e'"
      using t avail validatePendingCommunityFunding_again [OF Inr]
      by (intro save_record_keeps [OF law funding_reads_key e]) (auto simp: readPendingCommunityFunding_def)
    then show ?thesis using Save Inr avail by (simp add: perform_funding_def savePendingCommunityFunding_def)
  qed
next
  case (Clear v)
  then have "perform_funding E op s = s"
    using not e clear_record_keeps [of "readPendingCommunityFunding E" s e]
    by (auto simp: perform_funding_def clearPendingCommunityFunding_def clears_record_def pure_do_def then_do_def split: sum.splits)
  with e show ?thesis by (simp add: same_record_def)
qed

interpretation listing_store: recovery_store "current_of (readPendingListing E)" "perform_listing E"
  "reads_back E (validatePendingListing (re_decode E))" "clears_record (validatePendingListing (re_decode E))" same_record for E
  by unfold_locales
    (auto simp: same_record_def clears_record_def intro: perform_listing_keeps [unfolded same_record_def] split: recovery_op.splits sum.splits)

interpretation funding_store: recovery_store "current_of (readPendingCommunityFunding E)" "perform_funding E"
  "reads_back E (validatePendingCommunityFunding (re_decode E))" "clears_record (validatePendingCommunityFunding (re_decode E))"
  same_record for E
  by unfold_locales
    (auto simp: same_record_def clears_record_def intro: perform_funding_keeps [unfolded same_record_def] split: recovery_op.splits sum.splits)

section \<open>Signed boost payments\<close>

definition boost_quote_invalid :: "(string \<Rightarrow> jsnum) \<Rightarrow> jsval \<Rightarrow> jsval \<Rightarrow> jsval \<Rightarrow> jsval \<Rightarrow> jsnum \<Rightarrow> bool" where
  "boost_quote_invalid other quote mint payer packageId now \<longleftrightarrow>
     (let q = oget quote; expires = date_parse other (q ''expiresAt'') in
      case boostPackage packageId of
        None \<Rightarrow> True
      | Some selected \<Rightarrow>
          \<not> truthy quote \<or> q ''cluster'' \<noteq> Str ''devnet'' \<or> \<not> jeq (q ''mint'') mint \<or> \<not> jeq (q ''payer'') payer
          \<or> \<not> jeq (q ''packageId'') packageId \<or> \<not> quote_id ''boost'' (to_str (q ''id'')) \<or> \<not> is_address (to_str (q ''recipient''))
          \<or> \<not> is_safe (q ''lamports'') \<or> safe_int (q ''lamports'') \<le> 0
          \<or> \<not> positive_finite (q ''solUsd'') \<or> \<not> positive_finite (q ''usd'')
          \<or> \<not> nfinite expires \<or> nle expires now
          \<or> \<not> jeq (q ''usd'') (Num (bp_usd selected)) \<or> q ''memo'' \<noteq> Str (boostMemo (q ''id'')))"

definition validateBoostQuote :: "(string \<Rightarrow> jsnum) \<Rightarrow> jsval \<Rightarrow> jsval \<Rightarrow> jsval \<Rightarrow> jsval \<Rightarrow> jsnum \<Rightarrow> jsval res" where
  "validateBoostQuote other quote mint payer packageId now =
     (if boost_quote_invalid other quote mint payer packageId now
      then throw ''The payment quote could not be verified. Request a fresh quote before signing.'' else Inr quote)"

definition boostPaymentResolution :: "jsval \<Rightarrow> jsval \<Rightarrow> string res" where
  "boostPaymentResolution data pending =
     (let d = oget data in
      if d ''status'' \<notin> {Str ''finalized'', Str ''failed''} then Inr ''pending''
      else bindR (jget pending ''pendingSignature'') (\<lambda>signature.
        if \<not> jeq (d ''signature'') signature \<or> \<not> jeq (d ''quoteId'') (oget (oget pending ''quote'') ''id'')
          \<or> d ''cluster'' \<noteq> Str ''devnet'' \<or> \<not> is_safe (d ''slot'') \<or> safe_int (d ''slot'') < 1
          \<or> (d ''status'' = Str ''failed'' \<and> d ''commitment'' \<noteq> Str ''finalized'')
        then throw ''The payment receipt does not match this signed payment. Check the original transaction again.''
        else Inr (str_of (d ''status''))))"

definition pending_key :: "jsval \<Rightarrow> string" where
  "pending_key mint = ''funded.boost.pending.'' @ to_str mint"

definition resolved_key :: "jsval \<Rightarrow> string" where
  "resolved_key mint = ''funded.boost.resolved.'' @ to_str mint"

definition boost_record_valid :: "jsval \<Rightarrow> jsval \<Rightarrow> bool" where
  "boost_record_valid mint pending \<longleftrightarrow>
     (let quote = oget pending ''quote'' in
      is_signature (to_str (oget pending ''signature'')) \<and> jeq (oget quote ''mint'') mint
      \<and> quote_id ''boost'' (to_str (oget quote ''id'')) \<and> oget quote ''cluster'' = Str ''devnet'')"

definition readPendingBoost :: "'s recovery_env \<Rightarrow> jsval \<Rightarrow> 's \<Rightarrow> jsval option res" where
  "readPendingBoost E mint s =
     (if \<not> ws_available (re_storage E) s then Inl LibErr
      else bindR (ws_get (re_storage E) (pending_key mint) s) (\<lambda>raw.
      case raw of None \<Rightarrow> Inr None
      | Some t \<Rightarrow>
          bindR (rethrow ''Saved payment details are unreadable. Keep this device data and contact support before paying again.''
            (re_parse E t)) (\<lambda>pending.
          if \<not> boost_record_valid mint pending
          then throw ''Saved payment details could not be verified. Contact support before paying again.''
          else Inr (Some pending))))"

text \<open>\<open>stored.signature !== signature || stored.quote.id !== id\<close>.\<close>

definition other_payment :: "jsval option \<Rightarrow> jsval \<Rightarrow> jsval \<Rightarrow> bool" where
  "other_payment stored signature i =
     (case stored of None \<Rightarrow> False
      | Some e \<Rightarrow> \<not> jeq (oget e ''signature'') signature \<or> \<not> jeq (oget (oget e ''quote'') ''id'') i)"

definition archiveBoostPayment :: "'s recovery_env \<Rightarrow> jsval \<Rightarrow> jsval \<Rightarrow> 's \<Rightarrow> string res \<times> 's" where
  "archiveBoostPayment E pending proof s =
     (if \<not> ws_available (re_storage E) s then (Inl LibErr, s)
      else pure_do (boostPaymentResolution proof pending) s (\<lambda>resolution s.
      if resolution = ''pending'' then (throw ''Payment is still being checked.'', s)
      else pure_do (bindR (jget pending ''quote'') (\<lambda>quote. jget quote ''mint'')) s (\<lambda>mint s.
      pure_do (readPendingBoost E mint s) s (\<lambda>stored s.
      if other_payment stored (oget pending ''pendingSignature'') (oget (oget pending ''quote'') ''id'')
      then (throw ''Another payment is saved for this token. Reopen checkout to check it before continuing.'', s)
      else pure_do (json (Obj [(''quote'', oget pending ''quote''), (''signature'', oget pending ''pendingSignature''), (''proof'', proof)]))
        s (\<lambda>t s.
      then_do (ws_set (re_storage E) (resolved_key mint) (text_of t) s) (\<lambda>_ s.
      then_do (ws_remove (re_storage E) (pending_key mint) s) (\<lambda>_ s. (Inr resolution, s))))))))"

definition history_proof :: "jsval \<Rightarrow> jsval list \<Rightarrow> jsval option" where
  "history_proof pending rows =
     find (\<lambda>row. jeq (oget row ''signature'') (oget pending ''pendingSignature'')
         \<and> jeq (oget row ''quoteId'') (oget (oget pending ''quote'') ''id'')
         \<and> jeq (oget row ''mint'') (oget (oget pending ''quote'') ''mint'') \<and> oget row ''status'' = Str ''finalized'') rows"

definition archiveVerifiedBoostFromHistory :: "'s recovery_env \<Rightarrow> jsval \<Rightarrow> jsval \<Rightarrow> 's \<Rightarrow> bool res \<times> 's" where
  "archiveVerifiedBoostFromHistory E pending history s =
     (if \<not> ws_available (re_storage E) s then (Inl LibErr, s)
      else if \<not> truthy (oget pending ''pendingSignature'') \<or> \<not> truthy (oget pending ''quote'') then (Inr False, s)
      else case history of
        Arr rows \<Rightarrow> (case history_proof pending rows of
            None \<Rightarrow> (Inr False, s)
          | Some proof \<Rightarrow> then_do (archiveBoostPayment E pending proof s) (\<lambda>_ s. (Inr True, s)))
      | _ \<Rightarrow> (Inr False, s))"

text \<open>\<open>persist\<close>; with or without a lock it runs without interruption in its tab.\<close>

definition saveSignedBoostPayment :: "'s recovery_env \<Rightarrow> jsval \<Rightarrow> 's \<Rightarrow> unit res \<times> 's" where
  "saveSignedBoostPayment E record s =
     (if \<not> ws_available (re_storage E) s then (Inl LibErr, s)
      else pure_do (bindR (jget record ''quote'') (\<lambda>quote. jget quote ''mint'')) s (\<lambda>mint s.
      pure_do (readPendingBoost E mint s) s (\<lambda>current s.
      if other_payment current (oget record ''signature'') (oget (oget record ''quote'') ''id'')
      then (throw ''A payment for this token is already saved. Reopen checkout to verify it before paying again.'', s)
      else pure_do (json record) s (\<lambda>t s. ws_set (re_storage E) (pending_key mint) (text_of t) s))))"

datatype boost_op = SaveSigned jsval | Archive jsval jsval | ArchiveHistory jsval jsval

definition perform_boost :: "'s recovery_env \<Rightarrow> boost_op \<Rightarrow> 's \<Rightarrow> 's" where
  "perform_boost E op s =
     (case op of
        SaveSigned record \<Rightarrow> snd (saveSignedBoostPayment E record s)
      | Archive pending proof \<Rightarrow> snd (archiveBoostPayment E pending proof s)
      | ArchiveHistory pending history \<Rightarrow> snd (archiveVerifiedBoostFromHistory E pending history s))"

text \<open>A record that is saved is of the network and is what \<open>JSON.parse\<close> gives for its text.\<close>

definition boost_reads_back :: "'s recovery_env \<Rightarrow> boost_op \<Rightarrow> bool" where
  "boost_reads_back E op \<longleftrightarrow> storage_law (re_storage E)
     \<and> (case op of
          SaveSigned record \<Rightarrow> oget (oget record ''quote'') ''cluster'' = Str ''devnet''
            \<and> (case json record of Inr (Some t) \<Rightarrow> re_parse E t = Inr record | _ \<Rightarrow> False)
        | _ \<Rightarrow> True)"

text \<open>A receipt of the saved payment \<open>e\<close>: of its signature and of its quote on the network, in a slot, and
  finalized, or failed and final.\<close>

definition receipt_of :: "jsval \<Rightarrow> jsval \<Rightarrow> bool" where
  "receipt_of e proof \<longleftrightarrow>
     oget proof ''signature'' = oget e ''signature'' \<and> oget proof ''quoteId'' = oget (oget e ''quote'') ''id''
     \<and> oget proof ''cluster'' = Str ''devnet'' \<and> is_safe (oget proof ''slot'') \<and> 1 \<le> safe_int (oget proof ''slot'')
     \<and> (oget proof ''status'' = Str ''finalized''
        \<or> oget proof ''status'' = Str ''failed'' \<and> oget proof ''commitment'' = Str ''finalized'')"

text \<open>The operations that bring such a receipt for a payment of the mint: alone, or as a finalized row of a
  history.\<close>

definition releases :: "jsval \<Rightarrow> boost_op \<Rightarrow> jsval \<Rightarrow> bool" where
  "releases mint op e =
     (case op of
        SaveSigned _ \<Rightarrow> False
      | Archive pending proof \<Rightarrow> oget (oget pending ''quote'') ''mint'' = mint \<and> receipt_of e proof
      | ArchiveHistory pending history \<Rightarrow>
          (case history of
             Arr rows \<Rightarrow> list_ex (\<lambda>row. oget row ''mint'' = mint \<and> oget row ''status'' = Str ''finalized'' \<and> receipt_of e row) rows
           | _ \<Rightarrow> False))"

definition same_payment :: "jsval \<Rightarrow> jsval \<Rightarrow> bool" where
  "same_payment a b \<longleftrightarrow> oget a ''signature'' = oget b ''signature'' \<and> oget (oget a ''quote'') ''id'' = oget (oget b ''quote'') ''id''"

lemma boost_reads_key:
  "ws_available (re_storage E) s' = ws_available (re_storage E) s \<Longrightarrow>
   ws_get (re_storage E) (pending_key mint) s' = ws_get (re_storage E) (pending_key mint) s \<Longrightarrow>
   readPendingBoost E mint s' = readPendingBoost E mint s"
  by (simp add: readPendingBoost_def)

lemma readPendingBoost_Some:
  assumes "readPendingBoost E mint s = Inr (Some e)"
  shows "ws_available (re_storage E) s" and "boost_record_valid mint e"
    and "\<exists>t. ws_get (re_storage E) (pending_key mint) s = Inr (Some t) \<and> re_parse E t = Inr e"
  using assms by (auto simp: readPendingBoost_def bindR_Inr_iff split: if_split_asm option.splits)

text \<open>Under one key only the mint of the record is readable.\<close>

lemma readPendingBoost_other:
  assumes e: "readPendingBoost E mint s = Inr (Some e)" and key: "to_str m = to_str mint" and m: "m \<noteq> mint"
  shows "\<exists>err. readPendingBoost E m s = Inl err"
proof -
  obtain t where "ws_get (re_storage E) (pending_key m) s = Inr (Some t)" "re_parse E t = Inr e"
    using readPendingBoost_Some(3) [OF e] key by (auto simp: pending_key_def)
  moreover have "\<not> boost_record_valid m e"
    using readPendingBoost_Some(2) [OF e] m by (auto simp: boost_record_valid_def jeq_def Let_def)
  ultimately show ?thesis using readPendingBoost_Some(1) [OF e] by (simp add: readPendingBoost_def)
qed

lemma boost_keys: "pending_key m = pending_key m' \<longleftrightarrow> to_str m = to_str m'" "pending_key m \<noteq> resolved_key m'"
  by (simp_all add: pending_key_def resolved_key_def)

lemma save_boost_keeps:
  assumes e: "readPendingBoost E mint s = Inr (Some e)" and ok: "boost_reads_back E (SaveSigned record)"
  shows "\<exists>e'. readPendingBoost E mint (snd (saveSignedBoostPayment E record s)) = Inr (Some e') \<and> same_payment e e'"
proof -
  have stay: ?thesis if "snd (saveSignedBoostPayment E record s) = s"
    using that e by (simp add: same_payment_def)
  have avail: "ws_available (re_storage E) s" by (rule readPendingBoost_Some(1) [OF e])
  show ?thesis
  proof (cases "bindR (jget record ''quote'') (\<lambda>quote. jget quote ''mint'')")
    case (Inl err)
    then show ?thesis using avail by (intro stay) (simp add: saveSignedBoostPayment_def)
  next
    case (Inr m)
    then have m: "m = oget (oget record ''quote'') ''mint''"
      by (auto simp: bindR_Inr_iff jget_def split: if_split_asm)
    note saving = saveSignedBoostPayment_def [of E "record" s]
    show ?thesis
    proof (cases "readPendingBoost E m s")
      case (Inl err)
      then show ?thesis using avail Inr by (intro stay) (simp add: saving)
    next
      case current: (Inr current)
      show ?thesis
      proof (cases "other_payment current (oget record ''signature'') (oget (oget record ''quote'') ''id'')")
        case True
        then show ?thesis using avail Inr current by (intro stay) (simp add: saving)
      next
        case False
        obtain t where t: "json record = Inr (Some t)" "re_parse E t = Inr record" and law: "storage_law (re_storage E)"
          and net: "oget (oget record ''quote'') ''cluster'' = Str ''devnet''"
          using ok by (auto simp: boost_reads_back_def split: sum.splits option.splits)
        obtain r s1 where w: "ws_set (re_storage E) (pending_key m) t s = (r, s1)"
          by (cases "ws_set (re_storage E) (pending_key m) t s")
        have s1: "snd (saveSignedBoostPayment E record s) = s1"
          using avail Inr current False t w by (simp add: saving text_of_def)
        have avail1: "ws_available (re_storage E) s1" using storage_lawD(2) [OF law w] avail by simp
        show ?thesis
        proof (cases "m = mint")
          case True
          then have "current = Some e" using current e by simp
          with False have same: "same_payment e record"
            by (simp add: other_payment_def same_payment_def jeq_def)
          then have "boost_record_valid mint record"
            using readPendingBoost_Some(2) [OF e] net True m
            by (auto simp: boost_record_valid_def same_payment_def Let_def jeq_def)
          then have "ws_get (re_storage E) (pending_key mint) s1 = Inr (Some t) \<Longrightarrow>
              readPendingBoost E mint s1 = Inr (Some record)"
            using avail1 t by (simp add: readPendingBoost_def)
          moreover have "ws_get (re_storage E) (pending_key mint) s1 = ws_get (re_storage E) (pending_key mint) s \<Longrightarrow>
              readPendingBoost E mint s1 = Inr (Some e)"
            using boost_reads_key [of E s1 s mint] avail avail1 e by simp
          ultimately show ?thesis using storage_lawD(1) [OF law w] True same s1 by (auto simp: same_payment_def)
        next
          case other: False
          then have "to_str m \<noteq> to_str mint"
            using readPendingBoost_other [OF e] current by fastforce
          then have "ws_get (re_storage E) (pending_key mint) s1 = ws_get (re_storage E) (pending_key mint) s"
            using storage_lawD(3) [OF law w] by (metis boost_keys(1))
          then show ?thesis using boost_reads_key [of E s1 s mint] avail avail1 e s1 by (simp add: same_payment_def)
        qed
      qed
    qed
  qed
qed

text \<open>What the check of a receipt against a signed payment lets through.\<close>

lemma boostPaymentResolution_receipt:
  assumes "boostPaymentResolution proof pending = Inr resolution" and "resolution \<noteq> ''pending''"
  shows "oget proof ''signature'' = oget pending ''pendingSignature''
    \<and> oget proof ''quoteId'' = oget (oget pending ''quote'') ''id''
    \<and> oget proof ''cluster'' = Str ''devnet'' \<and> is_safe (oget proof ''slot'') \<and> 1 \<le> safe_int (oget proof ''slot'')
    \<and> (oget proof ''status'' = Str ''finalized''
        \<or> oget proof ''status'' = Str ''failed'' \<and> oget proof ''commitment'' = Str ''finalized'')"
proof (cases "oget proof ''status'' \<in> {Str ''finalized'', Str ''failed''}")
  case True
  then obtain sig where "jget pending ''pendingSignature'' = Inr sig" and
    "\<not> (\<not> jeq (oget proof ''signature'') sig \<or> \<not> jeq (oget proof ''quoteId'') (oget (oget pending ''quote'') ''id'')
      \<or> oget proof ''cluster'' \<noteq> Str ''devnet'' \<or> \<not> is_safe (oget proof ''slot'') \<or> safe_int (oget proof ''slot'') < 1
      \<or> (oget proof ''status'' = Str ''failed'' \<and> oget proof ''commitment'' \<noteq> Str ''finalized''))"
    using assms(1) unfolding boostPaymentResolution_def Let_def by (auto simp: bindR_Inr_iff split: if_split_asm)
  with True show ?thesis by (auto simp: jget_def jeq_def split: if_split_asm)
next
  case False
  then show ?thesis using assms by (simp add: boostPaymentResolution_def)
qed

text \<open>A row of a history that is found is one of its rows, finalized, and of the mint of the payment.\<close>

lemma history_proof_row:
  "history_proof pending rows = Some row \<Longrightarrow> row \<in> set rows \<and> oget row ''status'' = Str ''finalized''
     \<and> oget row ''mint'' = oget (oget pending ''quote'') ''mint''"
  by (auto simp: history_proof_def find_Some_iff jeq_def)

lemma archive_boost_keeps:
  assumes e: "readPendingBoost E mint s = Inr (Some e)" and law: "storage_law (re_storage E)"
    and not: "\<not> (oget (oget pending ''quote'') ''mint'' = mint \<and> receipt_of e proof)"
  shows "readPendingBoost E mint (snd (archiveBoostPayment E pending proof s)) = Inr (Some e)"
proof -
  have avail: "ws_available (re_storage E) s" by (rule readPendingBoost_Some(1) [OF e])
  note arch = archiveBoostPayment_def [of E pending "proof" s]
  show ?thesis
  proof (cases "boostPaymentResolution proof pending")
    case (Inl err)
    then show ?thesis using avail e by (simp add: arch)
  next
    case res: (Inr resolution)
    show ?thesis
    proof (cases "resolution = ''pending''")
      case True
      then show ?thesis using avail e res by (simp add: arch)
    next
      case False
      note fin = boostPaymentResolution_receipt [OF res False]
      show ?thesis
      proof (cases "bindR (jget pending ''quote'') (\<lambda>quote. jget quote ''mint'')")
        case (Inl err)
        then show ?thesis using avail e res False by (simp add: arch)
      next
        case (Inr m)
        then have m: "m = oget (oget pending ''quote'') ''mint''"
          by (auto simp: bindR_Inr_iff jget_def split: if_split_asm)
        show ?thesis
        proof (cases "readPendingBoost E m s")
          case (Inl err)
          then show ?thesis using avail e res False Inr by (simp add: arch)
        next
          case stored: (Inr stored)
          let ?other = "other_payment stored (oget pending ''pendingSignature'') (oget (oget pending ''quote'') ''id'')"
          show ?thesis
          proof (cases ?other)
            case True
            then show ?thesis using avail e res False Inr stored by (simp add: arch)
          next
            case same: False
            have "m \<noteq> mint"
            proof
              assume "m = mint"
              with same stored e have "oget e ''signature'' = oget pending ''pendingSignature''"
                "oget (oget e ''quote'') ''id'' = oget (oget pending ''quote'') ''id''"
                by (auto simp: other_payment_def jeq_def)
              with fin have "receipt_of e proof" by (simp only: receipt_of_def)
              with not \<open>m = mint\<close> m show False by simp
            qed
            then have key: "pending_key mint \<noteq> pending_key m"
              using readPendingBoost_other [OF e] stored boost_keys(1) by fastforce
            let ?v = "Obj [(''quote'', oget pending ''quote''), (''signature'', oget pending ''pendingSignature''), (''proof'', proof)]"
            show ?thesis
            proof (cases "json ?v")
              case (Inl err)
              then show ?thesis using avail e res False Inr stored same by (simp add: arch)
            next
              case t: (Inr t)
              obtain r s1 where w: "ws_set (re_storage E) (resolved_key m) (text_of t) s = (r, s1)"
                by (cases "ws_set (re_storage E) (resolved_key m) (text_of t) s")
              obtain r2 s2 where d: "ws_remove (re_storage E) (pending_key m) s1 = (r2, s2)"
                by (cases "ws_remove (re_storage E) (pending_key m) s1")
              have get: "ws_get (re_storage E) (pending_key mint) s1 = ws_get (re_storage E) (pending_key mint) s"
                "ws_get (re_storage E) (pending_key mint) s2 = ws_get (re_storage E) (pending_key mint) s1"
                using storage_lawD(3) [OF law w boost_keys(2)] storage_lawD(5) [OF law d key] by simp_all
              have av: "ws_available (re_storage E) s1" "ws_available (re_storage E) s2"
                using storage_lawD(2) [OF law w] storage_lawD(4) [OF law d] avail by simp_all
              have "snd (archiveBoostPayment E pending proof s) \<in> {s1, s2}"
                using avail res False Inr stored same t w d
                by (cases r; cases r2) (simp_all add: arch)
              then show ?thesis
                using boost_reads_key [of E s1 s mint] boost_reads_key [of E s2 s mint] get av avail e by auto
            qed
          qed
        qed
      qed
    qed
  qed
qed

lemma perform_boost_keeps:
  assumes e: "readPendingBoost E mint s = Inr (Some e)" and ok: "boost_reads_back E op" and not: "\<not> releases mint op e"
  shows "\<exists>e'. readPendingBoost E mint (perform_boost E op s) = Inr (Some e') \<and> same_payment e e'"
proof -
  have law: "storage_law (re_storage E)" using ok by (simp add: boost_reads_back_def)
  have refl: "same_payment e e" by (simp add: same_payment_def)
  show ?thesis
  proof (cases op)
    case (SaveSigned r)
    then show ?thesis using save_boost_keeps [OF e] ok by (simp add: perform_boost_def)
  next
    case (Archive pending p)
    then show ?thesis using archive_boost_keeps [OF e law] not refl by (auto simp: perform_boost_def releases_def)
  next
    case (ArchiveHistory pending history)
    have "snd (archiveVerifiedBoostFromHistory E pending history s) = s
      \<or> (\<exists>rows proof. history = Arr rows \<and> history_proof pending rows = Some proof
          \<and> snd (archiveVerifiedBoostFromHistory E pending history s) = snd (archiveBoostPayment E pending proof s))"
      by (auto simp: archiveVerifiedBoostFromHistory_def then_do_def split: jsval.splits option.splits prod.splits sum.splits)
    then show ?thesis
    proof (elim disjE exE conjE)
      assume "snd (archiveVerifiedBoostFromHistory E pending history s) = s"
      then show ?thesis using ArchiveHistory e refl by (auto simp: perform_boost_def)
    next
      fix rows "proof"
      assume h: "history = Arr rows" "history_proof pending rows = Some proof"
        and "snd (archiveVerifiedBoostFromHistory E pending history s) = snd (archiveBoostPayment E pending proof s)"
      then have "perform_boost E op s = snd (archiveBoostPayment E pending proof s)"
        using ArchiveHistory by (simp add: perform_boost_def)
      moreover have "\<not> (oget (oget pending ''quote'') ''mint'' = mint \<and> receipt_of e proof)"
        using not ArchiveHistory h(1) history_proof_row [OF h(2)] by (auto simp: releases_def list_ex_iff)
      ultimately show ?thesis using archive_boost_keeps [OF e law] refl by auto
    qed
  qed
qed

interpretation boost_store: recovery_store "current_of (readPendingBoost E mint)" "perform_boost E" "boost_reads_back E"
  "releases mint" same_payment for E mint
proof unfold_locales
  show "\<exists>e'. current_of (readPendingBoost E mint) (perform_boost E op s) = Some e' \<and> same_payment e e'"
    if "current_of (readPendingBoost E mint) s = Some e" "boost_reads_back E op" "\<not> releases mint op e" for s e op
    using that perform_boost_keeps by simp
  show "releases mint op e" if "same_payment e e'" "releases mint op e'" for e e' op
  proof -
    have "receipt_of e row = receipt_of e' row" for row
      using that(1) by (simp add: receipt_of_def same_payment_def)
    then show ?thesis using that(2) unfolding releases_def by (simp split: boost_op.splits jsval.splits option.splits)
  qed
qed (simp_all add: same_payment_def)

section \<open>A signed payment is kept until its receipt\<close>

text \<open>C10. Once a signed boost payment is saved for a mint, it can be read again after any sequence of
  saves and archivings, of this and of other payments, with any receipts and any history, and whatever
  accesses to storage throw, as long as none of them brings a receipt of its own signature and its own quote
  on the network, finalized, or failed and final; no other payment takes its place.\<close>

theorem signed_boost_payment_kept:
  assumes "readPendingBoost E mint s = Inr (Some e)"
    and "\<forall>op \<in> set ops. boost_reads_back E op \<and> \<not> releases mint op e"
  shows "\<exists>e'. readPendingBoost E mint (fold (perform_boost E) ops s) = Inr (Some e')
    \<and> oget e' ''signature'' = oget e ''signature'' \<and> oget (oget e' ''quote'') ''id'' = oget (oget e ''quote'') ''id''"
  using boost_store.run_keeps [of E mint s e ops] assms by (auto simp: same_payment_def)

text \<open>A storage that works, one saved payment, and an attempt to save another.\<close>

definition sample_storage :: "(string, string) omap web_storage" where
  "sample_storage = \<lparr>ws_available = (\<lambda>_. True), ws_get = (\<lambda>k s. Inr (map_of s k)),
     ws_set = (\<lambda>k v s. (Inr (), oset k v s)), ws_remove = (\<lambda>k s. (Inr (), filter (\<lambda>(k', _). k' \<noteq> k) s))\<rparr>"

definition sample_boost :: "char \<Rightarrow> jsval" where
  "sample_boost c = Obj [(''signature'', Str (replicate 64 c)), (''quote'', Obj [(''id'', Str ''boost_1_0123456789abcdef''),
     (''mint'', Str ''M''), (''cluster'', Str ''devnet'')])]"

definition sample_text :: "char \<Rightarrow> string" where
  "sample_text c = (case json (sample_boost c) of Inr (Some t) \<Rightarrow> t | _ \<Rightarrow> [])"

definition sample_env :: "(string, string) omap recovery_env" where
  "sample_env = \<lparr>re_storage = sample_storage, re_decode = (\<lambda>_. None),
     re_parse = (\<lambda>t. if t = sample_text (CHR ''A'') then Inr (sample_boost (CHR ''A''))
       else if t = sample_text (CHR ''B'') then Inr (sample_boost (CHR ''B'')) else Inl SyntaxErr)\<rparr>"

lemma sample_storage_law: "storage_law sample_storage"
proof -
  have "map_of (filter (\<lambda>(k', _). k' \<noteq> k) s) j = map_of s j" if "j \<noteq> k" for k j and s :: "(string, string) omap"
    using that by (induction s) auto
  then show ?thesis by (simp add: storage_law_def sample_storage_def)
qed

text \<open>The saved payment is brought the receipt of the other one.\<close>

definition sample_foreign :: boost_op where
  "sample_foreign = Archive (Obj [(''pendingSignature'', Str (replicate 64 (CHR ''A''))), (''quote'', oget (sample_boost (CHR ''A'')) ''quote'')])
     (Obj [(''status'', Str ''finalized''), (''signature'', Str (replicate 64 (CHR ''B''))), (''quoteId'', Str ''boost_1_0123456789abcdef''),
       (''cluster'', Str ''devnet''), (''slot'', Num (nint 7))])"

theorem signed_boost_payment_kept_witness:
  "\<exists>e'. readPendingBoost sample_env (Str ''M'')
       (fold (perform_boost sample_env) [SaveSigned (sample_boost (CHR ''B'')), sample_foreign]
         [(pending_key (Str ''M''), sample_text (CHR ''A''))]) = Inr (Some e')
    \<and> oget e' ''signature'' = Str (replicate 64 (CHR ''A''))"
proof -
  have "readPendingBoost sample_env (Str ''M'') [(pending_key (Str ''M''), sample_text (CHR ''A''))] = Inr (Some (sample_boost (CHR ''A'')))"
    by code_simp
  moreover have "boost_reads_back sample_env (SaveSigned (sample_boost (CHR ''B'')))"
  proof -
    have "(case json (sample_boost (CHR ''B'')) of Inr (Some t) \<Rightarrow> re_parse sample_env t = Inr (sample_boost (CHR ''B'')) | _ \<Rightarrow> False)"
      "oget (oget (sample_boost (CHR ''B'')) ''quote'') ''cluster'' = Str ''devnet''"
      by code_simp+
    then show ?thesis using sample_storage_law by (simp add: boost_reads_back_def) (simp add: sample_env_def)
  qed
  moreover have "boost_reads_back sample_env sample_foreign"
    using sample_storage_law by (simp add: boost_reads_back_def sample_foreign_def) (simp add: sample_env_def)
  moreover have a: "oget (sample_boost (CHR ''A'')) ''signature'' = Str (replicate 64 (CHR ''A''))" by (simp add: sample_boost_def)
  moreover have "\<not> releases (Str ''M'') sample_foreign (sample_boost (CHR ''A''))"
    by (simp add: releases_def sample_foreign_def receipt_of_def a)
  ultimately show ?thesis
    using signed_boost_payment_kept [of sample_env "Str ''M''" _ "sample_boost (CHR ''A'')" "[SaveSigned (sample_boost (CHR ''B'')), sample_foreign]"]
    by (auto simp: releases_def [of _ "SaveSigned _"] simp del: fold.simps)
qed

end
