(* ===== verification/Reviews.thy ===== *)
theory Reviews
  imports Money Policies "HOL-Library.Signed_Division"
begin

text \<open>
  Amounts a wallet is shown before it signs, and the checks behind them: token and SOL amounts in input
  fields (\<open>trade-amount-input.js\<close>, \<open>trade-panel-balance.js\<close>), the spend guard and the review of a trade
  (\<open>trade-spend-guard.js\<close>, \<open>trade-review-model.js\<close>), the budget and the review of a launch
  (\<open>public-launch-budget.js\<close>, \<open>launch-review.js\<close>, \<open>launch-review-gate.js\<close>, \<open>launch-tier-quote.js\<close>,
  \<open>quote-countdown.js\<close>), and the totals of X claims (\<open>x-claim-summary.js\<close>).  Division of \<open>BigInt\<close> values
  truncates towards zero and is written \<open>sdiv\<close>.
\<close>

section \<open>Amounts in fields\<close>

definition remove_commas :: "string \<Rightarrow> string" where
  "remove_commas s = filter (\<lambda>c. c \<noteq> CHR '','') s"

text \<open>The parts before and after a dot, of a text that matches \<open>/^\d*(?:\.\d*)?$/\<close>.\<close>

definition plain_decimal :: "string \<Rightarrow> bool" where
  "plain_decimal s =
     (case split_on (CHR ''.'') s of
        [a] \<Rightarrow> list_all is_digit a | [a, b] \<Rightarrow> list_all is_digit a \<and> list_all is_digit b | _ \<Rightarrow> False)"


text \<open>\<open>replace(/\B(?=(\d{3})+(?!\d))/g, ',')\<close> of digits.\<close>

fun group_thousands :: "string \<Rightarrow> string" where
  "group_thousands [] = []"
| "group_thousands (c # s) = c # (if s \<noteq> [] \<and> length s mod 3 = 0 then CHR '','' # group_thousands s else group_thousands s)"

definition input_text :: "jsval \<Rightarrow> string" where
  "input_text v = trim (remove_commas (to_str (nullish v (Str []))))"


definition parseTradeAmountInput :: "jsval \<Rightarrow> jsnum" where
  "parseTradeAmountInput v =
     (let raw = input_text v in
      if plain_decimal raw \<and> raw \<noteq> [] \<and> hd raw \<noteq> CHR ''.'' then str_to_num raw else NaN)"

text \<open>\<open>decimals\<close> and \<open>fractionDigits\<close> as the caller passes them.\<close>

definition token_amount_text :: "int \<Rightarrow> nat \<Rightarrow> nat \<Rightarrow> string" where
  "token_amount_text raw decimals digits =
     (let divisor = 10 ^ decimals;
          fraction = strip_zeros (take digits (pad_start decimals (show_int (raw mod divisor)))) in
      show_int (raw div divisor) @ (if fraction = [] then [] else CHR ''.'' # fraction))"

definition formatTokenBaseAmount :: "jsval \<Rightarrow> jsnum \<Rightarrow> jsnum \<Rightarrow> string res" where
  "formatTokenBaseAmount rawAmount decimals fractionDigits =
     bindR (to_bigint rawAmount) (\<lambda>raw.
     if raw < 0 \<or> \<not> is_integer decimals \<or> nless decimals (Fin 0) \<or> nless (nint 18) decimals then Inl RangeErr
     else Inr (token_amount_text raw (nat (to_int decimals))
       (nat (to_int (math_floor (nmin decimals (nmax (Fin 0) fractionDigits)))))))"

definition tokenBalancePercentage :: "jsval \<Rightarrow> jsnum \<Rightarrow> jsnum \<Rightarrow> string res" where
  "tokenBalancePercentage rawAmount decimals percentage =
     (if \<not> is_integer percentage \<or> nle percentage (Fin 0) \<or> nless (nint 100) percentage then Inl RangeErr
      else bindR (to_bigint rawAmount) (\<lambda>raw. formatTokenBaseAmount (Big ((raw * to_int percentage) sdiv 100)) decimals decimals))"

section \<open>trade-spend-guard.js\<close>




text \<open>The number of a value that passed \<open>Number.isFinite\<close>.\<close>

definition finite_value :: "jsval \<Rightarrow> bool" where
  "finite_value v = (case v of Num n \<Rightarrow> nfinite n | _ \<Rightarrow> False)"



section \<open>trade-review-model.js\<close>











section \<open>public-launch-budget.js\<close>

definition PUBLIC_LAUNCH_OVERHEAD_ALLOWANCE_LAMPORTS :: int where
  "PUBLIC_LAUNCH_OVERHEAD_ALLOWANCE_LAMPORTS = 50000000"

definition exact_lamports_value :: "jsval \<Rightarrow> bool" where
  "exact_lamports_value v =
     (case v of Big _ \<Rightarrow> True | Str s \<Rightarrow> canon_dec s | Num n \<Rightarrow> is_safe_integer n \<and> \<not> nless n (Fin 0) | _ \<Rightarrow> False)"

record launch_budget =
  lb_purchase :: int
  lb_allowance :: int
  lb_overhead :: int
  lb_serviceFee :: int
  lb_total :: int

definition publicLaunchBudget :: "jsval \<Rightarrow> jsval \<Rightarrow> launch_budget option" where
  "publicLaunchBudget quote launchFeeLamports =
     (if oget quote ''status'' \<noteq> Str ''ready'' then None
      else case launchFeeLamports of
        Str fee \<Rightarrow>
          if \<not> canon_dec fee \<or> 10 < length fee then None
          else if \<not> exact_lamports_value (oget quote ''solAmountLamports'') \<or> \<not> exact_lamports_value (oget quote ''maxSolAmountLamports'')
          then None
          else (case (to_bigint (oget quote ''solAmountLamports''), to_bigint (oget quote ''maxSolAmountLamports''), str_to_bigint fee) of
              (Inr purchase, Inr maximum, Inr serviceFee) \<Rightarrow>
                if purchase \<le> 0 \<or> maximum < purchase \<or> 5000000000 < serviceFee then None
                else let tot = maximum + PUBLIC_LAUNCH_OVERHEAD_ALLOWANCE_LAMPORTS + serviceFee in
                  if max_safe < tot then None
                  else Some \<lparr>lb_purchase = purchase, lb_allowance = maximum - purchase,
                    lb_overhead = PUBLIC_LAUNCH_OVERHEAD_ALLOWANCE_LAMPORTS, lb_serviceFee = serviceFee, lb_total = tot\<rparr>
            | _ \<Rightarrow> None)
      | _ \<Rightarrow> None)"

section \<open>launch-review.js and launch-review-gate.js\<close>

definition LAUNCH_REVIEW_TTL_MS :: int where "LAUNCH_REVIEW_TTL_MS = 60000"

definition LAUNCH_REVIEW_REFRESH_LEAD_MS :: int where "LAUNCH_REVIEW_REFRESH_LEAD_MS = 5000"

definition launch_amount :: "jsval \<Rightarrow> int res" where
  "launch_amount v =
     (if (case v of Num n \<Rightarrow> \<not> is_safe_integer n | _ \<Rightarrow> False) then throw ''Unsafe launch amount.''
      else bindR (to_bigint v) (\<lambda>r. if r < 0 then throw ''Negative launch amount.'' else Inr r))"

definition initialCurvePremiumBps :: "jsval \<Rightarrow> jsval \<Rightarrow> int res" where
  "initialCurvePremiumBps purchased virtualTokens =
     bindR (launch_amount purchased) (\<lambda>quantity.
     bindR (launch_amount virtualTokens) (\<lambda>reserves.
     if quantity = 0 then Inr 0
     else if reserves \<le> quantity then throw ''Initial purchase exceeds curve reserves.''
     else let bps = (quantity * 10000) div (reserves - quantity) in
       if max_safe < bps then throw ''Curve premium is unavailable.'' else Inr bps))"

record launch_inputs =
  li_balance :: jsval
  li_simulatedSpend :: jsval
  li_networkFee :: jsval
  li_buyQuote :: jsval
  li_buyMaximum :: jsval
  li_transactionCount :: jsval
  li_serviceFeeLamports :: jsval
  li_curvePremiumBps :: jsval

record launch_review =
  lr_simulatedSpend :: string
  lr_networkFee :: string
  lr_buyQuote :: string
  lr_buyMaximum :: string
  lr_serviceFeeLamports :: string
  lr_otherLaunchCosts :: string
  lr_allowance :: string
  lr_budget :: string
  lr_balanceAfterBudget :: string
  lr_sufficient :: bool
  lr_transactionCount :: jsval
  lr_messageCount :: int
  lr_curvePremiumBps :: jsval
  lr_quotedAt :: int
  lr_expiresAt :: int

text \<open>An argument that is left out is its default.\<close>

definition default_to :: "jsval \<Rightarrow> jsval \<Rightarrow> jsval" where
  "default_to v d = (if v = Undef then d else v)"

definition launchReview :: "launch_inputs \<Rightarrow> int \<Rightarrow> launch_review res" where
  "launchReview inp now =
     bindR (launch_amount (li_balance inp)) (\<lambda>funds.
     bindR (launch_amount (li_simulatedSpend inp)) (\<lambda>spend.
     bindR (launch_amount (li_networkFee inp)) (\<lambda>fee.
     bindR (launch_amount (default_to (li_buyQuote inp) (Num (Fin 0)))) (\<lambda>buy.
     bindR (launch_amount (default_to (li_buyMaximum inp) (Num (Fin 0)))) (\<lambda>maximum.
     if spend < buy + fee \<or> maximum < buy \<or> li_transactionCount inp \<notin> {Num (nint 1), Num (nint 2)}
     then throw ''Launch cost breakdown could not be verified.''
     else bindR (launch_amount (default_to (li_serviceFeeLamports inp) (Num (Fin 0)))) (\<lambda>service.
       if spend < buy + fee + service then throw ''Launch fee does not reconcile to spend.''
       else let allowance = maximum - buy; budget = spend + allowance in
         if max_safe < budget then throw ''Launch budget exceeds safe precision.''
         else Inr \<lparr>lr_simulatedSpend = show_int spend, lr_networkFee = show_int fee, lr_buyQuote = show_int buy,
           lr_buyMaximum = show_int maximum, lr_serviceFeeLamports = show_int service,
           lr_otherLaunchCosts = show_int (spend - buy - fee - service), lr_allowance = show_int allowance,
           lr_budget = show_int budget, lr_balanceAfterBudget = show_int (funds - budget), lr_sufficient = (budget \<le> funds),
           lr_transactionCount = li_transactionCount inp, lr_messageCount = 2,
           lr_curvePremiumBps = default_to (li_curvePremiumBps inp) (Num (Fin 0)),
           lr_quotedAt = now, lr_expiresAt = now + LAUNCH_REVIEW_TTL_MS\<rparr>))))))"

text \<open>A review comes back from storage, so its times are tested.\<close>

definition freshLaunchReview :: "jsval \<Rightarrow> jsnum \<Rightarrow> bool" where
  "freshLaunchReview review now \<longleftrightarrow>
     truthy review \<and> finite_value (oget review ''quotedAt'') \<and> finite_value (oget review ''expiresAt'')
     \<and> nle (to_number (oget review ''quotedAt'')) now \<and> nless now (to_number (oget review ''expiresAt''))"

definition launchReviewNeedsRefresh :: "jsval \<Rightarrow> jsnum \<Rightarrow> jsnum \<Rightarrow> bool" where
  "launchReviewNeedsRefresh review now leadMs \<longleftrightarrow>
     truthy review \<and> finite_value (oget review ''quotedAt'') \<and> finite_value (oget review ''expiresAt'')
     \<and> nfinite leadMs \<and> nle (Fin 0) leadMs \<and> nle (to_number (oget review ''quotedAt'')) now
     \<and> nle (nsub (to_number (oget review ''expiresAt'')) leadMs) now"

definition formatReviewSol :: "jsval \<Rightarrow> string res" where
  "formatReviewSol v =
     bindR (to_bigint v) (\<lambda>raw.
     let absolute = \<bar>raw\<bar>; fraction = strip_zeros (pad_start 9 (show_int (absolute mod 1000000000))) in
     Inr ((if raw < 0 then ''-'' else []) @ show_int (absolute div 1000000000)
       @ (if fraction = [] then [] else CHR ''.'' # fraction) @ '' SOL''))"

text \<open>The keys whose values must be those of the review; the cost is the same object.\<close>

definition gate_keys :: "string list" where
  "gate_keys = [''wallet'', ''router'', ''tierQuoteId'', ''serviceFeeQuoteId'', ''tierBurnAmount'', ''form'', ''image'', ''banner'']"

text \<open>\<open>same_cost\<close> is the identity of the two \<open>reviewedCost\<close> objects, which values do not show.\<close>

definition launchReviewStillCurrent :: "bool \<Rightarrow> jsval \<Rightarrow> jsval \<Rightarrow> jsnum \<Rightarrow> bool" where
  "launchReviewStillCurrent same_cost pending current now \<longleftrightarrow>
     truthy pending \<and> truthy current \<and> same_cost \<and> freshLaunchReview (oget pending ''reviewedCost'') now
     \<and> list_all (\<lambda>k. jeq (oget pending k) (oget current k)) gate_keys
     \<and> oget current ''feeConsent'' = Bool True \<and> oget current ''termsConsent'' = Bool True"

section \<open>launch-tier-quote.js\<close>

definition tier_usd :: "service_fees \<Rightarrow> string \<Rightarrow> int option" where
  "tier_usd fees tier = (if tier = ''pro'' then Some (sf_proUsd fees) else if tier = ''premier'' then Some (sf_premierUsd fees) else None)"

definition launchTierAmounts :: "jsval \<Rightarrow> service_fees \<Rightarrow> (jsnum \<times> jsnum) res" where
  "launchTierAmounts tokenPriceUsd fees =
     (let price = to_number tokenPriceUsd in
      if \<not> nfinite price \<or> nle price (Fin 0) then throw ''A positive $FUNDED/USD price is required.''
      else let pro = math_ceil (ndiv (nint (sf_proUsd fees)) price); premier = math_ceil (ndiv (nint (sf_premierUsd fees)) price) in
        if list_ex (\<lambda>a. \<not> is_safe_integer a \<or> nle a (Fin 0)) [pro, premier]
        then throw ''The $FUNDED price cannot be converted to a safe token amount.''
        else Inr (pro, premier))"

text \<open>\<open>/^launch_tier_\d+_[0-9a-f]{16}$/\<close>.\<close>

definition tier_quote_id :: "string \<Rightarrow> bool" where
  "tier_quote_id s =
     (case split_on (CHR ''_'') s of
        [l, t, d, h] \<Rightarrow> l = ''launch'' \<and> t = ''tier'' \<and> all_digits d \<and> length h = 16 \<and> list_all is_hex_lower h
      | _ \<Rightarrow> False)"

definition launchTierQuoteCurrent :: "(string \<Rightarrow> jsnum) \<Rightarrow> service_fees \<Rightarrow> jsval \<Rightarrow> jsval \<Rightarrow> jsval \<Rightarrow> jsval \<Rightarrow> jsnum \<Rightarrow> bool" where
  "launchTierQuoteCurrent other fees quote tier payer mint now =
     (let q = oget quote; created = date_parse other (q ''createdAt''); expires = date_parse other (q ''expiresAt'') in
      truthy quote
      \<and> (case tier_usd fees (to_str (q ''tier'')) of
           None \<Rightarrow> False
         | Some usd \<Rightarrow>
             \<not> (truthy tier \<and> \<not> jeq (q ''tier'') tier) \<and> \<not> (truthy payer \<and> \<not> jeq (q ''payer'') payer)
             \<and> \<not> (truthy mint \<and> \<not> jeq (q ''fundedMint'') mint)
             \<and> tier_quote_id (to_str (jor (q ''id'') (Str []))) \<and> is_safe (q ''amountTokens'') \<and> 0 < safe_int (q ''amountTokens'')
             \<and> jeq (q ''usd'') (Num (nint usd)) \<and> nfinite created \<and> nle created now \<and> nfinite expires \<and> nless now expires))"

section \<open>quote-countdown.js\<close>

record countdown =
  cd_expired :: bool
  cd_seconds :: jsnum
  cd_text :: string
  cd_state :: string

text \<open>\<open>now\<close> is an integer.\<close>

definition quote_deadline :: "(string \<Rightarrow> jsnum) \<Rightarrow> jsval \<Rightarrow> jsnum" where
  "quote_deadline other expiresAt = (case expiresAt of Num n \<Rightarrow> n | _ \<Rightarrow> date_parse other expiresAt)"

definition quoteCountdown :: "(string \<Rightarrow> jsnum) \<Rightarrow> jsval \<Rightarrow> int \<Rightarrow> countdown" where
  "quoteCountdown other expiresAt now =
     (let deadline = quote_deadline other expiresAt;
          seconds = (if nfinite deadline
            then nmax (Fin 0) (math_ceil (ndiv (nsub deadline (nint now)) (nint 1000))) else Fin 0) in
      \<lparr>cd_expired = (seconds = Fin 0), cd_seconds = seconds,
       cd_text = (if seconds \<noteq> Fin 0
         then ''Price expires in '' @ num_to_str (math_floor (ndiv seconds (nint 60))) @ '':''
           @ pad_start 2 (num_to_str (nint (to_int seconds mod 60)))
         else ''Price expired'' @ mid_dot @ ''refresh to continue''),
       cd_state = (if seconds = Fin 0 then ''expired'' else if nle seconds (nint 10) then ''expiring'' else ''current'')\<rparr>)"

definition quoteCountdownMarkup :: "(string \<Rightarrow> jsnum) \<Rightarrow> jsval \<Rightarrow> int \<Rightarrow> string" where
  "quoteCountdownMarkup other expiresAt now =
     (let deadline = quote_deadline other expiresAt; v = quoteCountdown other (Num deadline) now in
      ''<span class=\"quote-countdown\" role=\"timer\" aria-live=\"off\" data-quote-expires=\"''
      @ (if nfinite deadline then num_to_str deadline else ''0'') @ ''\" data-state=\"'' @ cd_state v @ ''\">'' @ cd_text v @ ''</span>'')"

section \<open>x-claim-summary.js\<close>

definition x_claim_lamports :: "jsval \<Rightarrow> int option" where
  "x_claim_lamports claim =
     (case oget claim ''amountSol'' of
        Num amount \<Rightarrow>
          if \<not> nfinite amount \<or> nless amount (Fin 0) then None
          else let lamports = math_round (nmul amount (nint 1000000000)) in
            if \<not> is_safe_integer lamports
              \<or> nless (rnd (1 / 1000000000)) (math_abs (nsub (ndiv lamports (nint 1000000000)) amount))
            then None else Some (to_int lamports)
      | _ \<Rightarrow> None)"

record claim_bucket =
  cb_count :: int
  cb_lamports :: int
  cb_complete :: bool

record x_claim_summary =
  xs_total :: claim_bucket
  xs_claimed :: claim_bucket
  xs_unclaimed :: claim_bucket
  xs_pending :: claim_bucket

definition empty_bucket :: claim_bucket where
  "empty_bucket = \<lparr>cb_count = 0, cb_lamports = 0, cb_complete = True\<rparr>"

definition add_claim :: "int option \<Rightarrow> claim_bucket \<Rightarrow> claim_bucket" where
  "add_claim lamports b =
     (case lamports of
        None \<Rightarrow> b\<lparr>cb_count := cb_count b + 1, cb_complete := False\<rparr>
      | Some l \<Rightarrow> b\<lparr>cb_count := cb_count b + 1, cb_lamports := cb_lamports b + l\<rparr>)"

definition summarize_claim :: "jsval \<Rightarrow> x_claim_summary \<Rightarrow> x_claim_summary" where
  "summarize_claim claim st =
     (let l = x_claim_lamports claim; st1 = st\<lparr>xs_total := add_claim l (xs_total st)\<rparr> in
      if oget claim ''receiptVerified'' = Bool True then st1\<lparr>xs_claimed := add_claim l (xs_claimed st1)\<rparr>
      else if oget claim ''canPrepare'' = Bool True then st1\<lparr>xs_unclaimed := add_claim l (xs_unclaimed st1)\<rparr>
      else st1\<lparr>xs_pending := add_claim l (xs_pending st1)\<rparr>)"

definition summarizeXClaims :: "jsval \<Rightarrow> x_claim_summary option" where
  "summarizeXClaims claims =
     (case claims of
        Arr rows \<Rightarrow> Some (foldl (\<lambda>st claim. summarize_claim claim st)
          \<lparr>xs_total = empty_bucket, xs_claimed = empty_bucket, xs_unclaimed = empty_bucket, xs_pending = empty_bucket\<rparr> rows)
      | _ \<Rightarrow> None)"

definition em_dash :: string where
  "em_dash = [CHR 0xE2, CHR 0x80, CHR 0x94]"

definition formatXClaimSol :: "claim_bucket option \<Rightarrow> string" where
  "formatXClaimSol b =
     (case b of
        None \<Rightarrow> em_dash
      | Some b \<Rightarrow>
          if \<not> cb_complete b then em_dash
          else let fraction = strip_zeros (pad_start 9 (show_int (cb_lamports b mod 1000000000))) in
            show_int (cb_lamports b div 1000000000) @ (if fraction = [] then [] else CHR ''.'' # fraction) @ '' SOL'')"

section \<open>Lemmas\<close>

text \<open>The costs of a launch review add up, and it is sufficient exactly when the balance left is not negative.\<close>

lemma launch_amount_nonneg: "launch_amount v = Inr r \<Longrightarrow> 0 \<le> r"
  by (auto simp: launch_amount_def bindR_Inr_iff split: if_split_asm)

lemma launchReview_reconciles:
  assumes "launchReview inp now = Inr r"
  shows "\<exists>funds spend fee buy maximum service other.
     lr_simulatedSpend r = show_int spend \<and> lr_networkFee r = show_int fee \<and> lr_buyQuote r = show_int buy
     \<and> lr_buyMaximum r = show_int maximum \<and> lr_serviceFeeLamports r = show_int service
     \<and> lr_otherLaunchCosts r = show_int other \<and> lr_allowance r = show_int (maximum - buy)
     \<and> lr_budget r = show_int (maximum + fee + service + other) \<and> spend = buy + fee + service + other
     \<and> 0 \<le> fee \<and> 0 \<le> buy \<and> buy \<le> maximum \<and> 0 \<le> service \<and> 0 \<le> other
     \<and> lr_balanceAfterBudget r = show_int (funds - (maximum + fee + service + other))
     \<and> (lr_sufficient r \<longleftrightarrow> 0 \<le> funds - (maximum + fee + service + other))
     \<and> maximum + fee + service + other \<le> max_safe"
proof -
  obtain funds spend fee buy maximum service where
    a: "launch_amount (li_balance inp) = Inr funds" "launch_amount (li_networkFee inp) = Inr fee"
      "launch_amount (default_to (li_buyQuote inp) (Num (Fin 0))) = Inr buy"
      "launch_amount (default_to (li_serviceFeeLamports inp) (Num (Fin 0))) = Inr service"
    and c: "buy \<le> maximum" "buy + fee + service \<le> spend" "spend + (maximum - buy) \<le> max_safe"
    and r: "r = \<lparr>lr_simulatedSpend = show_int spend, lr_networkFee = show_int fee, lr_buyQuote = show_int buy,
           lr_buyMaximum = show_int maximum, lr_serviceFeeLamports = show_int service,
           lr_otherLaunchCosts = show_int (spend - buy - fee - service), lr_allowance = show_int (maximum - buy),
           lr_budget = show_int (spend + (maximum - buy)), lr_balanceAfterBudget = show_int (funds - (spend + (maximum - buy))),
           lr_sufficient = (spend + (maximum - buy) \<le> funds), lr_transactionCount = li_transactionCount inp,
           lr_messageCount = 2, lr_curvePremiumBps = default_to (li_curvePremiumBps inp) (Num (Fin 0)),
           lr_quotedAt = now, lr_expiresAt = now + LAUNCH_REVIEW_TTL_MS\<rparr>"
    using assms by (auto simp: launchReview_def bindR_Inr_iff Let_def not_less split: if_split_asm)
  define rest where rest: "rest = spend - buy - fee - service"
  have spend: "spend = buy + fee + service + rest" and tot: "spend + (maximum - buy) = maximum + fee + service + rest"
    by (simp_all add: rest)
  have pos: "0 \<le> fee" "0 \<le> buy" "0 \<le> service" "0 \<le> rest"
    using a(2-4) [THEN launch_amount_nonneg] c(2) by (simp_all add: rest)
  show ?thesis
    unfolding r tot launch_review.select_convs rest [symmetric]
    by (rule exI [of _ funds], rule exI [of _ spend], rule exI [of _ fee], rule exI [of _ buy], rule exI [of _ maximum],
        rule exI [of _ service], rule exI [of _ rest], intro conjI refl pos spend c(1) c(3) [unfolded tot]) auto
qed

text \<open>A review that was just made is fresh for a minute.\<close>

definition review_times :: "launch_review \<Rightarrow> jsval" where
  "review_times r = Obj [(''quotedAt'', Num (nint (lr_quotedAt r))), (''expiresAt'', Num (nint (lr_expiresAt r)))]"

lemma launchReview_fresh:
  assumes "launchReview inp now = Inr r"
  shows "freshLaunchReview (review_times r) (nint t) \<longleftrightarrow> now \<le> t \<and> t < now + LAUNCH_REVIEW_TTL_MS"
proof -
  have "lr_quotedAt r = now" "lr_expiresAt r = now + LAUNCH_REVIEW_TTL_MS"
    using assms by (auto simp: launchReview_def bindR_Inr_iff Let_def split: if_split_asm)
  then show ?thesis
    by (simp add: freshLaunchReview_def review_times_def finite_value_def nfinite_def del: of_int_add)
qed

text \<open>The budget of a launch is the sum of its parts and a safe integer.\<close>

lemma publicLaunchBudget_total:
  assumes "publicLaunchBudget quote fee = Some b"
  shows "lb_total b = lb_purchase b + lb_allowance b + lb_overhead b + lb_serviceFee b"
    and "0 < lb_purchase b" and "0 \<le> lb_allowance b" and "lb_serviceFee b \<le> 5000000000" and "lb_total b \<le> max_safe"
  using assms
  by (auto simp: publicLaunchBudget_def Let_def not_le not_less split: if_split_asm jsval.splits sum.splits)

text \<open>The total of X claims is that of its three groups.\<close>

definition partitioned :: "x_claim_summary \<Rightarrow> bool" where
  "partitioned s \<longleftrightarrow>
     cb_count (xs_total s) = cb_count (xs_claimed s) + cb_count (xs_unclaimed s) + cb_count (xs_pending s)
     \<and> cb_lamports (xs_total s) = cb_lamports (xs_claimed s) + cb_lamports (xs_unclaimed s) + cb_lamports (xs_pending s)
     \<and> (cb_complete (xs_total s) \<longleftrightarrow> cb_complete (xs_claimed s) \<and> cb_complete (xs_unclaimed s) \<and> cb_complete (xs_pending s))"

lemma summarize_claim_partitioned: "partitioned s \<Longrightarrow> partitioned (summarize_claim claim s)"
  by (auto simp: partitioned_def summarize_claim_def Let_def add_claim_def split: option.splits)

lemma summarizeXClaims_partitioned:
  assumes "summarizeXClaims (Arr rows) = Some s"
  shows "partitioned s \<and> cb_count (xs_total s) = int (length rows)"
proof -
  have "partitioned st \<Longrightarrow> partitioned (foldl (\<lambda>st claim. summarize_claim claim st) st rows)
      \<and> cb_count (xs_total (foldl (\<lambda>st claim. summarize_claim claim st) st rows)) = cb_count (xs_total st) + int (length rows)" for st
  proof (induction rows arbitrary: st)
    case (Cons claim rows)
    have "cb_count (xs_total (summarize_claim claim st)) = cb_count (xs_total st) + 1"
      by (auto simp: summarize_claim_def Let_def add_claim_def split: option.splits)
    with Cons.IH [OF summarize_claim_partitioned [OF Cons.prems]] show ?case by simp
  qed simp
  moreover have "partitioned \<lparr>xs_total = empty_bucket, xs_claimed = empty_bucket, xs_unclaimed = empty_bucket, xs_pending = empty_bucket\<rparr>"
    by (simp add: partitioned_def empty_bucket_def)
  moreover have "s = foldl (\<lambda>st claim. summarize_claim claim st)
      \<lparr>xs_total = empty_bucket, xs_claimed = empty_bucket, xs_unclaimed = empty_bucket, xs_pending = empty_bucket\<rparr> rows"
    using assms by (simp add: summarizeXClaims_def)
  moreover have "cb_count empty_bucket = 0" by (simp add: empty_bucket_def)
  ultimately show ?thesis by simp
qed

section \<open>Shown amounts are exact\<close>

lemma remove_commas_group [simp]: "remove_commas (group_thousands s) = remove_commas s"
  by (induction s) (simp_all add: remove_commas_def)

lemma remove_commas_append [simp]: "remove_commas (a @ b) = remove_commas a @ remove_commas b"
  by (simp add: remove_commas_def)











section \<open>The spend guard covers what the review shows\<close>







end
