(* ===== verification/Spec2Isabelle.thy ===== *)
theory Spec2Isabelle
  imports Money Holders Merkle Community Agency Bonus Distribution LaunchTiers AppRuntime AppStartup RpcScheduler ReadCache RpcRetry Buyback Jackpot ExecutionJournal Policies RewardScheduler ClaimLedger Payouts BoundedMap Boosts Recovery Reviews
begin

text \<open>
  A verification library for funded.app: an application that launches tokens, collects their creator
  fees, and divides, schedules, proves and pays the rewards that follow from them.  The browser side
  (\<open>src/app\<close>, \<open>src/features\<close>) and the server side (\<open>server\<close>) share the policy modules at the root of
  the repository.  Paths below are relative to \<open>src/\<close>.

  \<^bold>\<open>How the parts interact.\<close>  A launch snapshots the fee policy (Distribution, LaunchTiers, Agency).  A
  collected creator fee is settled once and divided (Distribution); its holder share becomes a funded
  pool that the reward scheduler assigns to a closed period, splits pro rata over time-weighted balances
  (Holders) and pays leaf by leaf from a Merkle manifest (Merkle, RewardScheduler).  Community tokens are
  claimed against a Merkle root (Community); referral and X claims move through a guarded ledger
  (ClaimLedger); the daily bonus and the jackpots divide and draw over completed windows (Bonus,
  Jackpot); protected vaults buy back and burn in orders (Buyback); the workers journal every signed
  transaction before it is sent (ExecutionJournal).  Receipts prove what was paid (Payouts).  The page boots one application instance (AppRuntime,
  AppStartup) and reads the chain through a bounded queue with retries and caches (RpcScheduler,
  RpcRetry, ReadCache).

  \<^bold>\<open>The language.\<close>  \<open>JsNum\<close>: \<open>Number\<close> as exact binary64 values, rounding included.  \<open>JsVal\<close>: values as
  the code receives them (\<open>jsval\<close>), property access with and without \<open>?.\<close>, truthiness, \<open>===\<close>.  \<open>JsConv\<close>:
  \<open>String\<close>, \<open>Number\<close>, \<open>BigInt\<close>, \<open>trim\<close>, patterns.  \<open>JsDate\<close>: \<open>Date.parse\<close> of ISO texts and \<open>toISOString\<close>.
  \<open>JsonText\<close>: \<open>JSON.stringify\<close>.  \<open>Bytes\<close>: buffers, hexadecimal, little-endian integers.  \<open>Prelude\<close>: errors as
  the left summand of a result, the stable sort, insertion-ordered maps.  Inputs whose type the code
  tests at run time are \<open>jsval\<close>; data the code builds itself is a record.

  \<^bold>\<open>Interfaces.\<close>  \<open>cumulative_split\<close> (Splits): dividing a growing total by differences conserves it, and
  steps add up; interpreted for the agency (Agency) and the V3 allocation (Distribution).  \<open>settle_once\<close>
  (Distribution): a keyed ledger; interpreted for creator-fee and referral settlements.  \<open>hash_tree\<close> and
  \<open>binding_tree\<close> (Merkle): interpreted for the reward and community manifests.  \<open>step_invariant\<close> and
  \<open>forward_simulation\<close> (StepSystem): interpreted for the RPC queue, the read cache, the execution journals,
  the reward scheduler and the claim ledger.

  \<^bold>\<open>The theories and what their lemmas show.\<close>
  \<^item> \<open>Money\<close> (\<open>exact-lamports.js\<close>, \<open>exact-sol-units.js\<close>, \<open>referral-amount.js\<close>): amounts are read exactly or
    refused, and formatting is inverted by reading.
  \<^item> \<open>Holders\<close> (\<open>automatic-rewards.js\<close>): the weights are the time-weighted balances; the split conserves.
  \<^item> \<open>Merkle\<close>, \<open>Community\<close> (\<open>reward-merkle.js\<close>, \<open>community-merkle.js\<close>): every leaf of a built manifest verifies,
    and what verifies is a leaf unless two of the finitely many messages involved collide.
  \<^item> \<open>Agency\<close> (\<open>config/marketing-agency.js\<close>, \<open>config/agency-rules.js\<close>, \<open>agency-rules-v3.js\<close>,
    \<open>config/x-posting.js\<close>, \<open>server/marketing-agency-policy.mjs\<close>, \<open>server/marketing-agency-triggers.mjs\<close>): the
    projection conserves and steps add up, the account layout round-trips, triggers are safe.
  \<^item> \<open>Bonus\<close>, \<open>BonusPolicy\<close> (\<open>config/daily-bonus.js\<close>, \<open>server/daily-bonus*.mjs\<close>): rankings are the top three,
    snapshots divide every source exactly, appends leave a frozen snapshot alone.
  \<^item> \<open>Distribution\<close> (\<open>distribution-policy.js\<close>, \<open>config/protocol-fee-split.js\<close>, \<open>referral-program.js\<close>,
    \<open>coin-rewards-policy.js\<close>, \<open>server/v3-allocation-plan.mjs\<close>): settlements happen once, the upline loop is
    the inviter chain, V3 plans conserve and add up.
  \<^item> \<open>LaunchTiers\<close> (\<open>launch-burn-policy.js\<close>, \<open>home-launch-filters.js\<close>): tiers increase, built policies
    validate, idle filters hide nothing.
  \<^item> \<open>Policies\<close> (\<open>service-fees.js\<close>, \<open>listing-policy.js\<close>, \<open>buyback-policy.js\<close>, \<open>reward-policy.js\<close>,
    \<open>airdrop-policy.js\<close>, \<open>sol-claim-policy.js\<close>, \<open>x-payout-policy.js\<close>, \<open>anti-sniper-policy.js\<close>,
    \<open>creator-reward-model.js\<close>): the policies of single products.
  \<^item> \<open>RewardScheduler\<close>, \<open>DevnetMinimums\<close> (\<open>server/reward-scheduler.mjs\<close>, \<open>server/devnet-qa-minimums.mjs\<close>, parts
    of \<open>server/holder-history-indexer.mjs\<close> and \<open>server/native-reward-recipient.mjs\<close>): every operation on the
    stored state, and executions split at their transactions; the funding is conserved by every run.
  \<^item> \<open>ClaimLedger\<close> (\<open>server/claim-state.mjs\<close>, \<open>server/referral-claim-state.mjs\<close>, two updates of
    \<open>server/store.mjs\<close>): whatever a mutator writes, claims settle once and payouts stay.
  \<^item> \<open>Payouts\<close> (\<open>server/payout-coverage.mjs\<close>): the lookup with path compression returns, and roots count the
    classes of receipts joined by shared names.
  \<^item> \<open>Jackpot\<close> (\<open>server/jackpot-model.mjs\<close>, \<open>server/jackpot-round.mjs\<close>): the draw is fair and independent of the
    order of the receipts, and a round pays its share of the fees once.
  \<^item> \<open>Buyback\<close> (\<open>server/v3-buyback-*.mjs\<close>): one open order for a source, and orders spend their budgets.
  \<^item> \<open>ExecutionJournal\<close> (\<open>server/agency-execution-journal.mjs\<close>, \<open>server/community-execution-journal.mjs\<close>,
    \<open>server/allocation-audit-hash.mjs\<close>): concurrent calls send one transaction for a key.
  \<^item> \<open>AppRuntime\<close>, \<open>AppStartup\<close> (\<open>src/app\<close>): bindings are initialised once and before use.
  \<^item> \<open>RpcScheduler\<close>, \<open>RpcRetry\<close>, \<open>ReadCache\<close> (\<open>src/features/shared/rpc-read-scheduler.js\<close>, \<open>rpc-retry.js\<close>,
    \<open>server/rpc-gateway-pacing.mjs\<close>, \<open>server/read-cache.mjs\<close>): limits, priorities, draining, retries that end,
    and fresh values.

  \<^bold>\<open>Bounds and fuel.\<close>  Every loop of the code is structural recursion or has a termination proof; the
  recursive lookup of Payouts is a partial function that is proved to return.  Three exceptions carry the bound of the code: the jackpot draws at most 1000 nonces, a retry makes
  at most five calls, and the exponent of a printed number is searched in at most 400 steps, which covers
  the range of binary64 (about \<open>10\<^sup>-\<^sup>3\<^sup>2\<^sup>4\<close> to \<open>10\<^sup>3\<^sup>0\<^sup>8\<close>).

  \<^bold>\<open>Parameters.\<close>  Address decoding (\<open>PublicKey\<close>, \<open>bs58\<close>), SHA-256 and signatures, \<open>localeCompare\<close>,
  \<open>Date.parse\<close> of texts that are no ISO date, URL and JSON parsers, and the answers of the RPC and of the
  database are arguments; what a theorem needs of them is a premise of it.

  \<^bold>\<open>Conventions.\<close>  A store transaction is a function on the state, and concurrent calls are an inductive
  step relation over the sections between two \<open>await\<close>s.  \<open>Map\<close> and objects keep insertion order; \<open>===\<close> and
  \<open>Set\<close> are used on primitive values only.  Text outside Latin-1 is written in UTF-8.

  \<^bold>\<open>Not modelled.\<close>  Page markup, styles and the views and controllers that fill them: they format values
  and attach listeners.  HTTP routes and process entry points: they parse requests and call the services.
  Modules that build or decode transactions with the Solana, Pump and SPL packages, or that only issue RPC
  and SQL calls: their meaning is that of code outside the repository.  The Rust programs under
  \<open>contracts\<close>, scripts, deployment files and tests are separate programs.
\<close>

end
